(* ===== verification/Kbatch_Prelude.thy ===== *)
theory Kbatch_Prelude
  imports Complex_Main "HOL-Library.Multiset"
begin

text \<open>
  The vocabulary shared by every component: the Redis keys the Lua scripts and the
  client calls work on, and the list, set and option lemmas the component proofs use.

  A Redis key is an optional \<^emph>\<open>cell\<close>: \<open>None\<close> is an absent key, \<open>Cell v d\<close> a key that
  holds the value \<open>v\<close> and whose deadline is \<open>d\<close> (\<open>None\<close>: no TTL). Time is an integer
  (Unix seconds). A key whose deadline has been reached does not exist any more; Redis
  freezes the clock while a script runs, so a script first purges the keys it works on
  at its own time and then sees one consistent state. \<open>EXPIRE\<close> with a TTL that is not
  positive deletes the key, as Redis does.

  A sorted set is a partial map from members to scores; scores are rationals (the code
  uses doubles, see the header of the root theory). A bitmap is the set of its one-bits.
\<close>

named_theorems redis_simps \<open>reads and writes of Redis keys\<close>
named_theorems inv_intros \<open>preservation lemmas, one per operation\<close>

subsection \<open>Keys with a deadline\<close>

datatype 'v cell = Cell (cval: 'v) (deadline: "int option")

type_synonym 'v rkey = "'v cell option"
type_synonym score = rat
type_synonym zset = "string \<rightharpoonup> score"

definition cell_live :: "int \<Rightarrow> 'v cell \<Rightarrow> bool" where
  "cell_live now c = (case deadline c of None \<Rightarrow> True | Some d \<Rightarrow> now < d)"

definition purge_key :: "int \<Rightarrow> 'v rkey \<Rightarrow> 'v rkey" where
  "purge_key now k = (case k of None \<Rightarrow> None | Some c \<Rightarrow> if cell_live now c then Some c else None)"

definition expire_key :: "int \<Rightarrow> int \<Rightarrow> 'v rkey \<Rightarrow> 'v rkey" where
  "expire_key now ttl k =
     (case k of None \<Rightarrow> None
      | Some c \<Rightarrow> if ttl \<le> 0 then None else Some (Cell (cval c) (Some (now + ttl))))"

text \<open>Writing a value into a key that may exist already keeps the key's deadline.\<close>

definition put_key :: "'v \<Rightarrow> 'v rkey \<Rightarrow> 'v rkey" where
  "put_key v k = Some (Cell v (case k of None \<Rightarrow> None | Some c \<Rightarrow> deadline c))"

text \<open>\<open>SET key v EX ttl\<close> replaces value and deadline.\<close>

definition set_key_ex :: "int \<Rightarrow> int \<Rightarrow> 'v \<Rightarrow> 'v rkey" where
  "set_key_ex now ttl v = Some (Cell v (Some (now + ttl)))"

definition key_val :: "'v \<Rightarrow> 'v rkey \<Rightarrow> 'v" where
  "key_val dflt k = (case k of None \<Rightarrow> dflt | Some c \<Rightarrow> cval c)"

text \<open>\<open>survives D k\<close>: the key, if present, cannot expire before time \<open>D\<close>.\<close>

definition survives :: "int \<Rightarrow> 'v rkey \<Rightarrow> bool" where
  "survives D k = (case k of None \<Rightarrow> True
     | Some c \<Rightarrow> (case deadline c of None \<Rightarrow> True | Some d \<Rightarrow> D \<le> d))"

subsection \<open>Calls that may fail\<close>

text \<open>The fate of one remote call: it ran and its reply arrived, it ran and the reply was lost
  (the caller sees an error), or it did not run.\<close>

datatype fate = Replied | ReplyLost | NotRun

definition when_run :: "fate \<Rightarrow> ('s \<Rightarrow> 's) \<Rightarrow> 's \<Rightarrow> 's" where
  "when_run a f s = (if a = NotRun then s else f s)"

lemma when_run_simps [simp]:
  "when_run Replied f s = f s" "when_run ReplyLost f s = f s" "when_run NotRun f s = s"
  by (simp_all add: when_run_def)

subsection \<open>Bitmaps\<close>

type_synonym bitmap = "nat set"

definition bits :: "bitmap rkey \<Rightarrow> bitmap" where
  "bits k = key_val {} k"

definition getbit :: "nat \<Rightarrow> bitmap rkey \<Rightarrow> bool" where
  "getbit i k = (i \<in> bits k)"

definition setbit :: "nat \<Rightarrow> bool \<Rightarrow> bitmap rkey \<Rightarrow> bitmap rkey" where
  "setbit i v k = put_key (if v then insert i (bits k) else bits k - {i}) k"

subsection \<open>Reads after writes\<close>

lemma purge_key_None [simp, redis_simps]: "purge_key now None = None"
  by (simp add: purge_key_def)

lemma purge_key_idem [simp]: "purge_key now (purge_key now k) = purge_key now k"
  by (simp add: purge_key_def split: option.splits)

lemma purge_survives: "survives D k \<Longrightarrow> now < D \<Longrightarrow> purge_key now k = k"
  by (auto simp: survives_def purge_key_def cell_live_def split: option.splits)

lemma survives_None [simp]: "survives D None"
  by (simp add: survives_def)

lemma survives_put [simp]: "survives D (put_key v k) = survives D k"
  by (simp add: survives_def put_key_def split: option.splits)

lemma survives_expire: "D \<le> now + ttl \<Longrightarrow> survives D (expire_key now ttl k)"
  by (simp add: survives_def expire_key_def split: option.splits)

lemma survives_purge [simp]: "survives D k \<Longrightarrow> survives D (purge_key now k)"
  by (simp add: survives_def purge_key_def split: option.splits)

lemma survives_set_ex [simp]: "survives D (set_key_ex now ttl v) = (D \<le> now + ttl)"
  by (simp add: survives_def set_key_ex_def)

lemma put_key_neq_None [simp]: "put_key v k \<noteq> None"
  by (simp add: put_key_def)

lemma key_val_None [simp]: "key_val d None = d"
  by (simp add: key_val_def)

lemma key_val_put [simp]: "key_val d (put_key v k) = v"
  by (simp add: key_val_def put_key_def)

lemma key_val_expire [simp]: "0 < ttl \<Longrightarrow> key_val d (expire_key now ttl k) = key_val d k"
  by (simp add: key_val_def expire_key_def split: option.splits)

lemma expire_None_iff [simp]: "0 < ttl \<Longrightarrow> (expire_key now ttl k = None) = (k = None)"
  by (simp add: expire_key_def split: option.splits)

lemma bits_None [simp]: "bits None = {}"
  by (simp add: bits_def)

lemma bits_expire [simp]: "0 < ttl \<Longrightarrow> bits (expire_key now ttl k) = bits k"
  by (simp add: bits_def)

lemma bits_setbit [simp]:
  "bits (setbit i v k) = (if v then insert i (bits k) else bits k - {i})"
  by (simp add: setbit_def bits_def)

lemma setbit_neq_None [simp]: "setbit i v k \<noteq> None"
  by (simp add: setbit_def)

lemma survives_setbit [simp]: "survives D (setbit i v k) = survives D k"
  by (simp add: setbit_def)

subsection \<open>Cardinalities\<close>

lemma int_card_remove: "finite F \<Longrightarrow> x \<in> F \<Longrightarrow> int (card (F - {x})) = int (card F) - 1"
  using card_Suc_Diff1 [of F x] by linarith

lemma card_le_full:
  assumes "S \<subseteq> {..<n}" and "n \<le> card S"
  shows "S = {..<n}"
  using assms by (metis card_lessThan card_seteq finite_lessThan)

end
