(* ===== verification/Batch_Ledger.thy ===== *)
theory Batch_Ledger
  imports Kbatch_Prelude
begin

text \<open>
  The batch ledger of \<^verbatim>\<open>pkg/store\<close>: the Redis state of a batch (hash, three bitmaps,
  sequence allocator), the four index sorted sets, the status counters, and every Lua
  script that changes them, with the Go methods around the scripts.

  \<^item> \<open>batch_hash\<close> is the hash at \<open>batchKey id\<close>. A field the code only ever reads through
    \<open>tonumber(..) or 0\<close> is an \<open>int\<close> (absent reads as 0); a field whose absence and empty
    string are treated alike is a \<open>string\<close>; a stamp written by \<open>HSETNX\<close> is a
    \<open>string option\<close>, because \<open>HSETNX\<close> distinguishes absence from the empty string.
  \<^item> \<open>batch_keys\<close> are the five keys of one batch, \<open>ledger\<close> is the whole keyspace.
  \<^item> A script takes the Redis clock \<open>clk\<close>, purges the keys it works on and returns the
    new ledger and its reply, \<open>(code, payload)\<close> as in the Lua.
\<close>

subsection \<open>State\<close>

record batch_hash =
  h_id :: "string option"
  total_jobs :: int
  completed_count :: int
  failed_count :: int
  touched_count :: int
  status :: string
  on_success :: string
  on_complete :: string
  meta :: string
  created_at :: string
  locked_at :: string
  description :: string
  tenant_id :: string
  callback_args :: string
  finished_at :: string
  callback_dispatched_at :: "string option"
  complete_callback_dispatched_at :: "string option"
  success_callback_dispatched_at :: "string option"
  callback_dispatched_by :: string
  complete_callback_invoked_at :: "string option"
  success_callback_invoked_at :: "string option"
  reconciler_refired_at :: string

definition empty_hash :: batch_hash where
  "empty_hash = \<lparr>h_id = None, total_jobs = 0, completed_count = 0, failed_count = 0,
     touched_count = 0, status = '''', on_success = '''', on_complete = '''', meta = '''',
     created_at = '''', locked_at = '''', description = '''', tenant_id = '''',
     callback_args = '''', finished_at = '''', callback_dispatched_at = None,
     complete_callback_dispatched_at = None, success_callback_dispatched_at = None,
     callback_dispatched_by = '''', complete_callback_invoked_at = None,
     success_callback_invoked_at = None, reconciler_refired_at = ''''\<rparr>"

record batch_keys =
  hash :: "batch_hash rkey"
  touch_bm :: "bitmap rkey"
  ok_bm :: "bitmap rkey"
  fail_bm :: "bitmap rkey"
  seq_ctr :: "int rkey"

definition no_keys :: batch_keys where
  "no_keys = \<lparr>hash = None, touch_bm = None, ok_bm = None, fail_bm = None, seq_ctr = None\<rparr>"

record ledger =
  bkeys :: "string \<Rightarrow> batch_keys"
  running_ix :: zset
  done_ix :: zset
  cancelled_ix :: zset
  all_ix :: zset
  counts :: "string \<Rightarrow> int"

definition empty_ledger :: ledger where
  "empty_ledger = \<lparr>bkeys = (\<lambda>_. no_keys), running_ix = Map.empty, done_ix = Map.empty,
     cancelled_ix = Map.empty, all_ix = Map.empty, counts = (\<lambda>_. 0)\<rparr>"

definition purge_batch :: "int \<Rightarrow> batch_keys \<Rightarrow> batch_keys" where
  "purge_batch clk b = \<lparr>hash = purge_key clk (hash b), touch_bm = purge_key clk (touch_bm b),
     ok_bm = purge_key clk (ok_bm b), fail_bm = purge_key clk (fail_bm b),
     seq_ctr = purge_key clk (seq_ctr b)\<rparr>"

definition set_keys :: "string \<Rightarrow> batch_keys \<Rightarrow> ledger \<Rightarrow> ledger" where
  "set_keys i b L = L\<lparr>bkeys := (bkeys L)(i := b)\<rparr>"

text \<open>\<open>HINCRBY counts field n\<close> and the two index moves the scripts share.\<close>

definition incr_count :: "string \<Rightarrow> int \<Rightarrow> ledger \<Rightarrow> ledger" where
  "incr_count st n L = L\<lparr>counts := (counts L)(st := counts L st + n)\<rparr>"

definition zrem_running :: "string \<Rightarrow> ledger \<Rightarrow> ledger" where
  "zrem_running i L = L\<lparr>running_ix := (running_ix L)(i := None)\<rparr>"

definition zadd_done :: "score \<Rightarrow> string \<Rightarrow> ledger \<Rightarrow> ledger" where
  "zadd_done sc i L = L\<lparr>done_ix := (done_ix L)(i \<mapsto> sc)\<rparr>"

subsection \<open>Keys\<close>

definition keyPrefix :: string where "keyPrefix = ''kafka_batch:b''"
definition batchKey :: "string \<Rightarrow> string" where "batchKey i = keyPrefix @ '':'' @ i"
definition bitmapKey :: "string \<Rightarrow> string" where "bitmapKey i = keyPrefix @ '':bitmap:'' @ i"
definition okBitmapKey :: "string \<Rightarrow> string" where "okBitmapKey i = keyPrefix @ '':okbit:'' @ i"
definition failBitmapKey :: "string \<Rightarrow> string" where "failBitmapKey i = keyPrefix @ '':failbit:'' @ i"
definition seqKey :: "string \<Rightarrow> string" where "seqKey i = keyPrefix @ '':seq:'' @ i"

subsection \<open>Completion of one job: \<open>batchDoneJobLua\<close>\<close>

record done_args =
  a_seq :: int
  a_op :: string
  a_ttl :: int
  a_now :: string
  a_score :: score
  a_fttl :: "int option"

definition is_terminal :: "string \<Rightarrow> bool" where
  "is_terminal s = (s = ''success'' \<or> s = ''complete'')"

definition finished_ttl_of :: "done_args \<Rightarrow> int" where
  "finished_ttl_of a =
     (let f = (case a_fttl a of None \<Rightarrow> a_ttl a | Some f \<Rightarrow> f)
      in if f < 1 then a_ttl a else f)"

definition eff_ttl_of :: "done_args \<Rightarrow> batch_hash \<Rightarrow> int" where
  "eff_ttl_of a h = (if is_terminal (status h) then finished_ttl_of a else a_ttl a)"

text \<open>Updating fields of an existing hash keeps the key's deadline.\<close>

definition upd_hash :: "(batch_hash \<Rightarrow> batch_hash) \<Rightarrow> batch_keys \<Rightarrow> batch_keys" where
  "upd_hash f b = b\<lparr>hash := put_key (f (key_val empty_hash (hash b))) (hash b)\<rparr>"

definition the_hash :: "batch_keys \<Rightarrow> batch_hash" where
  "the_hash b = key_val empty_hash (hash b)"

text \<open>The touch bit: sets it on the first event of a sequence number. The flag is
  \<open>touched_new\<close>.\<close>

definition mark_touch :: "int \<Rightarrow> int \<Rightarrow> nat \<Rightarrow> batch_keys \<Rightarrow> batch_keys \<times> bool" where
  "mark_touch clk ettl ofs b =
     (if \<not> getbit ofs (touch_bm b)
      then (upd_hash (\<lambda>h. h\<lparr>touched_count := touched_count h + 1\<rparr>)
              (b\<lparr>touch_bm := expire_key clk ettl (setbit ofs True (touch_bm b))\<rparr>), True)
      else (b, False))"

text \<open>The success bit. A sequence number counted as failed is moved to completed.\<close>

definition mark_success :: "int \<Rightarrow> int \<Rightarrow> nat \<Rightarrow> batch_keys \<Rightarrow> batch_keys \<times> bool" where
  "mark_success clk ettl ofs b =
     (if \<not> getbit ofs (ok_bm b)
      then let b1 = upd_hash (\<lambda>h. h\<lparr>completed_count := completed_count h + 1\<rparr>)
                      (b\<lparr>ok_bm := expire_key clk ettl (setbit ofs True (ok_bm b))\<rparr>)
           in ((if getbit ofs (fail_bm b1)
                then upd_hash (\<lambda>h. h\<lparr>failed_count := failed_count h - 1\<rparr>)
                       (b1\<lparr>fail_bm := setbit ofs False (fail_bm b1)\<rparr>)
                else b1), True)
      else (b, False))"

definition mark_failed :: "int \<Rightarrow> int \<Rightarrow> nat \<Rightarrow> batch_keys \<Rightarrow> batch_keys \<times> bool" where
  "mark_failed clk ettl ofs b =
     (if \<not> getbit ofs (fail_bm b) \<and> \<not> getbit ofs (ok_bm b)
      then (upd_hash (\<lambda>h. h\<lparr>failed_count := failed_count h + 1\<rparr>)
              (b\<lparr>fail_bm := expire_key clk ettl (setbit ofs True (fail_bm b))\<rparr>), True)
      else (b, False))"

text \<open>All bitmap and counter writes of one event; \<open>None\<close> is the script's early
  \<open>{0, 'duplicate'}\<close>, which is reached before anything was written. The flag says
  whether one of \<open>touched_new\<close>, \<open>success_new\<close>, \<open>failed_new\<close> is set.\<close>

definition mark_event ::
  "int \<Rightarrow> int \<Rightarrow> nat \<Rightarrow> string \<Rightarrow> batch_keys \<Rightarrow> (batch_keys \<times> bool) option" where
  "mark_event clk ettl ofs opn b =
     (let (b1, touched_new) = mark_touch clk ettl ofs b in
      if \<not> touched_new \<and> opn = ''executed'' then None
      else if opn = ''success'' then
        (let (b2, success_new) = mark_success clk ettl ofs b1
         in if \<not> success_new \<and> \<not> touched_new then None else Some (b2, touched_new \<or> success_new))
      else if opn = ''failed'' then
        (let (b2, failed_new) = mark_failed clk ettl ofs b1
         in if \<not> failed_new \<and> \<not> touched_new then None else Some (b2, touched_new \<or> failed_new))
      else Some (b1, touched_new))"

text \<open>\<open>HSETNX\<close> on the two claim stamps. The flag is \<open>fire_complete\<close> / \<open>fire_success\<close>.\<close>

definition claim_complete :: "string \<Rightarrow> batch_keys \<Rightarrow> batch_keys \<times> bool" where
  "claim_complete now b =
     (if complete_callback_dispatched_at (the_hash b) = None
      then (upd_hash (\<lambda>h. h\<lparr>complete_callback_dispatched_at := Some now,
              callback_dispatched_at :=
                (case callback_dispatched_at h of None \<Rightarrow> Some now | Some v \<Rightarrow> Some v)\<rparr>) b, True)
      else (b, False))"

definition claim_success :: "string \<Rightarrow> batch_keys \<Rightarrow> batch_keys \<times> bool" where
  "claim_success now b =
     (if success_callback_dispatched_at (the_hash b) = None
      then (upd_hash (\<lambda>h. h\<lparr>success_callback_dispatched_at := Some now\<rparr>) b, True)
      else (b, False))"

definition terminal_of :: "batch_hash \<Rightarrow> string option" where
  "terminal_of h =
     (if total_jobs h \<le> completed_count h then Some ''success''
      else if total_jobs h \<le> completed_count h + failed_count h then Some ''complete''
      else None)"

text \<open>Moving a batch to its terminal status: hash, indexes, counters and (completion
  script only) the shorter retention.\<close>

definition index_finished :: "score \<Rightarrow> string \<Rightarrow> batch_hash \<Rightarrow> ledger \<Rightarrow> ledger" where
  "index_finished sc term h L =
     (let L1 = (case h_id h of None \<Rightarrow> L | Some bid \<Rightarrow> zadd_done sc bid (zrem_running bid L))
      in incr_count term 1 (incr_count ''running'' (-1) L1))"

definition retain_finished :: "int \<Rightarrow> int \<Rightarrow> batch_keys \<Rightarrow> batch_keys" where
  "retain_finished clk fttl b =
     b\<lparr>hash := expire_key clk fttl (hash b), touch_bm := expire_key clk fttl (touch_bm b),
       ok_bm := expire_key clk fttl (ok_bm b), fail_bm := expire_key clk fttl (fail_bm b),
       seq_ctr := expire_key clk fttl (seq_ctr b)\<rparr>"

definition fire_reply :: "bool \<Rightarrow> bool \<Rightarrow> bool \<Rightarrow> nat \<times> string" where
  "fire_reply fire_success fire_complete terminal =
     (if fire_success \<and> fire_complete then (1, ''success'')
      else if fire_success then (1, ''success_only'')
      else if fire_complete \<and> terminal then (1, ''complete'')
      else if fire_complete then (3, ''complete'')
      else (2, ''continue''))"

definition settle :: "int \<Rightarrow> done_args \<Rightarrow> string \<Rightarrow> batch_keys \<Rightarrow> ledger \<Rightarrow> ledger \<times> (nat \<times> string)" where
  "settle clk a i b L =
     (let h = the_hash b in
      if locked_at h = '''' \<or> total_jobs h < 1 then (set_keys i b L, (2, ''continue''))
      else case terminal_of h of
        Some term \<Rightarrow>
          (let (b1, L1) =
             (if status h = ''running''
              then (retain_finished clk (finished_ttl_of a)
                      (upd_hash (\<lambda>h. h\<lparr>status := term, finished_at := a_now a\<rparr>) b),
                    index_finished (a_score a) term h L)
              else (b, L));
             (b2, fc) = claim_complete (a_now a) b1;
             (b3, fs) = (if term = ''success'' then claim_success (a_now a) b2 else (b2, False))
           in (set_keys i b3 L1, fire_reply fs fc True))
      | None \<Rightarrow>
          (if total_jobs h \<le> touched_count h
           then let (b1, fc) = claim_complete (a_now a) b
                in (set_keys i b1 L, fire_reply False fc False)
           else (set_keys i b L, (2, ''continue''))))"

definition batchDoneJob :: "int \<Rightarrow> done_args \<Rightarrow> string \<Rightarrow> ledger \<Rightarrow> ledger \<times> (nat \<times> string)" where
  "batchDoneJob clk a i L0 =
     (let b = purge_batch clk (bkeys L0 i); L = set_keys i b L0; h = the_hash b in
      if a_seq a < 1 then (L, (0, ''invalid''))
      else if a_op a \<noteq> ''success'' \<and> a_op a \<noteq> ''failed'' \<and> a_op a \<noteq> ''executed''
        then (L, (0, ''invalid''))
      else if hash b = None then (L, (0, ''not_found''))
      else if status h = ''cancelled'' then (L, (0, ''duplicate''))
      else if is_terminal (status h) \<and> touch_bm b = None then (L, (0, ''duplicate''))
      else case mark_event clk (eff_ttl_of a h) (nat (a_seq a - 1)) (a_op a) b of
        None \<Rightarrow> (L, (0, ''duplicate''))
      | Some (b1, fresh) \<Rightarrow>
          if is_terminal (status h) \<and> \<not> fresh then (set_keys i b1 L, (0, ''duplicate''))
          else settle clk a i (b1\<lparr>hash := expire_key clk (eff_ttl_of a h) (hash b1)\<rparr>) L)"

subsection \<open>Callback claims\<close>

text \<open>\<open>claimCallbackLua\<close>: the kind selects the stamp, the winner also records the node and
  the shared stamp and leaves the done index.\<close>

definition setnx :: "string \<Rightarrow> string option \<Rightarrow> string option" where
  "setnx v f = (case f of None \<Rightarrow> Some v | Some w \<Rightarrow> Some w)"

definition claim_field :: "string \<Rightarrow> batch_hash \<Rightarrow> string option" where
  "claim_field kind h =
     (if kind = ''complete'' then complete_callback_dispatched_at h
      else if kind = ''success'' then success_callback_dispatched_at h
      else callback_dispatched_at h)"

definition set_claim_field :: "string \<Rightarrow> string \<Rightarrow> batch_hash \<Rightarrow> batch_hash" where
  "set_claim_field kind v h =
     (if kind = ''complete'' then h\<lparr>complete_callback_dispatched_at := Some v\<rparr>
      else if kind = ''success'' then h\<lparr>success_callback_dispatched_at := Some v\<rparr>
      else h\<lparr>callback_dispatched_at := Some v\<rparr>)"

definition claimCallback ::
  "int \<Rightarrow> string \<Rightarrow> string \<Rightarrow> string \<Rightarrow> string \<Rightarrow> ledger \<Rightarrow> ledger \<times> nat" where
  "claimCallback clk now node i kind L0 =
     (let b = purge_batch clk (bkeys L0 i); L = set_keys i b L0; h = the_hash b in
      if hash b = None then (L, 0)
      else if claim_field kind h \<noteq> None then (L, 0)
      else let b1 = upd_hash (\<lambda>h.
               (let h1 = set_claim_field kind now h;
                    h2 = (if node \<noteq> '''' then h1\<lparr>callback_dispatched_by := node\<rparr> else h1)
                in h2\<lparr>callback_dispatched_at := setnx now (callback_dispatched_at h2)\<rparr>)) b
           in ((set_keys i b1 L)\<lparr>done_ix := (done_ix L)(i := None)\<rparr>, 1))"

text \<open>\<open>invokeCallbackLua\<close> and \<open>MarkCallbackInvoked\<close>: the first caller per kind wins; a batch
  whose hash is gone always wins.\<close>

definition markCallbackInvoked :: "int \<Rightarrow> string \<Rightarrow> string \<Rightarrow> string \<Rightarrow> ledger \<Rightarrow> ledger \<times> bool" where
  "markCallbackInvoked clk now i kind L0 =
     (if i = '''' then (L0, True)
      else let b = purge_batch clk (bkeys L0 i); L = set_keys i b L0; h = the_hash b in
        if hash b = None then (L, True)
        else if kind = ''success'' then
          (if success_callback_invoked_at h = None
           then (set_keys i (upd_hash (\<lambda>h. h\<lparr>success_callback_invoked_at := Some now\<rparr>) b) L, True)
           else (L, False))
        else
          (if complete_callback_invoked_at h = None
           then (set_keys i (upd_hash (\<lambda>h. h\<lparr>complete_callback_invoked_at := Some now\<rparr>) b) L, True)
           else (L, False)))"

definition recordCallbackRunner :: "int \<Rightarrow> string \<Rightarrow> string \<Rightarrow> ledger \<Rightarrow> ledger" where
  "recordCallbackRunner clk i node L0 =
     (if i = '''' \<or> node = '''' then L0
      else let b = purge_batch clk (bkeys L0 i); L = set_keys i b L0 in
        if hash b = None then L
        else set_keys i (upd_hash (\<lambda>h. h\<lparr>callback_dispatched_by := node\<rparr>) b) L)"

subsection \<open>Creation, growth and sealing\<close>

record create_params =
  p_id :: string
  p_total :: int
  p_on_success :: string
  p_on_complete :: string
  p_meta :: string
  p_callback_args :: string
  p_description :: string
  p_tenant :: string
  p_sealed :: bool

text \<open>\<open>createBatchLua\<close> (the hash) followed by the index pipeline of \<open>CreateBatch\<close>. The two
  round trips are separate steps: \<open>createBatchScript\<close> and \<open>createBatchIndex\<close>.\<close>

definition createBatchScript :: "int \<Rightarrow> int \<Rightarrow> string \<Rightarrow> create_params \<Rightarrow> ledger \<Rightarrow> ledger \<times> nat" where
  "createBatchScript clk ttl now p L0 =
     (let b = purge_batch clk (bkeys L0 (p_id p)); L = set_keys (p_id p) b L0 in
      if h_id (the_hash b) \<noteq> None then (L, 0)
      else let b1 = upd_hash (\<lambda>h. h\<lparr>h_id := Some (p_id p), total_jobs := p_total p,
                 completed_count := 0, failed_count := 0, touched_count := 0,
                 status := ''running'', on_success := p_on_success p,
                 on_complete := p_on_complete p, meta := p_meta p, created_at := now,
                 locked_at := (if p_sealed p then now else ''''),
                 description := p_description p, tenant_id := p_tenant p,
                 callback_args := p_callback_args p\<rparr>) b
           in (set_keys (p_id p) (b1\<lparr>hash := expire_key clk ttl (hash b1)\<rparr>) L, 1))"

definition createBatchIndex :: "score \<Rightarrow> string \<Rightarrow> ledger \<Rightarrow> ledger" where
  "createBatchIndex sc i L =
     incr_count ''running'' 1
       (L\<lparr>running_ix := (running_ix L)(i \<mapsto> sc), all_ix := (all_ix L)(i \<mapsto> sc)\<rparr>)"

definition createBatch ::
  "int \<Rightarrow> int \<Rightarrow> string \<Rightarrow> score \<Rightarrow> create_params \<Rightarrow> ledger \<Rightarrow> ledger \<times> bool" where
  "createBatch clk ttl now sc p L =
     (let (L1, res) = createBatchScript clk ttl now p L
      in if res \<noteq> 1 then (L1, False) else (createBatchIndex sc (p_id p) L1, True))"

text \<open>\<open>addJobsLua\<close>, decoded as \<open>AddJobs\<close> does: status and the reserved range.\<close>

datatype add_result = AddNotFound | AddCancelled | AddClosed | AddOk "(int \<times> int) option"

definition addJobs :: "int \<Rightarrow> int \<Rightarrow> string \<Rightarrow> int \<Rightarrow> ledger \<Rightarrow> ledger \<times> add_result" where
  "addJobs clk ttl i n L0 =
     (let b = purge_batch clk (bkeys L0 i); L = set_keys i b L0; h = the_hash b in
      if hash b = None then (L, AddNotFound)
      else if status h = ''cancelled'' then (L, AddCancelled)
      else if is_terminal (status h) then (L, AddClosed)
      else if callback_dispatched_at h \<noteq> None \<and> callback_dispatched_at h \<noteq> Some ''''
        then (L, AddClosed)
      else let b1 = upd_hash (\<lambda>h. h\<lparr>total_jobs := total_jobs h + n\<rparr>) b;
               b2 = b1\<lparr>hash := expire_key clk ttl (hash b1)\<rparr>
           in if n > 0
              then let e = key_val 0 (seq_ctr b2) + n
                   in (set_keys i (b2\<lparr>seq_ctr := expire_key clk ttl (put_key e (seq_ctr b2))\<rparr>) L,
                       AddOk (Some (e - n + 1, e)))
              else (set_keys i b2 L, AddOk None))"

text \<open>\<open>sealBatchLua\<close>.\<close>

definition seal_bitmaps :: "int \<Rightarrow> int \<Rightarrow> batch_keys \<Rightarrow> batch_keys" where
  "seal_bitmaps clk ttl b =
     (let t = nat (total_jobs (the_hash b)) in
      if total_jobs (the_hash b) > 0
      then b\<lparr>touch_bm := expire_key clk ttl (setbit t False (touch_bm b)),
             ok_bm := expire_key clk ttl (setbit t False (ok_bm b)),
             fail_bm := expire_key clk ttl (setbit t False (fail_bm b))\<rparr>
      else b)"

definition seal_terminal_of :: "batch_hash \<Rightarrow> string option" where
  "seal_terminal_of h = (if total_jobs h = 0 then Some ''success'' else terminal_of h)"

definition seal_reply :: "bool \<Rightarrow> bool \<Rightarrow> nat \<times> string" where
  "seal_reply fs fc =
     (if fs \<and> fc then (1, ''success'') else if fs then (1, ''success_only'')
      else if fc then (1, ''complete'') else (2, ''sealed''))"

text \<open>The lock stamp, the deadlines and the bitmap sizes; then the verdict on a running batch.\<close>

definition seal_prepare :: "int \<Rightarrow> int \<Rightarrow> string \<Rightarrow> batch_keys \<Rightarrow> batch_keys" where
  "seal_prepare clk ttl now b =
     (let b1 = (if locked_at (the_hash b) = ''''
                then upd_hash (\<lambda>h. h\<lparr>locked_at := now\<rparr>) b else b)
      in seal_bitmaps clk ttl (b1\<lparr>hash := expire_key clk ttl (hash b1)\<rparr>))"

definition seal_settle ::
  "string \<Rightarrow> string \<Rightarrow> score \<Rightarrow> string \<Rightarrow> batch_keys \<Rightarrow> ledger \<Rightarrow> ledger \<times> (nat \<times> string)" where
  "seal_settle st now sc i b2 L =
     (let h = the_hash b2 in
      if st \<noteq> ''running'' then (set_keys i b2 L, (2, ''sealed''))
      else case seal_terminal_of h of
        Some term \<Rightarrow>
          (let b3 = upd_hash (\<lambda>h. h\<lparr>status := term, finished_at := now\<rparr>) b2;
               L1 = index_finished sc term h L;
               (b4, fc) = claim_complete now b3;
               (b5, fs) = (if term = ''success'' then claim_success now b4 else (b4, False))
           in (set_keys i b5 L1, seal_reply fs fc))
      | None \<Rightarrow>
          (if total_jobs h \<le> touched_count h \<and> total_jobs h > 0
           then let (b3, fc) = claim_complete now b2
                in (set_keys i b3 L, if fc then (3, ''complete'') else (2, ''sealed''))
           else (set_keys i b2 L, (2, ''sealed''))))"

definition sealBatch ::
  "int \<Rightarrow> int \<Rightarrow> string \<Rightarrow> score \<Rightarrow> string \<Rightarrow> ledger \<Rightarrow> ledger \<times> (nat \<times> string)" where
  "sealBatch clk ttl now sc i L0 =
     (let b = purge_batch clk (bkeys L0 i); L = set_keys i b L0 in
      if hash b = None then (L, (0, ''not_found''))
      else seal_settle (status (the_hash b)) now sc i (seal_prepare clk ttl now b) L)"
subsection \<open>Status changes outside the completion path\<close>

text \<open>\<open>markFinishedIfRunningLua\<close>, \<open>updateStatusLua\<close>, \<open>MarkReconcilerRefired\<close>.\<close>

definition markFinishedIfRunning ::
  "int \<Rightarrow> string \<Rightarrow> score \<Rightarrow> string \<Rightarrow> string \<Rightarrow> ledger \<Rightarrow> ledger \<times> bool" where
  "markFinishedIfRunning clk now sc i outcome L0 =
     (let b = purge_batch clk (bkeys L0 i); L = set_keys i b L0 in
      if hash b = None then (L, False)
      else if status (the_hash b) \<noteq> ''running'' then (L, False)
      else (incr_count outcome 1 (incr_count ''running'' (-1)
              (zadd_done sc i (zrem_running i
                (set_keys i (upd_hash (\<lambda>h. h\<lparr>status := outcome, finished_at := now\<rparr>) b) L)))), True))"

definition ends_status :: "string \<Rightarrow> bool" where
  "ends_status s = (s = ''success'' \<or> s = ''complete'' \<or> s = ''cancelled'')"

definition updateStatus :: "int \<Rightarrow> score \<Rightarrow> string \<Rightarrow> string \<Rightarrow> ledger \<Rightarrow> ledger \<times> nat" where
  "updateStatus clk sc i new L0 =
     (let b = purge_batch clk (bkeys L0 i); L = set_keys i b L0; old = status (the_hash b) in
      if hash b = None then (L, 0)
      else if old = new then (L, 2)
      else if ends_status old then (L, 3)
      else let L1 = set_keys i (upd_hash (\<lambda>h. h\<lparr>status := new\<rparr>) b) L;
               L2 = (if ends_status new then zrem_running i L1 else L1);
               L3 = (if old \<noteq> '''' then incr_count old (-1) L2 else L2);
               L4 = incr_count new 1 L3
           in (if new = ''cancelled''
               then L4\<lparr>cancelled_ix := (cancelled_ix L4)(i \<mapsto> sc)\<rparr> else L4, 1))"

datatype ledger_error = BatchNotFound string

definition updateBatchStatus ::
  "int \<Rightarrow> score \<Rightarrow> string \<Rightarrow> string \<Rightarrow> ledger \<Rightarrow> ledger \<times> (ledger_error + unit)" where
  "updateBatchStatus clk sc i st L =
     (let (L1, res) = updateStatus clk sc i st L
      in (L1, if res = 0 then Inl (BatchNotFound i) else Inr ()))"

definition cancelBatch :: "int \<Rightarrow> score \<Rightarrow> string \<Rightarrow> ledger \<Rightarrow> ledger \<times> (ledger_error + unit)" where
  "cancelBatch clk sc i L = updateBatchStatus clk sc i ''cancelled'' L"

text \<open>A plain \<open>HSET\<close>: it creates the hash when the batch has expired.\<close>

definition markReconcilerRefired :: "int \<Rightarrow> string \<Rightarrow> string \<Rightarrow> ledger \<Rightarrow> ledger" where
  "markReconcilerRefired clk now i L0 =
     (let b = purge_batch clk (bkeys L0 i)
      in set_keys i (upd_hash (\<lambda>h. h\<lparr>reconciler_refired_at := now\<rparr>) b) L0)"

end
