(* ===== verification/Ledger_Invariant.thy ===== *)
theory Ledger_Invariant
  imports Batch_Ledger
begin

text \<open>
  The ledger's invariant and what one completion event does to it.

  \<^item> \<open>abs_seqs\<close> reads a batch as three sets of sequence offsets (touched, succeeded,
    terminally failed); \<open>spec_event\<close> is the abstract effect of one event on them.
  \<^item> \<open>counters_ok\<close>: the three counters of the hash are the cardinalities of the three
    bitmaps, and success and failure are disjoint parts of what was touched.
  \<^item> \<open>progress_ok\<close>: a sealed, non-empty batch that is still running has an unfinished job.
  \<^item> \<open>keys_survive D\<close>: no key of the batch expires before \<open>D\<close>, so that a script that runs
    before \<open>D\<close> finds every key the earlier scripts wrote.
\<close>

subsection \<open>Definitions\<close>

type_synonym seqs = "nat set \<times> nat set \<times> nat set"

definition abs_seqs :: "batch_keys \<Rightarrow> seqs" where
  "abs_seqs b = (bits (touch_bm b), bits (ok_bm b), bits (fail_bm b))"

fun spec_event :: "nat \<Rightarrow> string \<Rightarrow> seqs \<Rightarrow> seqs" where
  "spec_event ofs opn (T, S, F) =
     (insert ofs T,
      if opn = ''success'' then insert ofs S else S,
      if opn = ''success'' then F - {ofs}
      else if opn = ''failed'' \<and> ofs \<notin> S then insert ofs F else F)"

fun seqs_ok :: "seqs \<Rightarrow> bool" where
  "seqs_ok (T, S, F) = (finite T \<and> S \<subseteq> T \<and> F \<subseteq> T \<and> S \<inter> F = {})"

definition counters_ok :: "batch_keys \<Rightarrow> bool" where
  "counters_ok b =
     (seqs_ok (abs_seqs b) \<and>
      touched_count (the_hash b) = int (card (bits (touch_bm b))) \<and>
      completed_count (the_hash b) = int (card (bits (ok_bm b))) \<and>
      failed_count (the_hash b) = int (card (bits (fail_bm b))))"

definition progress_ok :: "batch_hash \<Rightarrow> bool" where
  "progress_ok h =
     (status h = ''running'' \<and> locked_at h \<noteq> '''' \<and> 1 \<le> total_jobs h
        \<longrightarrow> completed_count h + failed_count h < total_jobs h)"

definition batch_inv :: "batch_keys \<Rightarrow> bool" where
  "batch_inv b =
     (if hash b = None then touch_bm b = None \<and> ok_bm b = None \<and> fail_bm b = None
      else counters_ok b \<and> progress_ok (the_hash b))"

definition keys_survive :: "int \<Rightarrow> batch_keys \<Rightarrow> bool" where
  "keys_survive D b =
     (survives D (hash b) \<and> survives D (touch_bm b) \<and> survives D (ok_bm b)
      \<and> survives D (fail_bm b) \<and> survives D (seq_ctr b))"

subsection \<open>Reads after writes\<close>

declare not_None_eq [simp del]

lemma hash_upd_id [simp]:
  "touched_count h = n \<Longrightarrow> h\<lparr>touched_count := n\<rparr> = h"
  "completed_count h = n \<Longrightarrow> h\<lparr>completed_count := n\<rparr> = h"
  "failed_count h = n \<Longrightarrow> h\<lparr>failed_count := n\<rparr> = h"
  by (auto intro: batch_hash.equality)

lemma the_hash_upd [simp]: "the_hash (upd_hash f b) = f (the_hash b)"
  by (simp add: the_hash_def upd_hash_def)

lemma upd_hash_sel [simp]:
  "touch_bm (upd_hash f b) = touch_bm b" "ok_bm (upd_hash f b) = ok_bm b"
  "fail_bm (upd_hash f b) = fail_bm b" "seq_ctr (upd_hash f b) = seq_ctr b"
  "hash (upd_hash f b) \<noteq> None"
  by (simp_all add: upd_hash_def)

lemma the_hash_bm [simp]:
  "the_hash (b\<lparr>touch_bm := x\<rparr>) = the_hash b" "the_hash (b\<lparr>ok_bm := x\<rparr>) = the_hash b"
  "the_hash (b\<lparr>fail_bm := x\<rparr>) = the_hash b" "the_hash (b\<lparr>seq_ctr := y\<rparr>) = the_hash b"
  by (simp_all add: the_hash_def)

lemma the_hash_expire [simp]:
  "0 < ttl \<Longrightarrow> the_hash (b\<lparr>hash := expire_key clk ttl (hash b)\<rparr>) = the_hash b"
  by (simp add: the_hash_def)

lemma purge_batch_survive: "keys_survive D b \<Longrightarrow> clk < D \<Longrightarrow> purge_batch clk b = b"
  by (auto simp: keys_survive_def purge_batch_def purge_survives intro: batch_keys.equality)

lemma set_keys_sel [simp]:
  "bkeys (set_keys i b L) = (bkeys L)(i := b)" "running_ix (set_keys i b L) = running_ix L"
  "done_ix (set_keys i b L) = done_ix L" "cancelled_ix (set_keys i b L) = cancelled_ix L"
  "all_ix (set_keys i b L) = all_ix L" "counts (set_keys i b L) = counts L"
  by (simp_all add: set_keys_def)

lemma index_sel [simp]:
  "bkeys (incr_count st n L) = bkeys L" "bkeys (zrem_running i L) = bkeys L"
  "bkeys (zadd_done sc i L) = bkeys L" "bkeys (index_finished sc t h L) = bkeys L"
  "counts (incr_count st n L) = (counts L)(st := counts L st + n)"
  "counts (zrem_running i L) = counts L" "counts (zadd_done sc i L) = counts L"
  by (simp_all add: incr_count_def zrem_running_def zadd_done_def index_finished_def Let_def
        split: option.splits)

lemma set_keys_set_keys [simp]: "set_keys i b (set_keys i b' L) = set_keys i b L"
  by (simp add: set_keys_def)

lemma ttl_pos:
  assumes "0 < a_ttl a"
  shows "0 < finished_ttl_of a" "0 < eff_ttl_of a h"
  using assms by (auto simp: finished_ttl_of_def eff_ttl_of_def Let_def split: option.splits)

subsection \<open>The abstract event\<close>

lemma spec_event_ok: "seqs_ok q \<Longrightarrow> seqs_ok (spec_event ofs opn q)"
  by (cases q) auto

lemma spec_event_idem: "seqs_ok q \<Longrightarrow> spec_event ofs opn (spec_event ofs opn q) = spec_event ofs opn q"
  by (cases q) auto

lemma spec_event_commute:
  "seqs_ok q \<Longrightarrow> spec_event o1 p1 (spec_event o2 p2 q) = spec_event o2 p2 (spec_event o1 p1 q)"
  by (cases q) auto

subsection \<open>One event on the bitmaps and counters\<close>

definition card_counters :: "seqs \<Rightarrow> batch_hash \<Rightarrow> batch_hash" where
  "card_counters q h = (case q of (T, S, F) \<Rightarrow>
     h\<lparr>touched_count := int (card T), completed_count := int (card S), failed_count := int (card F)\<rparr>)"

lemma mark_event_refines:
  assumes inv: "counters_ok b" and e: "0 < e" and opn: "opn \<in> {''success'', ''failed'', ''executed''}"
  shows "(mark_event clk e ofs opn b = None \<and> spec_event ofs opn (abs_seqs b) = abs_seqs b) \<or>
    (\<exists>b'. mark_event clk e ofs opn b = Some (b', True) \<and>
       abs_seqs b' = spec_event ofs opn (abs_seqs b) \<and>
       spec_event ofs opn (abs_seqs b) \<noteq> abs_seqs b \<and>
       hash b' \<noteq> None \<and> seq_ctr b' = seq_ctr b \<and>
       the_hash b' = card_counters (spec_event ofs opn (abs_seqs b)) (the_hash b))"
proof -
  define T S F where "T = bits (touch_bm b)" and "S = bits (ok_bm b)" and "F = bits (fail_bm b)"
  have ok: "finite T" "finite S" "finite F" "S \<subseteq> T" "F \<subseteq> T" "S \<inter> F = {}"
    and cnt: "touched_count (the_hash b) = int (card T)" "completed_count (the_hash b) = int (card S)"
      "failed_count (the_hash b) = int (card F)"
    using inv by (auto simp: counters_ok_def abs_seqs_def T_def S_def F_def intro: finite_subset)
  have card: "ofs \<in> F \<Longrightarrow> int (card (F - {ofs})) = int (card F) - 1"
    using ok(3) by (rule int_card_remove)
  have fold: "bits (touch_bm b) = T" "bits (ok_bm b) = S" "bits (fail_bm b) = F"
    by (simp_all add: T_def S_def F_def)
  have ins: "insert ofs X \<noteq> X" if "ofs \<notin> X" for X using that by blast
  have mem: "ofs \<in> S \<Longrightarrow> ofs \<in> T" "ofs \<in> F \<Longrightarrow> ofs \<in> T" "ofs \<in> S \<Longrightarrow> ofs \<notin> F"
    using ok by auto
  note defs = mark_event_def mark_touch_def mark_success_def mark_failed_def Let_def
    abs_seqs_def getbit_def fold card_counters_def cnt e
  consider (success) "opn = ''success''" | (failed) "opn = ''failed''" | (executed) "opn = ''executed''"
    using opn by blast
  then show ?thesis
  proof cases
    case success
    show ?thesis
      by (cases "ofs \<in> S"; cases "ofs \<in> T"; cases "ofs \<in> F")
        (simp_all add: success defs ins mem ok card insert_absorb del: card_Diff_singleton card_Diff_insert)
  next
    case failed
    show ?thesis
      by (cases "ofs \<in> S"; cases "ofs \<in> T"; cases "ofs \<in> F")
        (simp_all add: failed defs ins mem ok card insert_absorb del: card_Diff_singleton card_Diff_insert)
  next
    case executed
    show ?thesis
      by (cases "ofs \<in> S"; cases "ofs \<in> T"; cases "ofs \<in> F")
        (simp_all add: executed defs ins mem ok card insert_absorb del: card_Diff_singleton card_Diff_insert)
  qed
qed

lemma mark_event_survive:
  assumes "mark_event clk e ofs opn b = Some (b', fr)" "keys_survive D b" "D \<le> clk + e"
  shows "keys_survive D b'"
  using assms
  by (auto simp: mark_event_def mark_touch_def mark_success_def mark_failed_def Let_def
        keys_survive_def upd_hash_def survives_expire split: if_splits)

lemma counters_ok_event:
  assumes "counters_ok b" "abs_seqs b' = spec_event ofs opn (abs_seqs b)"
    "the_hash b' = card_counters (spec_event ofs opn (abs_seqs b)) (the_hash b)"
  shows "counters_ok b'"
  using assms spec_event_ok [of "abs_seqs b" ofs opn]
  by (auto simp: counters_ok_def abs_seqs_def card_counters_def split: if_splits)

subsection \<open>Claims, status changes and retention leave the counters alone\<close>

definition same_core :: "batch_keys \<Rightarrow> batch_keys \<Rightarrow> bool" where
  "same_core b b' =
     (abs_seqs b' = abs_seqs b \<and> (hash b' = None) = (hash b = None) \<and>
      total_jobs (the_hash b') = total_jobs (the_hash b) \<and>
      touched_count (the_hash b') = touched_count (the_hash b) \<and>
      completed_count (the_hash b') = completed_count (the_hash b) \<and>
      failed_count (the_hash b') = failed_count (the_hash b) \<and>
      locked_at (the_hash b') = locked_at (the_hash b) \<and>
      key_val 0 (seq_ctr b') = key_val 0 (seq_ctr b))"

lemma same_core_refl [simp]: "same_core b b"
  by (simp add: same_core_def)

lemma same_core_trans: "same_core a b \<Longrightarrow> same_core b c \<Longrightarrow> same_core a c"
  by (simp add: same_core_def)

lemma counters_ok_cong: "same_core b b' \<Longrightarrow> counters_ok b' = counters_ok b"
  by (auto simp: same_core_def counters_ok_def abs_seqs_def)

lemma same_core_upd:
  assumes "\<And>h. total_jobs (f h) = total_jobs h" "\<And>h. touched_count (f h) = touched_count h"
    "\<And>h. completed_count (f h) = completed_count h" "\<And>h. failed_count (f h) = failed_count h"
    "\<And>h. locked_at (f h) = locked_at h" "hash b \<noteq> None"
  shows "same_core b (upd_hash f b)"
  using assms by (simp add: same_core_def abs_seqs_def)

lemma claim_complete_core: "hash b \<noteq> None \<Longrightarrow> same_core b (fst (claim_complete now b))"
  by (simp add: claim_complete_def same_core_upd)

lemma claim_success_core: "hash b \<noteq> None \<Longrightarrow> same_core b (fst (claim_success now b))"
  by (simp add: claim_success_def same_core_upd)

lemma claim_status [simp]:
  "status (the_hash (fst (claim_complete now b))) = status (the_hash b)"
  "status (the_hash (fst (claim_success now b))) = status (the_hash b)"
  by (simp_all add: claim_complete_def claim_success_def)

lemma claim_hid [simp]:
  "h_id (the_hash (fst (claim_complete now b))) = h_id (the_hash b)"
  "h_id (the_hash (fst (claim_success now b))) = h_id (the_hash b)"
  by (simp_all add: claim_complete_def claim_success_def)

lemma claim_hash [simp]:
  "(hash (fst (claim_complete now b)) = None) = (hash b = None \<and> \<not> snd (claim_complete now b))"
  "(hash (fst (claim_success now b)) = None) = (hash b = None \<and> \<not> snd (claim_success now b))"
  by (simp_all add: claim_complete_def claim_success_def)

lemma retain_core: "0 < f \<Longrightarrow> same_core b (retain_finished clk f b)"
  by (simp add: retain_finished_def same_core_def abs_seqs_def the_hash_def)

lemma the_hash_retain [simp]: "0 < f \<Longrightarrow> the_hash (retain_finished clk f b) = the_hash b"
  by (simp add: retain_finished_def the_hash_def)

lemma survive_simps [simp]:
  "keys_survive D (upd_hash f b) = keys_survive D b"
  "keys_survive D b \<Longrightarrow> keys_survive D (fst (claim_complete now b))"
  "keys_survive D b \<Longrightarrow> keys_survive D (fst (claim_success now b))"
  "D \<le> clk + n \<Longrightarrow> keys_survive D (retain_finished clk n b)"
  by (simp_all add: keys_survive_def upd_hash_def claim_complete_def claim_success_def
        retain_finished_def survives_expire)

subsection \<open>The end of the completion script\<close>

lemma settle_hid:
  assumes "0 < a_ttl a"
  shows "h_id (the_hash (bkeys (fst (settle clk a i b L)) i)) = h_id (the_hash b)"
  using ttl_pos(1) [OF assms]
  by (simp add: settle_def Let_def split_beta split: option.splits)

lemma settle_batch:
  assumes "hash b \<noteq> None" "0 < a_ttl a"
  shows "same_core b (bkeys (fst (settle clk a i b L)) i)"
    and "progress_ok (the_hash (bkeys (fst (settle clk a i b L)) i))"
    and "j \<noteq> i \<Longrightarrow> bkeys (fst (settle clk a i b L)) j = bkeys L j"
    and "keys_survive D b \<Longrightarrow> D \<le> clk + finished_ttl_of a
           \<Longrightarrow> keys_survive D (bkeys (fst (settle clk a i b L)) i)"
proof -
  define b1 where "b1 t = (if status (the_hash b) = ''running''
    then retain_finished clk (finished_ttl_of a)
      (upd_hash (\<lambda>h. h\<lparr>status := t, finished_at := a_now a\<rparr>) b) else b)" for t
  note f = ttl_pos(1) [OF assms(2)]
  have b1: "same_core b (b1 t)" "hash (b1 t) \<noteq> None" for t
  proof -
    have "same_core b (upd_hash (\<lambda>h. h\<lparr>status := t, finished_at := a_now a\<rparr>) b)"
      using assms(1) by (simp add: same_core_upd)
    then show "same_core b (b1 t)"
      unfolding b1_def using retain_core [OF f] same_core_trans by auto
    with assms(1) show "hash (b1 t) \<noteq> None" by (simp add: same_core_def)
  qed
  have b2: "same_core b (fst (claim_complete n (b1 t)))"
    "same_core b (fst (claim_success m (fst (claim_complete n (b1 t)))))" for n m t
  proof -
    have cc: "same_core b (fst (claim_complete n (b1 t)))" for n t
      using same_core_trans [OF b1(1) claim_complete_core [OF b1(2)]] .
    have "hash (fst (claim_complete n (b1 t))) \<noteq> None" for n t
      using b1(2) by (simp add: claim_complete_def)
    then have "same_core b (fst (claim_success m (fst (claim_complete n (b1 t)))))" for n m t
      using same_core_trans [OF cc claim_success_core] by blast
    with cc show "same_core b (fst (claim_complete n (b1 t)))"
      "same_core b (fst (claim_success m (fst (claim_complete n (b1 t)))))" by blast+
  qed
  have st: "status (the_hash (b1 t)) = (if status (the_hash b) = ''running'' then t else status (the_hash b))"
    for t by (simp add: b1_def f)
  have eq: "fst (settle clk a i b L) = (let h = the_hash b in
      if locked_at h = '''' \<or> total_jobs h < 1 then set_keys i b L
      else case terminal_of h of
        Some t \<Rightarrow> set_keys i ((if t = ''success'' then fst \<circ> claim_success (a_now a) else id)
                     (fst (claim_complete (a_now a) (b1 t))))
                   (if status h = ''running'' then index_finished (a_score a) t h L else L)
      | None \<Rightarrow> if total_jobs h \<le> touched_count h then set_keys i (fst (claim_complete (a_now a) b)) L
               else set_keys i b L)"
    by (simp add: settle_def Let_def b1_def split_beta split: option.splits)
  show sc: "same_core b (bkeys (fst (settle clk a i b L)) i)"
    unfolding eq using b2 claim_complete_core [OF assms(1)] by (simp add: Let_def split: option.splits)
  show "j \<noteq> i \<Longrightarrow> bkeys (fst (settle clk a i b L)) j = bkeys L j"
    unfolding eq by (simp add: Let_def split: option.splits)
  show "progress_ok (the_hash (bkeys (fst (settle clk a i b L)) i))"
  proof (cases "locked_at (the_hash b) = '''' \<or> total_jobs (the_hash b) < 1 \<or> terminal_of (the_hash b) = None")
    case True
    then show ?thesis using sc
      by (auto simp: progress_ok_def same_core_def terminal_of_def split: if_splits)
  next
    case False
    then obtain t where t: "terminal_of (the_hash b) = Some t" by (auto simp: not_None_eq)
    have "status (the_hash (bkeys (fst (settle clk a i b L)) i)) = status (the_hash (b1 t))"
      unfolding eq using False t by (simp add: Let_def)
    moreover have "t \<noteq> ''running''" using t by (auto simp: terminal_of_def split: if_splits)
    ultimately show ?thesis using st [of t] by (simp add: progress_ok_def)
  qed
  show "keys_survive D b \<Longrightarrow> D \<le> clk + finished_ttl_of a
           \<Longrightarrow> keys_survive D (bkeys (fst (settle clk a i b L)) i)"
    unfolding eq by (simp add: Let_def b1_def split: option.splits)
qed

end
