(* ===== verification/Ledger_Runs.thy ===== *)
theory Ledger_Runs
  imports Ledger_Invariant
begin

text \<open>
  Runs of the ledger. \<open>lop\<close> is one call of a ledger method by any client, daemon, worker or
  reconciler; \<open>exec\<close> runs the model of that method; \<open>ledger_run\<close> is the step relation: any
  interleaving of such calls on any batches, each at its own Redis time.

  \<open>lop_ok\<close> is what the callers guarantee: the client rolls a reservation back (\<open>AddJobs\<close> with a
  negative count) only while it is still filling the batch, a sealed batch that grows is not
  empty, the reconciler finishes a batch as
  \<open>success\<close> or \<open>complete\<close> and stamps batches it has just read. One condition is \<^emph>\<open>not\<close> guaranteed
  by the callers: that the bit \<open>total_jobs\<close>, which \<open>sealBatchLua\<close> clears to size the bitmaps, has
  not been set by an event (see \<open>seal_forgets_completion\<close> in the root theory). All calls of a run
  fall into one retention window \<open>[D - w, D)\<close> where \<open>w\<close> is the smaller of the two TTLs; what
  happens after the window is the subject of the late-event lemmas.
\<close>

subsection \<open>Calls\<close>

datatype lop =
    Create create_params
  | Add string int
  | Seal string
  | Done string int string
  | Claim string string string
  | Invoke string string
  | Runner string string
  | Finish string string
  | Cancel string
  | Refire string

datatype reply = RCode nat string | RBool bool | RAdd add_result | RUnit

record lcfg =
  c_ttl :: int
  c_fttl :: "int option"

definition mk_args :: "lcfg \<Rightarrow> string \<Rightarrow> score \<Rightarrow> int \<Rightarrow> string \<Rightarrow> done_args" where
  "mk_args C now sc s opn =
     \<lparr>a_seq = s, a_op = opn, a_ttl = c_ttl C, a_now = now, a_score = sc, a_fttl = c_fttl C\<rparr>"

fun exec :: "lcfg \<Rightarrow> int \<Rightarrow> string \<Rightarrow> score \<Rightarrow> lop \<Rightarrow> ledger \<Rightarrow> ledger \<times> reply" where
  "exec C clk now sc (Create p) L = map_prod id RBool (createBatch clk (c_ttl C) now sc p L)"
| "exec C clk now sc (Add i n) L = map_prod id RAdd (addJobs clk (c_ttl C) i n L)"
| "exec C clk now sc (Seal i) L = map_prod id (case_prod RCode) (sealBatch clk (c_ttl C) now sc i L)"
| "exec C clk now sc (Done i s opn) L =
     map_prod id (case_prod RCode) (batchDoneJob clk (mk_args C now sc s opn) i L)"
| "exec C clk now sc (Claim i node kind) L =
     map_prod id (\<lambda>n. RBool (n = 1)) (claimCallback clk now node i kind L)"
| "exec C clk now sc (Invoke i kind) L = map_prod id RBool (markCallbackInvoked clk now i kind L)"
| "exec C clk now sc (Runner i node) L = (recordCallbackRunner clk i node L, RUnit)"
| "exec C clk now sc (Finish i outcome) L =
     map_prod id RBool (markFinishedIfRunning clk now sc i outcome L)"
| "exec C clk now sc (Cancel i) L = map_prod id (\<lambda>_. RUnit) (cancelBatch clk sc i L)"
| "exec C clk now sc (Refire i) L = (markReconcilerRefired clk now i L, RUnit)"

fun lop_ok :: "ledger \<Rightarrow> lop \<Rightarrow> bool" where
  "lop_ok L (Add i n) =
     (locked_at (the_hash (bkeys L i)) = '''' \<or> 0 \<le> n \<and> 1 \<le> total_jobs (the_hash (bkeys L i)))"
| "lop_ok L (Seal i) =
     (nat (total_jobs (the_hash (bkeys L i))) \<notin> bits (touch_bm (bkeys L i)))"
| "lop_ok L (Finish i outcome) = is_terminal outcome"
| "lop_ok L (Refire i) = (hash (bkeys L i) \<noteq> None)"
| "lop_ok L _ = True"

definition cfg_window :: "lcfg \<Rightarrow> int" where
  "cfg_window C = min (c_ttl C) (finished_ttl_of (mk_args C '''' 0 1 ''''))"

inductive ledger_run :: "lcfg \<Rightarrow> int \<Rightarrow> (lop \<times> reply) list \<Rightarrow> ledger \<Rightarrow> bool" for C D where
  run_init: "ledger_run C D [] empty_ledger"
| run_step: "ledger_run C D tr L \<Longrightarrow> D - cfg_window C \<le> clk \<Longrightarrow> clk < D \<Longrightarrow> now \<noteq> '''' \<Longrightarrow>
     lop_ok L x \<Longrightarrow> exec C clk now sc x L = (L', r) \<Longrightarrow> ledger_run C D (tr @ [(x, r)]) L'"

text \<open>The invariant of one batch at its key, and of the ledger.\<close>

definition keyed_inv :: "int \<Rightarrow> string \<Rightarrow> batch_keys \<Rightarrow> bool" where
  "keyed_inv D i b =
     (batch_inv b \<and> keys_survive D b \<and> (hash b \<noteq> None \<longrightarrow> h_id (the_hash b) = Some i))"

definition ledger_inv :: "int \<Rightarrow> ledger \<Rightarrow> bool" where
  "ledger_inv D L = (\<forall>i. keyed_inv D i (bkeys L i))"

subsection \<open>Preservation, one operation at a time\<close>

lemma window_le:
  assumes "D - cfg_window C \<le> clk"
  shows "D \<le> clk + c_ttl C" "D \<le> clk + finished_ttl_of (mk_args C now sc s opn)"
proof -
  have "finished_ttl_of (mk_args C now sc s opn) = finished_ttl_of (mk_args C '''' 0 1 '''')"
    by (cases "c_fttl C") (simp_all add: mk_args_def finished_ttl_of_def Let_def)
  then show "D \<le> clk + c_ttl C" "D \<le> clk + finished_ttl_of (mk_args C now sc s opn)"
    using assms unfolding cfg_window_def by linarith+
qed

lemma window_pos:
  assumes "D - cfg_window C \<le> clk" "clk < D"
  shows "0 < c_ttl C"
  using window_le(1) [OF assms(1)] assms(2) by simp

lemma keyed_inv_core:
  assumes "keyed_inv D i b" "same_core b b'" "keys_survive D b'"
    "status (the_hash b') = ''running'' \<Longrightarrow> status (the_hash b) = ''running''"
    "h_id (the_hash b') = h_id (the_hash b)" "hash b \<noteq> None"
  shows "keyed_inv D i b'"
  using assms counters_ok_cong [OF assms(2)]
  by (auto simp: keyed_inv_def batch_inv_def progress_ok_def same_core_def)

lemma keyed_inv_upd:
  assumes "keyed_inv D i b" "hash b \<noteq> None"
    "\<And>h. total_jobs (f h) = total_jobs h" "\<And>h. touched_count (f h) = touched_count h"
    "\<And>h. completed_count (f h) = completed_count h" "\<And>h. failed_count (f h) = failed_count h"
    "\<And>h. locked_at (f h) = locked_at h" "\<And>h. h_id (f h) = h_id h"
    "\<And>h. status (f h) = ''running'' \<Longrightarrow> status h = ''running''"
  shows "keyed_inv D i (upd_hash f b)"
proof (rule keyed_inv_core [OF assms(1) same_core_upd])
  show "keys_survive D (upd_hash f b)" using assms(1) by (simp add: keyed_inv_def)
qed (use assms(2-) in auto)

lemma keyed_purge: "keyed_inv D i b \<Longrightarrow> clk < D \<Longrightarrow> purge_batch clk b = b"
  by (auto simp: keyed_inv_def intro: purge_batch_survive)

lemma set_keys_same [simp]: "set_keys i (bkeys L i) L = L"
  by (simp add: set_keys_def)

text \<open>An event is either refused without any write, or it is the abstract event on the bitmaps
  and counters followed by \<open>settle\<close>.\<close>

definition applies :: "done_args \<Rightarrow> batch_keys \<Rightarrow> bool" where
  "applies a b =
     (1 \<le> a_seq a \<and> a_op a \<in> {''success'', ''failed'', ''executed''} \<and> hash b \<noteq> None
      \<and> status (the_hash b) \<noteq> ''cancelled'' \<and> \<not> (is_terminal (status (the_hash b)) \<and> touch_bm b = None))"

lemma batchDoneJob_cases:
  assumes inv: "keyed_inv D i (bkeys L i)" and clk: "clk < D" and ttl: "0 < a_ttl a"
  obtains (refused) w where "batchDoneJob clk a i L = (L, (0, w))"
      "\<not> applies a (bkeys L i) \<or>
       spec_event (nat (a_seq a - 1)) (a_op a) (abs_seqs (bkeys L i)) = abs_seqs (bkeys L i)"
  | (applied) b1 b2 where "batchDoneJob clk a i L = settle clk a i b2 L" "applies a (bkeys L i)"
      "mark_event clk (eff_ttl_of a (the_hash (bkeys L i))) (nat (a_seq a - 1)) (a_op a) (bkeys L i) = Some (b1, True)"
      "b2 = b1\<lparr>hash := expire_key clk (eff_ttl_of a (the_hash (bkeys L i))) (hash b1)\<rparr>"
      "abs_seqs b2 = spec_event (nat (a_seq a - 1)) (a_op a) (abs_seqs (bkeys L i))"
      "abs_seqs b2 \<noteq> abs_seqs (bkeys L i)"
      "the_hash b2 = card_counters (abs_seqs b2) (the_hash (bkeys L i))"
      "counters_ok b2" "hash b2 \<noteq> None"
proof -
  let ?b = "bkeys L i" and ?h = "the_hash (bkeys L i)" and ?o = "nat (a_seq a - 1)"
  have p: "purge_batch clk ?b = ?b" using inv clk by (rule keyed_purge)
  show thesis
  proof (cases "applies a ?b")
    case False
    then have "\<exists>w. batchDoneJob clk a i L = (L, (0, w))"
      by (auto simp: applies_def batchDoneJob_def p Let_def)
    with False refused show ?thesis by blast
  next
    case True
    note e = ttl_pos(2) [OF ttl, of ?h]
    have c: "counters_ok ?b" using inv True by (auto simp: keyed_inv_def batch_inv_def applies_def)
    have opn: "a_op a \<in> {''success'', ''failed'', ''executed''}" using True by (simp add: applies_def)
    from mark_event_refines [OF c e opn, of clk ?o] show ?thesis
    proof (elim disjE exE conjE)
      assume "mark_event clk (eff_ttl_of a ?h) ?o (a_op a) ?b = None"
        "spec_event ?o (a_op a) (abs_seqs ?b) = abs_seqs ?b"
      with True refused show ?thesis by (auto simp: applies_def batchDoneJob_def p Let_def)
    next
      fix b1
      assume m: "mark_event clk (eff_ttl_of a ?h) ?o (a_op a) ?b = Some (b1, True)"
        "abs_seqs b1 = spec_event ?o (a_op a) (abs_seqs ?b)"
        "spec_event ?o (a_op a) (abs_seqs ?b) \<noteq> abs_seqs ?b" "hash b1 \<noteq> None"
        "the_hash b1 = card_counters (spec_event ?o (a_op a) (abs_seqs ?b)) ?h"
      let ?b2 = "b1\<lparr>hash := expire_key clk (eff_ttl_of a ?h) (hash b1)\<rparr>"
      have a2: "abs_seqs ?b2 = abs_seqs b1" "the_hash ?b2 = the_hash b1" "hash ?b2 \<noteq> None"
        using e m(4) by (simp_all add: abs_seqs_def)
      have "counters_ok ?b2" using counters_ok_event [OF c, of ?b2 ?o "a_op a"] a2 m by simp
      moreover have "batchDoneJob clk a i L = settle clk a i ?b2 L"
        using True m(1) by (auto simp: applies_def batchDoneJob_def p Let_def)
      ultimately show ?thesis using applied [OF _ True m(1) refl] a2 m by simp
    qed
  qed
qed

lemma batchDoneJob_keyed:
  assumes inv: "keyed_inv D i (bkeys L i)" and clk: "clk < D" and ttl: "0 < a_ttl a"
    and D: "D \<le> clk + a_ttl a" "D \<le> clk + finished_ttl_of a"
  shows "keyed_inv D i (bkeys (fst (batchDoneJob clk a i L)) i)"
  using inv clk ttl
proof (cases rule: batchDoneJob_cases)
  case (refused w)
  then show ?thesis using inv by simp
next
  case (applied b1 b2)
  let ?b3 = "bkeys (fst (settle clk a i b2 L)) i"
  have D': "D \<le> clk + eff_ttl_of a h" for h using D by (simp add: eff_ttl_of_def)
  have sv: "keys_survive D b2"
    using mark_event_survive [OF applied(3) _ D'] inv D'
    by (simp add: applied(4) keyed_inv_def keys_survive_def survives_expire)
  have hid: "h_id (the_hash b2) = Some i"
    using inv applied(2,7) by (auto simp: keyed_inv_def applies_def card_counters_def split: prod.splits)
  note st = settle_batch [OF applied(9) ttl, where clk = clk and i = i and L = L]
  have "counters_ok ?b3" using counters_ok_cong [OF st(1)] applied(8) by blast
  moreover have "hash ?b3 \<noteq> None" using st(1) applied(9) unfolding same_core_def by blast
  moreover have "h_id (the_hash ?b3) = Some i" using hid by (simp only: settle_hid [OF ttl])
  ultimately show ?thesis
    unfolding applied(1) keyed_inv_def batch_inv_def using st(2) st(4) [OF sv D(2)] by presburger
qed

lemma createBatch_keyed:
  assumes inv: "keyed_inv D i (bkeys L i)" and clk: "clk < D" and ttl: "0 < ttl" "D \<le> clk + ttl"
    and i: "i = p_id p"
  shows "keyed_inv D i (bkeys (fst (createBatch clk ttl now sc p L)) i)"
proof -
  have p: "purge_batch clk (bkeys L i) = bkeys L i" using inv clk by (rule keyed_purge)
  show ?thesis
  proof (cases "hash (bkeys L i) = None")
    case True
    then have "bits (touch_bm (bkeys L i)) = {}" "bits (ok_bm (bkeys L i)) = {}"
      "bits (fail_bm (bkeys L i)) = {}" "h_id (the_hash (bkeys L i)) = None"
      using inv by (simp_all add: keyed_inv_def batch_inv_def the_hash_def empty_hash_def)
    then show ?thesis
      using inv p ttl i
      by (simp add: createBatch_def createBatchScript_def createBatchIndex_def Let_def keyed_inv_def
          batch_inv_def counters_ok_def abs_seqs_def progress_ok_def keys_survive_def survives_expire)
  next
    case False
    then show ?thesis
      using inv p i by (simp add: createBatch_def createBatchScript_def Let_def keyed_inv_def)
  qed
qed

lemma addJobs_keyed:
  assumes inv: "keyed_inv D i (bkeys L i)" and clk: "clk < D" and ttl: "0 < ttl" "D \<le> clk + ttl"
    and n: "locked_at (the_hash (bkeys L i)) = '''' \<or> 0 \<le> n \<and> 1 \<le> total_jobs (the_hash (bkeys L i))"
  shows "keyed_inv D i (bkeys (fst (addJobs clk ttl i n L)) i)"
proof -
  have p: "purge_batch clk (bkeys L i) = bkeys L i" using inv clk by (rule keyed_purge)
  show ?thesis
    using inv p ttl n
    by (auto simp: addJobs_def Let_def keyed_inv_def batch_inv_def counters_ok_def abs_seqs_def
        progress_ok_def keys_survive_def survives_expire)
qed

lemma seal_bitmaps_core:
  assumes "0 < ttl" "nat (total_jobs (the_hash b)) \<notin> bits (touch_bm b)" "counters_ok b"
  shows "same_core b (seal_bitmaps clk ttl b)" "the_hash (seal_bitmaps clk ttl b) = the_hash b"
proof -
  have "nat (total_jobs (the_hash b)) \<notin> bits (ok_bm b) \<union> bits (fail_bm b)"
    using assms by (auto simp: counters_ok_def abs_seqs_def)
  then show "same_core b (seal_bitmaps clk ttl b)"
    using assms by (auto simp: seal_bitmaps_def Let_def same_core_def abs_seqs_def)
  show "the_hash (seal_bitmaps clk ttl b) = the_hash b"
    by (simp add: seal_bitmaps_def Let_def)
qed

lemma seal_finish_keyed:
  assumes c: "counters_ok b" and h: "hash b \<noteq> None" and sv: "keys_survive D b"
    and hid: "h_id (the_hash b) = Some i" and t: "is_terminal t"
  shows "keyed_inv D i (fst (claim_complete now (upd_hash (\<lambda>h. h\<lparr>status := t, finished_at := now\<rparr>) b)))"
    and "keyed_inv D i (fst (claim_success now (fst (claim_complete now
           (upd_hash (\<lambda>h. h\<lparr>status := t, finished_at := now\<rparr>) b)))))"
proof -
  let ?b = "upd_hash (\<lambda>h. h\<lparr>status := t, finished_at := now\<rparr>) b"
  have "t \<noteq> ''running''" using t by (auto simp: is_terminal_def)
  then have 1: "keyed_inv D i ?b"
    using c sv hid by (simp add: keyed_inv_def batch_inv_def counters_ok_def abs_seqs_def progress_ok_def)
  show 2: "keyed_inv D i (fst (claim_complete now ?b))"
    by (rule keyed_inv_core [OF 1 claim_complete_core]) (use 1 in \<open>simp_all add: keyed_inv_def\<close>)
  show "keyed_inv D i (fst (claim_success now (fst (claim_complete now ?b))))"
    by (rule keyed_inv_core [OF 2 claim_success_core]) (use 2 in \<open>simp_all add: keyed_inv_def\<close>)
qed

lemma sealBatch_keyed:
  assumes inv: "keyed_inv D i (bkeys L i)" and clk: "clk < D" and ttl: "0 < ttl" "D \<le> clk + ttl"
    and bit: "nat (total_jobs (the_hash (bkeys L i))) \<notin> bits (touch_bm (bkeys L i))"
  shows "keyed_inv D i (bkeys (fst (sealBatch clk ttl now sc i L)) i)"
proof (cases "hash (bkeys L i) = None")
  case True
  then show ?thesis using inv keyed_purge [OF inv clk] by (simp add: sealBatch_def seal_settle_def seal_prepare_def Let_def)
next
  case False
  let ?b = "bkeys L i"
  define b1 where "b1 = (if locked_at (the_hash ?b) = '''' then upd_hash (\<lambda>h. h\<lparr>locked_at := now\<rparr>) ?b else ?b)"
  define b1e where "b1e = b1\<lparr>hash := expire_key clk ttl (hash b1)\<rparr>"
  define b2 where "b2 = seal_bitmaps clk ttl b1e"
  have h1: "hash b1e \<noteq> None" "counters_ok b1e" "h_id (the_hash b1e) = Some i"
    "total_jobs (the_hash b1e) = total_jobs (the_hash ?b)" "touch_bm b1e = touch_bm ?b"
    "status (the_hash b1e) = status (the_hash ?b)" "keys_survive D b1e"
    using inv False ttl
    by (auto simp: b1e_def b1_def keyed_inv_def batch_inv_def counters_ok_def abs_seqs_def
        keys_survive_def survives_expire)
  have sc: "same_core b1e b2" "the_hash b2 = the_hash b1e"
    using seal_bitmaps_core [OF ttl(1) _ h1(2)] bit h1(4,5) by (simp_all add: b2_def)
  have h2: "hash b2 \<noteq> None" "counters_ok b2" "keys_survive D b2"
    using sc h1 ttl counters_ok_cong [OF sc(1)]
    by (auto simp: same_core_def b2_def seal_bitmaps_def Let_def keys_survive_def survives_expire)
  have k2: "keyed_inv D i b2" if "progress_ok (the_hash b2)"
    using that h2 h1 sc by (simp add: keyed_inv_def batch_inv_def)
  have none: "progress_ok (the_hash b2)"
    if "status (the_hash ?b) \<noteq> ''running'' \<or> seal_terminal_of (the_hash b2) = None"
    using that sc(2) h1(6)
    by (auto simp: progress_ok_def seal_terminal_of_def terminal_of_def split: if_splits)
  have cc: "keyed_inv D i (fst (claim_complete now b2))" if "keyed_inv D i b2"
    by (rule keyed_inv_core [OF that claim_complete_core]) (use h2 in simp_all)
  have t: "is_terminal t" if "seal_terminal_of (the_hash b2) = Some t" for t
    using that by (auto simp: seal_terminal_of_def terminal_of_def is_terminal_def split: if_splits)
  note fin = seal_finish_keyed [OF h2(2,1,3)]
  have hid: "h_id (the_hash b2) = Some i" using sc h1 by simp
  show ?thesis
    using False none k2 cc fin [OF hid t] keyed_purge [OF inv clk]
    by (simp add: sealBatch_def seal_settle_def seal_prepare_def Let_def split_beta b1_def [symmetric] b1e_def [symmetric]
        b2_def [symmetric] split: option.splits)
qed

lemma settle_other: "j \<noteq> i \<Longrightarrow> bkeys (fst (settle clk a i b L)) j = bkeys L j"
  by (simp add: settle_def Let_def split_beta split: option.splits)

lemma other_keys:
  assumes "j \<noteq> i"
  shows "bkeys (fst (batchDoneJob clk a i L)) j = bkeys L j"
    and "bkeys (fst (addJobs clk ttl i n L)) j = bkeys L j"
    and "bkeys (fst (sealBatch clk ttl now sc i L)) j = bkeys L j"
    and "bkeys (fst (claimCallback clk now node i kind L)) j = bkeys L j"
    and "bkeys (fst (markCallbackInvoked clk now i kind L)) j = bkeys L j"
    and "bkeys (recordCallbackRunner clk i node L) j = bkeys L j"
    and "bkeys (fst (markFinishedIfRunning clk now sc i outcome L)) j = bkeys L j"
    and "bkeys (fst (cancelBatch clk sc i L)) j = bkeys L j"
    and "bkeys (markReconcilerRefired clk now i L) j = bkeys L j"
    and "p_id p = i \<Longrightarrow> bkeys (fst (createBatch clk ttl now sc p L)) j = bkeys L j"
proof -
  note [simp] = Let_def split_beta assms
  show "bkeys (fst (batchDoneJob clk a i L)) j = bkeys L j"
    by (simp add: batchDoneJob_def settle_other split: option.splits)
  show "bkeys (fst (addJobs clk ttl i n L)) j = bkeys L j" by (simp add: addJobs_def)
  show "bkeys (fst (sealBatch clk ttl now sc i L)) j = bkeys L j"
    by (simp add: sealBatch_def seal_settle_def seal_prepare_def split: option.splits)
  show "bkeys (fst (claimCallback clk now node i kind L)) j = bkeys L j" by (simp add: claimCallback_def)
  show "bkeys (fst (markCallbackInvoked clk now i kind L)) j = bkeys L j"
    by (simp add: markCallbackInvoked_def)
  show "bkeys (recordCallbackRunner clk i node L) j = bkeys L j" by (simp add: recordCallbackRunner_def)
  show "bkeys (fst (markFinishedIfRunning clk now sc i outcome L)) j = bkeys L j"
    by (simp add: markFinishedIfRunning_def)
  show "bkeys (fst (cancelBatch clk sc i L)) j = bkeys L j"
    by (simp add: cancelBatch_def updateBatchStatus_def updateStatus_def)
  show "bkeys (markReconcilerRefired clk now i L) j = bkeys L j"
    by (simp add: markReconcilerRefired_def)
  show "p_id p = i \<Longrightarrow> bkeys (fst (createBatch clk ttl now sc p L)) j = bkeys L j"
    by (simp add: createBatch_def createBatchScript_def createBatchIndex_def)
qed
lemma other_create: "p_id p \<noteq> j \<Longrightarrow> bkeys (fst (createBatch clk ttl now sc p L)) j = bkeys L j"
  using other_keys(10) [of j "p_id p" p] by simp

text \<open>The remaining operations change stamps or the status only.\<close>

lemma stamps_keyed:
  assumes inv: "keyed_inv D i (bkeys L i)" and clk: "clk < D"
  shows "keyed_inv D i (bkeys (fst (claimCallback clk now node i kind L)) i)"
    and "keyed_inv D i (bkeys (fst (markCallbackInvoked clk now i kind L)) i)"
    and "keyed_inv D i (bkeys (recordCallbackRunner clk i node L) i)"
    and "is_terminal outcome \<Longrightarrow> keyed_inv D i (bkeys (fst (markFinishedIfRunning clk now sc i outcome L)) i)"
    and "keyed_inv D i (bkeys (fst (cancelBatch clk sc i L)) i)"
    and "hash (bkeys L i) \<noteq> None \<Longrightarrow> keyed_inv D i (bkeys (markReconcilerRefired clk now i L) i)"
proof -
  note p [simp] = keyed_purge [OF inv clk]
  note [simp] = Let_def
  show "keyed_inv D i (bkeys (fst (claimCallback clk now node i kind L)) i)"
    using inv by (auto simp: claimCallback_def set_claim_field_def intro!: keyed_inv_upd split: if_splits)
  show "keyed_inv D i (bkeys (fst (markCallbackInvoked clk now i kind L)) i)"
    using inv by (auto simp: markCallbackInvoked_def intro!: keyed_inv_upd)
  show "keyed_inv D i (bkeys (recordCallbackRunner clk i node L) i)"
    using inv by (auto simp: recordCallbackRunner_def intro!: keyed_inv_upd)
  show "keyed_inv D i (bkeys (fst (markFinishedIfRunning clk now sc i outcome L)) i)"
    if "is_terminal outcome"
    using that inv by (auto simp: markFinishedIfRunning_def is_terminal_def intro!: keyed_inv_upd)
  show "keyed_inv D i (bkeys (fst (cancelBatch clk sc i L)) i)"
    using inv by (auto simp: cancelBatch_def updateBatchStatus_def updateStatus_def split_beta ends_status_def
        intro!: keyed_inv_upd)
  show "keyed_inv D i (bkeys (markReconcilerRefired clk now i L) i)" if "hash (bkeys L i) \<noteq> None"
    using that inv by (auto simp: markReconcilerRefired_def intro!: keyed_inv_upd)
qed

subsection \<open>Every call keeps the ledger invariant\<close>

lemma ledger_inv_empty: "ledger_inv D empty_ledger"
  by (simp add: ledger_inv_def empty_ledger_def no_keys_def keyed_inv_def batch_inv_def keys_survive_def)

lemma ledger_inv_at:
  assumes "ledger_inv D L" "keyed_inv D i (bkeys L' i)" "\<And>j. j \<noteq> i \<Longrightarrow> bkeys L' j = bkeys L j"
  shows "ledger_inv D L'"
  using assms unfolding ledger_inv_def by metis

lemma exec_inv:
  assumes inv: "ledger_inv D L" and w: "D - cfg_window C \<le> clk" and clk: "clk < D"
    and ok: "lop_ok L x" and ex: "exec C clk now sc x L = (L', r)"
  shows "ledger_inv D L'"
proof -
  note k = inv [unfolded ledger_inv_def, rule_format]
  note ttl = window_pos [OF w clk] window_le(1) [OF w]
  have L': "L' = fst (exec C clk now sc x L)" using ex by simp
  show ?thesis
  proof (cases x)
    case (Create p)
    show ?thesis
      by (rule ledger_inv_at [OF inv, of "p_id p"])
        (simp_all add: L' Create createBatch_keyed [OF k clk ttl refl] other_keys)
  next
    case (Add i n)
    show ?thesis
      by (rule ledger_inv_at [OF inv, of i])
        (use ok Add in \<open>simp_all add: L' addJobs_keyed [OF k clk ttl] other_keys\<close>)
  next
    case (Seal i)
    show ?thesis
      by (rule ledger_inv_at [OF inv, of i])
        (use ok Seal in \<open>simp_all add: L' sealBatch_keyed [OF k clk ttl] other_keys\<close>)
  next
    case (Done i s opn)
    have "keyed_inv D i (bkeys (fst (batchDoneJob clk (mk_args C now sc s opn) i L)) i)"
      by (rule batchDoneJob_keyed [OF k clk]) (use ttl window_le(2) [OF w] in \<open>simp_all add: mk_args_def\<close>)
    then show ?thesis
      by (intro ledger_inv_at [OF inv, of i]) (simp_all add: L' Done other_keys)
  next
    case (Claim i node kind)
    show ?thesis
      by (rule ledger_inv_at [OF inv, of i]) (simp_all add: L' Claim stamps_keyed [OF k clk] other_keys)
  next
    case (Invoke i kind)
    show ?thesis
      by (rule ledger_inv_at [OF inv, of i]) (simp_all add: L' Invoke stamps_keyed [OF k clk] other_keys)
  next
    case (Runner i node)
    show ?thesis
      by (rule ledger_inv_at [OF inv, of i]) (simp_all add: L' Runner stamps_keyed [OF k clk] other_keys)
  next
    case (Finish i outcome)
    show ?thesis
      by (rule ledger_inv_at [OF inv, of i])
        (use ok Finish in \<open>simp_all add: L' stamps_keyed [OF k clk] other_keys\<close>)
  next
    case (Cancel i)
    show ?thesis
      by (rule ledger_inv_at [OF inv, of i]) (simp_all add: L' Cancel stamps_keyed [OF k clk] other_keys)
  next
    case (Refire i)
    show ?thesis
      by (rule ledger_inv_at [OF inv, of i])
        (use ok Refire in \<open>simp_all add: L' stamps_keyed [OF k clk] other_keys\<close>)
  qed
qed

lemma ledger_run_inv: "ledger_run C D tr L \<Longrightarrow> ledger_inv D L"
  by (induction rule: ledger_run.induct) (auto intro: ledger_inv_empty exec_inv)

end
