(* ===== verification/Ledger_Props.thy ===== *)
theory Ledger_Props
  imports Ledger_Runs
begin

text \<open>
  What the ledger promises over whole runs: the counters count, each callback is claimed at
  most once and only when it is due, a sealed batch whose jobs have all ended is finished,
  the result does not depend on the order or the number of deliveries, and the statuses and
  index counters agree.
\<close>

subsection \<open>Definitions\<close>

definition complete_fired :: "nat \<times> string \<Rightarrow> bool" where
  "complete_fired r = (r = (1, ''success'') \<or> r = (1, ''complete'') \<or> r = (3, ''complete''))"

definition success_fired :: "nat \<times> string \<Rightarrow> bool" where
  "success_fired r = (r = (1, ''success'') \<or> r = (1, ''success_only''))"

text \<open>A call that won the right to dispatch the \<open>on_complete\<close> / \<open>on_success\<close> callback of batch \<open>i\<close>.\<close>

fun wins_complete :: "string \<Rightarrow> lop \<times> reply \<Rightarrow> bool" where
  "wins_complete i (Done j s q, RCode c w) = (j = i \<and> complete_fired (c, w))"
| "wins_complete i (Seal j, RCode c w) = (j = i \<and> complete_fired (c, w))"
| "wins_complete i (Claim j n k, RBool b) = (j = i \<and> k = ''complete'' \<and> b)"
| "wins_complete i _ = False"

fun wins_success :: "string \<Rightarrow> lop \<times> reply \<Rightarrow> bool" where
  "wins_success i (Done j s q, RCode c w) = (j = i \<and> success_fired (c, w))"
| "wins_success i (Seal j, RCode c w) = (j = i \<and> success_fired (c, w))"
| "wins_success i (Claim j n k, RBool b) = (j = i \<and> k = ''success'' \<and> b)"
| "wins_success i _ = False"

definition c_stamp :: "ledger \<Rightarrow> string \<Rightarrow> bool" where
  "c_stamp L i = (complete_callback_dispatched_at (the_hash (bkeys L i)) \<noteq> None)"

definition s_stamp :: "ledger \<Rightarrow> string \<Rightarrow> bool" where
  "s_stamp L i = (success_callback_dispatched_at (the_hash (bkeys L i)) \<noteq> None)"

text \<open>A whole poll of completion events for one batch, as the pipeline of
  \<open>RecordCompletionsBatch\<close> applies them.\<close>

fun done_all :: "lcfg \<Rightarrow> int \<Rightarrow> string \<Rightarrow> score \<Rightarrow> string \<Rightarrow> (nat \<times> string) list \<Rightarrow> ledger \<Rightarrow> ledger" where
  "done_all C clk now sc i [] L = L"
| "done_all C clk now sc i ((ofs, opn) # evs) L =
     done_all C clk now sc i evs (fst (batchDoneJob clk (mk_args C now sc (int ofs + 1) opn) i L))"

definition valid_ops :: "(nat \<times> string) list \<Rightarrow> bool" where
  "valid_ops evs = (\<forall>(ofs, opn) \<in> set evs. opn \<in> {''success'', ''failed'', ''executed''})"

text \<open>The abstract result of a set of events: success wins over failure, anything touches.\<close>

definition spec_seqs :: "(nat \<times> string) set \<Rightarrow> seqs" where
  "spec_seqs E = (fst ` E, {q. (q, ''success'') \<in> E}, {q. (q, ''failed'') \<in> E \<and> (q, ''success'') \<notin> E})"

text \<open>The status of a batch as the indexes see it, and the agreement of the status counters
  (\<open>kafka_batch:counts\<close>) with the number of batches in each status.\<close>

definition stat :: "ledger \<Rightarrow> string \<Rightarrow> string option" where
  "stat L i = (if hash (bkeys L i) = None then None else Some (status (the_hash (bkeys L i))))"

definition counts_inv :: "ledger \<Rightarrow> bool" where
  "counts_inv L =
     (finite (dom (stat L)) \<and> (\<forall>st. counts L st = int (card {i. stat L i = Some st})))"

definition stat_move :: "ledger \<Rightarrow> ledger \<Rightarrow> bool" where
  "stat_move L L' =
     (stat L' = stat L \<and> counts L' = counts L \<or>
      (\<exists>i new. (stat L i = None \<and> new = ''running'' \<or> stat L i = Some ''running'' \<and> ends_status new) \<and>
         stat L' = (stat L)(i \<mapsto> new) \<and>
         (\<forall>st. counts L' st = counts L st - (if stat L i = Some st then 1 else 0)
                 + (if st = new then 1 else 0))))"

subsection \<open>Replies and claim stamps\<close>

lemma fire_reply_complete [simp]: "complete_fired (fire_reply fs fc t) = fc"
  by (auto simp: complete_fired_def fire_reply_def)

lemma fire_reply_success [simp]: "success_fired (fire_reply fs fc t) = fs"
  by (auto simp: success_fired_def fire_reply_def)

lemma seal_reply_fired [simp]:
  "complete_fired (seal_reply fs fc) = fc" "success_fired (seal_reply fs fc) = fs"
  by (auto simp: complete_fired_def success_fired_def seal_reply_def)

lemma quiet_replies [simp]:
  "\<not> complete_fired (0, w)" "\<not> complete_fired (2, w)" "\<not> success_fired (0, w)" "\<not> success_fired (2, w)"
  "\<not> success_fired (3, w)"
  by (auto simp: complete_fired_def success_fired_def)

lemma claim_complete_stamp:
  "snd (claim_complete now b) = (complete_callback_dispatched_at (the_hash b) = None)"
  "complete_callback_dispatched_at (the_hash (fst (claim_complete now b))) \<noteq> None"
  "success_callback_dispatched_at (the_hash (fst (claim_complete now b))) = success_callback_dispatched_at (the_hash b)"
  by (simp_all add: claim_complete_def)

lemma claim_success_stamp:
  "snd (claim_success now b) = (success_callback_dispatched_at (the_hash b) = None)"
  "success_callback_dispatched_at (the_hash (fst (claim_success now b))) \<noteq> None"
  "complete_callback_dispatched_at (the_hash (fst (claim_success now b))) = complete_callback_dispatched_at (the_hash b)"
  by (simp_all add: claim_success_def)

lemmas claim_stamps [simp] = claim_complete_stamp claim_success_stamp

text \<open>What the end of the completion script does to the stamps of a batch.\<close>

lemma settle_stamps:
  fixes b :: batch_keys and clk :: int and i :: string and L :: ledger
  assumes "0 < a_ttl a"
  defines "h \<equiv> the_hash b" and "h' \<equiv> the_hash (bkeys (fst (settle clk a i b L)) i)"
  shows "complete_fired (snd (settle clk a i b L)) =
      (complete_callback_dispatched_at h = None \<and> complete_callback_dispatched_at h' \<noteq> None)"
    and "success_fired (snd (settle clk a i b L)) =
      (success_callback_dispatched_at h = None \<and> success_callback_dispatched_at h' \<noteq> None)"
    and "complete_callback_dispatched_at h \<noteq> None \<Longrightarrow> complete_callback_dispatched_at h' \<noteq> None"
    and "success_callback_dispatched_at h \<noteq> None \<Longrightarrow> success_callback_dispatched_at h' \<noteq> None"
  using ttl_pos(1) [OF assms(1)] unfolding h_def h'_def
  by (simp_all add: settle_def Let_def split_beta split: option.splits)

definition stamp_step :: "string \<Rightarrow> ledger \<Rightarrow> ledger \<Rightarrow> bool \<Rightarrow> bool \<Rightarrow> bool" where
  "stamp_step i L L' wc ws =
     ((wc \<longrightarrow> \<not> c_stamp L i \<and> c_stamp L' i) \<and> (ws \<longrightarrow> \<not> s_stamp L i \<and> s_stamp L' i) \<and>
      (c_stamp L i \<longrightarrow> c_stamp L' i) \<and> (s_stamp L i \<longrightarrow> s_stamp L' i))"

lemma stamp_step_same: "bkeys L' i = bkeys L i \<Longrightarrow> stamp_step i L L' False False"
  by (simp add: stamp_step_def c_stamp_def s_stamp_def)

lemma done_stamps:
  assumes inv: "keyed_inv D i (bkeys L i)" and clk: "clk < D" and ttl: "0 < a_ttl a"
    and ex: "batchDoneJob clk a i L = (L', r)"
  shows "stamp_step i L L' (complete_fired r) (success_fired r)"
  using inv clk ttl
proof (cases rule: batchDoneJob_cases)
  case (refused w)
  then show ?thesis using ex by (auto simp: stamp_step_def)
next
  case (applied b1 b2)
  have h: "complete_callback_dispatched_at (the_hash b2) = complete_callback_dispatched_at (the_hash (bkeys L i))"
    "success_callback_dispatched_at (the_hash b2) = success_callback_dispatched_at (the_hash (bkeys L i))"
    unfolding applied(7) by (simp_all add: card_counters_def split: prod.splits)
  have "L' = fst (settle clk a i b2 L)" "r = snd (settle clk a i b2 L)" using ex applied(1) by simp_all
  then show ?thesis
    using settle_stamps [OF ttl, where clk = clk and i = i and b = b2 and L = L] by (auto simp: stamp_step_def c_stamp_def s_stamp_def h)
qed

lemma seal_stamps:
  assumes inv: "keyed_inv D i (bkeys L i)" and clk: "clk < D" and ttl: "0 < ttl"
    and ex: "sealBatch clk ttl now sc i L = (L', r)"
  shows "stamp_step i L L' (complete_fired r) (success_fired r)"
proof -
  have p: "purge_batch clk (bkeys L i) = bkeys L i" using inv clk by (rule keyed_purge)
  define b1 where "b1 = (if locked_at (the_hash (bkeys L i)) = ''''
    then upd_hash (\<lambda>h. h\<lparr>locked_at := now\<rparr>) (bkeys L i) else bkeys L i)"
  define b2 where "b2 = seal_bitmaps clk ttl (b1\<lparr>hash := expire_key clk ttl (hash b1)\<rparr>)"
  have h: "complete_callback_dispatched_at (the_hash b2) = complete_callback_dispatched_at (the_hash (bkeys L i))"
    "success_callback_dispatched_at (the_hash b2) = success_callback_dispatched_at (the_hash (bkeys L i))"
    using ttl by (simp_all add: b2_def b1_def seal_bitmaps_def Let_def)
  have L': "L' = fst (sealBatch clk ttl now sc i L)" "r = snd (sealBatch clk ttl now sc i L)"
    using ex by simp_all
  have "complete_fired (if f then (3, ''complete'') else (2, ''sealed'')) = f" for f
    by (simp add: complete_fired_def)
  then show ?thesis
    unfolding L'
    by (simp add: sealBatch_def seal_settle_def seal_prepare_def p Let_def split_beta b1_def [symmetric] b2_def [symmetric]
        stamp_step_def c_stamp_def s_stamp_def h split: option.splits)
qed

text \<open>The calls that write no claim stamp, and \<open>ClaimCallback\<close>.\<close>

lemma quiet_stamps:
  assumes k: "keyed_inv D i (bkeys L i)" and clk: "clk < D" and ttl: "0 < ttl"
  shows "p_id p = i \<Longrightarrow> stamp_step i L (fst (createBatch clk ttl now sc p L)) False False"
    and "stamp_step i L (fst (addJobs clk ttl i n L)) False False"
    and "stamp_step i L (fst (claimCallback clk now node i kind L))
           (kind = ''complete'' \<and> snd (claimCallback clk now node i kind L) = 1)
           (kind = ''success'' \<and> snd (claimCallback clk now node i kind L) = 1)"
    and "stamp_step i L (fst (markCallbackInvoked clk now i kind L)) False False"
    and "stamp_step i L (recordCallbackRunner clk i node L) False False"
    and "stamp_step i L (fst (markFinishedIfRunning clk now sc i q L)) False False"
    and "stamp_step i L (fst (cancelBatch clk sc i L)) False False"
    and "stamp_step i L (markReconcilerRefired clk now i L) False False"
proof -
  note [simp] = keyed_purge [OF k clk] stamp_step_def c_stamp_def s_stamp_def Let_def
  show "stamp_step i L (fst (createBatch clk ttl now sc p L)) False False" if "p_id p = i"
    using that ttl by (simp add: createBatch_def createBatchScript_def createBatchIndex_def)
  show "stamp_step i L (fst (addJobs clk ttl i n L)) False False" using ttl by (simp add: addJobs_def)
  show "stamp_step i L (fst (claimCallback clk now node i kind L))
           (kind = ''complete'' \<and> snd (claimCallback clk now node i kind L) = 1)
           (kind = ''success'' \<and> snd (claimCallback clk now node i kind L) = 1)"
    by (simp add: claimCallback_def claim_field_def set_claim_field_def)
  show "stamp_step i L (fst (markCallbackInvoked clk now i kind L)) False False"
    by (simp add: markCallbackInvoked_def)
  show "stamp_step i L (recordCallbackRunner clk i node L) False False"
    by (simp add: recordCallbackRunner_def)
  show "stamp_step i L (fst (markFinishedIfRunning clk now sc i q L)) False False"
    by (simp add: markFinishedIfRunning_def)
  show "stamp_step i L (fst (cancelBatch clk sc i L)) False False"
    by (simp add: cancelBatch_def updateBatchStatus_def updateStatus_def split_beta)
  show "stamp_step i L (markReconcilerRefired clk now i L) False False"
    by (simp add: markReconcilerRefired_def)
qed

lemma exec_stamps:
  assumes inv: "ledger_inv D L" and w: "D - cfg_window C \<le> clk" and clk: "clk < D"
    and ex: "exec C clk now sc x L = (L', r)"
  shows "stamp_step i L L' (wins_complete i (x, r)) (wins_success i (x, r))"
proof -
  have k: "keyed_inv D j (bkeys L j)" for j using inv by (simp add: ledger_inv_def)
  note ttl = window_pos [OF w clk]
  have ttl': "0 < a_ttl (mk_args C now sc s q)" for s q using ttl by (simp add: mk_args_def)
  have L': "L' = fst (exec C clk now sc x L)" "r = snd (exec C clk now sc x L)" using ex by simp_all
  note quiet = quiet_stamps [OF k clk ttl]
  show ?thesis
  proof (cases x)
    case (Create p)
    then show ?thesis by (cases "p_id p = i") (simp_all add: L' stamp_step_same other_create quiet)
  next
    case (Add j n)
    then show ?thesis by (cases "j = i") (simp_all add: L' stamp_step_same other_keys quiet)
  next
    case (Seal j)
    obtain c z where e: "sealBatch clk (c_ttl C) now sc j L = (L', (c, z))" "r = RCode c z"
      using ex Seal by (cases "sealBatch clk (c_ttl C) now sc j L") auto
    then show ?thesis
      using Seal seal_stamps [OF k clk ttl e(1)] other_keys(3) [of i j clk "c_ttl C" now sc L]
      by (cases "j = i") (simp_all add: stamp_step_same)
  next
    case (Done j s q)
    obtain c z where e: "batchDoneJob clk (mk_args C now sc s q) j L = (L', (c, z))" "r = RCode c z"
      using ex Done by (cases "batchDoneJob clk (mk_args C now sc s q) j L") auto
    then show ?thesis
      using Done done_stamps [OF k clk ttl' e(1)] other_keys(1) [of i j clk "mk_args C now sc s q" L]
      by (cases "j = i") (simp_all add: stamp_step_same)
  next
    case (Claim j n kind)
    then show ?thesis
      by (cases "j = i") (simp_all add: L' stamp_step_same other_keys quiet(3) [unfolded One_nat_def])
  next
    case (Invoke j kind)
    then show ?thesis by (cases "j = i") (simp_all add: L' stamp_step_same other_keys quiet)
  next
    case (Runner j n)
    then show ?thesis by (cases "j = i") (simp_all add: L' stamp_step_same other_keys quiet)
  next
    case (Finish j q)
    then show ?thesis by (cases "j = i") (simp_all add: L' stamp_step_same other_keys quiet)
  next
    case (Cancel j)
    then show ?thesis by (cases "j = i") (simp_all add: L' stamp_step_same other_keys quiet)
  next
    case (Refire j)
    then show ?thesis by (cases "j = i") (simp_all add: L' stamp_step_same other_keys quiet)
  qed
qed

lemma run_wins:
  "ledger_run C D tr L \<Longrightarrow>
     (filter (wins_complete i) tr \<noteq> [] \<longrightarrow> c_stamp L i) \<and> length (filter (wins_complete i) tr) \<le> 1 \<and>
     (filter (wins_success i) tr \<noteq> [] \<longrightarrow> s_stamp L i) \<and> length (filter (wins_success i) tr) \<le> 1"
proof (induction rule: ledger_run.induct)
  case run_init
  then show ?case by simp
next
  case (run_step tr L clk now x sc L' r)
  from exec_stamps [OF ledger_run_inv [OF run_step.hyps(1)] run_step.hyps(2,3,6), of i] run_step.IH
  show ?case by (auto simp: stamp_step_def split: if_splits)
qed

subsection \<open>Statuses\<close>

lemma stat_moveI_same: "stat L' = stat L \<Longrightarrow> counts L' = counts L \<Longrightarrow> stat_move L L'"
  by (simp add: stat_move_def)

lemma stat_move_to:
  assumes "stat L i = None \<and> new = ''running'' \<or> stat L i = Some ''running'' \<and> ends_status new"
    "stat L' = (stat L)(i \<mapsto> new)"
    "counts L' = (\<lambda>st. counts L st - (if stat L i = Some st then 1 else 0) + (if st = new then 1 else 0))"
  shows "stat_move L L'"
  unfolding stat_move_def
  by (rule disjI2, rule exI [of _ i], rule exI [of _ new]) (simp only: assms simp_thms)

lemma stat_set_keys:
  "stat (set_keys i b L) = (stat L)(i := if hash b = None then None else Some (status (the_hash b)))"
  by (auto simp: stat_def fun_eq_iff)

lemma stat_bkeys: "bkeys L = bkeys L' \<Longrightarrow> stat L = stat L'"
  by (simp add: stat_def fun_eq_iff)

lemma counts_index_finished:
  "counts (index_finished sc t h L) = (\<lambda>st. counts L st - (if st = ''running'' then 1 else 0) + (if st = t then 1 else 0))"
  by (auto simp: index_finished_def Let_def fun_eq_iff split: option.splits)

lemma stat_index [simp]: "stat (index_finished sc t h L) = stat L"
  by (rule stat_bkeys) simp

lemma card_members_upd:
  assumes "finite (dom m)"
  shows "int (card {i. (m(k \<mapsto> v)) i = Some st}) =
    int (card {i. m i = Some st}) - (if m k = Some st then 1 else 0) + (if st = v then 1 else 0)"
proof -
  have fin: "finite {i. m i = Some st}" using assms by (rule finite_subset [rotated]) auto
  have eq: "{i. (m(k \<mapsto> v)) i = Some st} =
      (if st = v then insert k ({i. m i = Some st} - {k}) else {i. m i = Some st} - {k})" by auto
  have rem: "int (card ({i. m i = Some st} - {k})) =
      int (card {i. m i = Some st}) - (if m k = Some st then 1 else 0)"
    using int_card_remove [OF fin, of k] by (cases "m k = Some st") simp_all
  have ins: "card (insert k ({i. m i = Some st} - {k})) = card ({i. m i = Some st} - {k}) + 1"
    using fin by (subst card_insert_disjoint) auto
  show ?thesis unfolding eq using rem ins by (cases "st = v") (simp_all del: insert_Diff_single)
qed

lemma counts_inv_move:
  assumes "counts_inv L" "stat_move L L'"
  shows "counts_inv L'"
  using assms(2) unfolding stat_move_def
proof (elim disjE exE conjE)
  assume "stat L' = stat L" "counts L' = counts L"
  then show ?thesis using assms(1) by (simp add: counts_inv_def)
next
  fix i new
  assume m: "stat L' = (stat L)(i \<mapsto> new)" "\<forall>st. counts L' st =
    counts L st - (if stat L i = Some st then 1 else 0) + (if st = new then 1 else 0)"
  have fin: "finite (dom (stat L))" and cnt: "\<And>st. counts L st = int (card {i. stat L i = Some st})"
    using assms(1) by (simp_all add: counts_inv_def)
  show ?thesis
    unfolding counts_inv_def m(1) using fin by (simp add: m(2) cnt card_members_upd del: fun_upd_apply)
next
  fix i new
  assume m: "stat L' = (stat L)(i \<mapsto> new)" "\<forall>st. counts L' st =
    counts L st - (if stat L i = Some st then 1 else 0) + (if st = new then 1 else 0)"
  have fin: "finite (dom (stat L))" and cnt: "\<And>st. counts L st = int (card {i. stat L i = Some st})"
    using assms(1) by (simp_all add: counts_inv_def)
  show ?thesis
    unfolding counts_inv_def m(1) using fin by (simp add: m(2) cnt card_members_upd del: fun_upd_apply)
qed

lemma terminal_ends: "terminal_of h = Some t \<Longrightarrow> ends_status t" "seal_terminal_of h = Some t \<Longrightarrow> ends_status t"
  by (auto simp: terminal_of_def seal_terminal_of_def ends_status_def split: if_splits)

lemma stat_finish:
  assumes "stat L i = Some ''running''" "ends_status t" "hash b \<noteq> None" "status (the_hash b) = t"
  shows "stat_move L (set_keys i b (index_finished sc t h L))"
  by (rule stat_move_to [OF disjI2]) (use assms in \<open>auto simp: stat_set_keys counts_index_finished\<close>)

lemma stat_same:
  assumes "hash b \<noteq> None" "stat L i = Some (status (the_hash b))"
  shows "stat_move L (set_keys i b L)"
  by (rule stat_moveI_same) (use assms in \<open>auto simp: stat_set_keys\<close>)

lemma stat_at:
  assumes "\<And>j. j \<noteq> i \<Longrightarrow> bkeys L' j = bkeys L j" "hash (bkeys L' i) \<noteq> None"
  shows "stat L' = (stat L)(i \<mapsto> status (the_hash (bkeys L' i)))"
  using assms by (auto simp: stat_def fun_eq_iff)

lemma stat_moveI:
  assumes "\<And>j. j \<noteq> i \<Longrightarrow> bkeys L' j = bkeys L j" "hash (bkeys L' i) \<noteq> None"
    "stat L i = Some st" "st' = status (the_hash (bkeys L' i))"
    "st' = st \<and> counts L' = counts L \<or>
     st = ''running'' \<and> ends_status st' \<and> counts L' = (\<lambda>s. counts L s - (if s = st then 1 else 0) + (if s = st' then 1 else 0))"
  shows "stat_move L L'"
  using assms(5)
proof (elim disjE conjE)
  assume "st' = st" "counts L' = counts L"
  then show ?thesis
    using stat_at [OF assms(1,2)] assms(3,4) by (intro stat_moveI_same) auto
next
  assume "st = ''running''" "ends_status st'"
    "counts L' = (\<lambda>s. counts L s - (if s = st then 1 else 0) + (if s = st' then 1 else 0))"
  then show ?thesis
    using stat_at [OF assms(1,2)] assms(3,4) by (intro stat_move_to [of L i st']) auto
qed

lemma settle_stat:
  assumes h: "hash b \<noteq> None" and ttl: "0 < a_ttl a" and st: "stat L i = Some (status (the_hash b))"
  shows "stat_move L (fst (settle clk a i b L))"
proof -
  let ?L = "fst (settle clk a i b L)"
  note sb = settle_batch [OF h ttl, where clk = clk and i = i and L = L]
  have h': "hash (bkeys ?L i) \<noteq> None" using sb(1) h by (simp add: same_core_def)
  show ?thesis
    by (rule stat_moveI [OF sb(3) h' st refl])
      (use ttl_pos(1) [OF ttl] terminal_ends(1) [of "the_hash b"] in
        \<open>auto simp: settle_def Let_def split_beta counts_index_finished fun_eq_iff split: option.splits\<close>)
qed

text \<open>Every call either leaves the statuses alone, creates a running batch, or ends a running one.\<close>

definition stat_ok :: "ledger \<Rightarrow> bool" where
  "stat_ok L = (\<forall>i st. stat L i = Some st \<longrightarrow> st = ''running'' \<or> ends_status st)"

lemma done_stat:
  assumes inv: "keyed_inv D i (bkeys L i)" and clk: "clk < D" and ttl: "0 < a_ttl a"
  shows "stat_move L (fst (batchDoneJob clk a i L))"
  using inv clk ttl
proof (cases rule: batchDoneJob_cases)
  case (refused w)
  then show ?thesis by (simp add: stat_moveI_same)
next
  case (applied b1 b2)
  have "status (the_hash b2) = status (the_hash (bkeys L i))"
    unfolding applied(7) by (simp add: card_counters_def split: prod.splits)
  then have "stat L i = Some (status (the_hash b2))"
    using applied(2) by (simp add: stat_def applies_def)
  then show ?thesis using settle_stat [OF applied(9) ttl] applied(1) by simp
qed

lemma seal_stat:
  assumes inv: "keyed_inv D i (bkeys L i)" and clk: "clk < D" and ttl: "0 < ttl"
  shows "stat_move L (fst (sealBatch clk ttl now sc i L))"
proof (cases "hash (bkeys L i) = None")
  case True
  then show ?thesis using keyed_purge [OF inv clk] by (simp add: sealBatch_def seal_settle_def seal_prepare_def Let_def stat_moveI_same)
next
  case False
  define b1 where "b1 = (if locked_at (the_hash (bkeys L i)) = ''''
    then upd_hash (\<lambda>h. h\<lparr>locked_at := now\<rparr>) (bkeys L i) else bkeys L i)"
  define b2 where "b2 = seal_bitmaps clk ttl (b1\<lparr>hash := expire_key clk ttl (hash b1)\<rparr>)"
  have b2: "hash b2 \<noteq> None" "status (the_hash b2) = status (the_hash (bkeys L i))"
    using False ttl by (simp_all add: b2_def b1_def seal_bitmaps_def Let_def)
  show ?thesis
  proof (rule stat_moveI [where i = i])
    show "stat L i = Some (status (the_hash (bkeys L i)))" using False by (simp add: stat_def)
    show "bkeys (fst (sealBatch clk ttl now sc i L)) j = bkeys L j" if "j \<noteq> i" for j
      using that by (rule other_keys)
    show "hash (bkeys (fst (sealBatch clk ttl now sc i L)) i) \<noteq> None"
      using False b2 keyed_purge [OF inv clk]
      by (simp add: sealBatch_def seal_settle_def seal_prepare_def Let_def split_beta b1_def [symmetric] b2_def [symmetric] split: option.splits)
    show "status (the_hash (bkeys (fst (sealBatch clk ttl now sc i L)) i)) = status (the_hash (bkeys L i)) \<and>
        counts (fst (sealBatch clk ttl now sc i L)) = counts L \<or>
      status (the_hash (bkeys L i)) = ''running'' \<and>
        ends_status (status (the_hash (bkeys (fst (sealBatch clk ttl now sc i L)) i))) \<and>
        counts (fst (sealBatch clk ttl now sc i L)) =
          (\<lambda>s. counts L s - (if s = status (the_hash (bkeys L i)) then 1 else 0) +
            (if s = status (the_hash (bkeys (fst (sealBatch clk ttl now sc i L)) i)) then 1 else 0))"
      using False b2 keyed_purge [OF inv clk] terminal_ends(2) [of "the_hash b2"]
      by (auto simp: sealBatch_def seal_settle_def seal_prepare_def Let_def split_beta b1_def [symmetric] b2_def [symmetric]
          counts_index_finished fun_eq_iff split: option.splits)
  qed (rule refl)
qed

lemma create_stat:
  assumes inv: "keyed_inv D (p_id p) (bkeys L (p_id p))" and clk: "clk < D" and ttl: "0 < ttl"
  shows "stat_move L (fst (createBatch clk ttl now sc p L))"
proof (cases "hash (bkeys L (p_id p)) = None")
  case True
  then have hid: "h_id (the_hash (bkeys L (p_id p))) = None" by (simp add: the_hash_def empty_hash_def)
  let ?L = "fst (createBatch clk ttl now sc p L)"
  note defs = createBatch_def createBatchScript_def createBatchIndex_def Let_def keyed_purge [OF inv clk] hid
  have "stat ?L = (stat L)(p_id p \<mapsto> status (the_hash (bkeys ?L (p_id p))))"
    by (rule stat_at [OF other_create]) (use ttl in \<open>simp_all add: defs\<close>)
  also have "status (the_hash (bkeys ?L (p_id p))) = ''running''" using ttl by (simp add: defs)
  finally show ?thesis
    by (rule stat_move_to [OF disjI1, rotated]) (use True in \<open>auto simp: defs stat_def fun_eq_iff\<close>)
next
  case False
  then show ?thesis
    using inv keyed_purge [OF inv clk]
    by (simp add: createBatch_def createBatchScript_def Let_def keyed_inv_def stat_moveI_same)
qed

lemma quiet_stat:
  assumes k: "keyed_inv D i (bkeys L i)" and clk: "clk < D" and ttl: "0 < ttl" and ok: "stat_ok L"
  shows "stat_move L (fst (addJobs clk ttl i n L))"
    and "stat_move L (fst (claimCallback clk now node i kind L))"
    and "stat_move L (fst (markCallbackInvoked clk now i kind L))"
    and "stat_move L (recordCallbackRunner clk i node L)"
    and "is_terminal q \<Longrightarrow> stat_move L (fst (markFinishedIfRunning clk now sc i q L))"
    and "stat_move L (fst (cancelBatch clk sc i L))"
    and "hash (bkeys L i) \<noteq> None \<Longrightarrow> stat_move L (markReconcilerRefired clk now i L)"
proof -
  note [simp] = keyed_purge [OF k clk] Let_def
  have st: "stat L i = Some (status (the_hash (bkeys L i)))" if "hash (bkeys L i) \<noteq> None"
    using that by (simp add: stat_def)
  have same: "stat_move L (set_keys i (upd_hash f (bkeys L i)) L)"
    if "\<And>h. status (f h) = status h" "hash (bkeys L i) \<noteq> None" for f
    using that st by (intro stat_same) simp_all
  show "stat_move L (fst (addJobs clk ttl i n L))"
    using ttl st by (simp add: addJobs_def stat_moveI_same stat_same)
  show "stat_move L (fst (claimCallback clk now node i kind L))"
    using same st by (auto simp: claimCallback_def set_claim_field_def stat_set_keys stat_def fun_eq_iff intro!: stat_moveI_same)
  show "stat_move L (fst (markCallbackInvoked clk now i kind L))"
    using same by (auto simp: markCallbackInvoked_def intro!: stat_moveI_same)
  show "stat_move L (recordCallbackRunner clk i node L)"
    using same by (auto simp: recordCallbackRunner_def intro!: stat_moveI_same)
  show "stat_move L (markReconcilerRefired clk now i L)" if "hash (bkeys L i) \<noteq> None"
    using same that by (auto simp: markReconcilerRefired_def)
  show "stat_move L (fst (markFinishedIfRunning clk now sc i q L))" if "is_terminal q"
  proof (cases "hash (bkeys L i) \<noteq> None \<and> status (the_hash (bkeys L i)) = ''running''")
    case True
    then show ?thesis
      using that st
      by (intro stat_move_to [of L i q])
        (auto simp: markFinishedIfRunning_def is_terminal_def ends_status_def fun_eq_iff stat_def)
  qed (auto simp: markFinishedIfRunning_def stat_moveI_same)
  show "stat_move L (fst (cancelBatch clk sc i L))"
  proof (cases "hash (bkeys L i) \<noteq> None \<and> \<not> ends_status (status (the_hash (bkeys L i)))")
    case True
    then have "status (the_hash (bkeys L i)) = ''running''" using ok st by (auto simp: stat_ok_def)
    then show ?thesis
      using True st
      by (intro stat_move_to [of L i "''cancelled''"])
        (auto simp: cancelBatch_def updateBatchStatus_def updateStatus_def split_beta ends_status_def
          fun_eq_iff stat_def)
  qed (auto simp: cancelBatch_def updateBatchStatus_def updateStatus_def split_beta stat_moveI_same ends_status_def)
qed

lemma exec_stat:
  assumes inv: "ledger_inv D L" and w: "D - cfg_window C \<le> clk" and clk: "clk < D"
    and ok: "lop_ok L x" "stat_ok L" and ex: "exec C clk now sc x L = (L', r)"
  shows "stat_move L L'"
proof -
  note k = inv [unfolded ledger_inv_def, rule_format]
  note ttl = window_pos [OF w clk]
  have ttl': "0 < a_ttl (mk_args C now sc s q)" for s q using ttl by (simp add: mk_args_def)
  have "L' = fst (exec C clk now sc x L)" using ex by simp
  then show ?thesis
    using ok(1) quiet_stat [OF k clk ttl ok(2)] create_stat [OF k clk ttl] seal_stat [OF k clk ttl]
      done_stat [OF k clk ttl']
    by (cases x) simp_all
qed

lemma stat_ok_move: "stat_ok L \<Longrightarrow> stat_move L L' \<Longrightarrow> stat_ok L'"
  unfolding stat_ok_def stat_move_def by (elim disjE exE conjE) (simp_all split: if_splits)

lemma run_stat: "ledger_run C D tr L \<Longrightarrow> stat_ok L \<and> counts_inv L"
proof (induction rule: ledger_run.induct)
  case run_init
  have "stat empty_ledger = Map.empty" by (simp add: stat_def empty_ledger_def no_keys_def fun_eq_iff)
  then show ?case by (simp add: stat_ok_def counts_inv_def) (simp add: empty_ledger_def)
next
  case (run_step tr L clk now x sc L' r)
  have "stat_move L L'"
    using exec_stat [OF ledger_run_inv [OF run_step.hyps(1)] run_step.hyps(2,3,5) _ run_step.hyps(6)] run_step.IH
    by simp
  then show ?case using run_step.IH stat_ok_move counts_inv_move by blast
qed

end
