(* ===== verification/Ledger_Claims.thy ===== *)
theory Ledger_Claims
  imports Ledger_Props
begin

text \<open>
  The properties of the batch ledger. The first part proves the remaining lemmas: what a poll
  of events does to the three sets of sequence numbers, when a callback fires, and which
  sequence numbers are handed out. The second part states the properties.
\<close>

subsection \<open>Polls of events\<close>

text \<open>A batch that takes events: running, or finished by an event and still retained.\<close>

definition takes_events :: "batch_keys \<Rightarrow> bool" where
  "takes_events b =
     (hash b \<noteq> None \<and> (status (the_hash b) = ''running'' \<or>
        is_terminal (status (the_hash b)) \<and> touch_bm b \<noteq> None))"

definition merge_seqs :: "seqs \<Rightarrow> seqs \<Rightarrow> seqs" where
  "merge_seqs p q = (case p of (T, S, F) \<Rightarrow> case q of (T', S', F') \<Rightarrow>
     (T \<union> T', S \<union> S', (F \<union> F') - (S \<union> S')))"

lemma takes_applies:
  "takes_events b \<Longrightarrow> 1 \<le> a_seq a \<Longrightarrow> a_op a \<in> {''success'', ''failed'', ''executed''} \<Longrightarrow> applies a b"
  by (auto simp: takes_events_def applies_def is_terminal_def)

lemma settle_status:
  assumes "0 < a_ttl a"
  shows "status (the_hash (bkeys (fst (settle clk a i b L)) i)) = status (the_hash b) \<or>
    is_terminal (status (the_hash (bkeys (fst (settle clk a i b L)) i)))"
  using ttl_pos(1) [OF assms]
  by (auto simp: settle_def Let_def split_beta is_terminal_def terminal_of_def split: option.splits if_splits)

lemma settle_touch:
  assumes "0 < a_ttl a"
  shows "(touch_bm (bkeys (fst (settle clk a i b L)) i) = None) = (touch_bm b = None)"
  using ttl_pos(1) [OF assms]
  by (simp add: settle_def Let_def split_beta claim_complete_def claim_success_def retain_finished_def
      split: option.splits)

lemma done_abs:
  assumes inv: "keyed_inv D i (bkeys L i)" and clk: "clk < D" and ttl: "0 < a_ttl a"
    and te: "takes_events (bkeys L i)" and a: "1 \<le> a_seq a" "a_op a \<in> {''success'', ''failed'', ''executed''}"
  shows "abs_seqs (bkeys (fst (batchDoneJob clk a i L)) i) = spec_event (nat (a_seq a - 1)) (a_op a) (abs_seqs (bkeys L i))"
    and "takes_events (bkeys (fst (batchDoneJob clk a i L)) i)"
proof -
  let ?L = "fst (batchDoneJob clk a i L)"
  have "abs_seqs (bkeys ?L i) = spec_event (nat (a_seq a - 1)) (a_op a) (abs_seqs (bkeys L i)) \<and>
    takes_events (bkeys ?L i)"
    using inv clk ttl
  proof (cases rule: batchDoneJob_cases)
    case (refused w)
    then show ?thesis using te takes_applies [OF te a] by simp
  next
    case (applied b1 b2)
    have L: "?L = fst (settle clk a i b2 L)" using applied(1) by simp
    note sb = settle_batch(1) [OF applied(9) ttl, where clk = clk and i = i and L = L]
    have st: "status (the_hash b2) = status (the_hash (bkeys L i))"
      unfolding applied(7) by (simp add: card_counters_def split: prod.splits)
    have "bits (touch_bm b2) \<noteq> {}" using applied(5) by (cases "abs_seqs (bkeys L i)") (auto simp: abs_seqs_def)
    then have "touch_bm (bkeys ?L i) \<noteq> None" using settle_touch [OF ttl] unfolding L by auto
    moreover have "hash (bkeys ?L i) \<noteq> None" using sb applied(9) unfolding L by (simp add: same_core_def)
    moreover have "status (the_hash (bkeys ?L i)) = ''running'' \<or> is_terminal (status (the_hash (bkeys ?L i)))"
      using settle_status [OF ttl, of clk i b2 L] st te unfolding L by (auto simp: takes_events_def)
    ultimately show ?thesis using sb applied(5) unfolding L by (simp add: same_core_def takes_events_def)
  qed
  then show "abs_seqs (bkeys ?L i) = spec_event (nat (a_seq a - 1)) (a_op a) (abs_seqs (bkeys L i))"
    "takes_events (bkeys ?L i)" by simp_all
qed

lemma done_inv:
  assumes "ledger_inv D L" "D - cfg_window C \<le> clk" "clk < D"
  shows "ledger_inv D (fst (batchDoneJob clk (mk_args C now sc s p) i L))"
  by (rule exec_inv [OF assms, of "Done i s p" now sc _
        "case_prod RCode (snd (batchDoneJob clk (mk_args C now sc s p) i L))"])
    (simp_all add: map_prod_def split_beta)

lemma valid_ops_Cons:
  "valid_ops ((q, p) # evs) = (p \<in> {''success'', ''failed'', ''executed''} \<and> valid_ops evs)"
  by (simp add: valid_ops_def)

lemma done_all_abs:
  assumes "valid_ops evs" "ledger_inv D L" "D - cfg_window C \<le> clk" "clk < D" "takes_events (bkeys L i)"
  shows "abs_seqs (bkeys (done_all C clk now sc i evs L) i) = fold (case_prod spec_event) evs (abs_seqs (bkeys L i))
    \<and> ledger_inv D (done_all C clk now sc i evs L) \<and> takes_events (bkeys (done_all C clk now sc i evs L) i)"
  using assms
proof (induction C clk now sc i evs L rule: done_all.induct)
  case (2 C clk now sc i q p evs L)
  let ?a = "mk_args C now sc (int q + 1) p"
  let ?L = "fst (batchDoneJob clk ?a i L)"
  have p: "a_op ?a \<in> {''success'', ''failed'', ''executed''}" "valid_ops evs"
    using 2(2) by (simp_all add: mk_args_def valid_ops_Cons)
  have a: "0 < a_ttl ?a" "1 \<le> a_seq ?a" using window_pos [OF 2(4,5)] by (simp_all add: mk_args_def)
  have k: "keyed_inv D i (bkeys L i)" using 2(3) by (simp add: ledger_inv_def)
  note d = done_abs [OF k 2(5) a(1) 2(6) a(2) p(1)]
  have inv: "ledger_inv D ?L"
    by (rule done_inv [OF 2(3,4,5)])
  have "spec_event (nat (a_seq ?a - 1)) (a_op ?a) = spec_event q p" by (simp add: mk_args_def)
  with d(1) show ?case using 2(1) [OF p(2) inv 2(4,5) d(2)] by simp
qed simp
lemma fold_spec:
  assumes "seqs_ok q" "valid_ops evs"
  shows "fold (case_prod spec_event) evs q = merge_seqs q (spec_seqs (set evs))"
  using assms
proof (induction evs arbitrary: q)
  case Nil
  then show ?case by (cases q) (auto simp: merge_seqs_def spec_seqs_def)
next
  case (Cons e evs)
  obtain k p where e: "e = (k, p)" by force
  obtain T S F where q: "q = (T, S, F)" by (cases q)
  have "seqs_ok (spec_event k p q)" "valid_ops evs" "p \<in> {''success'', ''failed'', ''executed''}"
    using Cons.prems spec_event_ok by (auto simp: e valid_ops_Cons)
  with Cons.IH show ?case
    using Cons.prems(1) by (auto simp: e q merge_seqs_def spec_seqs_def)
qed


subsection \<open>When a callback fires\<close>

text \<open>\<open>due_complete\<close>: every job of the sealed batch has run at least once; \<open>due_success\<close>: as many
  jobs succeeded as the sealed batch holds.\<close>

definition due_complete :: "batch_keys \<Rightarrow> bool" where
  "due_complete b =
     (locked_at (the_hash b) \<noteq> '''' \<and> total_jobs (the_hash b) \<le> int (card (bits (touch_bm b))))"

definition due_success :: "batch_keys \<Rightarrow> bool" where
  "due_success b =
     (locked_at (the_hash b) \<noteq> '''' \<and> total_jobs (the_hash b) \<le> int (card (bits (ok_bm b))))"

lemma touched_bound:
  assumes "counters_ok b"
  shows "completed_count (the_hash b) + failed_count (the_hash b) \<le> touched_count (the_hash b)"
proof -
  let ?T = "bits (touch_bm b)" and ?S = "bits (ok_bm b)" and ?F = "bits (fail_bm b)"
  have q: "finite ?T" "?S \<subseteq> ?T" "?F \<subseteq> ?T" "?S \<inter> ?F = {}"
    and c: "touched_count (the_hash b) = int (card ?T)" "completed_count (the_hash b) = int (card ?S)"
      "failed_count (the_hash b) = int (card ?F)"
    using assms by (simp_all add: counters_ok_def abs_seqs_def)
  have "card ?S + card ?F = card (?S \<union> ?F)"
    using q by (intro card_Un_disjoint [symmetric]) (auto intro: finite_subset)
  also have "\<dots> \<le> card ?T" using q by (intro card_mono) auto
  finally show ?thesis using c by linarith
qed

lemma due_counters:
  assumes "counters_ok b"
  shows "due_complete b = (locked_at (the_hash b) \<noteq> '''' \<and> total_jobs (the_hash b) \<le> touched_count (the_hash b))"
    "due_success b = (locked_at (the_hash b) \<noteq> '''' \<and> total_jobs (the_hash b) \<le> completed_count (the_hash b))"
    "due_success b \<Longrightarrow> due_complete b"
    "terminal_of (the_hash b) \<noteq> None \<Longrightarrow> locked_at (the_hash b) \<noteq> '''' \<Longrightarrow> due_complete b"
    "terminal_of (the_hash b) = Some ''success'' \<Longrightarrow> locked_at (the_hash b) \<noteq> '''' \<Longrightarrow> due_success b"
proof -
  have c: "failed_count (the_hash b) \<ge> 0" "touched_count (the_hash b) = int (card (bits (touch_bm b)))"
    "completed_count (the_hash b) = int (card (bits (ok_bm b)))"
    using assms by (simp_all add: counters_ok_def)
  note t = touched_bound [OF assms]
  show d: "due_complete b = (locked_at (the_hash b) \<noteq> '''' \<and> total_jobs (the_hash b) \<le> touched_count (the_hash b))"
    "due_success b = (locked_at (the_hash b) \<noteq> '''' \<and> total_jobs (the_hash b) \<le> completed_count (the_hash b))"
    using c by (simp_all add: due_complete_def due_success_def)
  show "due_success b \<Longrightarrow> due_complete b" using d c t by linarith
  show "due_complete b" if "terminal_of (the_hash b) \<noteq> None" "locked_at (the_hash b) \<noteq> ''''"
    using that t c unfolding d by (auto simp: terminal_of_def split: if_splits)
  show "due_success b" if "terminal_of (the_hash b) = Some ''success''" "locked_at (the_hash b) \<noteq> ''''"
    using that unfolding d by (auto simp: terminal_of_def split: if_splits)
qed

lemma due_core: "same_core b b' \<Longrightarrow> due_complete b' = due_complete b \<and> due_success b' = due_success b"
  by (simp add: same_core_def due_complete_def due_success_def abs_seqs_def)

lemma settle_fires:
  assumes c: "counters_ok b" and h: "hash b \<noteq> None" and ttl: "0 < a_ttl a"
  shows "complete_fired (snd (settle clk a i b L)) \<Longrightarrow> due_complete (bkeys (fst (settle clk a i b L)) i)"
    and "success_fired (snd (settle clk a i b L)) \<Longrightarrow> due_success (bkeys (fst (settle clk a i b L)) i)"
proof -
  note core = due_core [OF settle_batch(1) [OF h ttl, where clk = clk and i = i and L = L]]
  show "due_complete (bkeys (fst (settle clk a i b L)) i)" if "complete_fired (snd (settle clk a i b L))"
    using that core due_counters(1,4) [OF c]
    by (auto simp: settle_def Let_def split_beta split: option.splits if_splits)
  show "due_success (bkeys (fst (settle clk a i b L)) i)" if "success_fired (snd (settle clk a i b L))"
    using that core due_counters(5) [OF c]
    by (auto simp: settle_def Let_def split_beta split: option.splits if_splits)
qed

lemma done_fires:
  assumes inv: "keyed_inv D i (bkeys L i)" and clk: "clk < D" and ttl: "0 < a_ttl a"
    and ex: "batchDoneJob clk a i L = (L', r)"
  shows "complete_fired r \<Longrightarrow> due_complete (bkeys L' i)" "success_fired r \<Longrightarrow> due_success (bkeys L' i)"
proof -
  have "(complete_fired r \<longrightarrow> due_complete (bkeys L' i)) \<and> (success_fired r \<longrightarrow> due_success (bkeys L' i))"
    using inv clk ttl
  proof (cases rule: batchDoneJob_cases)
    case (refused w)
    then show ?thesis using ex by auto
  next
    case (applied b1 b2)
    have "L' = fst (settle clk a i b2 L)" "r = snd (settle clk a i b2 L)" using ex applied(1) by simp_all
    then show ?thesis using settle_fires [OF applied(8,9) ttl] by simp
  qed
  then show "complete_fired r \<Longrightarrow> due_complete (bkeys L' i)" "success_fired r \<Longrightarrow> due_success (bkeys L' i)"
    by simp_all
qed


text \<open>In a sealed, non-empty batch the claim stamps say exactly which callbacks are due.\<close>

definition stamps_exact :: "batch_keys \<Rightarrow> bool" where
  "stamps_exact b =
     (locked_at (the_hash b) \<noteq> '''' \<and> 1 \<le> total_jobs (the_hash b) \<and>
      (complete_callback_dispatched_at (the_hash b) \<noteq> None) = due_complete b \<and>
      (success_callback_dispatched_at (the_hash b) \<noteq> None) = due_success b)"

lemma settle_exact:
  assumes c: "counters_ok b" and l: "locked_at (the_hash b) \<noteq> ''''" "1 \<le> total_jobs (the_hash b)"
    and ttl: "0 < a_ttl a"
  shows "(complete_callback_dispatched_at (the_hash (bkeys (fst (settle clk a i b L)) i)) \<noteq> None) =
      (complete_callback_dispatched_at (the_hash b) \<noteq> None \<or> due_complete b)"
    and "(success_callback_dispatched_at (the_hash (bkeys (fst (settle clk a i b L)) i)) \<noteq> None) =
      (success_callback_dispatched_at (the_hash b) \<noteq> None \<or> due_success b)"
proof -
  let ?h = "the_hash b"
  have succ: "terminal_of ?h = Some ''success''" if "due_success b"
    using that due_counters(2) [OF c] by (simp add: terminal_of_def)
  note [simp] = ttl_pos(1) [OF ttl]
  show "(complete_callback_dispatched_at (the_hash (bkeys (fst (settle clk a i b L)) i)) \<noteq> None) =
      (complete_callback_dispatched_at ?h \<noteq> None \<or> due_complete b)"
    using l due_counters(1,4) [OF c] by (simp add: settle_def Let_def split_beta split: option.splits)
  show "(success_callback_dispatched_at (the_hash (bkeys (fst (settle clk a i b L)) i)) \<noteq> None) =
      (success_callback_dispatched_at ?h \<noteq> None \<or> due_success b)"
    using l succ due_counters(5) [OF c]
    by (cases "due_success b") (auto simp: settle_def Let_def split_beta split: option.splits)
qed

lemma done_exact:
  assumes inv: "keyed_inv D i (bkeys L i)" and clk: "clk < D" and ttl: "0 < a_ttl a"
    and ex: "stamps_exact (bkeys L i)"
  shows "stamps_exact (bkeys (fst (batchDoneJob clk a i L)) i)"
  using inv clk ttl
proof (cases rule: batchDoneJob_cases)
  case (refused w)
  then show ?thesis using ex by simp
next
  case (applied b1 b2)
  let ?b = "bkeys L i" and ?b3 = "bkeys (fst (settle clk a i b2 L)) i"
  have same: "locked_at (the_hash b2) = locked_at (the_hash ?b)" "total_jobs (the_hash b2) = total_jobs (the_hash ?b)"
    "complete_callback_dispatched_at (the_hash b2) = complete_callback_dispatched_at (the_hash ?b)"
    "success_callback_dispatched_at (the_hash b2) = success_callback_dispatched_at (the_hash ?b)"
    unfolding applied(7) by (simp_all add: card_counters_def split: prod.splits)
  have fin: "finite (bits (touch_bm b2))" "finite (bits (ok_bm b2))"
    using applied(8) by (auto simp: counters_ok_def abs_seqs_def intro: finite_subset)
  have sub: "bits (touch_bm ?b) \<subseteq> bits (touch_bm b2)" "bits (ok_bm ?b) \<subseteq> bits (ok_bm b2)"
    using applied(5) by (auto simp: abs_seqs_def)
  have mono: "due_complete ?b \<Longrightarrow> due_complete b2" "due_success ?b \<Longrightarrow> due_success b2"
    using card_mono [OF fin(1) sub(1)] card_mono [OF fin(2) sub(2)] same
    by (simp_all add: due_complete_def due_success_def)
  have l: "locked_at (the_hash b2) \<noteq> ''''" "1 \<le> total_jobs (the_hash b2)"
    using ex same by (simp_all add: stamps_exact_def)
  note core = settle_batch(1) [OF applied(9) ttl, where clk = clk and i = i and L = L]
  have "stamps_exact ?b3"
    using ex same mono l core due_core [OF core] settle_exact [OF applied(8) l ttl, where clk = clk and i = i and L = L]
    by (auto simp: stamps_exact_def same_core_def)
  then show ?thesis using applied(1) by simp
qed

lemma done_all_exact:
  assumes "ledger_inv D L" "D - cfg_window C \<le> clk" "clk < D" "stamps_exact (bkeys L i)"
  shows "stamps_exact (bkeys (done_all C clk now sc i evs L) i)"
  using assms
proof (induction C clk now sc i evs L rule: done_all.induct)
  case (2 C clk now sc i q p evs L)
  let ?a = "mk_args C now sc (int q + 1) p"
  let ?L = "fst (batchDoneJob clk ?a i L)"
  have k: "keyed_inv D i (bkeys L i)" using 2(2) by (simp add: ledger_inv_def)
  have a: "0 < a_ttl ?a" using window_pos [OF 2(3,4)] by (simp add: mk_args_def)
  have "ledger_inv D ?L"
    by (rule done_inv [OF 2(2,3,4)])
  then show ?case using 2(1) [OF _ 2(3,4)] done_exact [OF k 2(4) a 2(5)] by simp
qed simp

lemma done_all_total:
  assumes "ledger_inv D L" "D - cfg_window C \<le> clk" "clk < D"
  shows "total_jobs (the_hash (bkeys (done_all C clk now sc i evs L) i)) = total_jobs (the_hash (bkeys L i))"
  using assms
proof (induction C clk now sc i evs L rule: done_all.induct)
  case (2 C clk now sc i q p evs L)
  let ?a = "mk_args C now sc (int q + 1) p"
  let ?L = "fst (batchDoneJob clk ?a i L)"
  have k: "keyed_inv D i (bkeys L i)" using 2(2) by (simp add: ledger_inv_def)
  have a: "0 < a_ttl ?a" using window_pos [OF 2(3,4)] by (simp add: mk_args_def)
  have inv: "ledger_inv D ?L"
    by (rule done_inv [OF 2(2,3,4)])
  have "total_jobs (the_hash (bkeys ?L i)) = total_jobs (the_hash (bkeys L i))"
    using k 2(4) a
  proof (cases rule: batchDoneJob_cases)
    case (applied b1 b2)
    have "total_jobs (the_hash b2) = total_jobs (the_hash (bkeys L i))"
      unfolding applied(7) by (simp add: card_counters_def split: prod.splits)
    then show ?thesis
      using settle_batch(1) [OF applied(9) a, where clk = clk and i = i and L = L] applied(1)
      by (simp add: same_core_def)
  qed simp
  then show ?case using 2(1) [OF inv 2(3,4)] by simp
qed simp


text \<open>Sealing: the batch is prepared (lock stamp, deadlines, bitmap sizes), then judged as after
  an event.\<close>

lemma seal_prepare_core:
  assumes inv: "keyed_inv D i b" and ttl: "0 < ttl" and now: "now \<noteq> ''''" and h: "hash b \<noteq> None"
    and bit: "nat (total_jobs (the_hash b)) \<notin> bits (touch_bm b)"
  shows "counters_ok (seal_prepare clk ttl now b)" "hash (seal_prepare clk ttl now b) \<noteq> None"
    "locked_at (the_hash (seal_prepare clk ttl now b)) \<noteq> ''''"
proof -
  define b1 where "b1 = (if locked_at (the_hash b) = '''' then upd_hash (\<lambda>h. h\<lparr>locked_at := now\<rparr>) b else b)"
  define b1e where "b1e = b1\<lparr>hash := expire_key clk ttl (hash b1)\<rparr>"
  have b2: "seal_prepare clk ttl now b = seal_bitmaps clk ttl b1e"
    by (simp add: seal_prepare_def b1e_def b1_def Let_def)
  have h1: "counters_ok b1e" "total_jobs (the_hash b1e) = total_jobs (the_hash b)" "touch_bm b1e = touch_bm b"
    using inv h ttl by (auto simp: b1e_def b1_def keyed_inv_def batch_inv_def counters_ok_def abs_seqs_def)
  have sc: "same_core b1e (seal_bitmaps clk ttl b1e)" "the_hash (seal_bitmaps clk ttl b1e) = the_hash b1e"
    using seal_bitmaps_core [OF ttl _ h1(1)] bit h1(2,3) by simp_all
  show "counters_ok (seal_prepare clk ttl now b)" using counters_ok_cong [OF sc(1)] h1(1) b2 by simp
  show "hash (seal_prepare clk ttl now b) \<noteq> None"
    using sc(1) h ttl unfolding b2 by (simp add: same_core_def b1e_def b1_def)
  show "locked_at (the_hash (seal_prepare clk ttl now b)) \<noteq> ''''"
    unfolding b2 sc(2) using now ttl by (simp add: b1e_def b1_def)
qed

lemma seal_settle_fires:
  assumes b2: "counters_ok b2" "hash b2 \<noteq> None" "locked_at (the_hash b2) \<noteq> ''''"
    and ex: "seal_settle st now sc i b2 L = (L', r)"
  shows "(complete_fired r \<longrightarrow> due_complete (bkeys L' i)) \<and> (success_fired r \<longrightarrow> due_success (bkeys L' i))"
proof -
  let ?u = "\<lambda>t. upd_hash (\<lambda>h. h\<lparr>status := t, finished_at := now\<rparr>) b2"
  have u: "same_core b2 (?u t)" for t using b2(2) by (simp add: same_core_upd)
  have c: "same_core b2 (fst (claim_complete now (?u t)))" for t
    using same_core_trans [OF u claim_complete_core] by simp
  have s: "same_core b2 (fst (claim_success now (fst (claim_complete now (?u t)))))" for t
    using same_core_trans [OF c claim_success_core] by simp
  note due = due_core [OF c] due_core [OF s] due_core [OF claim_complete_core [OF b2(2)]]
  have t: "due_complete b2" if "seal_terminal_of (the_hash b2) = Some t" for t
    using that b2(3) due_counters(4) [OF b2(1)] by (auto simp: seal_terminal_of_def due_complete_def split: if_splits)
  have ts: "due_success b2" if "seal_terminal_of (the_hash b2) = Some ''success''"
    using that b2(3) due_counters(5) [OF b2(1)] by (auto simp: seal_terminal_of_def due_success_def split: if_splits)
  have tc: "due_complete b2" if "total_jobs (the_hash b2) \<le> touched_count (the_hash b2)"
    using that b2(3) due_counters(1) [OF b2(1)] by simp
  have L': "L' = fst (seal_settle st now sc i b2 L)" "r = snd (seal_settle st now sc i b2 L)"
    using ex by simp_all
  have "complete_fired (if f then (3, ''complete'') else (2, ''sealed'')) = f" for f
    by (simp add: complete_fired_def)
  then show ?thesis
    unfolding L' using due t ts tc
    by (simp add: seal_settle_def Let_def split_beta split: option.splits)
qed

lemma seal_fires:
  assumes inv: "keyed_inv D i (bkeys L i)" and clk: "clk < D" and ttl: "0 < ttl" and now: "now \<noteq> ''''"
    and bit: "nat (total_jobs (the_hash (bkeys L i))) \<notin> bits (touch_bm (bkeys L i))"
    and ex: "sealBatch clk ttl now sc i L = (L', r)"
  shows "(complete_fired r \<longrightarrow> due_complete (bkeys L' i)) \<and> (success_fired r \<longrightarrow> due_success (bkeys L' i))"
proof (cases "hash (bkeys L i) = None")
  case True
  then show ?thesis using ex keyed_purge [OF inv clk] by (auto simp: sealBatch_def Let_def)
next
  case False
  show ?thesis
    by (rule seal_settle_fires [OF seal_prepare_core [OF inv ttl now False bit]])
      (use ex False keyed_purge [OF inv clk] in \<open>simp add: sealBatch_def Let_def\<close>)
qed
inductive_cases ledger_runE: "ledger_run C D tr L"

lemma run_snocE:
  assumes "ledger_run C D (tr @ [(x, r)]) L"
  obtains L0 clk now sc where "ledger_run C D tr L0" "D - cfg_window C \<le> clk" "clk < D" "now \<noteq> ''''"
    "lop_ok L0 x" "exec C clk now sc x L0 = (L, r)"
  using assms by (rule ledger_runE) auto
lemma run_fires:
  assumes "ledger_run C D (tr @ [(x, r)]) L" and "\<And>n k. x \<noteq> Claim i n k"
  shows "(wins_complete i (x, r) \<longrightarrow> due_complete (bkeys L i)) \<and> (wins_success i (x, r) \<longrightarrow> due_success (bkeys L i))"
proof -
  obtain L0 clk now sc where run: "ledger_run C D tr L0" and w: "D - cfg_window C \<le> clk" "clk < D"
    and now: "now \<noteq> ''''" and ok: "lop_ok L0 x" and ex: "exec C clk now sc x L0 = (L, r)"
    using assms(1) by (rule run_snocE)
  have k: "keyed_inv D j (bkeys L0 j)" for j using ledger_run_inv [OF run] by (simp add: ledger_inv_def)
  have ttl: "0 < c_ttl C" "0 < a_ttl (mk_args C now sc s q)" for s q
    using window_pos [OF w] by (simp_all add: mk_args_def)
  show ?thesis
  proof (cases x)
    case (Seal j)
    obtain c z where s: "sealBatch clk (c_ttl C) now sc j L0 = (L, (c, z))" "r = RCode c z"
      using Seal ex by (cases "sealBatch clk (c_ttl C) now sc j L0") auto
    then show ?thesis using ok Seal seal_fires [OF k w(2) ttl(1) now _ s(1)] by auto
  next
    case (Done j s q)
    obtain c z where s: "batchDoneJob clk (mk_args C now sc s q) j L0 = (L, (c, z))" "r = RCode c z"
      using Done ex by (cases "batchDoneJob clk (mk_args C now sc s q) j L0") auto
    then show ?thesis using Done done_fires [OF k w(2) ttl(2) s(1)] by auto
  next
    case (Claim j n q)
    then show ?thesis using assms(2) by (cases r) auto
  qed simp_all
qed


subsection \<open>Sequence numbers\<close>

text \<open>The ranges of sequence numbers \<open>AddJobs\<close> granted for batch \<open>i\<close>.\<close>

fun granted :: "string \<Rightarrow> lop \<times> reply \<Rightarrow> (int \<times> int) list" where
  "granted i (Add j n, RAdd (AddOk (Some r))) = (if j = i then [r] else [])"
| "granted i _ = []"

definition seq_of :: "ledger \<Rightarrow> string \<Rightarrow> int" where
  "seq_of L i = key_val 0 (seq_ctr (bkeys L i))"

lemma seq_of_done:
  assumes inv: "keyed_inv D i (bkeys L i)" and clk: "clk < D" and ttl: "0 < a_ttl a"
  shows "seq_of (fst (batchDoneJob clk a i L)) i = seq_of L i"
  using inv clk ttl
proof (cases rule: batchDoneJob_cases)
  case (applied b1 b2)
  have "seq_ctr b1 = seq_ctr (bkeys L i)"
    using applied(3) by (auto simp: mark_event_def mark_touch_def mark_success_def mark_failed_def Let_def split: if_splits)
  then have "seq_ctr b2 = seq_ctr (bkeys L i)" by (simp add: applied(4))
  then show ?thesis
    using settle_batch(1) [OF applied(9) ttl, where clk = clk and i = i and L = L] applied(1)
    by (simp add: seq_of_def same_core_def)
qed simp

lemma seq_of_quiet:
  assumes k: "keyed_inv D i (bkeys L i)" and clk: "clk < D"
  shows "p_id p = i \<Longrightarrow> seq_of (fst (createBatch clk ttl now sc p L)) i = seq_of L i"
    and "seq_of (fst (sealBatch clk ttl now sc i L)) i = seq_of L i"
    and "seq_of (fst (claimCallback clk now node i kind L)) i = seq_of L i"
    and "seq_of (fst (markCallbackInvoked clk now i kind L)) i = seq_of L i"
    and "seq_of (recordCallbackRunner clk i node L) i = seq_of L i"
    and "seq_of (fst (markFinishedIfRunning clk now sc i q L)) i = seq_of L i"
    and "seq_of (fst (cancelBatch clk sc i L)) i = seq_of L i"
    and "seq_of (markReconcilerRefired clk now i L) i = seq_of L i"
proof -
  note [simp] = keyed_purge [OF k clk] seq_of_def Let_def split_beta
  show "p_id p = i \<Longrightarrow> seq_of (fst (createBatch clk ttl now sc p L)) i = seq_of L i"
    by (simp add: createBatch_def createBatchScript_def createBatchIndex_def)
  show "seq_of (fst (sealBatch clk ttl now sc i L)) i = seq_of L i"
    by (simp add: sealBatch_def seal_settle_def seal_prepare_def seal_bitmaps_def claim_complete_def
        claim_success_def split: option.splits)
  show "seq_of (fst (claimCallback clk now node i kind L)) i = seq_of L i" by (simp add: claimCallback_def)
  show "seq_of (fst (markCallbackInvoked clk now i kind L)) i = seq_of L i" by (simp add: markCallbackInvoked_def)
  show "seq_of (recordCallbackRunner clk i node L) i = seq_of L i" by (simp add: recordCallbackRunner_def)
  show "seq_of (fst (markFinishedIfRunning clk now sc i q L)) i = seq_of L i"
    by (simp add: markFinishedIfRunning_def)
  show "seq_of (fst (cancelBatch clk sc i L)) i = seq_of L i"
    by (simp add: cancelBatch_def updateBatchStatus_def updateStatus_def)
  show "seq_of (markReconcilerRefired clk now i L) i = seq_of L i" by (simp add: markReconcilerRefired_def)
qed

lemma seq_of_add:
  assumes k: "keyed_inv D i (bkeys L i)" and clk: "clk < D" and ttl: "0 < ttl"
    and ex: "addJobs clk ttl i n L = (L', r)"
  shows "(\<nexists>p. r = AddOk (Some p)) \<and> seq_of L' i = seq_of L i \<or>
    0 < n \<and> r = AddOk (Some (seq_of L i + 1, seq_of L i + n)) \<and> seq_of L' i = seq_of L i + n"
proof -
  have "L' = fst (addJobs clk ttl i n L)" "r = snd (addJobs clk ttl i n L)" using ex by simp_all
  then show ?thesis using ttl by (simp add: addJobs_def seq_of_def Let_def keyed_purge [OF k clk])
qed

lemma seq_of_other: "bkeys L' i = bkeys L i \<Longrightarrow> seq_of L' i = seq_of L i"
  by (simp add: seq_of_def)

lemmas seq_other = other_create [THEN seq_of_other] other_keys [THEN seq_of_other]

lemma exec_seq:
  assumes inv: "ledger_inv D L" and w: "D - cfg_window C \<le> clk" and clk: "clk < D"
    and ex: "exec C clk now sc x L = (L', r)"
  shows "granted i (x, r) = [] \<and> seq_of L' i = seq_of L i \<or>
    (\<exists>n>0. granted i (x, r) = [(seq_of L i + 1, seq_of L i + n)] \<and> seq_of L' i = seq_of L i + n)"
proof -
  note k = inv [unfolded ledger_inv_def, rule_format]
  note ttl = window_pos [OF w clk]
  have ttl': "0 < a_ttl (mk_args C now sc s q)" for s q using ttl by (simp add: mk_args_def)
  have L': "L' = fst (exec C clk now sc x L)" using ex by simp
  note q = seq_of_quiet [OF k clk] seq_of_done [OF k clk ttl']
  show ?thesis
  proof (cases x)
    case (Create p)
    then show ?thesis by (cases "p_id p = i") (simp_all add: L' seq_other q)
  next
    case (Add j n)
    obtain a where a: "addJobs clk (c_ttl C) j n L = (L', a)" "r = RAdd a"
      using ex Add by (cases "addJobs clk (c_ttl C) j n L") auto
    show ?thesis
    proof (cases "j = i")
      case True
      then show ?thesis
        using a Add seq_of_add [OF k clk ttl a(1)] by (cases "(i, x, r)" rule: granted.cases) auto
    next
      case False
      have "bkeys L' i = bkeys L i" using other_keys(2) [of i j clk "c_ttl C" n L] a(1) False by simp
      then show ?thesis using Add a False by (cases "(i, x, r)" rule: granted.cases) (auto simp: seq_of_def)
    qed
  next
    case (Seal j)
    then show ?thesis by (cases "j = i") (simp_all add: L' seq_other q)
  next
    case (Done j s p)
    then show ?thesis by (cases "j = i") (simp_all add: L' seq_other q)
  next
    case (Claim j n p)
    then show ?thesis by (cases "j = i") (simp_all add: L' seq_other q)
  next
    case (Invoke j p)
    then show ?thesis by (cases "j = i") (simp_all add: L' seq_other q)
  next
    case (Runner j n)
    then show ?thesis by (cases "j = i") (simp_all add: L' seq_other q)
  next
    case (Finish j p)
    then show ?thesis by (cases "j = i") (simp_all add: L' seq_other q)
  next
    case (Cancel j)
    then show ?thesis by (cases "j = i") (simp_all add: L' seq_other q)
  next
    case (Refire j)
    then show ?thesis by (cases "j = i") (simp_all add: L' seq_other q)
  qed
qed

lemma upto_append: "0 \<le> c \<Longrightarrow> 0 < n \<Longrightarrow> [1..c] @ [c + 1..c + n] = [1..c + n]" for c n :: int
  using upto_split2 [of 1 c "c + n"] by (cases "c = 0") auto

lemma run_granted:
  "ledger_run C D tr L \<Longrightarrow>
     0 \<le> seq_of L i \<and> concat (map (\<lambda>(a, b). [a..b]) (concat (map (granted i) tr))) = [1..seq_of L i]"
proof (induction rule: ledger_run.induct)
  case run_init
  then show ?case by (simp add: seq_of_def empty_ledger_def no_keys_def)
next
  case (run_step tr L clk now x sc L' r)
  from exec_seq [OF ledger_run_inv [OF run_step.hyps(1)] run_step.hyps(2,3,6), of i] run_step.IH
  show ?case by (auto simp: upto_append)
qed


subsection \<open>Concrete runs\<close>

text \<open>\<open>play\<close> replays a list of calls, checking at each step what \<open>ledger_run\<close> demands;
  \<open>replay\<close> does not check.\<close>

fun play :: "lcfg \<Rightarrow> int \<Rightarrow> (int \<times> lop) list \<Rightarrow> (lop \<times> reply) list \<Rightarrow> ledger
    \<Rightarrow> ((lop \<times> reply) list \<times> ledger) option" where
  "play C D [] tr L = Some (tr, L)"
| "play C D ((clk, x) # xs) tr L =
     (if D - cfg_window C \<le> clk \<and> clk < D \<and> lop_ok L x
      then case exec C clk ''t'' (of_int clk) x L of (L', r) \<Rightarrow> play C D xs (tr @ [(x, r)]) L'
      else None)"

fun replay :: "lcfg \<Rightarrow> (int \<times> lop) list \<Rightarrow> ledger \<Rightarrow> reply list \<times> ledger" where
  "replay C [] L = ([], L)"
| "replay C ((clk, x) # xs) L =
     (case exec C clk ''t'' (of_int clk) x L of (L', r) \<Rightarrow> map_prod (Cons r) id (replay C xs L'))"

lemma play_run: "play C D xs tr L = Some (tr', L') \<Longrightarrow> ledger_run C D tr L \<Longrightarrow> ledger_run C D tr' L'"
proof (induction C D xs tr L rule: play.induct)
  case (2 C D clk x xs tr L)
  obtain L1 r where e: "exec C clk ''t'' (of_int clk) x L = (L1, r)" by force
  then show ?case
    using 2 run_step [OF 2(3) _ _ _ _ e] by (auto split: if_splits)
qed simp

definition demo_cfg :: lcfg where "demo_cfg = \<lparr>c_ttl = 100, c_fttl = Some 50\<rparr>"

definition demo_params :: create_params where
  "demo_params = \<lparr>p_id = ''b'', p_total = 0, p_on_success = ''S'', p_on_complete = ''C'', p_meta = '''',
     p_callback_args = '''', p_description = '''', p_tenant = '''', p_sealed = False\<rparr>"

text \<open>Two jobs: one succeeds before the seal, the other fails and then succeeds on a manual retry;
  one event is delivered twice.\<close>

definition demo_open :: "(int \<times> lop) list" where
  "demo_open = [(1000, Create demo_params), (1001, Add ''b'' 1), (1001, Add ''b'' 1),
     (1002, Done ''b'' 1 ''success''), (1003, Seal ''b'')]"

definition demo_ops :: "(int \<times> lop) list" where
  "demo_ops = demo_open @ [(1004, Done ''b'' 2 ''failed''), (1005, Done ''b'' 2 ''failed''), (1006, Done ''b'' 2 ''success'')]"

definition demo :: "(lop \<times> reply) list \<times> ledger" where
  "demo = the (play demo_cfg 1050 demo_ops [] empty_ledger)"

definition demo_mid :: "(lop \<times> reply) list \<times> ledger" where
  "demo_mid = the (play demo_cfg 1050 demo_open [] empty_ledger)"

text \<open>A rolled back reservation, a completion before the seal and its redelivery after it.\<close>

definition rollback_ops :: "(int \<times> lop) list" where
  "rollback_ops = [(1000, Create demo_params), (1001, Add ''b'' 1), (1001, Add ''b'' 1), (1002, Add ''b'' (-1)),
     (1003, Add ''b'' 1), (1004, Done ''b'' 3 ''success''), (1005, Seal ''b''), (1006, Done ''b'' 3 ''success'')]"

lemma demo_ok: "play demo_cfg 1050 demo_ops [] empty_ledger \<noteq> None"
  by code_simp

lemma demo_mid_ok: "play demo_cfg 1050 demo_open [] empty_ledger \<noteq> None"
  by code_simp

lemma demo_run: "ledger_run demo_cfg 1050 (fst demo) (snd demo)"
  by (rule play_run [OF _ run_init]) (use demo_ok in \<open>simp add: demo_def not_None_eq\<close>)

lemma demo_mid_run: "ledger_run demo_cfg 1050 (fst demo_mid) (snd demo_mid)"
  by (rule play_run [OF _ run_init]) (use demo_mid_ok in \<open>simp add: demo_mid_def not_None_eq\<close>)

lemma demo_snoc: "fst demo = butlast (fst demo) @ [(Done ''b'' 2 ''success'', RCode 1 ''success_only'')]"
  by code_simp

lemma run_batch:
  assumes "ledger_run C D tr L" "hash (bkeys L i) \<noteq> None"
  shows "counters_ok (bkeys L i)" "progress_ok (the_hash (bkeys L i))"
  using ledger_run_inv [OF assms(1)] assms(2) by (simp_all add: ledger_inv_def keyed_inv_def batch_inv_def)

subsection \<open>Properties\<close>



text \<open>C2. In every run at most one call wins the right to dispatch the \<open>on_complete\<close> callback of a batch, and at most
  one the \<open>on_success\<close> callback: over all completion events, seals and explicit claims together.\<close>

theorem callbacks_claimed_once:
  assumes "ledger_run C D tr L"
  shows "length (filter (wins_complete i) tr) \<le> 1 \<and> length (filter (wins_success i) tr) \<le> 1"
  using run_wins [OF assms] by blast

theorem callbacks_claimed_once_witness:
  "length (filter (wins_complete ''b'') (fst demo)) = 1 \<and> length (filter (wins_success ''b'') (fst demo)) = 1"
proof -
  have "filter (wins_complete ''b'') (fst demo) \<noteq> []" "filter (wins_success ''b'') (fst demo) \<noteq> []"
    by code_simp+
  then show ?thesis using callbacks_claimed_once [OF demo_run, of "''b''"] by (simp add: le_Suc_eq)
qed






text \<open>C5. Functional refinement: a poll of completion events changes the three sets of a batch that takes events
  exactly as the abstract specification does, which looks only at the \<^emph>\<open>set\<close> of events.\<close>

theorem events_refine_spec:
  assumes "ledger_run C D tr L" and "D - cfg_window C \<le> clk" and "clk < D"
    and "takes_events (bkeys L i)" and "valid_ops evs"
  shows "abs_seqs (bkeys (done_all C clk now sc i evs L) i) =
    merge_seqs (abs_seqs (bkeys L i)) (spec_seqs (set evs))"
proof -
  note inv = ledger_run_inv [OF assms(1)]
  have "counters_ok (bkeys L i)" using assms(4) run_batch(1) [OF assms(1)] by (simp add: takes_events_def)
  then have "seqs_ok (abs_seqs (bkeys L i))" by (simp add: counters_ok_def)
  then show ?thesis
    using done_all_abs [OF assms(5) inv assms(2,3,4)] fold_spec [OF _ assms(5)] by simp
qed

theorem events_refine_spec_witness:
  "abs_seqs (bkeys (done_all demo_cfg 1004 ''t'' 0 ''b'' [(1, ''failed''), (1, ''success''), (0, ''failed'')] (snd demo_mid)) ''b'')
     = ({0, 1}, {0, 1}, {})"
proof -
  have "abs_seqs (bkeys (done_all demo_cfg 1004 ''t'' 0 ''b'' [(1, ''failed''), (1, ''success''), (0, ''failed'')] (snd demo_mid)) ''b'')
     = merge_seqs (abs_seqs (bkeys (snd demo_mid) ''b'')) (spec_seqs (set [(1, ''failed''), (1, ''success''), (0, ''failed'')]))"
    by (rule events_refine_spec [OF demo_mid_run]; code_simp)
  also have "abs_seqs (bkeys (snd demo_mid) ''b'') = ({0}, {0}, {})" by code_simp
  finally show ?thesis by (auto simp: merge_seqs_def spec_seqs_def)
qed

text \<open>C6. Delivery order and duplicates do not matter: two polls with the same set of events leave the same
  counters and the same callbacks claimed, for every sealed non-empty batch.\<close>

theorem events_order_irrelevant:
  fixes now :: string and sc :: score
  assumes "ledger_run C D tr L" and "D - cfg_window C \<le> clk" and "clk < D"
    and "takes_events (bkeys L i)" and "stamps_exact (bkeys L i)"
    and "valid_ops evs" and "valid_ops evs'" and "set evs = set evs'"
  defines "h \<equiv> the_hash (bkeys (done_all C clk now sc i evs L) i)"
    and "h' \<equiv> the_hash (bkeys (done_all C clk now sc i evs' L) i)"
  shows "completed_count h = completed_count h' \<and> failed_count h = failed_count h' \<and> touched_count h = touched_count h' \<and>
    (complete_callback_dispatched_at h = None) = (complete_callback_dispatched_at h' = None) \<and>
    (success_callback_dispatched_at h = None) = (success_callback_dispatched_at h' = None)"
proof -
  let ?b = "\<lambda>e. bkeys (done_all C clk now sc i e L) i"
  note inv = ledger_run_inv [OF assms(1)]
  note d = done_all_abs [OF assms(6) inv assms(2,3,4), of now sc]
    and d' = done_all_abs [OF assms(7) inv assms(2,3,4), of now sc]
  have "counters_ok (bkeys L i)" using assms(4) run_batch(1) [OF assms(1)] by (simp add: takes_events_def)
  then have s: "seqs_ok (abs_seqs (bkeys L i))" by (simp add: counters_ok_def)
  have eq: "abs_seqs (?b evs) = abs_seqs (?b evs')"
    using d d' fold_spec [OF s assms(6)] fold_spec [OF s assms(7)] assms(8) by simp
  have c: "counters_ok (?b evs)" "counters_ok (?b evs')"
    using d d' by (simp_all add: ledger_inv_def keyed_inv_def batch_inv_def takes_events_def)
  have x: "stamps_exact (?b evs)" "stamps_exact (?b evs')"
    using done_all_exact [OF inv assms(2,3,5)] by simp_all
  have t: "total_jobs (the_hash (?b evs)) = total_jobs (the_hash (?b evs'))"
    by (simp only: done_all_total [OF inv assms(2,3)])
  have due: "due_complete (?b evs) = due_complete (?b evs')" "due_success (?b evs) = due_success (?b evs')"
    using x t eq by (simp_all add: due_complete_def due_success_def stamps_exact_def abs_seqs_def)
  show ?thesis
    using c x due eq unfolding h_def h'_def stamps_exact_def by (auto simp: counters_ok_def abs_seqs_def)
qed

theorem events_order_irrelevant_witness:
  "completed_count (the_hash (bkeys (done_all demo_cfg 1004 ''t'' 0 ''b'' [(1, ''failed''), (1, ''success'')] (snd demo_mid)) ''b'')) =
   completed_count (the_hash (bkeys (done_all demo_cfg 1004 ''t'' 0 ''b'' [(1, ''success''), (1, ''failed''), (1, ''success'')] (snd demo_mid)) ''b''))"
  by (rule events_order_irrelevant [OF demo_mid_run, THEN conjunct1]; code_simp)



text \<open>C17. Ended statuses are final: whatever call comes next in a run, a batch that is \<open>success\<close>,
  \<open>complete\<close> or \<open>cancelled\<close> keeps that status.\<close>

theorem ended_status_is_final:
  assumes "ledger_run C D tr L" and "D - cfg_window C \<le> clk" and "clk < D" and "lop_ok L x"
    and "stat L i = Some st" and "ends_status st"
  shows "stat (fst (exec C clk now sc x L)) i = Some st"
proof -
  have "stat_move L (fst (exec C clk now sc x L))"
    using exec_stat [OF ledger_run_inv [OF assms(1)] assms(2,3,4)] run_stat [OF assms(1)]
    by (metis prod.collapse)
  then show ?thesis
    unfolding stat_move_def using assms(5,6) by (elim disjE exE conjE) (auto simp: ends_status_def)
qed

theorem ended_status_is_final_witness:
  "stat (fst (exec demo_cfg 1010 ''t'' 0 (Cancel ''b'') (snd demo))) ''b'' = Some ''complete''"
  by (rule ended_status_is_final [OF demo_run]; code_simp)

text \<open>Sequence numbers are handed out once and without gaps: in every run the ranges that \<open>AddJobs\<close> granted
  for a batch, in order, are exactly \<open>1, 2, \<dots>\<close> up to the allocator's counter.\<close>

theorem granted_ranges_contiguous:
  assumes "ledger_run C D tr L"
  shows "concat (map (\<lambda>(a, b). [a..b]) (concat (map (granted i) tr))) = [1..key_val 0 (seq_ctr (bkeys L i))]"
  using run_granted [OF assms] by (simp add: seq_of_def)

theorem granted_ranges_contiguous_witness:
  "concat (map (granted ''b'') (fst demo)) = [(1, 1), (2, 2)] \<and> [1..key_val 0 (seq_ctr (bkeys (snd demo) ''b''))] = [1, 2]"
proof -
  have "concat (map (granted ''b'') (fst demo)) = [(1, 1), (2, 2)]" by code_simp
  then show ?thesis using granted_ranges_contiguous [OF demo_run, of "''b''"] by simp
qed


text \<open>Late events cannot revive or corrupt a batch: once the hash has expired every completion event is
  refused as \<open>not_found\<close>; an event for a cancelled batch, or for a finished batch whose touch bitmap has
  expired, is refused as a duplicate; and none of these changes any key, index or counter that is still alive.\<close>

theorem late_events_are_refused:
  assumes "1 \<le> a_seq a" and "a_op a \<in> {''success'', ''failed'', ''executed''}" and "b = purge_batch clk (bkeys L i)"
  shows "(hash b = None \<longrightarrow> batchDoneJob clk a i L = (set_keys i b L, (0, ''not_found''))) \<and>
    (hash b \<noteq> None \<and> (status (the_hash b) = ''cancelled'' \<or> is_terminal (status (the_hash b)) \<and> touch_bm b = None)
      \<longrightarrow> batchDoneJob clk a i L = (set_keys i b L, (0, ''duplicate'')))"
  using assms by (auto simp: batchDoneJob_def Let_def)

theorem late_events_are_refused_witness:
  "hash (purge_batch 1056 (bkeys (snd demo) ''b'')) = None \<and>
   snd (batchDoneJob 1056 (mk_args demo_cfg ''t'' 0 1 ''success'') ''b'' (snd demo)) = (0, ''not_found'')"
proof -
  have h: "hash (purge_batch 1056 (bkeys (snd demo) ''b'')) = None" by code_simp
  show ?thesis
    using late_events_are_refused [of "mk_args demo_cfg ''t'' 0 1 ''success''" _ 1056 "snd demo" "''b''", OF _ _ refl] h
    by (simp add: mk_args_def)
qed
text \<open>The five Redis keys of a batch, and the keys of different batches, never collide, for
  batch ids without a colon (the ids the client generates are UUIDs).\<close>

theorem batch_keys_distinct:
  assumes "CHR '':'' \<notin> set i" and "CHR '':'' \<notin> set j"
  shows "distinct [batchKey i, bitmapKey i, okBitmapKey i, failBitmapKey i, seqKey i] \<and>
    (i \<noteq> j \<longrightarrow> set [batchKey i, bitmapKey i, okBitmapKey i, failBitmapKey i, seqKey i] \<inter>
      set [batchKey j, bitmapKey j, okBitmapKey j, failBitmapKey j, seqKey j] = {})"
  using assms by (auto simp: batchKey_def bitmapKey_def okBitmapKey_def failBitmapKey_def seqKey_def keyPrefix_def)

theorem batch_keys_distinct_witness: "bitmapKey ''b1'' \<noteq> seqKey ''b2'' \<and> batchKey ''b1'' \<noteq> batchKey ''b2''"
  using batch_keys_distinct [of "''b1''" "''b2''"] by (simp only: list.set insert_iff) auto

text \<open>What a seal can forget. The client rolls a reservation back with \<open>AddJobs(-1)\<close>, which lowers
  \<open>total_jobs\<close> but not the sequence allocator, so a live job can have the sequence number \<open>total_jobs + 1\<close>;
  \<open>sealBatchLua\<close> then clears the bits at offset \<open>total_jobs\<close> although that job has completed, and a redelivery of
  its event counts the job a second time. In this run the batch of two live jobs (1 and 3) is finished as
  \<open>success\<close> and its success callback fires although job 1 never ran.\<close>

theorem seal_forgets_completion:
  "fst (replay demo_cfg rollback_ops empty_ledger) =
     [RBool True, RAdd (AddOk (Some (1, 1))), RAdd (AddOk (Some (2, 2))), RAdd (AddOk None),
      RAdd (AddOk (Some (3, 3))), RCode 2 ''continue'', RCode 2 ''sealed'', RCode 1 ''success''] \<and>
   abs_seqs (bkeys (snd (replay demo_cfg rollback_ops empty_ledger)) ''b'') = ({2}, {2}, {}) \<and>
   completed_count (the_hash (bkeys (snd (replay demo_cfg rollback_ops empty_ledger)) ''b'')) = 2"
  by (intro conjI; code_simp)

end
