(* ===== verification/Wire_Json.thy ===== *)
theory Wire_Json
  imports Kbatch_Prelude
begin

text \<open>
  JSON values as the wire protocol uses them, and the codecs the code calls
  (\<^verbatim>\<open>encoding/json\<close>, \<^verbatim>\<open>compress/gzip\<close>) as a record of functions: the model takes such a
  record as an argument, and a property that relies on a codec says what it relies on.
  Object fields are an association list; \<open>jget\<close> reads the last write of a key, as a decoder
  into a Go map does.
\<close>

datatype json = JNull | JBool bool | JNum int | JStr string | JArr "json list" | JObj "(string \<times> json) list"

record codec =
  gzip :: "string \<Rightarrow> string option"
  gunzip :: "string \<Rightarrow> string option"
  jdec :: "string \<Rightarrow> json option"
  jenc :: "json \<Rightarrow> string"

definition jset :: "string \<Rightarrow> json \<Rightarrow> (string \<times> json) list \<Rightarrow> (string \<times> json) list" where
  "jset k v m = filter (\<lambda>(a, _). a \<noteq> k) m @ [(k, v)]"

definition jget :: "string \<Rightarrow> (string \<times> json) list \<Rightarrow> json option" where
  "jget k m = map_of (rev m) k"

lemma map_of_rev_filter: "map_of (rev (filter (\<lambda>(a, _). a \<noteq> k) m)) k' = (if k' = k then None else map_of (rev m) k')"
  by (induction m) (auto simp: map_add_def split: option.splits)

lemma jget_jset [simp]: "jget k (jset k' v m) = (if k = k' then Some v else jget k m)"
  by (auto simp: jget_def jset_def map_of_rev_filter)

lemma jget_Nil [simp]: "jget k [] = None"
  by (simp add: jget_def)

end
