(* ===== verification/Sorted_Set.thy ===== *)
theory Sorted_Set
  imports Kbatch_Prelude "HOL-Library.Char_ord" "HOL-Library.List_Lexorder"
begin

text \<open>
  Redis sorted sets whose order the code reads: a list of members with scores, ordered by
  score and then by member, as \<open>ZRANGE\<close> reports it. The working set indexes jobs by claim
  time with one, a fairness lane keeps its ring of tenants and its leases in them.
\<close>

definition zrem :: "string \<Rightarrow> (string \<times> 'a) list \<Rightarrow> (string \<times> 'a) list" where
  "zrem j z = filter (\<lambda>(k, _). k \<noteq> j) z"

definition zbefore :: "string \<times> 'a::linorder \<Rightarrow> string \<times> 'a \<Rightarrow> bool" where
  "zbefore x y = (snd x < snd y \<or> snd x = snd y \<and> fst x < fst y)"

definition zadd :: "'a::linorder \<Rightarrow> string \<Rightarrow> (string \<times> 'a) list \<Rightarrow> (string \<times> 'a) list" where
  "zadd s j z = (let r = zrem j z in
     filter (\<lambda>x. zbefore x (j, s)) r @ [(j, s)] @ filter (\<lambda>x. \<not> zbefore x (j, s)) r)"

text \<open>\<open>ZADD XX\<close> only updates a member that is there.\<close>

definition zadd_xx :: "'a::linorder \<Rightarrow> string \<Rightarrow> (string \<times> 'a) list \<Rightarrow> (string \<times> 'a) list" where
  "zadd_xx s j z = (if j \<in> fst ` set z then zadd s j z else z)"

definition zscore :: "string \<Rightarrow> (string \<times> 'a) list \<Rightarrow> 'a option" where
  "zscore j z = map_of z j"

text \<open>\<open>ZREMRANGEBYSCORE z -inf mx\<close>.\<close>

definition zpurge :: "'a::linorder \<Rightarrow> (string \<times> 'a) list \<Rightarrow> (string \<times> 'a) list" where
  "zpurge mx z = filter (\<lambda>(_, s). mx < s) z"

definition zset_ok :: "(string \<times> 'a::linorder) list \<Rightarrow> bool" where
  "zset_ok z = (sorted_wrt zbefore z \<and> distinct (map fst z))"

lemma set_zrem [simp]: "set (zrem j z) = {x \<in> set z. fst x \<noteq> j}"
  by (auto simp: zrem_def)

lemma set_zadd [simp]: "set (zadd s j z) = insert (j, s) {x \<in> set z. fst x \<noteq> j}"
  by (auto simp: zadd_def Let_def)

lemma set_zpurge [simp]: "set (zpurge m z) = {x \<in> set z. m < snd x}"
  by (auto simp: zpurge_def)

lemma fst_zadd [simp]: "fst ` set (zadd s j z) = insert j (fst ` set z)"
  by force

lemma fst_zrem [simp]: "fst ` set (zrem j z) = fst ` set z - {j}"
  by force

lemma zrem_absent [simp]: "j \<notin> fst ` set z \<Longrightarrow> zrem j z = z"
  by (induction z) (auto simp: zrem_def)

lemma length_filter_split: "length (filter P r) + length (filter (\<lambda>x. \<not> P x) r) = length r"
  by (induction r) auto

lemma length_zadd: "length (zadd s j z) = Suc (length (zrem j z))"
  using length_filter_split [of "\<lambda>x. zbefore x (j, s)" "zrem j z"] by (simp add: zadd_def Let_def)

lemma length_zrem: "distinct (map fst z) \<Longrightarrow> length (zrem j z) = (if j \<in> fst ` set z then length z - 1 else length z)"
proof (induction z)
  case (Cons a z)
  then show ?case
    by (cases "fst a = j") (auto simp: zrem_def split: if_splits, metis Suc_pred length_pos_if_in_set)
qed (simp add: zrem_def)

lemma length_zrem_le: "length (zrem j z) \<le> length z"
  by (simp add: zrem_def)

lemma length_zpurge_le: "length (zpurge m z) \<le> length z"
  by (simp add: zpurge_def)

lemma zbefore_trans: "zbefore x y \<Longrightarrow> zbefore y z \<Longrightarrow> zbefore x z"
  by (auto simp: zbefore_def)

lemma zbefore_total: "fst x \<noteq> fst y \<Longrightarrow> zbefore x y \<or> zbefore y x"
  by (auto simp: zbefore_def neq_iff)

lemma zbefore_irrefl [simp]: "\<not> zbefore x x"
  by (simp add: zbefore_def)

lemma zset_ok_Nil [simp]: "zset_ok []"
  by (simp add: zset_ok_def)

lemma zset_ok_filter: "zset_ok z \<Longrightarrow> zset_ok (filter P z)"
  by (simp add: zset_ok_def sorted_wrt_filter distinct_map_filter)

lemma zset_ok_zrem [simp, intro]: "zset_ok z \<Longrightarrow> zset_ok (zrem j z)"
  by (simp add: zrem_def zset_ok_filter)

lemma zset_ok_zpurge [simp, intro]: "zset_ok z \<Longrightarrow> zset_ok (zpurge m z)"
  by (simp add: zpurge_def zset_ok_filter)

lemma zset_ok_zadd [simp, intro]:
  assumes "zset_ok z"
  shows "zset_ok (zadd s j z)"
proof -
  let ?r = "zrem j z"
  let ?lo = "filter (\<lambda>x. zbefore x (j, s)) ?r" and ?hi = "filter (\<lambda>x. \<not> zbefore x (j, s)) ?r"
  have r: "zset_ok ?r" using assms by blast
  have above: "zbefore (j, s) y" if "y \<in> set ?hi" for y
    using that zbefore_total [of "(j, s)" y] by auto
  have "sorted_wrt zbefore (?lo @ [(j, s)] @ ?hi)"
    using r above by (auto simp: sorted_wrt_append zset_ok_def sorted_wrt_filter intro: zbefore_trans)
  moreover have "distinct (map fst (?lo @ [(j, s)] @ ?hi))"
  proof -
    have "distinct (map fst ?r)" using r by (simp add: zset_ok_def)
    moreover have "fst ` set ?lo \<inter> fst ` set ?hi = {}"
      using r by (auto simp: zset_ok_def distinct_map inj_on_def) metis
    ultimately show ?thesis by (auto simp: distinct_map_filter)
  qed
  ultimately show ?thesis by (simp add: zset_ok_def zadd_def Let_def)
qed

lemma zset_ok_zadd_xx [simp, intro]: "zset_ok z \<Longrightarrow> zset_ok (zadd_xx s j z)"
  by (simp add: zadd_xx_def)

lemma fst_zadd_xx [simp]: "fst ` set (zadd_xx s j z) = fst ` set z"
  by (auto simp: zadd_xx_def simp del: set_zadd)

lemma length_zset: "zset_ok z \<Longrightarrow> length z = card (fst ` set z)"
  by (metis distinct_card length_map list.set_map zset_ok_def)

lemma zscore_iff: "zset_ok z \<Longrightarrow> zscore j z = Some s \<longleftrightarrow> (j, s) \<in> set z"
  by (simp add: zscore_def zset_ok_def)

lemma zscore_None: "zscore j z = None \<longleftrightarrow> j \<notin> fst ` set z"
  by (simp add: zscore_def map_of_eq_None_iff)

lemma zscore_zadd [simp]: "zset_ok z \<Longrightarrow> zscore k (zadd s j z) = (if k = j then Some s else zscore k z)"
proof -
  assume ok: "zset_ok z"
  have "zscore k (zadd s j z) = Some v \<longleftrightarrow> (if k = j then Some s else zscore k z) = Some v" for v
    using ok by (auto simp: zscore_iff)
  then show ?thesis by (cases "zscore k (zadd s j z)") (metis option.exhaust)+
qed

lemma zscore_zrem [simp]: "zscore k (zrem j z) = (if k = j then None else zscore k z)"
  by (induction z) (auto simp: zscore_def zrem_def)

lemma zscore_Nil [simp]: "zscore j [] = None"
  by (simp add: zscore_def)

text \<open>The head of the set has the least score.\<close>

lemma zset_hd_least: "zset_ok ((j, s) # z) \<Longrightarrow> (k, u) \<in> set ((j, s) # z) \<Longrightarrow> s \<le> u"
  by (auto simp: zset_ok_def zbefore_def)

lemma zset_before_le: "zset_ok (xs @ (j, s) # ys) \<Longrightarrow> (k, u) \<in> set ys \<Longrightarrow> s \<le> u"
  by (auto simp: zset_ok_def zbefore_def sorted_wrt_append)

text \<open>A sorted set is determined by its entries.\<close>

lemma zset_eqI: "zset_ok y \<Longrightarrow> zset_ok z \<Longrightarrow> set y = set z \<Longrightarrow> y = z"
proof (induction y arbitrary: z)
  case (Cons x y)
  obtain w z' where z: "z = w # z'" using Cons.prems(3) by (cases z) auto
  have xw: "x = w"
  proof (rule ccontr)
    assume "x \<noteq> w"
    then have "w \<in> set y" "x \<in> set z'" using Cons.prems(3) z by auto
    then show False using Cons.prems(1,2) z zbefore_trans [of x w x] by (auto simp: zset_ok_def)
  qed
  have "x \<notin> set y" "w \<notin> set z'" using Cons.prems(1,2) z by (auto simp: zset_ok_def)
  then have "set y = set z'" using Cons.prems(3) z xw by auto
  then show ?case using Cons z xw by (simp add: zset_ok_def)
qed simp

end
