(* ===== verification/Workset.thy ===== *)
theory Workset
  imports Wire_Json Sorted_Set
begin

text \<open>
  The working set of \<^verbatim>\<open>pkg/workset\<close>: who owns each in-flight job, and how the jobs of a dead
  consumer are put back on their topic.

  \<^item> \<open>workset\<close> is the Redis state: the job keys, the per-consumer sets, the index sorted by
    claim time, the heartbeat keys, the reclaim locks and the produced markers.
  \<^item> Redis time is in milliseconds here, durations are Go durations (nanoseconds), the claim
    time \<open>now\<close> is the caller's Unix time in seconds; the three clocks are separate arguments.
  \<^item> A job key holds \<open>Stored e\<close>, an entry that decodes, or \<open>Garbage\<close>, a value that does not.
  \<^item> Kafka is the list of produced messages \<open>(topic, key, body)\<close> an operation returns.
\<close>

subsection \<open>State\<close>

record entry =
  e_job :: string
  e_payload :: string
  e_encoding :: string
  e_topic :: string
  e_partition :: int
  e_offset :: int
  e_consumer :: string
  e_fence :: string
  e_claimed_at :: string
  e_claimed_unix :: int
  e_runtime :: string

datatype stored = Garbage | Stored entry

record workset =
  jobs :: "string \<Rightarrow> stored rkey"
  by_consumer :: "string \<Rightarrow> string set"
  windex :: "(string \<times> int) list"
  live :: "string \<Rightarrow> string rkey"
  reclaiming :: "string \<Rightarrow> string rkey"
  produced :: "string \<Rightarrow> string rkey"

type_synonym message = "string \<times> string \<times> string"

definition empty_workset :: workset where
  "empty_workset = \<lparr>jobs = (\<lambda>_. None), by_consumer = (\<lambda>_. {}), windex = [], live = (\<lambda>_. None),
     reclaiming = (\<lambda>_. None), produced = (\<lambda>_. None)\<rparr>"

definition purge_work :: "int \<Rightarrow> workset \<Rightarrow> workset" where
  "purge_work clk W = W\<lparr>jobs := (\<lambda>j. purge_key clk (jobs W j)), live := (\<lambda>c. purge_key clk (live W c)),
     reclaiming := (\<lambda>j. purge_key clk (reclaiming W j)), produced := (\<lambda>j. purge_key clk (produced W j))\<rparr>"

text \<open>The index is a sorted set; a scan reads it in order up to a score.\<close>

definition zrange_upto :: "int \<Rightarrow> nat \<Rightarrow> (string \<times> int) list \<Rightarrow> string list" where
  "zrange_upto mx cnt z = take cnt (map fst (filter (\<lambda>(_, s). s \<le> mx) z))"

subsection \<open>Durations\<close>

definition second :: int where "second = 1000000000"
definition seconds :: "int \<Rightarrow> int" where "seconds d = d div second"
definition ms_of :: "int \<Rightarrow> int" where "ms_of d = (if 0 < d \<and> d < 1000000 then 1 else d div 1000000)"
definition DefaultOrphanGrace :: int where "DefaultOrphanGrace = 40 * second"
definition defaultLeaseTTL :: int where "defaultLeaseTTL = 120 * second"
definition defaultHeartbeatTTL :: int where "defaultHeartbeatTTL = 180 * second"
definition producedMarkerTTL :: int where "producedMarkerTTL = 3600 * second"
definition reclaimSafetyBuffer :: int where "reclaimSafetyBuffer = 60 * second"

definition floorLeaseTTL :: "int \<Rightarrow> int \<Rightarrow> int \<Rightarrow> int" where
  "floorLeaseTTL lease hbTTL grace =
     (let mn = hbTTL + grace + reclaimSafetyBuffer in if lease < mn then mn else lease)"

definition resolveGrace :: "int \<Rightarrow> int" where
  "resolveGrace d = (if d < 0 then 0 else if d = 0 then DefaultOrphanGrace else d)"

subsection \<open>Payloads\<close>

definition compressMinBytes :: nat where "compressMinBytes = 256"

definition marshalEntry :: "codec \<Rightarrow> entry \<Rightarrow> entry" where
  "marshalEntry K e =
     (if compressMinBytes \<le> length (e_payload e) \<and> e_encoding e \<noteq> ''gzip''
      then case gzip K (e_payload e) of
          None \<Rightarrow> e
        | Some z \<Rightarrow> e\<lparr>e_payload := z, e_encoding := ''gzip''\<rparr>
      else e)"

definition decodeEntryPayload :: "codec \<Rightarrow> entry \<Rightarrow> string option" where
  "decodeEntryPayload K e = (if e_encoding e \<noteq> ''gzip'' then Some (e_payload e) else gunzip K (e_payload e))"

text \<open>\<open>markReclaimPayload\<close>. A body that decodes to \<open>null\<close> leaves the Go map nil, and the
  assignment into it panics.\<close>

datatype mark_result = Marked string | MarkError | MarkPanic

definition markReclaimPayload :: "codec \<Rightarrow> string \<Rightarrow> mark_result" where
  "markReclaimPayload K raw =
     (case jdec K raw of
        Some (JObj m) \<Rightarrow> Marked (jenc K (JObj (jset ''_reclaim'' (JBool True) m)))
      | Some JNull \<Rightarrow> MarkPanic
      | _ \<Rightarrow> MarkError)"

subsection \<open>Claim: \<open>claimLua\<close>, \<open>Claim\<close>, \<open>ClaimMany\<close>\<close>

record claim_params =
  c_job :: string
  c_payload :: string
  c_topic :: string
  c_partition :: int
  c_offset :: int
  c_consumer :: string
  c_lease :: int
  c_hb :: int
  c_grace :: int

datatype claim_result = ClaimWon string entry | ClaimLost | ClaimEmptyJob

definition set_job :: "string \<Rightarrow> stored rkey \<Rightarrow> workset \<Rightarrow> workset" where
  "set_job j k W = W\<lparr>jobs := (jobs W)(j := k)\<rparr>"

definition srem_job :: "string \<Rightarrow> string \<Rightarrow> workset \<Rightarrow> workset" where
  "srem_job c j W = W\<lparr>by_consumer := (by_consumer W)(c := by_consumer W c - {j})\<rparr>"

definition sadd_job :: "string \<Rightarrow> string \<Rightarrow> workset \<Rightarrow> workset" where
  "sadd_job c j W = W\<lparr>by_consumer := (by_consumer W)(c := insert j (by_consumer W c))\<rparr>"

text \<open>The heartbeat key is seeded when it is missing and otherwise only extended.\<close>

definition seed_live :: "int \<Rightarrow> int \<Rightarrow> string \<Rightarrow> workset \<Rightarrow> workset" where
  "seed_live clk hbs c W =
     W\<lparr>live := (live W)(c := (if live W c = None
         then set_key_ex clk (hbs * 1000) (''{\"consumer_id\":\"'' @ c @ ''\"}'')
         else expire_key clk (hbs * 1000) (live W c)))\<rparr>"

definition steal_blocked :: "int \<Rightarrow> int \<Rightarrow> entry \<Rightarrow> workset \<Rightarrow> bool" where
  "steal_blocked now grace e W =
     (live W (e_consumer e) \<noteq> None \<or> grace > 0 \<and> e_claimed_unix e > 0 \<and> now - e_claimed_unix e < grace)"

definition take_job :: "int \<Rightarrow> string \<Rightarrow> string \<Rightarrow> entry \<Rightarrow> int \<Rightarrow> int \<Rightarrow> int \<Rightarrow> workset \<Rightarrow> workset" where
  "take_job clk j c raw ttl now hbs W =
     seed_live clk hbs c
       ((sadd_job c j (set_job j (set_key_ex clk (ttl * 1000) (Stored raw)) W))\<lparr>windex := zadd now j (windex W)\<rparr>)"

definition claim_script ::
  "int \<Rightarrow> string \<Rightarrow> string \<Rightarrow> entry \<Rightarrow> int \<Rightarrow> int \<Rightarrow> int \<Rightarrow> int \<Rightarrow> workset \<Rightarrow> workset \<times> nat" where
  "claim_script clk j c raw ttl now grace hb W0 =
     (let W = purge_work clk W0; hbs = (if hb < 1 then ttl else hb) in
      case jobs W j of
        Some (Cell (Stored e) d) \<Rightarrow>
          if e_consumer e \<noteq> '''' \<and> e_consumer e \<noteq> c then
            (if steal_blocked now grace e W then (W, 0)
             else (take_job clk j c raw ttl now hbs (srem_job (e_consumer e) j W), 1))
          else if e_consumer e = c then
            ((seed_live clk hbs c (set_job j (expire_key clk (ttl * 1000) (jobs W j)) W))
               \<lparr>windex := zadd (e_claimed_unix e) j (windex W)\<rparr>, 2)
          else (take_job clk j c raw ttl now hbs W, 1)
      | _ \<Rightarrow> (take_job clk j c raw ttl now hbs W, 1))"

definition claim_ttl :: "claim_params \<Rightarrow> int" where
  "claim_ttl p =
     floorLeaseTTL (if c_lease p \<le> 0 then defaultLeaseTTL else c_lease p)
       (if c_hb p \<le> 0 then defaultHeartbeatTTL else c_hb p) (resolveGrace (c_grace p))"

definition claim_hb :: "claim_params \<Rightarrow> int" where
  "claim_hb p = (if c_hb p \<le> 0 then defaultHeartbeatTTL else c_hb p)"

definition claim_entry :: "claim_params \<Rightarrow> string \<Rightarrow> string \<Rightarrow> int \<Rightarrow> entry" where
  "claim_entry p fence stamp now =
     \<lparr>e_job = c_job p, e_payload = c_payload p, e_encoding = '''', e_topic = c_topic p,
       e_partition = c_partition p, e_offset = c_offset p, e_consumer = c_consumer p, e_fence = fence,
       e_claimed_at = stamp, e_claimed_unix = now, e_runtime = ''go''\<rparr>"

definition run_claim :: "codec \<Rightarrow> int \<Rightarrow> int \<Rightarrow> string \<Rightarrow> string \<Rightarrow> claim_params \<Rightarrow> workset \<Rightarrow> workset \<times> nat" where
  "run_claim K clk now stamp fence p W =
     claim_script clk (c_job p) (c_consumer p) (marshalEntry K (claim_entry p fence stamp now))
       (seconds (claim_ttl p)) now (seconds (resolveGrace (c_grace p))) (seconds (claim_hb p)) W"

definition getEntry :: "int \<Rightarrow> string \<Rightarrow> workset \<Rightarrow> stored option" where
  "getEntry clk j W = map_option cval (purge_key clk (jobs W j))"

text \<open>What \<open>Claim\<close> returns: a resumed claim (code 2) is read back to learn its fence.\<close>

definition claim_outcome :: "int \<Rightarrow> string \<Rightarrow> entry \<Rightarrow> nat \<Rightarrow> workset \<Rightarrow> claim_result" where
  "claim_outcome clk j e res W =
     (if res = 1 then ClaimWon (e_fence e) e
      else if res = 2 then
        (case getEntry clk j W of Some (Stored x) \<Rightarrow> ClaimWon (e_fence x) x | _ \<Rightarrow> ClaimLost)
      else ClaimLost)"

definition claim :: "codec \<Rightarrow> int \<Rightarrow> int \<Rightarrow> string \<Rightarrow> string \<Rightarrow> claim_params \<Rightarrow> workset \<Rightarrow> workset \<times> claim_result" where
  "claim K clk now stamp fence p W =
     (if c_job p = '''' then (W, ClaimEmptyJob)
      else let (W1, res) = run_claim K clk now stamp fence p W
           in (W1, claim_outcome clk (c_job p) (claim_entry p fence stamp now) res W1))"

text \<open>\<open>ClaimMany\<close>: all scripts run first, then the resumed entries are read.\<close>

fun claim_scripts ::
  "codec \<Rightarrow> int \<Rightarrow> int \<Rightarrow> string \<Rightarrow> (string \<times> claim_params) list \<Rightarrow> workset \<Rightarrow> workset \<times> nat option list" where
  "claim_scripts K clk now stamp [] W = (W, [])"
| "claim_scripts K clk now stamp ((fence, p) # ps) W =
     (if c_job p = '''' then map_prod id (Cons None) (claim_scripts K clk now stamp ps W)
      else let (W1, res) = run_claim K clk now stamp fence p W
           in map_prod id (Cons (Some res)) (claim_scripts K clk now stamp ps W1))"

definition claimMany ::
  "codec \<Rightarrow> int \<Rightarrow> int \<Rightarrow> string \<Rightarrow> (string \<times> claim_params) list \<Rightarrow> workset \<Rightarrow> workset \<times> claim_result list" where
  "claimMany K clk now stamp ps W =
     (let (W1, rs) = claim_scripts K clk now stamp ps W
      in (W1, map2 (\<lambda>(fence, p) r. case r of None \<Rightarrow> ClaimEmptyJob
                | Some res \<Rightarrow> claim_outcome clk (c_job p) (claim_entry p fence stamp now) res W1) ps rs))"

subsection \<open>Renewal, completion, heartbeats\<close>

definition renew_script :: "int \<Rightarrow> string \<Rightarrow> string \<Rightarrow> string \<Rightarrow> int \<Rightarrow> workset \<Rightarrow> workset \<times> nat" where
  "renew_script clk j c f ttl W0 =
     (let W = purge_work clk W0 in
      case jobs W j of
        Some (Cell (Stored e) d) \<Rightarrow>
          if e_consumer e \<noteq> c \<or> e_fence e \<noteq> f then (W, 0)
          else (set_job j (expire_key clk (ttl * 1000) (jobs W j)) W, 1)
      | _ \<Rightarrow> (W, 0))"

definition renew :: "int \<Rightarrow> string \<Rightarrow> string \<Rightarrow> string \<Rightarrow> int \<Rightarrow> workset \<Rightarrow> workset \<times> bool" where
  "renew clk j c f ttl W =
     (if j = '''' then (W, False)
      else let (W1, n) = renew_script clk j c f (seconds (if ttl \<le> 0 then defaultLeaseTTL else ttl)) W
           in (W1, n = 1))"

fun renewMany :: "int \<Rightarrow> string \<Rightarrow> (string \<times> string) list \<Rightarrow> int \<Rightarrow> workset \<Rightarrow> workset \<times> bool list" where
  "renewMany clk c [] ttl W = (W, [])"
| "renewMany clk c ((j, f) # es) ttl W =
     (let (W1, n) = renew_script clk j c f (seconds (if ttl \<le> 0 then defaultLeaseTTL else ttl)) W;
          (W2, oks) = renewMany clk c es ttl W1
      in (W2, (n = 1) # oks))"

definition stillOwned :: "int \<Rightarrow> string \<Rightarrow> string \<Rightarrow> string \<Rightarrow> workset \<Rightarrow> bool" where
  "stillOwned clk j c f W =
     (if j = '''' then False
      else case getEntry clk j W of Some (Stored e) \<Rightarrow> e_consumer e = c \<and> e_fence e = f | _ \<Rightarrow> False)"

definition complete_script :: "int \<Rightarrow> string \<Rightarrow> string \<Rightarrow> string \<Rightarrow> workset \<Rightarrow> workset \<times> nat" where
  "complete_script clk j c f W0 =
     (let W = purge_work clk W0; drop = (\<lambda>V. (srem_job c j V)\<lparr>windex := zrem j (windex V)\<rparr>) in
      case jobs W j of
        None \<Rightarrow> (drop W, 0)
      | Some (Cell (Stored e) d) \<Rightarrow>
          if e_consumer e \<noteq> c \<or> e_fence e \<noteq> f then (W, 0)
          else (drop (set_job j None W), 1)
      | Some (Cell Garbage d) \<Rightarrow> (W, 0))"

definition complete_job :: "int \<Rightarrow> string \<Rightarrow> string \<Rightarrow> string \<Rightarrow> workset \<Rightarrow> workset" where
  "complete_job clk j c f W = (if j = '''' then W else fst (complete_script clk j c f W))"

definition touchConsumer :: "int \<Rightarrow> string \<Rightarrow> string \<Rightarrow> int \<Rightarrow> workset \<Rightarrow> workset" where
  "touchConsumer clk heartbeat c ttl W =
     (if c = '''' then W
      else W\<lparr>live := (live W)(c := set_key_ex clk (ms_of (if ttl \<le> 0 then defaultHeartbeatTTL else ttl)) heartbeat)\<rparr>)"

definition deleteConsumer :: "string \<Rightarrow> workset \<Rightarrow> workset" where
  "deleteConsumer c W = (if c = '''' then W else W\<lparr>live := (live W)(c := None)\<rparr>)"


subsection \<open>Orphans\<close>

text \<open>\<open>ListOrphans\<close> is three round trips: read the aged entries, prune the ids without a usable
  payload, check the heartbeats.\<close>

definition list_scan :: "int \<Rightarrow> int \<Rightarrow> nat \<Rightarrow> int \<Rightarrow> workset \<Rightarrow> entry list \<times> string list" where
  "list_scan clk now limit grace W =
     (let lim = (if limit < 1 then 100 else limit);
          ids = zrange_upto (now - seconds (resolveGrace grace)) (lim * 3) (windex W);
          got = map (\<lambda>j. (j, getEntry clk j W)) ids
      in (List.map_filter (\<lambda>(j, s). case s of Some (Stored e) \<Rightarrow> Some e | _ \<Rightarrow> None) got,
          List.map_filter (\<lambda>(j, s). case s of Some (Stored e) \<Rightarrow> None | _ \<Rightarrow> Some j) got))"

definition list_prune :: "string list \<Rightarrow> workset \<Rightarrow> workset" where
  "list_prune missing W = W\<lparr>windex := fold zrem missing (windex W)\<rparr>"

definition list_dead :: "int \<Rightarrow> nat \<Rightarrow> entry list \<Rightarrow> workset \<Rightarrow> entry list" where
  "list_dead clk limit cands W =
     take (if limit < 1 then 100 else limit) (filter (\<lambda>e. purge_key clk (live W (e_consumer e)) = None) cands)"

definition listOrphans :: "int \<Rightarrow> int \<Rightarrow> nat \<Rightarrow> int \<Rightarrow> workset \<Rightarrow> workset \<times> entry list" where
  "listOrphans clk now limit grace W =
     (let (cands, missing) = list_scan clk now limit grace W; W1 = list_prune missing W
      in (W1, list_dead clk limit cands W1))"

subsection \<open>Reclaim\<close>

definition beginReclaim :: "int \<Rightarrow> string \<Rightarrow> int \<Rightarrow> workset \<Rightarrow> workset \<times> bool" where
  "beginReclaim clk j lockTTL W =
     (if j = '''' then (W, False)
      else if purge_key clk (reclaiming W j) \<noteq> None then (W, False)
      else (W\<lparr>reclaiming := (reclaiming W)(j := set_key_ex clk (ms_of (if lockTTL \<le> 0 then 30 * second else lockTTL)) ''1'')\<rparr>, True))"

definition markProduced :: "int \<Rightarrow> string \<Rightarrow> string \<Rightarrow> int \<Rightarrow> workset \<Rightarrow> workset" where
  "markProduced clk j f ttl W =
     (if j = '''' then W
      else W\<lparr>produced := (produced W)(j := set_key_ex clk (ms_of (if ttl \<le> 0 then producedMarkerTTL else ttl)) f)\<rparr>)"

definition producedFence :: "int \<Rightarrow> string \<Rightarrow> workset \<Rightarrow> string" where
  "producedFence clk j W = (if j = '''' then '''' else key_val '''' (purge_key clk (produced W j)))"

definition abortReclaim :: "string \<Rightarrow> workset \<Rightarrow> workset" where
  "abortReclaim j W = (if j = '''' then W else W\<lparr>reclaiming := (reclaiming W)(j := None)\<rparr>)"

definition finish_script :: "int \<Rightarrow> entry \<Rightarrow> workset \<Rightarrow> workset \<times> nat" where
  "finish_script clk e W0 =
     (let W = purge_work clk W0; j = e_job e;
          drop = (\<lambda>V. (srem_job (e_consumer e) j V)\<lparr>windex := zrem j (windex V),
                   reclaiming := (reclaiming V)(j := None), produced := (produced V)(j := None)\<rparr>)
      in case jobs W j of
        Some (Cell (Stored x) d) \<Rightarrow>
          if e_fence x \<noteq> e_fence e then (W\<lparr>reclaiming := (reclaiming W)(j := None)\<rparr>, 0)
          else (drop (set_job j None (if e_consumer x \<noteq> '''' then srem_job (e_consumer x) j W else W)), 1)
      | _ \<Rightarrow> (drop (set_job j None W), 1))"

text \<open>What the outside does during one reclaim: the Redis time of each call and which calls
  fail. \<open>FinLost\<close> is a finish that ran but whose reply was lost; \<open>v_marks\<close> is the number of
  failing attempts to write the produced marker.\<close>

datatype fin_fault = FinOk | FinLost | FinErr

record reclaim_env =
  v_check_clk :: int
  v_mark_clk :: int
  v_finish_clk :: int
  v_check_fails :: bool
  v_del_fails :: bool
  v_produce_fails :: bool
  v_marks :: nat
  v_finish :: fin_fault
  v_abort_fails :: bool

datatype reclaim_error = ECheck | EDecode | EEncode | EMissingTopic | EProduce | EMark | EFinish | EFence
datatype reclaim_out = ROk | RErr reclaim_error | RPanic

definition abort_env :: "reclaim_env \<Rightarrow> string \<Rightarrow> workset \<Rightarrow> workset" where
  "abort_env v j W = (if v_abort_fails v then W else abortReclaim j W)"

definition markProducedRetry :: "reclaim_env \<Rightarrow> string \<Rightarrow> string \<Rightarrow> workset \<Rightarrow> workset \<times> bool" where
  "markProducedRetry v j f W =
     (if v_marks v < 5 then (markProduced (v_mark_clk v) j f producedMarkerTTL W, True) else (W, False))"

definition finishReclaimChecked :: "reclaim_env \<Rightarrow> entry \<Rightarrow> workset \<Rightarrow> workset \<times> reclaim_out" where
  "finishReclaimChecked v e W =
     (case v_finish v of
        FinErr \<Rightarrow> (W, RErr EFinish)
      | FinLost \<Rightarrow> (fst (finish_script (v_finish_clk v) e W), RErr EFinish)
      | FinOk \<Rightarrow> (let (W1, n) = finish_script (v_finish_clk v) e W
                 in (W1, if n = 1 then ROk else RErr EFence)))"

text \<open>\<open>deadLetterUnreclaimable\<close>; \<open>txt\<close> gives the text of an error.\<close>

definition dlt_body :: "codec \<Rightarrow> (reclaim_error \<Rightarrow> string) \<Rightarrow> entry \<Rightarrow> string \<Rightarrow> reclaim_error \<Rightarrow> string" where
  "dlt_body K txt e reason cause =
     jenc K (JObj [(''job_id'', JStr (e_job e)), (''dlt_type'', JStr ''workset_unreclaimable''),
       (''dlt_reason'', JStr reason), (''dlt_error_message'', JStr (txt cause)), (''topic'', JStr (e_topic e)),
       (''dlt_raw_payload'', JStr (case decodeEntryPayload K e of Some d \<Rightarrow> d | None \<Rightarrow> e_payload e))])"

definition deadLetterUnreclaimable ::
  "codec \<Rightarrow> (reclaim_error \<Rightarrow> string) \<Rightarrow> string \<Rightarrow> reclaim_env \<Rightarrow> entry \<Rightarrow> string \<Rightarrow> reclaim_error \<Rightarrow> workset
     \<Rightarrow> workset \<times> reclaim_out \<times> message list" where
  "deadLetterUnreclaimable K txt dlt v e reason cause W =
     (if dlt = '''' then (abort_env v (e_job e) W, RErr cause, [])
      else if v_produce_fails v then (abort_env v (e_job e) W, RErr cause, [])
      else (fst (finishReclaimChecked v e W), ROk, [(dlt, e_job e, dlt_body K txt e reason cause)]))"

definition produce_and_finish ::
  "reclaim_env \<Rightarrow> entry \<Rightarrow> string \<Rightarrow> workset \<Rightarrow> workset \<times> reclaim_out \<times> message list" where
  "produce_and_finish v e body W =
     (if v_produce_fails v then (abort_env v (e_job e) W, RErr EProduce, [])
      else let (W1, marked) = markProducedRetry v (e_job e) (e_fence e) W;
               (W2, r) = finishReclaimChecked v e W1
           in (W2, if marked then r else if r = ROk then ROk else RErr EMark, [(e_topic e, e_job e, body)]))"

definition reclaimOne ::
  "codec \<Rightarrow> (reclaim_error \<Rightarrow> string) \<Rightarrow> string \<Rightarrow> reclaim_env \<Rightarrow> entry \<Rightarrow> workset
     \<Rightarrow> workset \<times> reclaim_out \<times> message list" where
  "reclaimOne K txt dlt v e W =
     (if v_check_fails v then (abort_env v (e_job e) W, RErr ECheck, [])
      else
        let already = producedFence (v_check_clk v) (e_job e) W;
            stale = already \<noteq> '''' \<and> already \<noteq> e_fence e;
            W1 = (if stale \<and> \<not> v_del_fails v then W\<lparr>produced := (produced W)(e_job e := None)\<rparr> else W)
        in if already \<noteq> '''' \<and> \<not> stale then (let (W2, r) = finishReclaimChecked v e W1 in (W2, r, []))
           else case decodeEntryPayload K e of
               None \<Rightarrow> deadLetterUnreclaimable K txt dlt v e ''decode'' EDecode W1
             | Some raw \<Rightarrow>
                 (case markReclaimPayload K raw of
                    MarkPanic \<Rightarrow> (W1, RPanic, [])
                  | MarkError \<Rightarrow> deadLetterUnreclaimable K txt dlt v e ''encode'' EEncode W1
                  | Marked body \<Rightarrow>
                      if e_topic e = '''' then deadLetterUnreclaimable K txt dlt v e ''missing_topic'' EMissingTopic W1
                      else produce_and_finish v e body W1))"

record reclaim_counts =
  r_checked :: nat
  r_reclaimed :: nat
  r_failed :: nat
  r_skipped :: nat

text \<open>The loop of \<open>ReclaimOrphans\<close>: for each orphan the Redis time and possible failure of its
  lock call, and the environment of its reclaim. A panic ends the sweep.\<close>

fun reclaim_loop ::
  "codec \<Rightarrow> (reclaim_error \<Rightarrow> string) \<Rightarrow> string \<Rightarrow> int \<Rightarrow> (entry \<times> int \<times> bool \<times> reclaim_env) list \<Rightarrow> reclaim_counts \<Rightarrow> workset
     \<Rightarrow> workset \<times> reclaim_counts option \<times> message list" where
  "reclaim_loop K txt dlt lockTTL [] n W = (W, Some n, [])"
| "reclaim_loop K txt dlt lockTTL ((e, clk, lock_fails, v) # es) n W =
     (if lock_fails then reclaim_loop K txt dlt lockTTL es (n\<lparr>r_failed := r_failed n + 1\<rparr>) W
      else let (W1, won) = beginReclaim clk (e_job e) lockTTL W in
        if \<not> won then reclaim_loop K txt dlt lockTTL es (n\<lparr>r_skipped := r_skipped n + 1\<rparr>) W1
        else let (W2, r, ms) = reclaimOne K txt dlt v e W1 in
          case r of
            RPanic \<Rightarrow> (W2, None, ms)
          | RErr x \<Rightarrow> map_prod id (map_prod id ((@) ms))
                       (reclaim_loop K txt dlt lockTTL es (n\<lparr>r_failed := r_failed n + 1\<rparr>) W2)
          | ROk \<Rightarrow> map_prod id (map_prod id ((@) ms))
                       (reclaim_loop K txt dlt lockTTL es (n\<lparr>r_reclaimed := r_reclaimed n + 1\<rparr>) W2))"

definition reclaimOrphans ::
  "codec \<Rightarrow> (reclaim_error \<Rightarrow> string) \<Rightarrow> string \<Rightarrow> int \<Rightarrow> int \<Rightarrow> nat \<Rightarrow> int \<Rightarrow> int \<Rightarrow> (int \<times> bool \<times> reclaim_env) list \<Rightarrow> workset
     \<Rightarrow> workset \<times> reclaim_counts option \<times> message list" where
  "reclaimOrphans K txt dlt clk now limit lockTTL grace envs W =
     (let (W1, orphans) = listOrphans clk now limit grace W
      in reclaim_loop K txt dlt lockTTL (zip orphans envs)
           \<lparr>r_checked = length orphans, r_reclaimed = 0, r_failed = 0, r_skipped = 0\<rparr> W1)"

end
