(* ===== verification/Workset_Props.thy ===== *)
theory Workset_Props
  imports Workset
begin

text \<open>
  Ownership over arbitrary interleavings of the calls of \<^verbatim>\<open>pkg/workset\<close>. \<open>wop\<close> is one Redis call
  of a worker or of a reclaimer, \<open>wexec\<close> runs it, \<open>wsys\<close> is the working set with what the
  reclaimers have read so far: \<open>scanned\<close> candidates, \<open>doomed\<close> entries whose consumer was seen dead,
  and \<open>stale\<close> ids to prune. The reclaim of one entry is thus a sequence of separate steps, which
  other clients may interleave.
\<close>

subsection \<open>Calls\<close>

datatype wop =
    WClaim codec int string string claim_params
  | WRenew string string string int
  | WComplete string string string
  | WTouch string string int
  | WDelete string
  | WScan int nat int
  | WPrune
  | WDead nat
  | WBegin string int
  | WMark string string
  | WUnmark string
  | WFinish entry
  | WAbort string

record wsys =
  work :: workset
  scanned :: "entry list"
  doomed :: "entry list"
  stale :: "string list"

fun wexec :: "int \<Rightarrow> wop \<Rightarrow> wsys \<Rightarrow> wsys \<times> claim_result option" where
  "wexec clk (WClaim K now stamp fence p) s =
     (let (W, r) = claim K clk now stamp fence p (work s) in (s\<lparr>work := W\<rparr>, Some r))"
| "wexec clk (WRenew j c f ttl) s = (s\<lparr>work := fst (renew clk j c f ttl (work s))\<rparr>, None)"
| "wexec clk (WComplete j c f) s = (s\<lparr>work := complete_job clk j c f (work s)\<rparr>, None)"
| "wexec clk (WTouch hb c ttl) s = (s\<lparr>work := touchConsumer clk hb c ttl (work s)\<rparr>, None)"
| "wexec clk (WDelete c) s = (s\<lparr>work := deleteConsumer c (work s)\<rparr>, None)"
| "wexec clk (WScan now limit grace) s =
     (let (cands, missing) = list_scan clk now limit grace (work s)
      in (s\<lparr>scanned := cands, stale := missing\<rparr>, None))"
| "wexec clk WPrune s = (s\<lparr>work := list_prune (stale s) (work s), stale := []\<rparr>, None)"
| "wexec clk (WDead limit) s =
     (s\<lparr>doomed := doomed s @ list_dead clk limit (scanned s) (work s), scanned := []\<rparr>, None)"
| "wexec clk (WBegin j ttl) s = (s\<lparr>work := fst (beginReclaim clk j ttl (work s))\<rparr>, None)"
| "wexec clk (WMark j f) s = (s\<lparr>work := markProduced clk j f producedMarkerTTL (work s)\<rparr>, None)"
| "wexec clk (WUnmark j) s = (s\<lparr>work := (work s)\<lparr>produced := (produced (work s))(j := None)\<rparr>\<rparr>, None)"
| "wexec clk (WFinish e) s =
     (if e \<in> set (doomed s) then s\<lparr>work := fst (finish_script clk e (work s))\<rparr> else s, None)"
| "wexec clk (WAbort j) s = (s\<lparr>work := abortReclaim j (work s)\<rparr>, None)"

fun wrun :: "(int \<times> wop) list \<Rightarrow> wsys \<Rightarrow> wsys \<times> (wop \<times> claim_result) list" where
  "wrun [] s = (s, [])"
| "wrun ((clk, x) # xs) s =
     (let (s1, r) = wexec clk x s; (s2, rs) = wrun xs s1
      in (s2, (case r of None \<Rightarrow> rs | Some c \<Rightarrow> (x, c) # rs)))"

text \<open>\<open>owned j c f s\<close>: the job is held by consumer \<open>c\<close> under fence \<open>f\<close>, and no reclaimer has seen that
  holder dead.\<close>

definition well_keyed :: "workset \<Rightarrow> bool" where
  "well_keyed W = (\<forall>j e d. jobs W j = Some (Cell (Stored e) d) \<longrightarrow> e_job e = j)"

definition owned :: "string \<Rightarrow> string \<Rightarrow> string \<Rightarrow> wsys \<Rightarrow> bool" where
  "owned j c f s =
     ((\<exists>e d. jobs (work s) j = Some (Cell (Stored e) d) \<and> e_consumer e = c \<and> e_fence e = f) \<and>
      (\<forall>e \<in> set (doomed s). e_job e = j \<longrightarrow> e_fence e \<noteq> f) \<and>
      (\<forall>e \<in> set (scanned s). e_job e = j \<and> e_fence e = f \<longrightarrow> e_consumer e = c) \<and> well_keyed (work s))"

text \<open>Along the run the lease and the heartbeat of the holder are alive at every call, and the holder
  neither completes the job, nor deletes its heartbeat, nor renews it for less than a second.\<close>

fun lets_go :: "string \<Rightarrow> string \<Rightarrow> string \<Rightarrow> wop \<Rightarrow> bool" where
  "lets_go j c f (WComplete j' c' f') = (j' = j \<and> c' = c \<and> f' = f)"
| "lets_go j c f (WDelete c') = (c' = c)"
| "lets_go j c f (WRenew j' c' f' ttl) = (j' = j \<and> c' = c \<and> f' = f \<and> 0 < ttl \<and> ttl < second)"
| "lets_go j c f _ = False"

fun holder_alive :: "string \<Rightarrow> string \<Rightarrow> string \<Rightarrow> (int \<times> wop) list \<Rightarrow> wsys \<Rightarrow> bool" where
  "holder_alive j c f [] s = True"
| "holder_alive j c f ((clk, x) # xs) s =
     (purge_key clk (jobs (work s) j) \<noteq> None \<and> purge_key clk (live (work s) c) \<noteq> None \<and>
      \<not> lets_go j c f x \<and> holder_alive j c f xs (fst (wexec clk x s)))"

subsection \<open>Reads after writes\<close>

lemma purge_work_sel [simp]:
  "jobs (purge_work clk W) j = purge_key clk (jobs W j)" "live (purge_work clk W) c = purge_key clk (live W c)"
  "by_consumer (purge_work clk W) = by_consumer W" "windex (purge_work clk W) = windex W"
  "reclaiming (purge_work clk W) j = purge_key clk (reclaiming W j)"
  "produced (purge_work clk W) j = purge_key clk (produced W j)"
  by (simp_all add: purge_work_def)

lemma job_writes [simp]:
  "jobs (set_job j k W) = (jobs W)(j := k)" "jobs (srem_job c j W) = jobs W" "jobs (sadd_job c j W) = jobs W"
  "jobs (seed_live clk hbs c W) = jobs W" "windex (set_job j k W) = windex W" "windex (srem_job c j W) = windex W"
  "windex (sadd_job c j W) = windex W" "windex (seed_live clk hbs c W) = windex W"
  "live (set_job j k W) = live W" "live (srem_job c j W) = live W" "live (sadd_job c j W) = live W"
  "by_consumer (set_job j k W) = by_consumer W" "by_consumer (seed_live clk hbs c W) = by_consumer W"
  by (simp_all add: set_job_def srem_job_def sadd_job_def seed_live_def)

lemma live_seed: "live (seed_live clk hbs c W) c = set_key_ex clk (hbs * 1000) v \<or>
    live (seed_live clk hbs c W) c = expire_key clk (hbs * 1000) (live W c)"
  if "v = ''{\"consumer_id\":\"'' @ c @ ''\"}''"
  using that by (simp add: seed_live_def)

lemma purge_Stored:
  "k = Some (Cell v d) \<Longrightarrow> purge_key clk k \<noteq> None \<Longrightarrow> purge_key clk k = Some (Cell v d)"
  by (simp add: purge_key_def split: if_splits)

lemma expire_Cell [simp]: "0 < n \<Longrightarrow> expire_key clk n (Some (Cell v d)) = Some (Cell v (Some (clk + n)))"
  by (simp add: expire_key_def)

lemma claim_secs_pos:
  "0 < seconds (claim_ttl p)"
  unfolding claim_ttl_def floorLeaseTTL_def resolveGrace_def seconds_def second_def reclaimSafetyBuffer_def
    DefaultOrphanGrace_def defaultHeartbeatTTL_def defaultLeaseTTL_def Let_def
  by (auto split: if_splits)


subsection \<open>What each call does to the job keys\<close>

lemma marshal_sel [simp]:
  "e_job (marshalEntry K e) = e_job e" "e_consumer (marshalEntry K e) = e_consumer e"
  "e_fence (marshalEntry K e) = e_fence e" "e_topic (marshalEntry K e) = e_topic e"
  "e_claimed_unix (marshalEntry K e) = e_claimed_unix e"
  by (simp_all add: marshalEntry_def split: option.splits)

lemma claim_entry_sel [simp]:
  "e_job (claim_entry p f stamp now) = c_job p" "e_consumer (claim_entry p f stamp now) = c_consumer p"
  "e_fence (claim_entry p f stamp now) = f" "e_payload (claim_entry p f stamp now) = c_payload p"
  "e_encoding (claim_entry p f stamp now) = ''''" "e_topic (claim_entry p f stamp now) = c_topic p"
  "e_claimed_unix (claim_entry p f stamp now) = now"
  by (simp_all add: claim_entry_def)

lemma take_job_jobs [simp]:
  "jobs (take_job clk j c raw ttl now hbs W) = (jobs W)(j := set_key_ex clk (ttl * 1000) (Stored raw))"
  by (simp add: take_job_def)

lemma claim_script_other:
  "k \<noteq> j \<Longrightarrow> jobs (fst (claim_script clk j c raw ttl now grace hb W)) k = purge_key clk (jobs W k)"
  by (simp add: claim_script_def Let_def split: option.splits cell.splits stored.splits)

lemma claim_script_foreign:
  assumes "purge_key clk (jobs W j) = Some (Cell (Stored e) d)" "e_consumer e \<noteq> ''''" "e_consumer e \<noteq> c"
    "steal_blocked now grace e (purge_work clk W)"
  shows "claim_script clk j c raw ttl now grace hb W = (purge_work clk W, 0)"
  using assms by (simp add: claim_script_def Let_def)

lemma claim_script_same:
  assumes "purge_key clk (jobs W j) = Some (Cell (Stored e) d)" "e_consumer e = c" "0 < ttl"
  shows "jobs (fst (claim_script clk j c raw ttl now grace hb W)) j = Some (Cell (Stored e) (Some (clk + ttl * 1000)))"
    "snd (claim_script clk j c raw ttl now grace hb W) = 2"
  using assms by (simp_all add: claim_script_def Let_def)

lemma claim_script_cases:
  assumes "0 < ttl"
  shows "jobs (fst (claim_script clk j c raw ttl now grace hb W)) j \<in>
    {purge_key clk (jobs W j), set_key_ex clk (ttl * 1000) (Stored raw), expire_key clk (ttl * 1000) (purge_key clk (jobs W j))}"
  by (simp add: claim_script_def Let_def split: option.splits cell.splits stored.splits)

lemma finish_other: "k \<noteq> e_job e \<Longrightarrow> jobs (fst (finish_script clk e W)) k = purge_key clk (jobs W k)"
  by (simp add: finish_script_def Let_def split: option.splits cell.splits stored.splits)

lemma finish_mismatch:
  assumes "purge_key clk (jobs W (e_job e)) = Some (Cell (Stored x) d)" "e_fence x \<noteq> e_fence e"
  shows "jobs (fst (finish_script clk e W)) k = purge_key clk (jobs W k)" "snd (finish_script clk e W) = 0"
  using assms by (simp_all add: finish_script_def Let_def)

lemma finish_match:
  assumes "\<forall>x d. purge_key clk (jobs W (e_job e)) = Some (Cell (Stored x) d) \<longrightarrow> e_fence x = e_fence e"
  shows "jobs (fst (finish_script clk e W)) (e_job e) = None" "snd (finish_script clk e W) = 1"
    "produced (fst (finish_script clk e W)) (e_job e) = None"
  using assms by (auto simp: finish_script_def Let_def split: option.splits cell.splits stored.splits)

lemma list_prune_jobs [simp]: "jobs (list_prune ms W) = jobs W" "live (list_prune ms W) = live W"
  "produced (list_prune ms W) = produced W"
  by (simp_all add: list_prune_def)

text \<open>A value of a job key after any call: what was there (possibly expired or with a new deadline),
  nothing, or the entry just claimed.\<close>

lemma well_keyed_step:
  assumes "well_keyed W" and "\<And>j e d. jobs W' j = Some (Cell (Stored e) d) \<Longrightarrow>
    e_job e = j \<or> (\<exists>d'. jobs W j = Some (Cell (Stored e) d'))"
  shows "well_keyed W'"
  using assms unfolding well_keyed_def by blast

lemma purge_SomeD: "purge_key clk k = Some c \<Longrightarrow> k = Some c"
  by (auto simp: purge_key_def split: option.splits if_splits)

lemma expire_SomeD: "expire_key clk n k = Some (Cell v d) \<Longrightarrow> \<exists>d'. k = Some (Cell v d')"
  by (auto simp: expire_key_def split: option.splits if_splits) (metis cell.collapse)

lemma claim_well_keyed:
  assumes "well_keyed W"
  shows "well_keyed (fst (claim K clk now stamp fence p W))"
proof (cases "c_job p = ''''")
  case False
  let ?s = "claim_script clk (c_job p) (c_consumer p) (marshalEntry K (claim_entry p fence stamp now))
       (seconds (claim_ttl p)) now (seconds (resolveGrace (c_grace p))) (seconds (claim_hb p)) W"
  have eq: "fst (claim K clk now stamp fence p W) = fst ?s" using False by (simp add: claim_def run_claim_def split_beta)
  show ?thesis
    unfolding eq
  proof (rule well_keyed_step [OF assms])
    fix j e d assume st: "jobs (fst ?s) j = Some (Cell (Stored e) d)"
    show "e_job e = j \<or> (\<exists>d'. jobs W j = Some (Cell (Stored e) d'))"
    proof (cases "j = c_job p")
      case True
      show ?thesis
        using claim_script_cases [OF claim_secs_pos [of p], of clk j "c_consumer p" "marshalEntry K (claim_entry p fence stamp now)"
            now "seconds (resolveGrace (c_grace p))" "seconds (claim_hb p)" W] st True
        by (auto simp: set_key_ex_def dest!: sym [of "Some _"] dest: purge_SomeD dest!: expire_SomeD)
    next
      case False
      then show ?thesis using st by (auto simp: claim_script_other dest: purge_SomeD)
    qed
  qed
qed (use assms in \<open>simp add: claim_def\<close>)

lemma renew_jobs:
  "jobs (fst (renew_script clk j c f ttl W)) k =
     (if k = j \<and> (\<exists>e d. purge_key clk (jobs W j) = Some (Cell (Stored e) d) \<and> e_consumer e = c \<and> e_fence e = f)
      then expire_key clk (ttl * 1000) (purge_key clk (jobs W k)) else purge_key clk (jobs W k))"
  by (auto simp: renew_script_def Let_def split: option.splits cell.splits stored.splits)

lemma complete_jobs:
  "jobs (fst (complete_script clk j c f W)) k =
     (if k = j \<and> (\<exists>e d. purge_key clk (jobs W j) = Some (Cell (Stored e) d) \<and> e_consumer e = c \<and> e_fence e = f)
      then None else purge_key clk (jobs W k))"
  by (auto simp: complete_script_def Let_def split: option.splits cell.splits stored.splits)


subsection \<open>The holder keeps its job\<close>

lemma holds_job:
  assumes "owned j c f s" "purge_key clk (jobs (work s) j) \<noteq> None"
  obtains e d where "purge_key clk (jobs (work s) j) = Some (Cell (Stored e) d)" "jobs (work s) j = Some (Cell (Stored e) d)"
    "e_consumer e = c" "e_fence e = f"
proof -
  obtain e d where "jobs (work s) j = Some (Cell (Stored e) d)" "e_consumer e = c" "e_fence e = f"
    using assms(1) by (auto simp: owned_def)
  then show thesis using that [of e d] purge_Stored [OF _ assms(2)] by simp
qed

lemma claim_keeps:
  assumes o: "owned j c f s" and a: "purge_key clk (jobs (work s) j) \<noteq> None" "purge_key clk (live (work s) c) \<noteq> None"
    and c: "c \<noteq> ''''"
  shows "\<exists>e d. jobs (fst (claim K clk now stamp fence p (work s))) j = Some (Cell (Stored e) d) \<and> e_consumer e = c \<and> e_fence e = f"
    and "c_job p = j \<Longrightarrow> c_job p \<noteq> '''' \<Longrightarrow> c_consumer p \<noteq> c \<Longrightarrow> snd (claim K clk now stamp fence p (work s)) = ClaimLost"
proof -
  obtain e d where e: "purge_key clk (jobs (work s) j) = Some (Cell (Stored e) d)" "jobs (work s) j = Some (Cell (Stored e) d)"
    "e_consumer e = c" "e_fence e = f" using holds_job [OF o a(1)] .
  have lost: "run_claim K clk now stamp fence p (work s) = (purge_work clk (work s), 0)"
    if "c_job p = j" "c_consumer p \<noteq> c"
    unfolding run_claim_def using that e c a(2)
    by (intro claim_script_foreign [of clk "work s" _ e d]) (simp_all add: steal_blocked_def)
  show "c_job p = j \<Longrightarrow> c_job p \<noteq> '''' \<Longrightarrow> c_consumer p \<noteq> c \<Longrightarrow> snd (claim K clk now stamp fence p (work s)) = ClaimLost"
    using lost by (simp add: claim_def claim_outcome_def)
  consider "c_job p = ''''" | "c_job p \<noteq> ''''" "c_job p \<noteq> j" | "c_job p \<noteq> ''''" "c_job p = j" "c_consumer p \<noteq> c" | "c_job p \<noteq> ''''" "c_job p = j" "c_consumer p = c"
    by blast
  then show "\<exists>e d. jobs (fst (claim K clk now stamp fence p (work s))) j = Some (Cell (Stored e) d) \<and> e_consumer e = c \<and> e_fence e = f"
  proof cases
    case 1
    then show ?thesis using e by (simp add: claim_def)
  next
    case 2
    then show ?thesis using e by (simp add: claim_def run_claim_def split_beta claim_script_other)
  next
    case 3
    then show ?thesis using e lost by (simp add: claim_def)
  next
    case 4
    have "jobs (fst (run_claim K clk now stamp fence p (work s))) j = Some (Cell (Stored e) (Some (clk + seconds (claim_ttl p) * 1000)))"
      unfolding run_claim_def using e 4 claim_secs_pos by (simp add: claim_script_same)
    then show ?thesis using e 4 by (simp add: claim_def split_beta)
  qed
qed

lemma owned_work:
  assumes "owned j c f s" "\<exists>e d. jobs W j = Some (Cell (Stored e) d) \<and> e_consumer e = c \<and> e_fence e = f" "well_keyed W"
  shows "owned j c f (s\<lparr>work := W\<rparr>)"
  using assms by (auto simp: owned_def)

lemma scan_entries:
  assumes "e \<in> set (fst (list_scan clk now limit grace W))"
  obtains k where "getEntry clk k W = Some (Stored e)" "k \<in> set (zrange_upto (now - seconds (resolveGrace grace)) ((if limit < 1 then 100 else limit) * 3) (windex W))"
  using assms
  by (auto simp: list_scan_def Let_def List.map_filter_def split: option.splits stored.splits)

lemma getEntry_Some: "getEntry clk k W = Some v \<Longrightarrow> \<exists>d. jobs W k = Some (Cell v d)"
  by (auto simp: getEntry_def dest!: purge_SomeD) (metis cell.collapse)

lemma owned_scan:
  assumes o: "owned j c f s"
  shows "owned j c f (s\<lparr>scanned := fst (list_scan clk now limit grace (work s)), stale := ms\<rparr>)"
proof -
  have wk: "well_keyed (work s)" using o by (simp add: owned_def)
  have "e_consumer e = c"
    if e: "e \<in> set (fst (list_scan clk now limit grace (work s)))" "e_job e = j" "e_fence e = f" for e
  proof -
    obtain k where "getEntry clk k (work s) = Some (Stored e)" using scan_entries [OF e(1)] by metis
    then obtain d where "jobs (work s) k = Some (Cell (Stored e) d)" using getEntry_Some by blast
    moreover then have "k = j" using wk e(2) unfolding well_keyed_def by metis
    ultimately show ?thesis using o by (auto simp: owned_def)
  qed
  then show ?thesis using o by (auto simp: owned_def)
qed

lemma owned_dead:
  assumes o: "owned j c f s" and a: "purge_key clk (live (work s) c) \<noteq> None"
  shows "owned j c f (s\<lparr>doomed := doomed s @ list_dead clk limit (scanned s) (work s), scanned := []\<rparr>)"
proof -
  have "e_fence e \<noteq> f" if "e \<in> set (list_dead clk limit (scanned s) (work s))" "e_job e = j" for e
    using that o a by (auto simp: list_dead_def owned_def dest!: in_set_takeD)
  then show ?thesis using o by (auto simp: owned_def)
qed

lemma owned_finish:
  assumes o: "owned j c f s" and a: "purge_key clk (jobs (work s) j) \<noteq> None" and e: "e \<in> set (doomed s)"
  shows "owned j c f (s\<lparr>work := fst (finish_script clk e (work s))\<rparr>)"
proof (rule owned_work [OF o])
  obtain x d where x: "purge_key clk (jobs (work s) j) = Some (Cell (Stored x) d)" "e_consumer x = c" "e_fence x = f"
    using holds_job [OF o a] .
  show "\<exists>x d. jobs (fst (finish_script clk e (work s))) j = Some (Cell (Stored x) d) \<and> e_consumer x = c \<and> e_fence x = f"
  proof (cases "e_job e = j")
    case True
    then have "e_fence e \<noteq> f" using o e by (auto simp: owned_def)
    then show ?thesis using finish_mismatch(1) [of clk "work s" e x d j] x True by auto
  next
    case False
    then show ?thesis using x by (simp add: finish_other)
  qed
  have "well_keyed (work s)" using o by (simp add: owned_def)
  then show "well_keyed (fst (finish_script clk e (work s)))"
  proof (rule well_keyed_step)
    fix k x d assume "jobs (fst (finish_script clk e (work s))) k = Some (Cell (Stored x) d)"
    then show "e_job x = k \<or> (\<exists>d'. jobs (work s) k = Some (Cell (Stored x) d'))"
      by (cases "k = e_job e") (auto simp: finish_other finish_script_def Let_def dest: purge_SomeD split: option.splits cell.splits stored.splits if_splits)
  qed
qed


lemma owned_renew:
  assumes o: "owned j c f s" and a: "purge_key clk (jobs (work s) j) \<noteq> None"
    and t: "k = j \<Longrightarrow> c' = c \<Longrightarrow> f' = f \<Longrightarrow> 0 < n"
  shows "owned j c f (s\<lparr>work := fst (renew_script clk k c' f' n (work s))\<rparr>)"
proof (rule owned_work [OF o])
  obtain x d where x: "purge_key clk (jobs (work s) j) = Some (Cell (Stored x) d)" "jobs (work s) j = Some (Cell (Stored x) d)"
    "e_consumer x = c" "e_fence x = f" using holds_job [OF o a] .
  show "\<exists>x d. jobs (fst (renew_script clk k c' f' n (work s))) j = Some (Cell (Stored x) d) \<and> e_consumer x = c \<and> e_fence x = f"
    using x t by (auto simp: renew_jobs)
  have "well_keyed (work s)" using o by (simp add: owned_def)
  then show "well_keyed (fst (renew_script clk k c' f' n (work s)))"
  proof (rule well_keyed_step)
    fix i x d assume "jobs (fst (renew_script clk k c' f' n (work s))) i = Some (Cell (Stored x) d)"
    then show "e_job x = i \<or> (\<exists>d'. jobs (work s) i = Some (Cell (Stored x) d'))"
      by (auto simp: renew_jobs split: if_splits dest!: expire_SomeD dest: purge_SomeD)
  qed
qed

lemma owned_complete:
  assumes o: "owned j c f s" and a: "purge_key clk (jobs (work s) j) \<noteq> None" and n: "\<not> (k = j \<and> c' = c \<and> f' = f)"
  shows "owned j c f (s\<lparr>work := fst (complete_script clk k c' f' (work s))\<rparr>)"
proof (rule owned_work [OF o])
  obtain x d where x: "purge_key clk (jobs (work s) j) = Some (Cell (Stored x) d)" "e_consumer x = c" "e_fence x = f"
    using holds_job [OF o a] .
  then show "\<exists>x d. jobs (fst (complete_script clk k c' f' (work s))) j = Some (Cell (Stored x) d) \<and> e_consumer x = c \<and> e_fence x = f"
    using n by (auto simp: complete_jobs)
  have "well_keyed (work s)" using o by (simp add: owned_def)
  then show "well_keyed (fst (complete_script clk k c' f' (work s)))"
    by (rule well_keyed_step) (auto simp: complete_jobs split: if_splits dest: purge_SomeD)
qed

lemma owned_same_jobs: "owned j c f s \<Longrightarrow> jobs W = jobs (work s) \<Longrightarrow> owned j c f (s\<lparr>work := W\<rparr>)"
  by (rule owned_work) (auto simp: owned_def well_keyed_def)

lemma owner_step:
  assumes o: "owned j c f s" and c: "c \<noteq> ''''"
    and a: "purge_key clk (jobs (work s) j) \<noteq> None" "purge_key clk (live (work s) c) \<noteq> None"
    and x: "\<not> lets_go j c f x"
  shows "owned j c f (fst (wexec clk x s))"
proof (cases x)
  case (WClaim K now stamp fence p)
  have "well_keyed (work s)" using o by (simp add: owned_def)
  then show ?thesis
    using owned_work [OF o claim_keeps(1) [OF o a c] claim_well_keyed] WClaim by (simp add: split_beta)
next
  case (WRenew k c' f' ttl)
  have "0 < seconds (if ttl \<le> 0 then defaultLeaseTTL else ttl)" if "k = j" "c' = c" "f' = f"
    using x WRenew that by (auto simp: seconds_def second_def defaultLeaseTTL_def)
  then show ?thesis
    using owned_renew [OF o a(1)] owned_same_jobs [OF o refl] WRenew by (simp add: renew_def split_beta)
next
  case (WComplete k c' f')
  then show ?thesis
    using owned_complete [OF o a(1)] owned_same_jobs [OF o refl] x by (simp add: complete_job_def)
next
  case (WScan now limit grace)
  then show ?thesis using owned_scan [OF o] by (simp add: split_beta)
next
  case (WDead limit)
  then show ?thesis using owned_dead [OF o a(2)] by simp
next
  case (WFinish e)
  then show ?thesis using owned_finish [OF o a(1)] o by simp
next
  case WPrune
  have "owned j c f (s\<lparr>work := list_prune (stale s) (work s)\<rparr>)" by (rule owned_same_jobs [OF o]) simp
  then show ?thesis using WPrune by (simp add: owned_def)
qed (use o in \<open>auto simp: touchConsumer_def deleteConsumer_def beginReclaim_def markProduced_def abortReclaim_def
      intro!: owned_same_jobs\<close>)

lemma holder_run:
  assumes "owned j c f s" "c \<noteq> ''''" "j \<noteq> ''''" "holder_alive j c f xs s"
  shows "owned j c f (fst (wrun xs s)) \<and>
    (\<forall>(x, r) \<in> set (snd (wrun xs s)). \<forall>K now stamp fence p. x = WClaim K now stamp fence p \<and> c_job p = j \<and> c_consumer p \<noteq> c \<longrightarrow> r = ClaimLost)"
  using assms(1,4)
proof (induction xs arbitrary: s)
  case (Cons a xs)
  obtain clk x where [simp]: "a = (clk, x)" by force
  have al: "purge_key clk (jobs (work s) j) \<noteq> None" "purge_key clk (live (work s) c) \<noteq> None" "\<not> lets_go j c f x"
    "holder_alive j c f xs (fst (wexec clk x s))"
    using Cons.prems(2) by simp_all
  have o: "owned j c f (fst (wexec clk x s))" using owner_step [OF Cons.prems(1) assms(2) al(1-3)] .
  have lost: "snd (wexec clk x s) = Some ClaimLost" if "x = WClaim K now stamp fence p" "c_job p = j" "c_consumer p \<noteq> c"
    for K now stamp fence p
    using claim_keeps(2) [OF Cons.prems(1) al(1,2) assms(2)] that assms(3) by (simp add: split_beta)
  show ?case
    using Cons.IH [OF o al(4)] lost by (auto simp: split_beta split: option.splits)
qed simp

end
