(* ===== verification/Workset_Claims.thy ===== *)
theory Workset_Claims
  imports Workset_Props
begin

text \<open>
  The properties of the working set: the lemmas on the orphan listing, the index, the reclaim of
  one entry and the pipelined claims, concrete runs, and the properties.
\<close>

subsection \<open>The index\<close>

text \<open>Every job that is held is in the index, so that a sweep can find it.\<close>

definition indexed :: "workset \<Rightarrow> bool" where
  "indexed W = (\<forall>j e d. jobs W j = Some (Cell (Stored e) d) \<longrightarrow> j \<in> fst ` set (windex W))"

lemma indexed_stepI:
  assumes "indexed W" "\<And>j e d. jobs W' j = Some (Cell (Stored e) d) \<Longrightarrow>
     j \<in> fst ` set (windex W') \<or> (\<exists>d'. jobs W j = Some (Cell (Stored e) d')) \<and> (j \<in> fst ` set (windex W) \<longrightarrow> j \<in> fst ` set (windex W'))"
  shows "indexed W'"
  using assms unfolding indexed_def by blast

lemma take_job_index [simp]: "windex (take_job clk j c raw ttl now hbs W) = zadd now j (windex W)"
  by (simp add: take_job_def)

lemma claim_script_index:
  "fst ` set (windex (fst (claim_script clk j c raw ttl now grace hb W))) \<in> {fst ` set (windex W), insert j (fst ` set (windex W))}"
  "jobs (fst (claim_script clk j c raw ttl now grace hb W)) j = purge_key clk (jobs W j) \<or>
     j \<in> fst ` set (windex (fst (claim_script clk j c raw ttl now grace hb W)))"
  by (simp_all add: claim_script_def Let_def del: set_zadd split: option.splits cell.splits stored.splits)

lemma indexed_claim: "indexed W \<Longrightarrow> indexed (fst (claim_script clk j c raw ttl now grace hb W))"
proof (erule indexed_stepI)
  fix k e d assume k: "jobs (fst (claim_script clk j c raw ttl now grace hb W)) k = Some (Cell (Stored e) d)"
  have mono: "k \<in> fst ` set (windex W) \<Longrightarrow> k \<in> fst ` set (windex (fst (claim_script clk j c raw ttl now grace hb W)))"
    using claim_script_index(1) [of clk j c raw ttl now grace hb W] by auto
  have "k \<in> fst ` set (windex (fst (claim_script clk j c raw ttl now grace hb W))) \<or> jobs W k = Some (Cell (Stored e) d)"
    using k claim_script_index(2) [of clk j c raw ttl now grace hb W]
    by (cases "k = j") (auto simp: claim_script_other dest!: sym [of "Some _"] dest: purge_SomeD)
  then show "k \<in> fst ` set (windex (fst (claim_script clk j c raw ttl now grace hb W))) \<or>
    (\<exists>d'. jobs W k = Some (Cell (Stored e) d')) \<and> (k \<in> fst ` set (windex W) \<longrightarrow>
       k \<in> fst ` set (windex (fst (claim_script clk j c raw ttl now grace hb W))))"
    using mono by blast
qed

lemma indexed_complete: "indexed W \<Longrightarrow> indexed (fst (complete_script clk j c f W))"
  by (erule indexed_stepI)
    (auto simp: complete_script_def Let_def image_iff split: option.splits cell.splits stored.splits if_splits dest: purge_SomeD)

lemma indexed_finish: "indexed W \<Longrightarrow> indexed (fst (finish_script clk e W))"
  by (erule indexed_stepI)
    (auto simp: finish_script_def Let_def image_iff split: option.splits cell.splits stored.splits if_splits dest: purge_SomeD)

lemma indexed_renew: "indexed W \<Longrightarrow> indexed (fst (renew_script clk j c f n W))"
proof (erule indexed_stepI)
  have "windex (fst (renew_script clk j c f n W)) = windex W"
    by (simp add: renew_script_def Let_def split: option.splits cell.splits stored.splits)
  then show "k \<in> fst ` set (windex (fst (renew_script clk j c f n W))) \<or> (\<exists>d'. jobs W k = Some (Cell (Stored e) d')) \<and>
     (k \<in> fst ` set (windex W) \<longrightarrow> k \<in> fst ` set (windex (fst (renew_script clk j c f n W))))"
    if "jobs (fst (renew_script clk j c f n W)) k = Some (Cell (Stored e) d)" for k e d
    using that by (auto simp: renew_jobs split: if_splits dest!: expire_SomeD dest: purge_SomeD)
qed

lemma fold_zrem: "set (fold zrem ms z) = {x \<in> set z. fst x \<notin> set ms}"
  by (induction ms arbitrary: z) auto

lemma prune_index: "fst ` set (windex (list_prune ms W)) = fst ` set (windex W) - set ms"
  by (auto simp: list_prune_def fold_zrem)

lemma scan_missing:
  "j \<in> set (snd (list_scan clk now limit grace W)) \<Longrightarrow> \<nexists>e. getEntry clk j W = Some (Stored e)"
  by (auto simp: list_scan_def Let_def List.map_filter_def split: option.splits stored.splits)

text \<open>The listing, taken as one step at one Redis time, prunes only ids whose entry is gone or unreadable.\<close>

lemma indexed_list:
  assumes "indexed W"
  shows "indexed (purge_work clk (fst (listOrphans clk now limit grace W)))"
proof (rule indexed_stepI [OF assms])
  fix j e d assume "jobs (purge_work clk (fst (listOrphans clk now limit grace W))) j = Some (Cell (Stored e) d)"
  then have j: "purge_key clk (jobs W j) = Some (Cell (Stored e) d)" by (simp add: listOrphans_def split_beta Let_def)
  then have "getEntry clk j W = Some (Stored e)" by (simp add: getEntry_def)
  then have "j \<notin> set (snd (list_scan clk now limit grace W))" using scan_missing by blast
  then show "j \<in> fst ` set (windex (purge_work clk (fst (listOrphans clk now limit grace W)))) \<or>
    (\<exists>d'. jobs W j = Some (Cell (Stored e) d')) \<and> (j \<in> fst ` set (windex W) \<longrightarrow>
       j \<in> fst ` set (windex (purge_work clk (fst (listOrphans clk now limit grace W)))))"
    using j by (auto simp: listOrphans_def split_beta Let_def prune_index dest: purge_SomeD)
qed

subsection \<open>The orphan listing\<close>

definition lim_of :: "nat \<Rightarrow> nat" where "lim_of limit = (if limit < 1 then 100 else limit)"

definition aged :: "int \<Rightarrow> int \<Rightarrow> workset \<Rightarrow> string list" where
  "aged now grace W = map fst (filter (\<lambda>(_, s). s \<le> now - seconds (resolveGrace grace)) (windex W))"

lemma scan_set:
  "set (fst (list_scan clk now limit grace W)) =
     {e. \<exists>j \<in> set (take (lim_of limit * 3) (aged now grace W)). getEntry clk j W = Some (Stored e)}"
  by (force simp: list_scan_def Let_def List.map_filter_def zrange_upto_def aged_def lim_of_def
      split: option.splits stored.splits)

lemma orphans_eq:
  "snd (listOrphans clk now limit grace W) =
     take (lim_of limit) (filter (\<lambda>e. purge_key clk (live W (e_consumer e)) = None) (fst (list_scan clk now limit grace W)))"
  by (simp add: listOrphans_def split_beta Let_def list_dead_def lim_of_def)

subsection \<open>Reclaiming one entry\<close>

lemma finish_checked_cases:
  assumes "\<forall>x d. jobs W (e_job e) = Some (Cell (Stored x) d) \<longrightarrow> e_fence x = e_fence e"
  shows "jobs (fst (finishReclaimChecked v e W)) (e_job e) = None \<or> v_finish v = FinErr \<and> fst (finishReclaimChecked v e W) = W"
proof -
  have "\<forall>x d. purge_key (v_finish_clk v) (jobs W (e_job e)) = Some (Cell (Stored x) d) \<longrightarrow> e_fence x = e_fence e"
    using assms by (auto dest: purge_SomeD)
  then show ?thesis
    using finish_match(1) by (auto simp: finishReclaimChecked_def split_beta split: fin_fault.splits)
qed

lemma abort_sel [simp]: "jobs (abort_env v j W) = jobs W" "produced (abort_env v j W) = produced W"
  "windex (abort_env v j W) = windex W"
  by (simp_all add: abort_env_def abortReclaim_def)

text \<open>The attempts of successive sweeps at one entry. A sweep only reclaims what it has just listed, so an
  attempt takes place only while the entry is still stored.\<close>

fun reclaim_tries ::
  "codec \<Rightarrow> (reclaim_error \<Rightarrow> string) \<Rightarrow> string \<Rightarrow> entry \<Rightarrow> (int \<times> reclaim_env) list \<Rightarrow> workset \<Rightarrow> workset \<times> message list" where
  "reclaim_tries K txt dlt e [] W = (W, [])"
| "reclaim_tries K txt dlt e ((clk, v) # vs) W =
     (if getEntry clk (e_job e) W = Some (Stored e)
      then let (W1, r, ms) = reclaimOne K txt dlt v e W; (W2, ms') = reclaim_tries K txt dlt e vs W1
           in (W2, ms @ ms')
      else reclaim_tries K txt dlt e vs W)"

definition marked :: "int \<Rightarrow> entry \<Rightarrow> workset \<Rightarrow> bool" where
  "marked T e W = (\<exists>d \<ge> T + 3600000. produced W (e_job e) = Some (Cell (e_fence e) (Some d)))"

lemma marked_check:
  assumes "marked T e W" "clk < T + 3600000" "e_job e \<noteq> ''''"
  shows "producedFence clk (e_job e) W = e_fence e"
  using assms by (auto simp: marked_def producedFence_def purge_key_def cell_live_def key_val_def)

lemma stored_unique:
  "getEntry clk j W = Some (Stored e) \<Longrightarrow> jobs W j = Some (Cell (Stored x) d) \<Longrightarrow> x = e"
  using getEntry_Some by fastforce

lemma tries_quiet:
  assumes "marked T e W \<or> jobs W (e_job e) = None" "e_job e \<noteq> ''''" "e_fence e \<noteq> ''''"
    "\<forall>(clk, v) \<in> set vs. v_check_clk v < T + 3600000"
  shows "snd (reclaim_tries K txt dlt e vs W) = []"
  using assms(1,4)
proof (induction vs arbitrary: W)
  case (Cons a vs)
  obtain clk v where [simp]: "a = (clk, v)" by force
  show ?case
  proof (cases "getEntry clk (e_job e) W = Some (Stored e)")
    case True
    then have "jobs W (e_job e) \<noteq> None" by (auto dest!: getEntry_Some)
    then have m: "marked T e W" using Cons.prems(1) by auto
    have fence: "\<forall>x d. jobs W (e_job e) = Some (Cell (Stored x) d) \<longrightarrow> e_fence x = e_fence e"
      using stored_unique [OF True] by blast
    let ?W = "fst (finishReclaimChecked v e W)"
    have r: "reclaimOne K txt dlt v e W = (if v_check_fails v then (abort_env v (e_job e) W, RErr ECheck, [])
      else (?W, snd (finishReclaimChecked v e W), []))"
      using marked_check [OF m _ assms(2)] Cons.prems(2) assms(3) by (simp add: reclaimOne_def Let_def split_beta)
    have "marked T e (abort_env v (e_job e) W)" using m by (simp add: marked_def)
    moreover have "marked T e ?W \<or> jobs ?W (e_job e) = None" using finish_checked_cases [OF fence, of v] m by auto
    ultimately show ?thesis using Cons.IH [of "abort_env v (e_job e) W"] Cons.IH [of ?W] Cons.prems(2) True r
      by (auto simp: split_beta)
  next
    case False
    then show ?thesis using Cons by (simp add: split_beta)
  qed
qed simp


lemma tries_once:
  assumes e: "e_job e \<noteq> ''''" "e_fence e \<noteq> ''''" "e_topic e \<noteq> ''''"
    and body: "decodeEntryPayload K e = Some raw" "markReclaimPayload K raw = Marked body"
    and env: "\<forall>(clk, v) \<in> set vs. T \<le> v_mark_clk v \<and> v_check_clk v < T + 3600000 \<and> v_marks v < 5"
  shows "snd (reclaim_tries K txt dlt e vs W) \<in> {[], [(e_topic e, e_job e, body)]}"
  using env
proof (induction vs arbitrary: W)
  case (Cons a vs)
  obtain clk v where [simp]: "a = (clk, v)" by force
  show ?case
  proof (cases "getEntry clk (e_job e) W = Some (Stored e)")
    case True
    have stored: "\<forall>x d. jobs W (e_job e) = Some (Cell (Stored x) d) \<longrightarrow> x = e" using stored_unique [OF True] by blast
    have env_vs: "\<forall>(clk, v) \<in> set vs. v_check_clk v < T + 3600000" using Cons.prems by auto
    obtain W1 r ms where one: "reclaimOne K txt dlt v e W = (W1, r, ms)" by (cases "reclaimOne K txt dlt v e W")
    have step: "ms = [] \<or> ms = [(e_topic e, e_job e, body)] \<and> (marked T e W1 \<or> jobs W1 (e_job e) = None)"
    proof -
      define Wm where "Wm V = markProduced (v_mark_clk v) (e_job e) (e_fence e) producedMarkerTTL V" for V
      have m: "marked T e (Wm V)" for V
        using Cons.prems e(1)
        by (auto simp: marked_def Wm_def markProduced_def producedMarkerTTL_def second_def ms_of_def set_key_ex_def)
      have j: "jobs (Wm V) = jobs V" for V by (simp add: Wm_def markProduced_def)
      have fin: "marked T e (fst (finishReclaimChecked v e (Wm V))) \<or> jobs (fst (finishReclaimChecked v e (Wm V))) (e_job e) = None"
        if "jobs V = jobs W" for V
      proof -
        have "\<forall>x d. jobs (Wm V) (e_job e) = Some (Cell (Stored x) d) \<longrightarrow> e_fence x = e_fence e"
          using stored that by (auto simp: j)
        from finish_checked_cases [OF this, of v] m [of V] show ?thesis by metis
      qed
      have "ms = [] \<or> ms = [(e_topic e, e_job e, body)] \<and>
          (W1 = fst (finishReclaimChecked v e (Wm W)) \<or>
           W1 = fst (finishReclaimChecked v e (Wm (W\<lparr>produced := (produced W)(e_job e := None)\<rparr>))))"
        using one body e(3) Cons.prems unfolding reclaimOne_def Let_def
        by (auto simp: produce_and_finish_def markProducedRetry_def split_beta Wm_def [symmetric] split: if_splits)
      then show ?thesis using fin [of W] fin [of "W\<lparr>produced := (produced W)(e_job e := None)\<rparr>"] by auto
    qed
    have "snd (reclaim_tries K txt dlt e vs W1) = []" if "marked T e W1 \<or> jobs W1 (e_job e) = None"
      using that tries_quiet [OF _ e(1,2) env_vs] by blast
    moreover have "snd (reclaim_tries K txt dlt e vs W1) \<in> {[], [(e_topic e, e_job e, body)]}"
      using Cons.IH Cons.prems by simp
    ultimately show ?thesis using step True one by (auto simp: split_beta)
  next
    case False
    then show ?thesis using Cons by (simp add: split_beta)
  qed
qed simp

lemma one_keeps:
  assumes "reclaimOne K txt dlt v e W = (W', r, ms)" "ms = []"
    "\<not> (producedFence (v_check_clk v) (e_job e) W \<noteq> '''' \<and> producedFence (v_check_clk v) (e_job e) W = e_fence e)"
  shows "jobs W' = jobs W \<and> windex W' = windex W"
  using assms unfolding reclaimOne_def Let_def deadLetterUnreclaimable_def produce_and_finish_def
  by (auto simp: split_beta split: if_splits option.splits mark_result.splits)

subsection \<open>Pipelined claims\<close>

fun claims_in_order ::
  "codec \<Rightarrow> int \<Rightarrow> int \<Rightarrow> string \<Rightarrow> (string \<times> claim_params) list \<Rightarrow> workset \<Rightarrow> workset \<times> claim_result list" where
  "claims_in_order K clk now stamp [] W = (W, [])"
| "claims_in_order K clk now stamp ((fence, p) # ps) W =
     (let (W1, r) = claim K clk now stamp fence p W; (W2, rs) = claims_in_order K clk now stamp ps W1 in (W2, r # rs))"

lemma run_claim_get: "j \<noteq> c_job p \<Longrightarrow> getEntry clk j (fst (run_claim K clk now stamp fence p W)) = getEntry clk j W"
  by (simp add: run_claim_def getEntry_def claim_script_other)

lemma scripts_get:
  "j \<notin> c_job ` snd ` set ps \<Longrightarrow> getEntry clk j (fst (claim_scripts K clk now stamp ps W)) = getEntry clk j W"
proof (induction ps arbitrary: W)
  case (Cons a ps)
  obtain fence p where [simp]: "a = (fence, p)" by force
  show ?case
    using Cons.prems Cons.IH [of W] Cons.IH [of "fst (run_claim K clk now stamp fence p W)"]
    by (simp add: split_beta run_claim_get)
qed simp

lemma scripts_in_order:
  "distinct (map (c_job \<circ> snd) ps) \<Longrightarrow>
   fst (claims_in_order K clk now stamp ps W) = fst (claim_scripts K clk now stamp ps W) \<and>
   length (snd (claim_scripts K clk now stamp ps W)) = length ps \<and>
   snd (claims_in_order K clk now stamp ps W) =
     map2 (\<lambda>(fence, p) r. case r of None \<Rightarrow> ClaimEmptyJob
       | Some res \<Rightarrow> claim_outcome clk (c_job p) (claim_entry p fence stamp now) res (fst (claim_scripts K clk now stamp ps W)))
       ps (snd (claim_scripts K clk now stamp ps W))"
proof (induction ps arbitrary: W)
  case (Cons a ps)
  obtain fence p where [simp]: "a = (fence, p)" by force
  let ?W1 = "fst (run_claim K clk now stamp fence p W)"
  have d: "distinct (map (c_job \<circ> snd) ps)" "c_job p \<notin> c_job ` snd ` set ps"    using Cons.prems by (simp_all add: image_image comp_def)
  have out: "claim_outcome clk (c_job p) x res (fst (claim_scripts K clk now stamp ps V)) = claim_outcome clk (c_job p) x res V" for x res V
    by (simp add: claim_outcome_def scripts_get [OF d(2)])
  show ?case
    using Cons.IH [OF d(1), of W] Cons.IH [OF d(1), of ?W1] by (simp add: claim_def split_beta out Let_def cong: option.case_cong)
qed simp


subsection \<open>Leases\<close>

lemma live_seed_self:
  "0 < hbs \<Longrightarrow> \<exists>h. live (seed_live clk hbs c W) c = Some (Cell h (Some (clk + hbs * 1000)))"
  by (auto simp: seed_live_def set_key_ex_def expire_key_def split: option.splits)

lemma live_windex [simp]: "live (W\<lparr>windex := z\<rparr>) = live W" by simp

lemma claim_script_deadlines:
  assumes "snd (claim_script clk j c raw ttl now grace hb W) \<noteq> 0" "0 < ttl" "1 \<le> hb"
  shows "\<exists>e h. jobs (fst (claim_script clk j c raw ttl now grace hb W)) j = Some (Cell (Stored e) (Some (clk + ttl * 1000))) \<and>
    live (fst (claim_script clk j c raw ttl now grace hb W)) c = Some (Cell h (Some (clk + hb * 1000)))"
proof -
  have t: "\<exists>e h. jobs (take_job clk j c raw ttl now hb V) j = Some (Cell (Stored e) (Some (clk + ttl * 1000))) \<and>
      live (take_job clk j c raw ttl now hb V) c = Some (Cell h (Some (clk + hb * 1000)))" for V
    using live_seed_self [of hb clk c] assms(3) by (auto simp: take_job_def set_key_ex_def)
  have r: "\<exists>h. live (seed_live clk hb c V) c = Some (Cell h (Some (clk + hb * 1000)))" for V
    using live_seed_self [of hb clk c V] assms(3) by simp
  have nhb: "\<not> hb < 1" using assms(3) by simp
  show ?thesis
  proof (cases "purge_key clk (jobs W j)")
    case (Some x)
    obtain v d where x: "x = Cell v d" by (cases x)
    show ?thesis
    proof (cases v)
      case (Stored e)
      then show ?thesis
        using Some x assms t r nhb by (auto simp: claim_script_def Let_def split: if_splits)
    qed (use Some x t nhb in \<open>simp add: claim_script_def Let_def\<close>)
  qed (use t nhb in \<open>simp add: claim_script_def Let_def\<close>)
qed

lemma floor_seconds:
  assumes "floorLeaseTTL a b g = t" "0 \<le> b" "0 \<le> g"
  shows "seconds b + seconds g + 60 \<le> seconds t"
proof -
  have "b + g + 60 * second \<le> t"
    using assms(1) by (auto simp: floorLeaseTTL_def Let_def reclaimSafetyBuffer_def split: if_splits)
  moreover have "b div second * second \<le> b" "g div second * second \<le> g" by (simp_all add: second_def)
  ultimately have "b div second * second + g div second * second + 60 * second \<le> t" by linarith
  then have "(b div second + g div second + 60) * second \<le> t" by (simp only: distrib_right)
  from zdiv_mono1 [OF this, of second] show ?thesis by (simp add: seconds_def second_def)
qed

subsection \<open>Concrete runs\<close>

text \<open>A codec that stores bodies as they are and knows one JSON object.\<close>

definition plain_codec :: codec where
  "plain_codec = \<lparr>gzip = Some, gunzip = Some,
     jdec = (\<lambda>s. if s = ''{}'' then Some (JObj []) else None),
     jenc = (\<lambda>j. if j = JObj [(''_reclaim'', JBool True)] then ''{\"_reclaim\":true}'' else ''?'')\<rparr>"

definition demo_claim :: "string \<Rightarrow> string \<Rightarrow> claim_params" where
  "demo_claim j c = \<lparr>c_job = j, c_payload = ''{}'', c_topic = ''jobs'', c_partition = 0, c_offset = 7, c_consumer = c,
     c_lease = 0, c_hb = 0, c_grace = 0\<rparr>"

definition demo_work :: workset where
  "demo_work = fst (claim plain_codec 1000000 1000 ''t0'' ''f1'' (demo_claim ''j'' ''c1'') empty_workset)"

definition demo_entry :: entry where
  "demo_entry = claim_entry (demo_claim ''j'' ''c1'') ''f1'' ''t0'' 1000"

definition calm_env :: "int \<Rightarrow> reclaim_env" where
  "calm_env t = \<lparr>v_check_clk = t, v_mark_clk = t, v_finish_clk = t, v_check_fails = False, v_del_fails = False,
     v_produce_fails = False, v_marks = 0, v_finish = FinOk, v_abort_fails = False\<rparr>"

definition demo_sys :: wsys where
  "demo_sys = \<lparr>work = demo_work, scanned = [], doomed = [], stale = []\<rparr>"

definition demo_steps :: "(int \<times> wop) list" where
  "demo_steps = [(1010000, WClaim plain_codec 1010 ''t1'' ''f2'' (demo_claim ''j'' ''c2'')), (1060000, WTouch ''hb'' ''c1'' 0),
     (1070000, WScan 1070 10 0), (1070001, WDead 10), (1070002, WPrune), (1080000, WRenew ''j'' ''c1'' ''f1'' 0),
     (1090000, WComplete ''j'' ''c2'' ''f2'')]"

subsection \<open>Properties\<close>

text \<open>C18. A live holder keeps its job. Whatever calls other workers and reclaimers interleave (claims, renewals,
  completions, heartbeats, the separate steps of orphan sweeps), a job claimed by a consumer whose lease and
  heartbeat are alive at every call stays with that consumer under the same fence, and every claim of it by
  another consumer is refused.\<close>

theorem live_holder_keeps_job:
  assumes "owned j c f s" and "c \<noteq> ''''" and "j \<noteq> ''''" and "holder_alive j c f xs s"
  shows "owned j c f (fst (wrun xs s)) \<and>
    (\<forall>K now stamp fence p r. (WClaim K now stamp fence p, r) \<in> set (snd (wrun xs s)) \<and> c_job p = j \<and> c_consumer p \<noteq> c \<longrightarrow> r = ClaimLost)"
  using holder_run [OF assms] by fastforce

theorem live_holder_keeps_job_witness:
  "owned ''j'' ''c1'' ''f1'' (fst (wrun demo_steps demo_sys)) \<and>
   (WClaim plain_codec 1010 ''t1'' ''f2'' (demo_claim ''j'' ''c2''), ClaimLost) \<in> set (snd (wrun demo_steps demo_sys))"
proof -
  have w: "jobs demo_work ''j'' = Some (Cell (Stored demo_entry) (Some 1280000))" by code_simp
  have k: "jobs demo_work i = None" if "i \<noteq> ''j''" for i
    using that by (simp add: demo_work_def claim_def run_claim_def split_beta demo_claim_def claim_script_other empty_workset_def)
  have wk: "well_keyed demo_work"
    unfolding well_keyed_def using w k by (metis cell.inject claim_entry_sel(1) demo_claim_def demo_entry_def claim_params.select_convs(1) option.distinct(1) option.inject stored.inject)
  have o: "owned ''j'' ''c1'' ''f1'' demo_sys"
    unfolding owned_def demo_sys_def using w wk by (auto simp: demo_entry_def demo_claim_def)
  have h: "holder_alive ''j'' ''c1'' ''f1'' demo_steps demo_sys" by code_simp
  have m: "(WClaim plain_codec 1010 ''t1'' ''f2'' (demo_claim ''j'' ''c2''), snd (hd (snd (wrun demo_steps demo_sys)))) \<in> set (snd (wrun demo_steps demo_sys))"
    by (simp add: demo_steps_def split_beta)
  have c: "c_job (demo_claim ''j'' ''c2'') = ''j''" "c_consumer (demo_claim ''j'' ''c2'') \<noteq> ''c1''"
    by (simp_all add: demo_claim_def)
  have t: "owned ''j'' ''c1'' ''f1'' (fst (wrun demo_steps demo_sys)) \<and>
    (\<forall>K now stamp fence p r. (WClaim K now stamp fence p, r) \<in> set (snd (wrun demo_steps demo_sys)) \<and> c_job p = ''j'' \<and> c_consumer p \<noteq> ''c1'' \<longrightarrow> r = ClaimLost)"
    by (rule live_holder_keeps_job [OF o _ _ h]) simp_all
  with m c have "snd (hd (snd (wrun demo_steps demo_sys))) = ClaimLost" by blast
  with m t show ?thesis by metis
qed


text \<open>The orphan listing returns stored entries only, of consumers without a heartbeat, aged at least the grace in
  the index, and at most \<open>limit\<close> of them; and it misses none: when the aged ids fit the scan window and the
  orphans fit the limit, every aged stored entry of a dead consumer is returned.\<close>

theorem orphan_listing_exact:
  assumes "length (aged now grace W) \<le> lim_of limit * 3"
    and "length (filter (\<lambda>e. purge_key clk (live W (e_consumer e)) = None) (fst (list_scan clk now limit grace W))) \<le> lim_of limit"
  shows "set (snd (listOrphans clk now limit grace W)) =
    {e. \<exists>j s. (j, s) \<in> set (windex W) \<and> s \<le> now - seconds (resolveGrace grace) \<and>
        getEntry clk j W = Some (Stored e) \<and> purge_key clk (live W (e_consumer e)) = None} \<and>
    length (snd (listOrphans clk now limit grace W)) \<le> lim_of limit"
proof -
  have "set (aged now grace W) = {j. \<exists>s. (j, s) \<in> set (windex W) \<and> s \<le> now - seconds (resolveGrace grace)}"
    by (force simp: aged_def)
  then show ?thesis using assms by (auto simp: orphans_eq scan_set)
qed

theorem orphan_listing_exact_witness:
  "snd (listOrphans 1181000 1181 10 0 demo_work) = [demo_entry] \<and>
   demo_entry \<in> set (snd (listOrphans 1181000 1181 10 0 demo_work))"
proof -
  have "length (aged 1181 0 demo_work) \<le> lim_of 10 * 3" by code_simp
  moreover have "length (filter (\<lambda>e. purge_key 1181000 (live demo_work (e_consumer e)) = None)
      (fst (list_scan 1181000 1181 10 0 demo_work))) \<le> lim_of 10" by code_simp
  ultimately have s: "set (snd (listOrphans 1181000 1181 10 0 demo_work)) =
    {e. \<exists>j s. (j, s) \<in> set (windex demo_work) \<and> s \<le> 1181 - seconds (resolveGrace 0) \<and>
        getEntry 1181000 j demo_work = Some (Stored e) \<and> purge_key 1181000 (live demo_work (e_consumer e)) = None}"
    using orphan_listing_exact [of 1181 0 demo_work 10 1181000] by blast
  have "(''j'', 1000) \<in> set (windex demo_work)" "(1000::int) \<le> 1181 - seconds (resolveGrace 0)"
    "getEntry 1181000 ''j'' demo_work = Some (Stored demo_entry)" "purge_key 1181000 (live demo_work (e_consumer demo_entry)) = None"
    by code_simp+
  with s have "demo_entry \<in> set (snd (listOrphans 1181000 1181 10 0 demo_work))" by blast
  moreover have "snd (listOrphans 1181000 1181 10 0 demo_work) = [demo_entry]" by code_simp
  ultimately show ?thesis by simp
qed

text \<open>Every held job can be found: claims, renewals, completions, finished reclaims and orphan listings
  (a listing taken as one step) keep every stored entry in the index.\<close>

theorem held_jobs_stay_indexed:
  assumes "indexed W"
  shows "indexed (fst (claim K clk now stamp fence p W)) \<and> indexed (fst (renew clk j c f ttl W)) \<and>
    indexed (complete_job clk j c f W) \<and> indexed (fst (finish_script clk e W)) \<and>
    indexed (purge_work clk (fst (listOrphans clk now limit grace W)))"
  using assms indexed_claim indexed_renew indexed_complete indexed_finish indexed_list
  by (simp add: claim_def run_claim_def renew_def complete_job_def split_beta)

theorem held_jobs_stay_indexed_witness:
  "indexed demo_work \<and> ''j'' \<in> fst ` set (windex demo_work)"
proof -
  have "indexed empty_workset" by (simp add: indexed_def empty_workset_def)
  then have i: "indexed demo_work" unfolding demo_work_def using held_jobs_stay_indexed by blast
  have "jobs demo_work ''j'' = Some (Cell (Stored demo_entry) (Some 1280000))" by code_simp
  then show ?thesis using i unfolding indexed_def by blast
qed

text \<open>The listing is three round trips, and between the read and the prune a new claim can take the job: the
  prune then removes the id of a held job from the index. In this run consumer \<open>c2\<close> claims the job again after its
  old payload was found missing; after \<open>c2\<close> dies no sweep can ever list the job.\<close>

theorem prune_race_unindexes_job:
  "let W0 = demo_work; missing = snd (list_scan 1300000 1300 10 0 W0);
       W1 = fst (claim plain_codec 1300001 1300 ''t'' ''f2'' (demo_claim ''j'' ''c2'') W0);
       W2 = list_prune missing W1
   in missing = [''j''] \<and> stillOwned 1300002 ''j'' ''c2'' ''f2'' W2 \<and> windex W2 = [] \<and>
      live (purge_work 1481000 W2) ''c2'' = None \<and> jobs (purge_work 1481000 W2) ''j'' \<noteq> None \<and>
      snd (listOrphans 1481000 1481 10 0 W2) = []"
  by code_simp



text \<open>The lock and the marker do not keep two sweeps apart: a sweep that listed the entry before the other sweep
  finished it takes the lock the other has just released, finds no marker any more and produces the job a second time.\<close>

theorem two_sweeps_produce_twice:
  "let o1 = snd (listOrphans 1181000 1181 10 0 demo_work); o2 = snd (listOrphans 1181001 1181 10 0 demo_work);
       (W1, c1, ms1) = reclaim_loop plain_codec (\<lambda>_. '''') '''' 0 (zip o1 [(1181002, False, calm_env 1181002)])
          \<lparr>r_checked = 1, r_reclaimed = 0, r_failed = 0, r_skipped = 0\<rparr> demo_work;
       (W2, c2, ms2) = reclaim_loop plain_codec (\<lambda>_. '''') '''' 0 (zip o2 [(1181003, False, calm_env 1181003)])
          \<lparr>r_checked = 1, r_reclaimed = 0, r_failed = 0, r_skipped = 0\<rparr> W1
   in ms1 = [(''jobs'', ''j'', ''{\"_reclaim\":true}'')] \<and> ms2 = ms1"
  by code_simp

text \<open>A reclaim never drops a job silently: if it produced nothing (every failure of a check, a codec or a
  produce) and no earlier attempt had produced for this fence, the job entry and the index are unchanged, so the next
  sweep sees the job again.\<close>

theorem failed_reclaim_keeps_job:
  assumes "reclaimOne K txt dlt v e W = (W', r, [])"
    and "producedFence (v_check_clk v) (e_job e) W \<noteq> '''' \<longrightarrow> producedFence (v_check_clk v) (e_job e) W \<noteq> e_fence e"
  shows "jobs W' = jobs W \<and> windex W' = windex W"
  using one_keeps [OF assms(1) refl] assms(2) by blast

theorem failed_reclaim_keeps_job_witness:
  "jobs (fst (reclaimOne plain_codec (\<lambda>_. '''') '''' ((calm_env 1181000)\<lparr>v_produce_fails := True\<rparr>) demo_entry demo_work)) ''j''
     = Some (Cell (Stored demo_entry) (Some 1280000))"
proof -
  let ?v = "(calm_env 1181000)\<lparr>v_produce_fails := True\<rparr>"
  have r: "snd (snd (reclaimOne plain_codec (\<lambda>_. '''') '''' ?v demo_entry demo_work)) = []" by code_simp
  have "producedFence (v_check_clk ?v) (e_job demo_entry) demo_work = ''''" by code_simp
  then have "jobs (fst (reclaimOne plain_codec (\<lambda>_. '''') '''' ?v demo_entry demo_work)) = jobs demo_work"
    using failed_reclaim_keeps_job [of plain_codec "\<lambda>_. ''''" "''''" ?v demo_entry demo_work] r
    by (metis prod.collapse)
  moreover have "jobs demo_work ''j'' = Some (Cell (Stored demo_entry) (Some 1280000))" by code_simp
  ultimately show ?thesis by simp
qed


text \<open>The lease outlives the heartbeat: after every won or resumed claim (with a heartbeat TTL of at least a
  second), if the consumer dies at once, then from the moment its heartbeat expires and for at least the orphan grace
  plus one minute the job is still stored, so a sweep in that window can reclaim it.\<close>

theorem lease_outlives_heartbeat:
  assumes "run_claim K clk now stamp fence p W = (W', n)" and "n \<noteq> 0" and "second \<le> claim_hb p"
  shows "\<exists>dl. (\<forall>t. purge_key t (live W' (c_consumer p)) = None \<longleftrightarrow> dl \<le> t) \<and>
    (\<forall>t. dl \<le> t \<and> t < dl + (seconds (resolveGrace (c_grace p)) + 60) * 1000 \<longrightarrow> purge_key t (jobs W' (c_job p)) \<noteq> None)"
proof -
  let ?hb = "seconds (claim_hb p)" and ?ttl = "seconds (claim_ttl p)" and ?g = "seconds (resolveGrace (c_grace p))"
  have hb: "1 \<le> ?hb" using zdiv_mono1 [OF assms(3), of second] by (simp add: seconds_def second_def)
  have floor: "?hb + ?g + 60 \<le> ?ttl"
    by (rule floor_seconds [of "if c_lease p \<le> 0 then defaultLeaseTTL else c_lease p"])
      (auto simp: claim_ttl_def claim_hb_def resolveGrace_def DefaultOrphanGrace_def defaultHeartbeatTTL_def second_def)
  obtain e h where "jobs W' (c_job p) = Some (Cell (Stored e) (Some (clk + ?ttl * 1000)))"
    "live W' (c_consumer p) = Some (Cell h (Some (clk + ?hb * 1000)))"
    using claim_script_deadlines [OF _ claim_secs_pos hb] assms(1,2) unfolding run_claim_def by (metis fst_conv snd_conv)
  then show ?thesis
    using floor by (intro exI [of _ "clk + ?hb * 1000"]) (auto simp: purge_key_def cell_live_def)
qed

theorem lease_outlives_heartbeat_witness:
  "\<exists>dl. (\<forall>t. purge_key t (live demo_work ''c1'') = None \<longleftrightarrow> dl \<le> t) \<and>
    (\<forall>t. dl \<le> t \<and> t < dl + 100000 \<longrightarrow> purge_key t (jobs demo_work ''j'') \<noteq> None)"
proof -
  let ?r = "run_claim plain_codec 1000000 1000 ''t0'' ''f1'' (demo_claim ''j'' ''c1'') empty_workset"
  have "snd ?r \<noteq> 0" by code_simp
  moreover have "second \<le> claim_hb (demo_claim ''j'' ''c1'')" by code_simp
  moreover have "fst ?r = demo_work" by (simp add: demo_work_def claim_def split_beta demo_claim_def)
  moreover have "c_consumer (demo_claim ''j'' ''c1'') = ''c1''" "c_job (demo_claim ''j'' ''c1'') = ''j''" by (simp_all add: demo_claim_def)
  moreover have "(seconds (resolveGrace (c_grace (demo_claim ''j'' ''c1''))) + 60) * 1000 = 100000" by code_simp
  ultimately show ?thesis
    using lease_outlives_heartbeat [of plain_codec 1000000 1000 "''t0''" "''f1''" "demo_claim ''j'' ''c1''" empty_workset demo_work "snd ?r"]
    by (metis prod.collapse)
qed

text \<open>\<open>Renew\<close> undercuts the floor: the default renewal (TTL not given) replaces the floored lease of a claim with the plain
  two minutes, which end before the default heartbeat of three minutes does. A consumer that renews once and then dies
  leaves a job whose payload is gone before the sweep may act: the sweep prunes it and produces nothing.\<close>

theorem renew_undercuts_lease_floor:
  "let W = fst (renew 1001000 ''j'' ''c1'' ''f1'' 0 demo_work)
   in stillOwned 1001000 ''j'' ''c1'' ''f1'' W \<and>
      live (purge_work 1121000 W) ''c1'' \<noteq> None \<and> jobs (purge_work 1121000 W) ''j'' = None \<and>
      live (purge_work 1180000 W) ''c1'' = None \<and>
      (let (V, orphans) = listOrphans 1180000 1180 10 0 W in orphans = [] \<and> windex V = [])"
  by code_simp

text \<open>Pipelining changes nothing: \<open>ClaimMany\<close> leaves the same working set and returns the same results as one \<open>Claim\<close>
  after the other, for parameters with distinct job ids.\<close>

theorem claimMany_as_claims:
  assumes "distinct (map (c_job \<circ> snd) ps)"
  shows "claimMany K clk now stamp ps W = claims_in_order K clk now stamp ps W"
  using scripts_in_order [OF assms, of K clk now stamp W] by (simp add: claimMany_def split_beta prod_eq_iff)

theorem claimMany_as_claims_witness:
  "claimMany plain_codec 1000 1 ''t'' [(''f1'', demo_claim ''a'' ''c''), (''f2'', demo_claim ''b'' ''c'')] demo_work =
   claims_in_order plain_codec 1000 1 ''t'' [(''f1'', demo_claim ''a'' ''c''), (''f2'', demo_claim ''b'' ''c'')] demo_work"
  by (rule claimMany_as_claims) (simp add: demo_claim_def)

text \<open>Nothing of the job is lost on the way: the entry that a claim stores, compressed or not, decodes to the
  claimed body, and its reclaim produces that body's JSON object with only \<open>_reclaim\<close> added, to the original topic and
  under the job id, provided that decompression undoes compression.\<close>

theorem reclaim_restores_payload:
  assumes "\<And>x z. gzip K x = Some z \<Longrightarrow> gunzip K z = Some x"
    and "jdec K (c_payload p) = Some (JObj m)" and "c_topic p \<noteq> ''''"
    and "e = marshalEntry K (claim_entry p fence stamp now)"
    and "\<not> v_check_fails v" and "\<not> v_produce_fails v"
    and "producedFence (v_check_clk v) (c_job p) W = '''' \<or> producedFence (v_check_clk v) (c_job p) W \<noteq> fence"
  shows "decodeEntryPayload K e = Some (c_payload p) \<and>
    snd (snd (reclaimOne K txt dlt v e W)) = [(c_topic p, c_job p, jenc K (JObj (jset ''_reclaim'' (JBool True) m)))]"
proof -
  have d: "decodeEntryPayload K e = Some (c_payload p)"
    using assms(1) unfolding assms(4) by (auto simp: decodeEntryPayload_def marshalEntry_def split: option.splits)
  moreover have "e_job e = c_job p" "e_fence e = fence" "e_topic e = c_topic p" by (simp_all add: assms(4))
  ultimately show ?thesis
    using assms(2,3,5-7)
    by (auto simp: reclaimOne_def Let_def markReclaimPayload_def produce_and_finish_def split_beta)
qed

theorem reclaim_restores_payload_witness:
  "snd (snd (reclaimOne plain_codec (\<lambda>_. '''') '''' (calm_env 1181000) demo_entry demo_work)) = [(''jobs'', ''j'', ''{\"_reclaim\":true}'')]"
proof -
  have "decodeEntryPayload plain_codec demo_entry = Some (c_payload (demo_claim ''j'' ''c1'')) \<and>
    snd (snd (reclaimOne plain_codec (\<lambda>_. '''') '''' (calm_env 1181000) demo_entry demo_work)) =
      [(c_topic (demo_claim ''j'' ''c1''), c_job (demo_claim ''j'' ''c1''), jenc plain_codec (JObj (jset ''_reclaim'' (JBool True) [])))]"
  proof (rule reclaim_restores_payload [of _ _ _ _ "''f1''" "''t0''" 1000])
    show "gunzip plain_codec z = Some x" if "gzip plain_codec x = Some z" for x z
      using that by (simp add: plain_codec_def)
  qed code_simp+
  then show ?thesis by (simp add: demo_claim_def plain_codec_def jset_def)
qed

end
