(* ===== verification/Watermark.thy ===== *)
theory Watermark
  imports Kbatch_Prelude "HOL-Library.AList"
begin

text \<open>
  The watermark executor of \<^verbatim>\<open>pkg/daemon/watermark.go\<close>: jobs of a partition run concurrently and out of
  order, and only the contiguous prefix of completed offsets is committed.

  \<^item> \<open>pcommit\<close> is \<open>partitionCommit\<close>; its \<open>done\<close> map (\<open>doneMap\<close>) is an association list, \<open>pending\<close> a set of offsets.
  \<^item> \<open>wm\<close> is the executor: the partitions, the taken \<open>Window\<close> slots, the in-flight counter, the accepting flag;
    \<open>running\<close> are the records whose \<open>perform\<close> goroutine has not finished, \<open>marks\<close> the records handed to
    \<open>MarkCommitRecords\<close>, in order.
  \<^item> \<open>wm_step\<close> is the step relation: one dispatch, one completion, one failure, one flush or the stop of
    accepting, in any interleaving. Receiving from \<open>Window\<close> is possible only while a slot is taken; a step that
    would block has no successor.
  \<^item> Offsets are integers; the 64-bit range is not an issue, Kafka never reaches it.
\<close>

subsection \<open>State\<close>

record wm_rec =
  r_topic :: string
  r_part :: int
  r_off :: int
  r_value :: string

type_synonym partitionKey = "string \<times> int"

definition key_of :: "wm_rec \<Rightarrow> partitionKey" where
  "key_of r = (r_topic r, r_part r)"

record pcommit =
  expected :: int
  inited :: bool
  doneMap :: "(int \<times> wm_rec) list"
  pending :: "int set"

definition new_pcommit :: pcommit where
  "new_pcommit = \<lparr>expected = 0, inited = False, doneMap = [], pending = {}\<rparr>"

record wm =
  parts :: "(partitionKey \<times> pcommit) list"
  window :: nat
  win_cap :: nat
  inFlight :: int
  accepting :: bool
  running :: "wm_rec list"
  marks :: "wm_rec list"

definition new_wm :: "nat \<Rightarrow> nat \<Rightarrow> wm" where
  "new_wm n win = \<lparr>parts = [], window = 0, win_cap = (if win < n then n else win), inFlight = 0,
     accepting = True, running = [], marks = []\<rparr>"

subsection \<open>Operations\<close>

definition register_part :: "int \<Rightarrow> pcommit \<Rightarrow> pcommit option" where
  "register_part off pc =
     (if off \<in> pending pc then None
      else let pc1 = (if \<not> inited pc \<or> off < expected pc
                      then pc\<lparr>expected := off, inited := True, doneMap := filter (\<lambda>(o', _). \<not> o' < off) (doneMap pc)\<rparr>
                      else pc)
           in Some (pc1\<lparr>pending := insert off (pending pc1)\<rparr>))"

definition part_of :: "partitionKey \<Rightarrow> wm \<Rightarrow> pcommit" where
  "part_of k e = (case map_of (parts e) k of None \<Rightarrow> new_pcommit | Some pc \<Rightarrow> pc)"

definition set_part :: "partitionKey \<Rightarrow> pcommit \<Rightarrow> wm \<Rightarrow> wm" where
  "set_part k pc e = e\<lparr>parts := AList.update k pc (parts e)\<rparr>"

text \<open>\<open>register\<close> creates the tracker of the partition even when it then refuses the record.\<close>

definition register :: "wm_rec \<Rightarrow> wm \<Rightarrow> wm \<times> bool" where
  "register r e =
     (let k = key_of r in
      case register_part (r_off r) (part_of k e) of
        None \<Rightarrow> (set_part k (part_of k e) e, False)
      | Some pc \<Rightarrow> (set_part k pc e, True))"

text \<open>The body of the loop of \<open>DispatchAndCommit\<close> for one record, once a \<open>Window\<close> slot was acquired.\<close>

definition dispatch :: "wm_rec \<Rightarrow> wm \<Rightarrow> wm" where
  "dispatch r e =
     (let e1 = e\<lparr>window := window e + 1\<rparr>; (e2, ok) = register r e1 in
      if \<not> ok then e2\<lparr>window := window e2 - 1\<rparr>
      else e2\<lparr>inFlight := inFlight e2 + 1, running := r # running e2\<rparr>)"

definition noteDone :: "wm_rec \<Rightarrow> wm \<Rightarrow> wm" where
  "noteDone r e =
     (let k = key_of r; pc = part_of k e; known = (map_of (parts e) k \<noteq> None);
          tracked = known \<and> (\<not> inited pc \<or> expected pc \<le> r_off r);
          e1 = (if tracked then set_part k (pc\<lparr>doneMap := AList.update (r_off r) r (doneMap pc)\<rparr>) e
                else if known then set_part k (pc\<lparr>pending := pending pc - {r_off r}\<rparr>) e
                else e);
          e2 = e1\<lparr>inFlight := inFlight e1 - 1, running := remove1 r (running e1)\<rparr>
      in if \<not> tracked then e2\<lparr>window := window e2 - 1\<rparr> else e2)"

definition fail :: "wm_rec \<Rightarrow> wm \<Rightarrow> wm" where
  "fail r e =
     (let k = key_of r; pc = part_of k e;
          e1 = (if map_of (parts e) k \<noteq> None then set_part k (pc\<lparr>pending := pending pc - {r_off r}\<rparr>) e else e)
      in e1\<lparr>inFlight := inFlight e1 - 1, running := remove1 r (running e1), window := window e1 - 1\<rparr>)"

text \<open>The inner loop of \<open>FlushMarks\<close> on one partition, with what it marks.\<close>

function flush_part :: "pcommit \<Rightarrow> pcommit \<times> wm_rec list" where
  "flush_part pc =
     (if \<not> inited pc then (pc, [])
      else case map_of (doneMap pc) (expected pc) of
        None \<Rightarrow> (pc, [])
      | Some r \<Rightarrow>
          (let (pc', rs) = flush_part (pc\<lparr>doneMap := AList.delete (expected pc) (doneMap pc),
                 pending := pending pc - {expected pc}, expected := expected pc + 1\<rparr>)
           in (pc', r # rs)))"
  by pat_completeness auto

lemma length_delete_less: "map_of xs k = Some v \<Longrightarrow> length (AList.delete k xs) < length xs"
proof (induction xs)
  case (Cons a xs)
  then show ?case using length_delete_le [of k xs] by (cases a) (auto split: if_splits)
qed simp

termination flush_part
  by (relation "measure (\<lambda>pc. length (doneMap pc))") (auto intro: length_delete_less)

declare flush_part.simps [simp del]

definition flushMarks :: "wm \<Rightarrow> wm" where
  "flushMarks e =
     (let fl = map (\<lambda>(k, pc). (k, flush_part pc)) (parts e);
          toMark = concat (map (\<lambda>(k, pc, rs). rs) fl)
      in e\<lparr>parts := map (\<lambda>(k, pc, rs). (k, pc)) fl, marks := marks e @ toMark, window := window e - length toMark\<rparr>)"

text \<open>\<open>DispatchAndCommit\<close> on a poll, as far as it gets while no job finishes: a full window is flushed once
  and retried; if it is still full the loop waits, and the records not dispatched are returned (a cancelled
  poll leaves them to redelivery).\<close>

fun dispatch_loop :: "wm_rec list \<Rightarrow> wm \<Rightarrow> wm \<times> wm_rec list" where
  "dispatch_loop [] e = (e, [])"
| "dispatch_loop (r # rs) e =
     (if \<not> accepting e then (e, r # rs)
      else let e1 = (if window e < win_cap e then e else flushMarks e)
           in if window e1 < win_cap e1 then dispatch_loop rs (dispatch r e1) else (e1, r # rs))"

definition dispatchAndCommit :: "wm_rec list \<Rightarrow> wm \<Rightarrow> wm \<times> wm_rec list" where
  "dispatchAndCommit recs e =
     (if \<not> accepting e then (e, recs)
      else let (e1, rest) = dispatch_loop recs e in (flushMarks e1, rest))"

definition stopAccepting :: "wm \<Rightarrow> wm" where
  "stopAccepting e = e\<lparr>accepting := False\<rparr>"

definition inFlightCount :: "wm \<Rightarrow> int" where
  "inFlightCount e = inFlight e"

subsection \<open>Interleavings\<close>

datatype wm_act = Dispatch wm_rec | Finish wm_rec | Fail wm_rec | Flush | Stop

inductive wm_step :: "wm \<Rightarrow> wm_act \<Rightarrow> wm \<Rightarrow> bool" where
  wm_dispatch: "accepting e \<Longrightarrow> window e < win_cap e \<Longrightarrow> wm_step e (Dispatch r) (dispatch r e)"
| wm_finish: "r \<in> set (running e) \<Longrightarrow> wm_step e (Finish r) (noteDone r e)"
| wm_fail: "r \<in> set (running e) \<Longrightarrow> 0 < window e \<Longrightarrow> wm_step e (Fail r) (fail r e)"
| wm_flush: "length (marks (flushMarks e)) - length (marks e) \<le> window e \<Longrightarrow> wm_step e Flush (flushMarks e)"
| wm_stop: "wm_step e Stop (stopAccepting e)"

inductive_cases wm_stepE: "wm_step e a e'"
inductive_simps wm_step_simps: "wm_step e (Dispatch r) e'" "wm_step e (Finish r) e'" "wm_step e (Fail r) e'"
  "wm_step e Flush e'" "wm_step e Stop e'"

inductive wm_run :: "nat \<Rightarrow> nat \<Rightarrow> wm_act list \<Rightarrow> wm \<Rightarrow> bool" for n win where
  wm_init: "wm_run n win [] (new_wm n win)"
| wm_more: "wm_run n win as e \<Longrightarrow> wm_step e a e' \<Longrightarrow> wm_run n win (as @ [a]) e'"

end
