(* ===== verification/Watermark_Props.thy ===== *)
theory Watermark_Props
  imports Watermark
begin

text \<open>
  The watermark executor over all interleavings: its invariant, that only contiguous completed prefixes
  are committed, that the \<open>Window\<close> accounting is exact, and when a partition stays blocked.
\<close>

declare not_None_eq [iff del] split_paired_All [simp del] split_paired_Ex [simp del]

subsection \<open>Invariant\<close>

definition run_offs :: "partitionKey \<Rightarrow> wm \<Rightarrow> int set" where
  "run_offs k e = {r_off r | r. r \<in> set (running e) \<and> key_of r = k}"

definition done_offs :: "pcommit \<Rightarrow> int set" where
  "done_offs pc = dom (map_of (doneMap pc))"

text \<open>All dispatched and not yet committed or failed offsets, over all partitions.\<close>

definition held :: "wm \<Rightarrow> (partitionKey \<times> int) set" where
  "held e = {(k, q). q \<in> pending (part_of k e)}"

definition completed_in :: "wm_act list \<Rightarrow> partitionKey \<Rightarrow> int set" where
  "completed_in as k = {r_off r | r. Finish r \<in> set as \<and> key_of r = k}"

definition part_inv :: "wm_act list \<Rightarrow> partitionKey \<Rightarrow> wm \<Rightarrow> bool" where
  "part_inv as k e =
     (let pc = part_of k e in
      pending pc = done_offs pc \<union> run_offs k e \<and> done_offs pc \<inter> run_offs k e = {} \<and>
      (pending pc \<noteq> {} \<longrightarrow> inited pc) \<and> (\<forall>q \<in> pending pc. expected pc \<le> q) \<and>
      (\<forall>q r. map_of (doneMap pc) q = Some r \<longrightarrow> r_off r = q \<and> key_of r = k \<and> Finish r \<in> set as) \<and>
      (\<forall>r. Dispatch r \<in> set as \<and> key_of r = k \<longrightarrow> inited pc \<and> {r_off r..<expected pc} \<subseteq> completed_in as k))"

definition wm_inv :: "wm_act list \<Rightarrow> wm \<Rightarrow> bool" where
  "wm_inv as e =
     ((\<forall>k. part_inv as k e) \<and> distinct (map fst (parts e)) \<and>
      distinct (map (\<lambda>r. (key_of r, r_off r)) (running e)) \<and>
      (\<forall>r \<in> set (running e). map_of (parts e) (key_of r) \<noteq> None) \<and>
      finite (held e) \<and> window e = card (held e) \<and> window e \<le> win_cap e \<and> inFlight e = int (length (running e)))"

subsection \<open>Reads after writes\<close>

lemma part_of_set [simp]: "part_of k (set_part k' pc e) = (if k = k' then pc else part_of k e)"
  by (simp add: part_of_def set_part_def update_conv)

lemma part_of_cong [simp]:
  "part_of k (e\<lparr>window := w\<rparr>) = part_of k e" "part_of k (e\<lparr>inFlight := i\<rparr>) = part_of k e"
  "part_of k (e\<lparr>running := rs\<rparr>) = part_of k e" "part_of k (e\<lparr>marks := ms\<rparr>) = part_of k e"
  "part_of k (e\<lparr>accepting := b\<rparr>) = part_of k e"
  by (simp_all add: part_of_def)

lemma set_part_sel [simp]:
  "running (set_part k pc e) = running e" "window (set_part k pc e) = window e" "inFlight (set_part k pc e) = inFlight e"
  "win_cap (set_part k pc e) = win_cap e" "marks (set_part k pc e) = marks e"
  "parts (set_part k pc e) = AList.update k pc (parts e)" "accepting (set_part k pc e) = accepting e"
  by (simp_all add: set_part_def)

lemma map_of_parts_known: "map_of (parts e) k = None \<Longrightarrow> part_of k e = new_pcommit"
  by (simp add: part_of_def)

lemma new_pcommit_sel [simp]:
  "pending new_pcommit = {}" "inited new_pcommit = False" "doneMap new_pcommit = []" "done_offs new_pcommit = {}"
  by (simp_all add: new_pcommit_def done_offs_def)

lemma done_offs_update [simp]: "done_offs (pc\<lparr>doneMap := AList.update q r d\<rparr>) = insert q (dom (map_of d))"
  by (simp add: done_offs_def update_conv')

subsection \<open>Flushing one partition\<close>

lemma flush_part_None: "\<not> inited pc \<or> map_of (doneMap pc) (expected pc) = None \<Longrightarrow> flush_part pc = (pc, [])"
  by (subst flush_part.simps) auto

lemma flush_part_Some:
  "inited pc \<Longrightarrow> map_of (doneMap pc) (expected pc) = Some r \<Longrightarrow>
   flush_part pc = (let (pc', rs) = flush_part (pc\<lparr>doneMap := AList.delete (expected pc) (doneMap pc),
       pending := pending pc - {expected pc}, expected := expected pc + 1\<rparr>) in (pc', r # rs))"
  by (subst flush_part.simps) auto

lemma flush_part_spec:
  assumes "\<forall>q r. map_of (doneMap pc) q = Some r \<longrightarrow> r_off r = q" "flush_part pc = (pc', rs)"
  shows "inited pc' = inited pc \<and> expected pc \<le> expected pc' \<and> map r_off rs = [expected pc..expected pc' - 1] \<and>
    (\<forall>r \<in> set rs. map_of (doneMap pc) (r_off r) = Some r) \<and>
    map_of (doneMap pc') = map_of (doneMap pc) |` (- {expected pc..<expected pc'}) \<and>
    pending pc' = pending pc - {expected pc..<expected pc'} \<and>
    (inited pc \<longrightarrow> map_of (doneMap pc') (expected pc') = None)"
  using assms
proof (induction pc arbitrary: pc' rs rule: flush_part.induct)
  case (1 pc)
  show ?case
  proof (cases "inited pc \<and> map_of (doneMap pc) (expected pc) \<noteq> None")
    case False
    then have "flush_part pc = (pc, [])" by (intro flush_part_None) auto
    then show ?thesis using 1(3) False by (auto simp: restrict_map_def)
  next
    case True
    then obtain r where r: "map_of (doneMap pc) (expected pc) = Some r" by (auto simp: not_None_eq)
    let ?pc1 = "pc\<lparr>doneMap := AList.delete (expected pc) (doneMap pc), pending := pending pc - {expected pc},
      expected := expected pc + 1\<rparr>"
    obtain rs1 where rs: "flush_part ?pc1 = (pc', rs1)" "rs = r # rs1"
      using flush_part_Some [OF _ r] True 1(3) by (cases "flush_part ?pc1") auto
    have pre: "\<forall>q r. map_of (doneMap ?pc1) q = Some r \<longrightarrow> r_off r = q"
      using 1(2) by (auto simp: delete_conv fun_upd_def split: if_splits)
    from 1(1) [OF _ r pre rs(1), simplified] True
    have ih: "inited pc' = inited pc" "expected pc + 1 \<le> expected pc'" "map r_off rs1 = [expected pc + 1..expected pc' - 1]"
      "\<forall>r \<in> set rs1. map_of (AList.delete (expected pc) (doneMap pc)) (r_off r) = Some r"
      "map_of (doneMap pc') = map_of (AList.delete (expected pc) (doneMap pc)) |` (- {expected pc + 1..<expected pc'})"
      "pending pc' = pending pc - {expected pc} - {expected pc + 1..<expected pc'}"
      "map_of (doneMap pc') (expected pc') = None" by blast+
    have iv: "{expected pc..<expected pc'} = insert (expected pc) {expected pc + 1..<expected pc'}" using ih(2) by auto
    have ro: "r_off r = expected pc" using 1(2) r by blast
    have up: "[expected pc..expected pc' - 1] = expected pc # [expected pc + 1..expected pc' - 1]"
      using ih(2) by (simp add: upto_rec1)
    show ?thesis
      using ih ro r up unfolding rs(2) iv
      by (auto simp: delete_conv restrict_map_def fun_eq_iff split: if_splits)
  qed
qed


subsection \<open>The steps keep the invariant\<close>

lemma part_inv_cong:
  assumes "part_inv as k e" "part_of k e' = part_of k e" "run_offs k e' = run_offs k e"
    "set as \<subseteq> set as'" "\<And>r. Dispatch r \<in> set as' \<Longrightarrow> key_of r = k \<Longrightarrow> Dispatch r \<in> set as"
  shows "part_inv as' k e'"
proof -
  have "completed_in as k \<subseteq> completed_in as' k" using assms(4) by (auto simp: completed_in_def)
  then show ?thesis using assms unfolding part_inv_def Let_def by (smt (verit) subset_trans subset_iff)
qed

lemma held_set_part: "held (set_part k pc e) = (held e - {k} \<times> UNIV) \<union> {k} \<times> pending pc"
  by (auto simp: held_def split: if_splits)

lemma held_cong [simp]:
  "held (e\<lparr>window := w\<rparr>) = held e" "held (e\<lparr>inFlight := i\<rparr>) = held e" "held (e\<lparr>running := rs\<rparr>) = held e"
  "held (e\<lparr>marks := ms\<rparr>) = held e" "held (e\<lparr>accepting := b\<rparr>) = held e"
  by (simp_all add: held_def)

lemma part_invD:
  assumes "part_inv as k e"
  shows "pending (part_of k e) = done_offs (part_of k e) \<union> run_offs k e"
    "done_offs (part_of k e) \<inter> run_offs k e = {}" "pending (part_of k e) \<noteq> {} \<Longrightarrow> inited (part_of k e)"
    "q \<in> pending (part_of k e) \<Longrightarrow> expected (part_of k e) \<le> q"
    "map_of (doneMap (part_of k e)) q = Some r \<Longrightarrow> r_off r = q \<and> key_of r = k \<and> Finish r \<in> set as"
    "Dispatch r \<in> set as \<Longrightarrow> key_of r = k \<Longrightarrow> inited (part_of k e) \<and> {r_off r..<expected (part_of k e)} \<subseteq> completed_in as k"
  using assms unfolding part_inv_def Let_def by blast+

lemma distinct_keys_update: "distinct (map fst xs) \<Longrightarrow> distinct (map fst (AList.update k v xs))"
  by (rule distinct_update)

lemma run_offs_running: "run_offs k (e\<lparr>running := rs\<rparr>) = {r_off r | r. r \<in> set rs \<and> key_of r = k}"
  by (simp add: run_offs_def)

lemma register_part_inv:
  assumes inv: "part_inv as k e" and r: "key_of r = k" and rp: "register_part (r_off r) (part_of k e) = Some pc"
    and e': "part_of k e' = pc" "run_offs k e' = insert (r_off r) (run_offs k e)"
  shows "part_inv (as @ [Dispatch r]) k e'"
proof -
  note I = part_invD [OF inv]
  let ?p = "part_of k e"
  have new: "r_off r \<notin> pending ?p" using rp by (auto simp: register_part_def split: if_splits)
  have keep: "(if \<not> inited ?p \<or> r_off r < expected ?p then filter (\<lambda>(q, _). \<not> q < r_off r) (doneMap ?p) else doneMap ?p) = doneMap ?p"
  proof -
    have "\<not> q < r_off r" if "(q, x) \<in> set (doneMap ?p)" "\<not> inited ?p \<or> r_off r < expected ?p" for q x
    proof -
      have "q \<in> done_offs ?p" using that(1) by (force simp: done_offs_def dom_map_of_conv_image_fst)
      then have "inited ?p" "expected ?p \<le> q" using I(1,3) I(4) [of q] by auto
      then show ?thesis using that(2) by auto
    qed
    then have "filter (\<lambda>(q, _). \<not> q < r_off r) (doneMap ?p) = doneMap ?p" if "\<not> inited ?p \<or> r_off r < expected ?p"
      using that by (intro filter_True) auto
    then show ?thesis by simp
  qed
  have pc: "pending pc = insert (r_off r) (pending ?p)" "doneMap pc = doneMap ?p" "inited pc"
    "expected pc = (if \<not> inited ?p \<or> r_off r < expected ?p then r_off r else expected ?p)"
    using rp new keep by (auto simp: register_part_def Let_def split: if_splits)
  have d: "done_offs pc = done_offs ?p" by (simp add: done_offs_def pc(2))
  have c: "completed_in (as @ [Dispatch r]) k = completed_in as k" by (auto simp: completed_in_def)
  have le: "expected pc \<le> q" if "q \<in> pending pc" for q
    using that I(3) I(4) [of q] unfolding pc(1,4) by auto
  have pre: "inited pc \<and> {r_off s..<expected pc} \<subseteq> completed_in as k"
    if "Dispatch s \<in> set (as @ [Dispatch r])" "key_of s = k" for s
    using that I(6) [of s] pc(3) unfolding pc(4) by (cases "Dispatch s \<in> set as") auto
  show ?thesis
    using I(1,2,5) new le pre pc(3) unfolding part_inv_def Let_def e' c d pc(1,2) by auto
qed


lemma wm_invD:
  assumes "wm_inv as e"
  shows "part_inv as k e" "distinct (map fst (parts e))" "distinct (map (\<lambda>r. (key_of r, r_off r)) (running e))"
    "r \<in> set (running e) \<Longrightarrow> map_of (parts e) (key_of r) \<noteq> None" "finite (held e)" "window e = card (held e)"
    "window e \<le> win_cap e" "inFlight e = int (length (running e))"
  using assms unfolding wm_inv_def by blast+

lemma set_part_known: "map_of (parts (set_part k pc e)) k' \<noteq> None \<longleftrightarrow> k' = k \<or> map_of (parts e) k' \<noteq> None"
  by (simp add: update_conv')

lemma held_insert:
  assumes "pending pc = insert q (pending (part_of k e))"
  shows "held (set_part k pc e) = insert (k, q) (held e)"
  using assms unfolding held_set_part by (cases k) (auto simp: held_def)

lemma held_remove:
  assumes "pending pc = pending (part_of k e) - {q}"
  shows "held (set_part k pc e) = held e - {(k, q)}"
  using assms unfolding held_set_part by (cases k) (auto simp: held_def)

lemma part_invI:
  assumes "pending (part_of k e) = done_offs (part_of k e) \<union> run_offs k e"
    "done_offs (part_of k e) \<inter> run_offs k e = {}" "pending (part_of k e) \<noteq> {} \<Longrightarrow> inited (part_of k e)"
    "\<And>q. q \<in> pending (part_of k e) \<Longrightarrow> expected (part_of k e) \<le> q"
    "\<And>q r. map_of (doneMap (part_of k e)) q = Some r \<Longrightarrow> r_off r = q \<and> key_of r = k \<and> Finish r \<in> set as"
    "\<And>r. Dispatch r \<in> set as \<Longrightarrow> key_of r = k \<Longrightarrow> inited (part_of k e) \<and> {r_off r..<expected (part_of k e)} \<subseteq> completed_in as k"
  shows "part_inv as k e"
  unfolding part_inv_def Let_def
proof (intro conjI allI impI ballI)
  fix r assume "Dispatch r \<in> set as \<and> key_of r = k"
  then have "Dispatch r \<in> set as" "key_of r = k" by auto
  from assms(6) [OF this] show "inited (part_of k e)" "{r_off r..<expected (part_of k e)} \<subseteq> completed_in as k" by auto
qed (use assms(1-5) in blast)+

lemma part_inv_again:
  assumes inv: "part_inv as k e" and e': "part_of k e' = part_of k e" "run_offs k e' = run_offs k e"
    and r: "key_of r = k" "inited (part_of k e)" "expected (part_of k e) \<le> r_off r"
  shows "part_inv (as @ [Dispatch r]) k e'"
proof -
  note I = part_invD [OF inv]
  have c: "completed_in (as @ [Dispatch r]) k = completed_in as k" by (auto simp: completed_in_def)
  have d: "inited (part_of k e) \<and> {r_off s..<expected (part_of k e)} \<subseteq> completed_in as k"
    if "Dispatch s \<in> set (as @ [Dispatch r])" "key_of s = k" for s
    using that I(6) [of s] r by auto
  show ?thesis
  proof (rule part_invI)
    show "r_off x = q \<and> key_of x = k \<and> Finish x \<in> set (as @ [Dispatch r])" if "map_of (doneMap (part_of k e')) q = Some x" for q x
      using I(5) that unfolding e' by auto
  qed (unfold e' c, insert I(1-4) d, blast+)
qed

lemma dispatch_inv:
  assumes inv: "wm_inv as e" and slot: "window e < win_cap e"
  shows "wm_inv (as @ [Dispatch r]) (dispatch r e)"
proof (cases "register_part (r_off r) (part_of (key_of r) e)")
  case None
  let ?e = "set_part (key_of r) (part_of (key_of r) e) e"
  have d: "dispatch r e = ?e" by (simp add: dispatch_def register_def Let_def None set_part_def)
  have pend: "r_off r \<in> pending (part_of (key_of r) e)" using None by (simp add: register_part_def Let_def split: if_splits)
  note I = wm_invD [OF inv]
  have p: "part_inv (as @ [Dispatch r]) k ?e" for k
  proof (cases "k = key_of r")
    case False
    then show ?thesis by (intro part_inv_cong [OF I(1)]) (auto simp: run_offs_def)
  next
    case True
    have "inited (part_of k e)" "expected (part_of k e) \<le> r_off r" using part_invD(3,4) [OF I(1) [of k]] pend True by auto
    then show ?thesis using True by (intro part_inv_again [OF I(1) [of k]]) (simp_all add: run_offs_def)
  qed
  have "held ?e = held e" by (auto simp: held_def split: if_splits)
  then show ?thesis
    unfolding d wm_inv_def using p I set_part_known by (simp add: distinct_keys_update)
next
  case (Some pc)
  let ?k = "key_of r"
  let ?e = "(set_part ?k pc e)\<lparr>window := window e + 1, inFlight := inFlight e + 1, running := r # running e\<rparr>"
  have d: "dispatch r e = ?e" by (simp add: dispatch_def register_def Let_def Some set_part_def)
  note I = wm_invD [OF inv]
  have new: "r_off r \<notin> pending (part_of ?k e)" and pp: "pending pc = insert (r_off r) (pending (part_of ?k e))"
    using Some by (auto simp: register_part_def Let_def split: if_splits)
  have p: "part_inv (as @ [Dispatch r]) k ?e" for k
  proof (cases "k = ?k")
    case False
    then show ?thesis by (intro part_inv_cong [OF I(1)]) (auto simp: run_offs_def)
  next
    case True
    show ?thesis
      unfolding True by (rule register_part_inv [OF I(1) refl Some]) (auto simp: run_offs_def)
  qed
  have h: "held ?e = insert (?k, r_off r) (held e)" "(?k, r_off r) \<notin> held e"
    using held_insert [OF pp] new by (simp_all add: held_def)
  have "r_off r \<notin> run_offs ?k e" using new part_invD(1) [OF I(1) [of ?k]] by auto
  then have "distinct (map (\<lambda>r. (key_of r, r_off r)) (r # running e))" using I(3) by (auto simp: run_offs_def)
  then show ?thesis
    unfolding d wm_inv_def using p I slot h set_part_known by (simp add: distinct_keys_update)
qed

lemma run_offs_remove1:
  assumes "distinct (map (\<lambda>r. (key_of r, r_off r)) (running e))" "r \<in> set (running e)"
  shows "{r_off x | x. x \<in> set (remove1 r (running e)) \<and> key_of x = k} = run_offs k e - (if k = key_of r then {r_off r} else {})"
proof -
  have "distinct (running e)" using assms(1) by (simp add: distinct_map)
  then have "set (remove1 r (running e)) = set (running e) - {r}" by (rule set_remove1_eq)
  moreover have "x = r" if "x \<in> set (running e)" "key_of x = key_of r" "r_off x = r_off r" for x
    using assms that by (metis (mono_tags, lifting) distinct_map inj_onD)
  ultimately show ?thesis by (auto simp: run_offs_def)
qed

lemma finish_step:
  assumes inv: "wm_inv as e" and r: "r \<in> set (running e)"
  defines "pc \<equiv> part_of (key_of r) e"
  shows "noteDone r e = (set_part (key_of r) (pc\<lparr>doneMap := AList.update (r_off r) r (doneMap pc)\<rparr>) e)
      \<lparr>inFlight := inFlight e - 1, running := remove1 r (running e)\<rparr>"
    and "r_off r \<in> run_offs (key_of r) e" and "expected pc \<le> r_off r" and "inited pc"
proof -
  note I = wm_invD [OF inv]
  show ro: "r_off r \<in> run_offs (key_of r) e" using r by (auto simp: run_offs_def)
  then have "r_off r \<in> pending pc" using part_invD(1) [OF I(1) [of "key_of r"]] unfolding pc_def by auto
  then show "expected pc \<le> r_off r" "inited pc" using part_invD(3,4) [OF I(1) [of "key_of r"]] unfolding pc_def by auto
  then show "noteDone r e = (set_part (key_of r) (pc\<lparr>doneMap := AList.update (r_off r) r (doneMap pc)\<rparr>) e)
      \<lparr>inFlight := inFlight e - 1, running := remove1 r (running e)\<rparr>"
    using I(4) [OF r] by (simp add: noteDone_def Let_def pc_def)
qed


lemma running_remove:
  assumes inv: "wm_inv as e" and r: "r \<in> set (running e)"
  shows "inFlight e - 1 = int (length (remove1 r (running e)))"
    and "distinct (map (\<lambda>r. (key_of r, r_off r)) (remove1 r (running e)))"
    and "\<forall>x \<in> set (remove1 r (running e)). map_of (AList.update k pc (parts e)) (key_of x) \<noteq> None"
proof -
  note I = wm_invD [OF inv]
  have "length (remove1 r (running e)) = length (running e) - 1" "0 < length (running e)"
    using r by (auto simp: length_remove1 intro: length_pos_if_in_set)
  then show "inFlight e - 1 = int (length (remove1 r (running e)))" using I(8) by linarith
  show "distinct (map (\<lambda>r. (key_of r, r_off r)) (remove1 r (running e)))"
    using I(3) by (simp add: distinct_map inj_on_def set_remove1_eq)
  show "\<forall>x \<in> set (remove1 r (running e)). map_of (AList.update k pc (parts e)) (key_of x) \<noteq> None"
    using I(4) notin_set_remove1 by (metis fun_upd_apply option.distinct(1) update_conv)
qed

lemma finish_inv:
  assumes inv: "wm_inv as e" and r: "r \<in> set (running e)"
  shows "wm_inv (as @ [Finish r]) (noteDone r e)"
proof -
  note I = wm_invD [OF inv]
  let ?k = "key_of r"
  let ?pc = "part_of ?k e"
  let ?e = "(set_part ?k (?pc\<lparr>doneMap := AList.update (r_off r) r (doneMap ?pc)\<rparr>) e)
      \<lparr>inFlight := inFlight e - 1, running := remove1 r (running e)\<rparr>"
  note F = finish_step [OF inv r]
  have ro: "run_offs k ?e = run_offs k e - (if k = ?k then {r_off r} else {})" for k
    unfolding run_offs_running using run_offs_remove1 [OF I(3) r, of k] by (simp add: run_offs_def)
  have p: "part_inv (as @ [Finish r]) k ?e" for k
  proof (cases "k = ?k")
    case False
    then show ?thesis using ro [of k] by (intro part_inv_cong [OF I(1)]) auto
  next
    case True
    note J = part_invD [OF I(1) [of ?k]]
    have po: "part_of k ?e = ?pc\<lparr>doneMap := AList.update (r_off r) r (doneMap ?pc)\<rparr>" using True by simp
    have c: "completed_in as k \<subseteq> completed_in (as @ [Finish r]) k" by (auto simp: completed_in_def)
    show ?thesis
    proof (rule part_invI)
      show "pending (part_of k ?e) = done_offs (part_of k ?e) \<union> run_offs k ?e"
        unfolding po ro using J(1) F(2) True by (auto simp: done_offs_def update_conv')
      show "done_offs (part_of k ?e) \<inter> run_offs k ?e = {}"
        unfolding po ro using J(2) True by (auto simp: done_offs_def update_conv')
      show "inited (part_of k ?e)" unfolding po using F(4) by simp
      show "expected (part_of k ?e) \<le> q" if "q \<in> pending (part_of k ?e)" for q
        using that J(4) [of q] unfolding po by simp
      show "r_off x = q \<and> key_of x = k \<and> Finish x \<in> set (as @ [Finish r])" if "map_of (doneMap (part_of k ?e)) q = Some x" for q x
        using that J(5) [of q x] True unfolding po by (auto simp: update_conv' split: if_splits)
      show "inited (part_of k ?e) \<and> {r_off s..<expected (part_of k ?e)} \<subseteq> completed_in (as @ [Finish r]) k"
        if "Dispatch s \<in> set (as @ [Finish r])" "key_of s = k" for s
        using that J(6) [of s] True c unfolding po by auto
    qed
  qed
  have h: "held ?e = held e" by (simp add: held_set_part) (cases ?k, auto simp: held_def)

  show ?thesis
    unfolding F(1) wm_inv_def using p h I running_remove [OF inv r] by (simp add: distinct_keys_update)
qed


lemma fail_inv:
  assumes inv: "wm_inv as e" and r: "r \<in> set (running e)"
  shows "wm_inv (as @ [Fail r]) (fail r e)"
proof -
  note I = wm_invD [OF inv]
  let ?k = "key_of r"
  let ?pc = "part_of ?k e"
  let ?e = "(set_part ?k (?pc\<lparr>pending := pending ?pc - {r_off r}\<rparr>) e)
      \<lparr>inFlight := inFlight e - 1, running := remove1 r (running e), window := window e - 1\<rparr>"
  note F = finish_step [OF inv r]
  note J = part_invD [OF I(1) [of ?k]]
  have eq: "fail r e = ?e" using I(4) [OF r] by (simp add: fail_def Let_def)
  have ro: "run_offs k ?e = run_offs k e - (if k = ?k then {r_off r} else {})" for k
    using run_offs_remove1 [OF I(3) r, of k] by (simp add: run_offs_def)
  have p: "part_inv (as @ [Fail r]) k ?e" for k
  proof (cases "k = ?k")
    case False
    then show ?thesis using ro [of k] by (intro part_inv_cong [OF I(1)]) auto
  next
    case True
    have po: "part_of k ?e = ?pc\<lparr>pending := pending ?pc - {r_off r}\<rparr>" using True by simp
    have c: "completed_in (as @ [Fail r]) k = completed_in as k" by (auto simp: completed_in_def)
    show ?thesis
    proof (rule part_invI)
      show "pending (part_of k ?e) = done_offs (part_of k ?e) \<union> run_offs k ?e"
        unfolding po ro using J(1,2) F(2) True by (auto simp: done_offs_def)
      show "done_offs (part_of k ?e) \<inter> run_offs k ?e = {}"
        unfolding po ro using J(2) True by (auto simp: done_offs_def)
      show "inited (part_of k ?e)" unfolding po using F(4) by simp
      show "expected (part_of k ?e) \<le> q" if "q \<in> pending (part_of k ?e)" for q
        using that J(4) [of q] unfolding po by simp
      show "r_off x = q \<and> key_of x = k \<and> Finish x \<in> set (as @ [Fail r])" if "map_of (doneMap (part_of k ?e)) q = Some x" for q x
        using that J(5) [of q x] True unfolding po by simp
      show "inited (part_of k ?e) \<and> {r_off s..<expected (part_of k ?e)} \<subseteq> completed_in (as @ [Fail r]) k"
        if "Dispatch s \<in> set (as @ [Fail r])" "key_of s = k" for s
        using that J(6) [of s] True unfolding po c by auto
    qed
  qed
  have h: "held ?e = held e - {(?k, r_off r)}" "(?k, r_off r) \<in> held e"
    using held_remove [of "?pc\<lparr>pending := pending ?pc - {r_off r}\<rparr>" ?k e "r_off r"] J(1) F(2) by (auto simp: held_def)
  have "window e - 1 = card (held e - {(?k, r_off r)})" using I(5,6) h(2) by (simp add: card_Diff_singleton)
  then show ?thesis
    unfolding eq wm_inv_def using p h I running_remove [OF inv r] by (simp add: distinct_keys_update)
qed

subsection \<open>Flushing\<close>

lemma map_of_map2: "map_of (map (\<lambda>(k, v). (k, f v)) xs) k = map_option f (map_of xs k)"
  by (induction xs) auto

lemma flush_parts: "parts (flushMarks e) = map (\<lambda>(k, pc). (k, fst (flush_part pc))) (parts e)"
  by (simp add: flushMarks_def Let_def split_beta comp_def)

lemma flush_marks:
  "marks (flushMarks e) = marks e @ concat (map (\<lambda>x. snd (flush_part (snd x))) (parts e))"
  by (simp add: flushMarks_def Let_def split_beta comp_def)

lemma flush_sel [simp]: "running (flushMarks e) = running e" "win_cap (flushMarks e) = win_cap e"
  "inFlight (flushMarks e) = inFlight e" "accepting (flushMarks e) = accepting e"
  by (simp_all add: flushMarks_def Let_def)

lemma part_of_flush: "part_of k (flushMarks e) = fst (flush_part (part_of k e))"
  by (cases "map_of (parts e) k") (simp_all add: part_of_def flush_parts map_of_map2 flush_part_None)

definition newly :: "wm \<Rightarrow> wm_rec list" where
  "newly e = concat (map (\<lambda>x. snd (flush_part (snd x))) (parts e))"

lemma part_spec:
  fixes k :: partitionKey
  assumes inv: "wm_inv as e"
  defines "pc \<equiv> part_of k e" and "pc' \<equiv> fst (flush_part (part_of k e))" and "rs \<equiv> snd (flush_part (part_of k e))"
  shows "inited pc' = inited pc" "expected pc \<le> expected pc'" "map r_off rs = [expected pc..expected pc' - 1]"
    "\<forall>r \<in> set rs. map_of (doneMap pc) (r_off r) = Some r"
    "map_of (doneMap pc') = map_of (doneMap pc) |` (- {expected pc..<expected pc'})"
    "pending pc' = pending pc - {expected pc..<expected pc'}"
    "\<forall>r \<in> set rs. key_of r = k" "{expected pc..<expected pc'} = r_off ` set rs"
    "{expected pc..<expected pc'} \<subseteq> pending pc" "{expected pc..<expected pc'} \<subseteq> completed_in as k"
proof -
  note J = part_invD [OF wm_invD(1) [OF inv, of k]]
  have "flush_part pc = (pc', rs)" by (simp add: pc_def pc'_def rs_def)
  moreover have "\<forall>q r. map_of (doneMap pc) q = Some r \<longrightarrow> r_off r = q" using J(5) unfolding pc_def by blast
  ultimately have S: "inited pc' = inited pc \<and> expected pc \<le> expected pc' \<and> map r_off rs = [expected pc..expected pc' - 1] \<and>
    (\<forall>r \<in> set rs. map_of (doneMap pc) (r_off r) = Some r) \<and>
    map_of (doneMap pc') = map_of (doneMap pc) |` (- {expected pc..<expected pc'}) \<and>
    pending pc' = pending pc - {expected pc..<expected pc'}" using flush_part_spec by blast
  then show "inited pc' = inited pc" "expected pc \<le> expected pc'" "map r_off rs = [expected pc..expected pc' - 1]"
    and d: "\<forall>r \<in> set rs. map_of (doneMap pc) (r_off r) = Some r"
    and "map_of (doneMap pc') = map_of (doneMap pc) |` (- {expected pc..<expected pc'})"
    "pending pc' = pending pc - {expected pc..<expected pc'}" by blast+
  show "\<forall>r \<in> set rs. key_of r = k" using d J(5) unfolding pc_def by blast
  have "set (map r_off rs) = {expected pc..expected pc' - 1}" using S by (metis set_upto)
  then show iv: "{expected pc..<expected pc'} = r_off ` set rs" by auto
  have "r_off ` set rs \<subseteq> done_offs pc" using d by (auto simp: done_offs_def)
  then show "{expected pc..<expected pc'} \<subseteq> pending pc" using iv J(1) unfolding pc_def by blast
  show "{expected pc..<expected pc'} \<subseteq> completed_in as k"
    unfolding iv using d J(5) unfolding pc_def completed_in_def by blast
qed


lemma parts_part_of: "distinct (map fst (parts e)) \<Longrightarrow> (k, pc) \<in> set (parts e) \<Longrightarrow> part_of k e = pc"
  by (simp add: part_of_def)

lemma pair_disjoint:
  "\<forall>r \<in> A. f r = k \<Longrightarrow> \<forall>r \<in> B. f r \<noteq> k \<Longrightarrow> (\<lambda>r. (f r, g r)) ` A \<inter> (\<lambda>r. (f r, g r)) ` B = {}"
  by auto

lemma newly_pairs:
  assumes inv: "wm_inv as e"
  shows "distinct (map (\<lambda>r. (key_of r, r_off r)) (newly e))"
    and "(\<lambda>r. (key_of r, r_off r)) ` set (newly e) = {(k, q). expected (part_of k e) \<le> q \<and> q < expected (part_of k (flushMarks e))}"
proof -
  note I = wm_invD [OF inv]
  note S = part_spec [OF inv]
  have po: "part_of k e = pc" if "(k, pc) \<in> set (parts e)" for k pc using parts_part_of [OF I(2) that] .
  have key: "key_of r = k" if "(k, pc) \<in> set (parts e)" "r \<in> set (snd (flush_part pc))" for k pc r
    using S(7) [of k] po [OF that(1)] that(2) by auto
  have new: "r \<in> set (newly e) \<longleftrightarrow> (\<exists>k pc. (k, pc) \<in> set (parts e) \<and> r \<in> set (snd (flush_part pc)))" for r
  proof
    assume "r \<in> set (newly e)"
    then obtain x where "x \<in> set (parts e)" "r \<in> set (snd (flush_part (snd x)))" unfolding newly_def by auto
    then show "\<exists>k pc. (k, pc) \<in> set (parts e) \<and> r \<in> set (snd (flush_part pc))" by (intro exI [of _ "fst x"] exI [of _ "snd x"]) simp
  qed (force simp: newly_def)
  show "(\<lambda>r. (key_of r, r_off r)) ` set (newly e) = {(k, q). expected (part_of k e) \<le> q \<and> q < expected (part_of k (flushMarks e))}"
  proof (intro subset_antisym subsetI)
    fix x assume "x \<in> (\<lambda>r. (key_of r, r_off r)) ` set (newly e)"
    then obtain r where r: "r \<in> set (newly e)" "x = (key_of r, r_off r)" by auto
    then obtain pc where pc: "(key_of r, pc) \<in> set (parts e)" "r \<in> set (snd (flush_part pc))" using new key by metis
    then have "r_off r \<in> r_off ` set (snd (flush_part (part_of (key_of r) e)))" using po by auto
    then show "x \<in> {(k, q). expected (part_of k e) \<le> q \<and> q < expected (part_of k (flushMarks e))}"
      unfolding S(8) [symmetric] r(2) by (auto simp: part_of_flush)
  next
    fix x assume "x \<in> {(k, q). expected (part_of k e) \<le> q \<and> q < expected (part_of k (flushMarks e))}"
    then obtain k q where x: "x = (k, q)" and q: "expected (part_of k e) \<le> q" "q < expected (part_of k (flushMarks e))" by auto
    then have "q \<in> r_off ` set (snd (flush_part (part_of k e)))" using S(8) [of k] by (auto simp: part_of_flush)
    then obtain r where r: "r \<in> set (snd (flush_part (part_of k e)))" "r_off r = q" by auto
    have "map_of (parts e) k \<noteq> None"
      using q by (auto simp: part_of_flush flush_part_None dest!: map_of_parts_known)
    then obtain pc where pc: "(k, pc) \<in> set (parts e)" by (auto simp: not_None_eq dest: map_of_SomeD)
    have "r \<in> set (newly e)" "key_of r = k" using new key [OF pc] po [OF pc] pc r by auto
    with r x show "x \<in> (\<lambda>r. (key_of r, r_off r)) ` set (newly e)" by (metis (mono_tags, lifting) image_eqI)
  qed
  have "distinct (map (\<lambda>r. (key_of r, r_off r)) (concat (map (\<lambda>x. snd (flush_part (snd x))) ps)))"
    if "distinct (map fst ps)" "set ps \<subseteq> set (parts e)" for ps
    using that
  proof (induction ps)
    case (Cons a ps)
    obtain k pc where a: "a = (k, pc)" by (cases a)
    have pc: "part_of k e = pc" using po Cons.prems(2) a by simp
    have "distinct (map r_off (snd (flush_part pc)))" using S(3) [of k] pc by simp
    then have 1: "distinct (map (\<lambda>r. (key_of r, r_off r)) (snd (flush_part pc)))"
      by (simp add: distinct_map inj_on_def)
    have k: "key_of r = k'" if "(k', pc') \<in> set (a # ps)" "r \<in> set (snd (flush_part pc'))" for k' pc' r
      using key [of k' pc' r] Cons.prems(2) that by blast
    have "key_of r \<noteq> k" if "x \<in> set ps" "r \<in> set (snd (flush_part (snd x)))" for x r
      using k [of "fst x" "snd x" r] that Cons.prems(1) a by force
    then have 2: "\<forall>r \<in> set (concat (map (\<lambda>x. snd (flush_part (snd x))) ps)). key_of r \<noteq> k"
      unfolding set_concat set_map by blast
    have 3: "\<forall>r \<in> set (snd (flush_part pc)). key_of r = k" using k [of k pc] a by simp
    have "(\<lambda>r. (key_of r, r_off r)) ` set (snd (flush_part pc)) \<inter>
        (\<lambda>r. (key_of r, r_off r)) ` set (concat (map (\<lambda>x. snd (flush_part (snd x))) ps)) = {}" by (rule pair_disjoint [OF 3 2])
    moreover have "distinct (map (\<lambda>r. (key_of r, r_off r)) (concat (map (\<lambda>x. snd (flush_part (snd x))) ps)))"
      using Cons.IH Cons.prems by simp
    ultimately show ?case using 1 by (simp only: a list.map concat.simps map_append distinct_append set_map snd_conv simp_thms)
  qed simp
  then show "distinct (map (\<lambda>r. (key_of r, r_off r)) (newly e))" unfolding newly_def using I(2) by blast
qed

lemma flush_inv:
  assumes inv: "wm_inv as e"
  shows "wm_inv (as @ [Flush]) (flushMarks e)" and "length (newly e) \<le> window e"
proof -
  note I = wm_invD [OF inv]
  let ?pair = "\<lambda>r. (key_of r, r_off r)"
  have p: "part_inv (as @ [Flush]) k (flushMarks e)" for k
  proof -
    note J = part_invD [OF I(1) [of k]]
    note S = part_spec [OF inv, of k]
    let ?iv = "{expected (part_of k e)..<expected (part_of k (flushMarks e))}"
    have ro: "run_offs k (flushMarks e) = run_offs k e" by (simp add: run_offs_def)
    have c: "completed_in (as @ [Flush]) k = completed_in as k" by (auto simp: completed_in_def)
    have dn: "done_offs (part_of k (flushMarks e)) = done_offs (part_of k e) - ?iv"
      using S(5) by (auto simp: done_offs_def part_of_flush)
    have iv: "?iv \<subseteq> done_offs (part_of k e)" using S(4,8) by (auto simp: part_of_flush done_offs_def)
    show ?thesis
    proof (rule part_invI)
      show "pending (part_of k (flushMarks e)) = done_offs (part_of k (flushMarks e)) \<union> run_offs k (flushMarks e)"
        using J(1,2) S(6) dn iv unfolding ro by (auto simp: part_of_flush)
      show "done_offs (part_of k (flushMarks e)) \<inter> run_offs k (flushMarks e) = {}" unfolding ro dn using J(2) by blast
      show "inited (part_of k (flushMarks e))" if "pending (part_of k (flushMarks e)) \<noteq> {}"
        using that J(3) S(1,6) by (auto simp: part_of_flush)
      show "expected (part_of k (flushMarks e)) \<le> q" if "q \<in> pending (part_of k (flushMarks e))" for q
        using that J(4) [of q] S(6) by (auto simp: part_of_flush)
      show "r_off x = q \<and> key_of x = k \<and> Finish x \<in> set (as @ [Flush])" if "map_of (doneMap (part_of k (flushMarks e))) q = Some x" for q x
        using that J(5) [of q x] S(5) by (auto simp: part_of_flush restrict_map_def split: if_splits)
      show "inited (part_of k (flushMarks e)) \<and> {r_off s..<expected (part_of k (flushMarks e))} \<subseteq> completed_in (as @ [Flush]) k"
        if "Dispatch s \<in> set (as @ [Flush])" "key_of s = k" for s
      proof -
        have "inited (part_of k e)" "{r_off s..<expected (part_of k e)} \<subseteq> completed_in as k" using J(6) [of s] that by auto
        moreover have "{r_off s..<expected (part_of k (flushMarks e))} \<subseteq> {r_off s..<expected (part_of k e)} \<union> ?iv" by auto
        ultimately show ?thesis using S(1,10) unfolding c by (auto simp: part_of_flush)
      qed
    qed
  qed
  have h: "held (flushMarks e) = held e - ?pair ` set (newly e)"
    using part_spec(6) [OF inv] unfolding newly_pairs(2) [OF inv] held_def by (auto simp: part_of_flush)
  have sub: "?pair ` set (newly e) \<subseteq> held e"
  proof (unfold newly_pairs(2) [OF inv] held_def, clarify)
    fix a b q assume "expected (part_of (a, b) e) \<le> q" "q < expected (part_of (a, b) (flushMarks e))"
    then show "q \<in> pending (part_of (a, b) e)"
      using subsetD [OF part_spec(9) [OF inv, of "(a, b)"], of q] by (simp add: part_of_flush)
  qed
  have len: "length (newly e) = card (?pair ` set (newly e))"
    using distinct_card [OF newly_pairs(1) [OF inv]] by simp
  show le: "length (newly e) \<le> window e" using card_mono [OF I(5) sub] len I(6) by simp
  have w: "window (flushMarks e) = window e - length (newly e)"
    by (simp add: flushMarks_def Let_def newly_def split_beta comp_def)
  have "card (held (flushMarks e)) = card (held e) - length (newly e)"
    unfolding h len using sub I(5) by (intro card_Diff_subset) (auto intro: finite_subset)
  moreover have "map fst (parts (flushMarks e)) = map fst (parts e)" by (simp add: flush_parts comp_def split_beta)
  moreover have "map_of (parts (flushMarks e)) k \<noteq> None \<longleftrightarrow> map_of (parts e) k \<noteq> None" for k
    by (simp add: flush_parts map_of_map2)
  moreover have "finite (held (flushMarks e))" using h I(5) by simp
  ultimately show "wm_inv (as @ [Flush]) (flushMarks e)"
    unfolding wm_inv_def w using p I by simp
qed

end
