(* ===== verification/Watermark_Claims.thy ===== *)
theory Watermark_Claims
  imports Watermark_Props
begin

text \<open>The properties of the watermark executor, and the runs in which it stays blocked.\<close>

subsection \<open>Runs\<close>

lemma new_wm_inv: "wm_inv [] (new_wm n win)"
  by (simp add: wm_inv_def part_inv_def Let_def new_wm_def part_of_def run_offs_def held_def completed_in_def)

lemma stop_inv: "wm_inv as e \<Longrightarrow> wm_inv (as @ [Stop]) (stopAccepting e)"
proof -
  assume inv: "wm_inv as e"
  note I = wm_invD [OF inv]
  have "part_inv (as @ [Stop]) k (stopAccepting e)" for k
    by (rule part_inv_cong [OF I(1)]) (auto simp: stopAccepting_def run_offs_def)
  then show ?thesis using I by (simp add: wm_inv_def stopAccepting_def)
qed

lemma wm_step_inv: "wm_inv as e \<Longrightarrow> wm_step e a e' \<Longrightarrow> wm_inv (as @ [a]) e'"
  by (erule wm_stepE) (simp_all add: dispatch_inv finish_inv fail_inv flush_inv stop_inv)

lemma wm_run_inv: "wm_run n win as e \<Longrightarrow> wm_inv as e"
  by (induction rule: wm_run.induct) (simp_all add: new_wm_inv wm_step_inv)

lemma marks_step:
  assumes "wm_step e a e'"
  shows "marks e' = marks e @ (if a = Flush then newly e else [])"
  using assms
  by (cases rule: wm_step.cases)
    (auto simp: flush_marks newly_def dispatch_def register_def noteDone_def fail_def stopAccepting_def Let_def split: option.splits)

lemma flush_accepting: "flushMarks (e\<lparr>accepting := b\<rparr>) = (flushMarks e)\<lparr>accepting := b\<rparr>"
  by (simp add: flushMarks_def Let_def)

lemma win_cap_step: "wm_step e a e' \<Longrightarrow> win_cap e' = win_cap e"
  by (cases rule: wm_step.cases)
    (auto simp: dispatch_def register_def noteDone_def fail_def stopAccepting_def Let_def split: option.splits)

subsection \<open>Blocked partitions\<close>

text \<open>\<open>gap k x e\<close>: the partition waits for offset \<open>x\<close>, which is not in flight.\<close>

definition gap :: "partitionKey \<Rightarrow> int \<Rightarrow> wm \<Rightarrow> bool" where
  "gap k x e = (inited (part_of k e) \<and> expected (part_of k e) = x \<and> x \<notin> pending (part_of k e))"

inductive wm_steps :: "wm \<Rightarrow> wm_act list \<Rightarrow> wm \<Rightarrow> bool" where
  steps_nil: "wm_steps e [] e"
| steps_cons: "wm_step e a e1 \<Longrightarrow> wm_steps e1 as e' \<Longrightarrow> wm_steps e (a # as) e'"

lemma gap_flush:
  assumes inv: "wm_inv as e" and g: "gap k x e"
  shows "flush_part (part_of k e) = (part_of k e, [])"
proof (rule flush_part_None)
  have "x \<notin> done_offs (part_of k e)" using g part_invD(1) [OF wm_invD(1) [OF inv]] by (auto simp: gap_def)
  then show "\<not> inited (part_of k e) \<or> map_of (doneMap (part_of k e)) (expected (part_of k e)) = None"
    using g by (auto simp: gap_def done_offs_def)
qed

lemma gap_step:
  assumes inv: "wm_inv as e" and g: "gap k x e" and st: "wm_step e a e'"
    and d: "\<And>r. a = Dispatch r \<Longrightarrow> key_of r = k \<Longrightarrow> x < r_off r"
  shows "gap k x e'"
  using st
proof (cases rule: wm_step.cases)
  case (wm_dispatch r)
  show ?thesis
  proof (cases "key_of r = k")
    case True
    then have "x < r_off r" using d wm_dispatch by blast
    then show ?thesis using g True wm_dispatch(2)
      by (auto simp: gap_def dispatch_def register_def Let_def register_part_def)
  next
    case False
    then show ?thesis using g wm_dispatch(2)
      by (auto simp: gap_def dispatch_def register_def Let_def register_part_def)
  qed
next
  case (wm_finish r)
  then show ?thesis using g finish_step [OF inv wm_finish(3)] by (auto simp: gap_def)
next
  case (wm_fail r)
  then show ?thesis using g by (auto simp: gap_def fail_def Let_def)
next
  case wm_flush
  then show ?thesis using g gap_flush [OF inv g] by (simp add: gap_def part_of_flush)
next
  case wm_stop
  then show ?thesis using g by (simp add: gap_def stopAccepting_def)
qed

lemma gap_newly:
  assumes inv: "wm_inv as e" and g: "gap k x e"
  shows "\<forall>r \<in> set (newly e). key_of r \<noteq> k"
proof
  fix r assume r: "r \<in> set (newly e)"
  have "(key_of r, r_off r) \<in> (\<lambda>r. (key_of r, r_off r)) ` set (newly e)" using r by blast
  then have "expected (part_of (key_of r) e) \<le> r_off r" "r_off r < expected (part_of (key_of r) (flushMarks e))"
    unfolding newly_pairs(2) [OF inv] by auto
  then show "key_of r \<noteq> k" using gap_flush [OF inv g] by (auto simp: part_of_flush)
qed

lemma gap_steps:
  assumes "wm_steps e bs e'" "wm_inv as e" "gap k x e" "\<And>r. Dispatch r \<in> set bs \<Longrightarrow> key_of r = k \<Longrightarrow> x < r_off r"
  shows "gap k x e' \<and> (\<forall>r \<in> set (drop (length (marks e)) (marks e')). key_of r \<noteq> k) \<and> length (marks e) \<le> length (marks e') \<and> wm_inv (as @ bs) e'"
  using assms
proof (induction arbitrary: as rule: wm_steps.induct)
  case (steps_cons e a e1 bs e')
  have i: "wm_inv (as @ [a]) e1" using wm_step_inv [OF steps_cons.prems(1) steps_cons.hyps(1)] .
  have g: "gap k x e1" using gap_step [OF steps_cons.prems(1,2) steps_cons.hyps(1)] steps_cons.prems(3) by auto
  have ih: "gap k x e'" "\<forall>r \<in> set (drop (length (marks e1)) (marks e')). key_of r \<noteq> k"
    "length (marks e1) \<le> length (marks e')" "wm_inv (as @ a # bs) e'"
    using steps_cons.IH [OF i g] steps_cons.prems(3) by auto
  obtain ms where ms: "marks e1 = marks e @ ms" "\<forall>r \<in> set ms. key_of r \<noteq> k"
    using marks_step [OF steps_cons.hyps(1)] gap_newly [OF steps_cons.prems(1,2)] by auto
  obtain ns where ns: "marks e' = marks e1 @ ns"
    using steps_cons.hyps(2) by (induction rule: wm_steps.induct) (auto dest: marks_step)
  show ?case using ih ms ns by auto
qed simp


subsection \<open>Polls are runs\<close>

lemma flush_enabled: "wm_inv as e \<Longrightarrow> wm_step e Flush (flushMarks e)"
  using flush_inv(2) by (intro wm_flush) (simp add: flush_marks newly_def)

lemma dispatch_loop_run:
  "wm_run n win as e \<Longrightarrow> \<exists>bs. wm_run n win (as @ bs) (fst (dispatch_loop recs e))"
proof (induction recs e arbitrary: as rule: dispatch_loop.induct)
  case (1 e)
  then show ?case by (intro exI [of _ "[]"]) simp
next
  case (2 r rs e)
  show ?case
  proof (cases "accepting e")
    case False
    then show ?thesis using "2.prems" by (intro exI [of _ "[]"]) simp
  next
    case True
    define e1 where "e1 = (if window e < win_cap e then e else flushMarks e)"
    obtain cs where r1: "wm_run n win (as @ cs) e1" and acc: "accepting e1"
    proof (cases "window e < win_cap e")
      case True
      then show thesis using that [of "[]"] "2.prems" \<open>accepting e\<close> by (simp add: e1_def)
    next
      case False
      then show thesis
        using that [of "[Flush]"] wm_more [OF "2.prems" flush_enabled [OF wm_run_inv [OF "2.prems"]]] \<open>accepting e\<close>
        by (simp add: e1_def)
    qed
    show ?thesis
    proof (cases "window e1 < win_cap e1")
      case False
      then show ?thesis using r1 True by (auto simp: e1_def [symmetric] Let_def)
    next
      case w: True
      have "wm_run n win ((as @ cs) @ [Dispatch r]) (dispatch r e1)"
        by (rule wm_more [OF r1]) (rule wm_dispatch [OF acc w])
      then obtain bs where "wm_run n win (as @ (cs @ [Dispatch r] @ bs)) (fst (dispatch_loop rs (dispatch r e1)))"
        using "2.IH" [OF _ e1_def w, of "(as @ cs) @ [Dispatch r]"] True by auto
      then show ?thesis using True w by (auto simp: e1_def [symmetric] Let_def)
    qed
  qed
qed

subsection \<open>Concrete runs\<close>

definition wrec :: "int \<Rightarrow> wm_rec" where
  "wrec q = \<lparr>r_topic = ''t'', r_part = 0, r_off = q, r_value = ''''\<rparr>"

fun act_of :: "wm_act \<Rightarrow> wm \<Rightarrow> wm option" where
  "act_of (Dispatch r) e = (if accepting e \<and> window e < win_cap e then Some (dispatch r e) else None)"
| "act_of (Finish r) e = (if r \<in> set (running e) then Some (noteDone r e) else None)"
| "act_of (Fail r) e = (if r \<in> set (running e) \<and> 0 < window e then Some (fail r e) else None)"
| "act_of Flush e = (if length (marks (flushMarks e)) - length (marks e) \<le> window e then Some (flushMarks e) else None)"
| "act_of Stop e = Some (stopAccepting e)"

fun acts :: "wm_act list \<Rightarrow> wm \<Rightarrow> wm option" where
  "acts [] e = Some e"
| "acts (a # as) e = Option.bind (act_of a e) (acts as)"

lemma act_of_step: "act_of a e = Some e' \<Longrightarrow> wm_step e a e'"
  by (cases a) (auto intro: wm_step.intros split: if_splits)

lemma acts_steps: "acts as e = Some e' \<Longrightarrow> wm_steps e as e'"
proof (induction as e rule: acts.induct)
  case (2 a as e)
  then obtain e1 where "act_of a e = Some e1" "acts as e1 = Some e'" by (auto simp: bind_eq_Some_conv)
  then show ?case using 2(1) steps_cons [OF act_of_step] by blast
qed (simp add: steps_nil)

lemma steps_run: "wm_steps e bs e' \<Longrightarrow> wm_run n win as e \<Longrightarrow> wm_run n win (as @ bs) e'"
proof (induction arbitrary: as rule: wm_steps.induct)
  case (steps_cons e a e1 bs e')
  have "wm_run n win (as @ [a]) e1" using wm_more [OF steps_cons.prems steps_cons.hyps(1)] .
  from steps_cons.IH [OF this] show ?case by simp
qed simp

lemma acts_run: "acts as (new_wm n win) = Some e \<Longrightarrow> wm_run n win as e"
  using steps_run [OF acts_steps wm_init] by fastforce

text \<open>Three jobs of one partition finish out of order; then one offset never arrives.\<close>

definition demo_acts :: "wm_act list" where
  "demo_acts = [Dispatch (wrec 5), Dispatch (wrec 6), Dispatch (wrec 7), Finish (wrec 6), Finish (wrec 5)]"

definition demo_wm :: wm where "demo_wm = the (acts demo_acts (new_wm 2 4))"

definition stuck_acts :: "wm_act list" where
  "stuck_acts = [Dispatch (wrec 5), Finish (wrec 5), Flush, Dispatch (wrec 8), Finish (wrec 8), Dispatch (wrec 9), Finish (wrec 9), Flush]"

definition stuck_wm :: wm where "stuck_wm = the (acts stuck_acts (new_wm 1 2))"

lemma demo_wm_run: "wm_run 2 4 demo_acts demo_wm"
proof -
  have "acts demo_acts (new_wm 2 4) \<noteq> None" by code_simp
  then show ?thesis by (intro acts_run) (auto simp: demo_wm_def not_None_eq)
qed

lemma stuck_wm_run: "wm_run 1 2 stuck_acts stuck_wm"
proof -
  have "acts stuck_acts (new_wm 1 2) \<noteq> None" by code_simp
  then show ?thesis by (intro acts_run) (auto simp: stuck_wm_def not_None_eq)
qed

subsection \<open>Properties\<close>

text \<open>C20. Only contiguous completed prefixes are committed. Whatever interleaving of dispatches, completions, failures,
  resets and flushes led here, when a flush marks a record for commit, every offset of its partition from any offset
  dispatched so far up to the marked one has been completed: no job below a commit can be lost.\<close>

theorem commits_only_completed_prefix:
  assumes "wm_run n win as e" and "wm_step e Flush e'" and "r \<in> set (drop (length (marks e)) (marks e'))"
    and "Dispatch r0 \<in> set as" and "key_of r0 = key_of r" and "r_off r0 \<le> q" and "q \<le> r_off r"
  shows "q \<in> completed_in as (key_of r)"
proof -
  note inv = wm_run_inv [OF assms(1)]
  have e': "e' = flushMarks e" using assms(2) by (simp add: wm_step_simps)
  have "r \<in> set (newly e)" using assms(3) by (simp add: e' flush_marks newly_def)
  then have "(key_of r, r_off r) \<in> (\<lambda>r. (key_of r, r_off r)) ` set (newly e)" by blast
  then have m: "expected (part_of (key_of r) e) \<le> r_off r" "r_off r < expected (part_of (key_of r) (flushMarks e))"
    unfolding newly_pairs(2) [OF inv] by auto
  have lo: "{r_off r0..<expected (part_of (key_of r) e)} \<subseteq> completed_in as (key_of r)"
    using part_invD(6) [OF wm_invD(1) [OF inv] assms(4,5)] by blast
  have hi: "{expected (part_of (key_of r) e)..<expected (part_of (key_of r) (flushMarks e))} \<subseteq> completed_in as (key_of r)"
    using part_spec(10) [OF inv, of "key_of r"] by (simp add: part_of_flush)
  have "q \<in> {r_off r0..<expected (part_of (key_of r) e)} \<union> {expected (part_of (key_of r) e)..<expected (part_of (key_of r) (flushMarks e))}"
    using m assms(6,7) by auto
  then show ?thesis using lo hi by blast
qed

theorem commits_only_completed_prefix_witness:
  "marks (flushMarks demo_wm) = [wrec 5, wrec 6] \<and> 5 \<in> completed_in demo_acts (''t'', 0)"
proof -
  have m: "marks (flushMarks demo_wm) = [wrec 5, wrec 6]" "marks demo_wm = []" by code_simp+
  have "5 \<in> completed_in demo_acts (key_of (wrec 6))"
    by (rule commits_only_completed_prefix [OF demo_wm_run flush_enabled [OF wm_run_inv [OF demo_wm_run]], where ?r0.0 = "wrec 5"])
      (simp_all add: m wrec_def demo_acts_def key_of_def)
  then show ?thesis using m by (simp add: key_of_def wrec_def)
qed

text \<open>The window never leaks and never blocks the wrong goroutine: in every run the taken slots are exactly the offsets
  dispatched and neither committed nor failed, at most the capacity; a finishing job is always still tracked (the branch
  for stale completions is never taken), a failing one always finds a slot to release, and a flush never releases more
  slots than are taken.\<close>

theorem window_accounting_exact:
  assumes "wm_run n win as e"
  shows "window e = card {(k, q). q \<in> pending (part_of k e)} \<and> window e \<le> win_cap e \<and> inFlight e = int (length (running e)) \<and>
    (\<forall>r \<in> set (running e). 0 < window e \<and> inited (part_of (key_of r) e) \<and> expected (part_of (key_of r) e) \<le> r_off r) \<and>
    length (marks (flushMarks e)) - length (marks e) \<le> window e"
proof -
  note inv = wm_run_inv [OF assms]
  note I = wm_invD [OF inv]
  have "0 < window e" if "r \<in> set (running e)" for r
  proof -
    have "r_off r \<in> pending (part_of (key_of r) e)"
      using finish_step(2) [OF inv that] part_invD(1) [OF I(1) [of "key_of r"]] by auto
    then have "(key_of r, r_off r) \<in> held e" by (simp add: held_def)
    then show ?thesis using I(5,6) by (auto simp: card_gt_0_iff)
  qed
  then show ?thesis
    using I(6,7,8) finish_step(3,4) [OF inv] flush_inv(2) [OF inv] by (simp add: held_def flush_marks newly_def)
qed

theorem window_accounting_exact_witness:
  "window demo_wm = 3 \<and> inFlight demo_wm = int (length (running demo_wm))"
proof -
  have "window demo_wm = 3" by code_simp
  then show ?thesis using window_accounting_exact [OF demo_wm_run] by simp
qed

text \<open>A missing offset blocks its partition for good: if a partition waits for an offset that is not in flight, then
  no run that never dispatches this or a lower offset of the partition ever commits a record of it again.\<close>

theorem gap_blocks_partition:
  assumes "wm_run n win as e" and "gap k x e" and "wm_steps e bs e'"
    and "\<And>r. Dispatch r \<in> set bs \<Longrightarrow> key_of r = k \<Longrightarrow> x < r_off r"
  shows "gap k x e' \<and> (\<forall>r \<in> set (drop (length (marks e)) (marks e')). key_of r \<noteq> k)"
  using gap_steps [OF assms(3) wm_run_inv [OF assms(1)] assms(2,4)] by blast

theorem gap_blocks_partition_witness:
  "gap (''t'', 0) 6 stuck_wm \<and> gap (''t'', 0) 6 (flushMarks stuck_wm)"
proof -
  have g: "gap (''t'', 0) 6 stuck_wm" by code_simp
  have "wm_steps stuck_wm [Flush] (flushMarks stuck_wm)"
    by (rule steps_cons [OF flush_enabled [OF wm_run_inv [OF stuck_wm_run]] steps_nil])
  from gap_blocks_partition [OF stuck_wm_run g this] g show ?thesis by simp
qed

text \<open>And then the whole member: in this run offsets 6 and 7 are never delivered (compacted, or committed by another
  member while the partition was away); two later jobs finish, fill the window of two, and from then on the executor can
  neither commit nor dispatch any record of any partition, whatever happens.\<close>

theorem gap_wedges_member:
  assumes "wm_steps stuck_wm bs e"
  shows "window e = win_cap e \<and> marks e = [wrec 5] \<and> running e = [] \<and> (\<forall>r. Dispatch r \<notin> set bs)"
proof -
  have inv: "wm_inv stuck_acts stuck_wm" using wm_run_inv [OF stuck_wm_run] .
  have start: "window stuck_wm = win_cap stuck_wm" "marks stuck_wm = [wrec 5]" "running stuck_wm = []" "newly stuck_wm = []"
    "flushMarks stuck_wm = stuck_wm" by code_simp+
  have "window e = win_cap e \<and> marks e = marks s \<and> running e = [] \<and> (\<forall>r. Dispatch r \<notin> set bs)"
    if "wm_steps s bs e" "window s = win_cap s" "running s = []" "flushMarks s = s" for s bs e
    using that
  proof (induction rule: wm_steps.induct)
    case (steps_cons s a s1 bs e)
    have "a \<in> {Flush, Stop} \<and> s1 \<in> {s, stopAccepting s}"
      using steps_cons.hyps(1) steps_cons.prems by (cases rule: wm_step.cases) auto
    moreover have "flushMarks (stopAccepting s) = stopAccepting s"
      using steps_cons.prems(3) by (simp add: stopAccepting_def flush_accepting)
    ultimately show ?case using steps_cons.IH steps_cons.prems by (auto simp: stopAccepting_def)
  qed simp
  from this [OF assms start(1,3,5)] start(2) show ?thesis by simp
qed

theorem gap_wedges_member_witness: "window (stopAccepting stuck_wm) = win_cap (stopAccepting stuck_wm)"
  using gap_wedges_member [OF steps_cons [OF wm_stop steps_nil]] by blast

end
