(* ===== verification/Fair_Scheduler.thy ===== *)
theory Fair_Scheduler
  imports Wire_Json Sorted_Set "HOL-Library.AList"
begin

text \<open>
  The weighted fair queue of \<^verbatim>\<open>pkg/fairness\<close> (\<^verbatim>\<open>lua.go\<close>, \<^verbatim>\<open>scheduler.go\<close>, \<^verbatim>\<open>config.go\<close>): one lane
  with its Redis keys, its scripts, and the methods of \<open>Scheduler\<close> over them.

  \<^item> \<open>fair\<close> is the Redis state of one lane: the ring of tenants with work, ordered by virtual
    time, the virtual-time and weight hashes, a ready list per tenant, the leases (of the lane
    and per tenant), the forwarding buffer with its tenant hash, and the keys claimed by \<open>SETNX\<close>.
  \<^item> Scores, virtual times, weights and lease expiries are rationals (seconds for expiries);
    the clock of a script and the clock of a Go caller are separate arguments. Keys with a
    TTL use Redis milliseconds, Go durations are nanoseconds.
  \<^item> A weight is text: \<open>None\<close> stands for text that does not start with a number.
  \<^item> \<open>sched\<close> is the Go object: its settings, the cached active view and the weight cache.
\<close>

subsection \<open>Settings\<close>

datatype lane = LaneTime | LaneThroughput | LaneOther string

record settings =
  lane_of :: lane
  ReadyWindow :: int
  GlobalConcurrency :: int
  MaxInflightPerTenant :: int
  LeaseTTL :: rat
  DefaultWeight :: rat
  WeightedConcurrency :: bool
  ActiveCountTTL :: int
  ActiveCountSource :: string
  ForwardingRecoveryGrace :: rat
  SlotDedupTTL :: int
  WeightCacheTTL :: int
  ResetVtimeWhenIdle :: bool
  VtimeIdleResetDebounce :: int

definition nanos :: "int \<Rightarrow> int" where "nanos s = s * 1000000000"

definition DefaultSettings :: "lane \<Rightarrow> settings" where
  "DefaultSettings l = \<lparr>lane_of = l, ReadyWindow = 500, GlobalConcurrency = 50, MaxInflightPerTenant = 0,
     LeaseTTL = 1800, DefaultWeight = 1, WeightedConcurrency = True, ActiveCountTTL = nanos 5,
     ActiveCountSource = '''', ForwardingRecoveryGrace = 5, SlotDedupTTL = 0, WeightCacheTTL = nanos 60,
     ResetVtimeWhenIdle = True, VtimeIdleResetDebounce = nanos 15\<rparr>"

definition EffectiveVtimeIdleResetDebounce :: "settings \<Rightarrow> int" where
  "EffectiveVtimeIdleResetDebounce c =
     (if nanos 1 \<le> VtimeIdleResetDebounce c then VtimeIdleResetDebounce c else nanos 15)"

definition LeaseTTLFloor :: rat where "LeaseTTLFloor = 60"

definition EffectiveLeaseTTL :: "settings \<Rightarrow> rat" where
  "EffectiveLeaseTTL c = (if LeaseTTLFloor \<le> LeaseTTL c then LeaseTTL c else LeaseTTLFloor)"

definition fetchN :: "settings \<Rightarrow> int" where
  "fetchN c = (let n = GlobalConcurrency c * 3 in if n < 60 then 60 else n)"

definition slotDedupTTL :: "settings \<Rightarrow> int" where
  "slotDedupTTL c = (let ttl = (if SlotDedupTTL c \<le> 0 then \<lfloor>EffectiveLeaseTTL c\<rfloor> else SlotDedupTTL c)
     in if ttl < 60 then 60 else ttl)"

definition ValidateLane :: "lane \<Rightarrow> bool" where
  "ValidateLane l = (case l of LaneTime \<Rightarrow> True | LaneThroughput \<Rightarrow> True | LaneOther _ \<Rightarrow> False)"

definition lane_name :: "lane \<Rightarrow> string" where
  "lane_name l = (case l of LaneTime \<Rightarrow> ''time'' | LaneThroughput \<Rightarrow> ''throughput'' | LaneOther s \<Rightarrow> s)"

subsection \<open>The state of a lane\<close>

record fair =
  ring :: "(string \<times> rat) list"
  vth :: "string \<rightharpoonup> rat"
  wh :: "string \<rightharpoonup> rat option"
  ready :: "string \<Rightarrow> string list"
  leases :: "(string \<times> rat) list"
  tlease :: "string \<Rightarrow> (string \<times> rat) list"
  fwd :: "(string \<times> string) list"
  fwd_meta :: "string \<rightharpoonup> string"
  slot_dedup :: "string \<Rightarrow> unit rkey"
  reclaim_claim :: "string \<Rightarrow> unit rkey"
  reclaim_lock :: "unit rkey"

definition empty_fair :: fair where
  "empty_fair = \<lparr>ring = [], vth = Map.empty, wh = Map.empty, ready = (\<lambda>_. []), leases = [],
     tlease = (\<lambda>_. []), fwd = [], fwd_meta = Map.empty, slot_dedup = (\<lambda>_. None),
     reclaim_claim = (\<lambda>_. None), reclaim_lock = None\<rparr>"

definition vtime_of :: "string \<Rightarrow> fair \<Rightarrow> rat" where
  "vtime_of t F = (case vth F t of None \<Rightarrow> 0 | Some v \<Rightarrow> v)"

text \<open>The weight a script uses: missing, unreadable and non-positive weights fall back.\<close>

definition weight_in :: "rat \<Rightarrow> string \<Rightarrow> fair \<Rightarrow> rat" where
  "weight_in dw t F = (case wh F t of Some (Some w) \<Rightarrow> if w \<le> 0 then dw else w | _ \<Rightarrow> dw)"

definition rpush :: "string \<Rightarrow> string \<Rightarrow> fair \<Rightarrow> fair" where
  "rpush t job F = F\<lparr>ready := (ready F)(t := ready F t @ [job])\<rparr>"

definition set_tlease :: "string \<Rightarrow> (string \<times> rat) list \<Rightarrow> fair \<Rightarrow> fair" where
  "set_tlease t z F = F\<lparr>tlease := (tlease F)(t := z)\<rparr>"

subsection \<open>Enqueue\<close>

definition ring_seed :: "string \<Rightarrow> fair \<Rightarrow> fair" where
  "ring_seed t F =
     (if zscore t (ring F) = None
      then let vt = vtime_of t F;
               vt' = (case ring F of [] \<Rightarrow> vt | (_, mn) # _ \<Rightarrow> if vt < mn then mn else vt)
           in F\<lparr>ring := zadd vt' t (ring F), vth := (vth F)(t \<mapsto> vt')\<rparr>
      else F)"

definition enqueue_script :: "int \<Rightarrow> string \<Rightarrow> string \<Rightarrow> fair \<Rightarrow> fair \<times> bool" where
  "enqueue_script window t payload F =
     (if 0 < window \<and> window \<le> int (length (ready F t)) then (F, False)
      else (rpush t payload (ring_seed t F), True))"

subsection \<open>Checkout\<close>

record ck_args =
  ca_budget :: int
  ca_cap :: int
  ca_fetch :: int
  ca_dw :: rat
  ca_weighted :: bool
  ca_ahint :: int
  ca_shint :: rat
  ca_ttl :: rat
  ca_slot :: string
  ca_now :: rat

datatype ck = CkBudget | CkNone | CkJob string string | CkError

definition ck_active :: "ck_args \<Rightarrow> fair \<Rightarrow> int" where
  "ck_active A F = (let a = int (length (ring F)); a1 = (if a < 1 then 1 else a)
     in if a1 < ca_ahint A then ca_ahint A else a1)"

definition ck_sum_w :: "ck_args \<Rightarrow> int \<Rightarrow> rat" where
  "ck_sum_w A active =
     (if 0 < ca_shint A then ca_shint A
      else let s = ca_dw A * of_int active in if s \<le> 0 then ca_dw A else s)"

text \<open>The share of one tenant: its part of the budget, at least one, and the hard cap; \<open>0\<close> is unlimited.\<close>

definition eff_cap :: "ck_args \<Rightarrow> int \<Rightarrow> string \<Rightarrow> fair \<Rightarrow> int" where
  "eff_cap A active t F =
     (let e = (if 0 < ca_budget A
               then if ca_weighted A
                    then max 1 \<lfloor>of_int (ca_budget A) * weight_in (ca_dw A) t F / ck_sum_w A active\<rfloor>
                    else max 1 \<lceil>of_int (ca_budget A) / (of_int active :: rat)\<rceil>
               else 0)
      in if 0 < ca_cap A \<and> (e = 0 \<or> ca_cap A < e) then ca_cap A else e)"

definition under :: "int \<Rightarrow> string \<Rightarrow> fair \<Rightarrow> bool" where
  "under c t F = (c = 0 \<or> int (length (tlease F t)) < c)"

definition grant_lease :: "ck_args \<Rightarrow> string \<Rightarrow> string \<Rightarrow> fair \<Rightarrow> fair" where
  "grant_lease A t job F =
     (let ex = ca_now A + ca_ttl A; i = ca_slot A in
      F\<lparr>leases := zadd ex i (leases F), tlease := (tlease F)(t := zadd ex i (tlease F t)),
        fwd := AList.update i job (fwd F), fwd_meta := (fwd_meta F)(i \<mapsto> t)\<rparr>)"

definition lpop_rest :: "string \<Rightarrow> string list \<Rightarrow> fair \<Rightarrow> fair" where
  "lpop_rest t rest F = F\<lparr>ready := (ready F)(t := rest)\<rparr>"

definition grant_time :: "ck_args \<Rightarrow> string \<Rightarrow> string \<Rightarrow> string list \<Rightarrow> fair \<Rightarrow> fair \<times> ck" where
  "grant_time A t job rest F =
     (let F1 = lpop_rest t rest F;
          F2 = (if rest = [] then F1\<lparr>ring := zrem t (ring F1)\<rparr> else F1)
      in (grant_lease A t job F2, CkJob t job))"

text \<open>The throughput lane charges \<open>1/w\<close> at checkout. A tenant without a ring score would make
  the script fail after the pop.\<close>

definition grant_count :: "ck_args \<Rightarrow> string \<Rightarrow> string \<Rightarrow> string list \<Rightarrow> fair \<Rightarrow> fair \<times> ck" where
  "grant_count A t job rest F =
     (let F1 = lpop_rest t rest F in
      case zscore t (ring F1) of
        None \<Rightarrow> (F1, CkError)
      | Some sc \<Rightarrow>
          (let vt = sc + 1 / weight_in (ca_dw A) t F1;
               F2 = F1\<lparr>vth := (vth F1)(t \<mapsto> vt)\<rparr>;
               F3 = (if rest = [] then F2\<lparr>ring := zrem t (ring F2)\<rparr> else F2\<lparr>ring := zadd vt t (ring F2)\<rparr>)
           in (grant_lease A t job F3, CkJob t job)))"

text \<open>One round over the members: the first tenant below its limit with a job gets the slot; a
  tenant below its limit without a job leaves the ring.\<close>

fun checkout_scan :: "(string \<Rightarrow> string \<Rightarrow> string list \<Rightarrow> fair \<Rightarrow> fair \<times> ck) \<Rightarrow> (string \<Rightarrow> fair \<Rightarrow> int) \<Rightarrow>
    rat \<Rightarrow> string list \<Rightarrow> fair \<Rightarrow> fair \<times> ck" where
  "checkout_scan grant lmt now [] F = (F, CkNone)"
| "checkout_scan grant lmt now (t # ts) F =
     (let F1 = set_tlease t (zpurge now (tlease F t)) F in
      if under (lmt t F1) t F1
      then case ready F1 t of
          job # rest \<Rightarrow> grant t job rest F1
        | [] \<Rightarrow> checkout_scan grant lmt now ts (F1\<lparr>ring := zrem t (ring F1)\<rparr>)
      else checkout_scan grant lmt now ts F1)"

definition checkout_script :: "(ck_args \<Rightarrow> string \<Rightarrow> string \<Rightarrow> string list \<Rightarrow> fair \<Rightarrow> fair \<times> ck) \<Rightarrow>
    ck_args \<Rightarrow> fair \<Rightarrow> fair \<times> ck" where
  "checkout_script grant A F =
     (let F0 = F\<lparr>leases := zpurge (ca_now A) (leases F)\<rparr> in
      if 0 < ca_budget A \<and> ca_budget A \<le> int (length (leases F0)) then (F0, CkBudget)
      else let active = ck_active A F0;
               members = take (nat (ca_fetch A)) (map fst (ring F0));
               (F1, r) = checkout_scan (grant A) (eff_cap A active) (ca_now A) members F0
           in if r = CkNone then checkout_scan (grant A) (\<lambda>_ _. ca_cap A) (ca_now A) members F1 else (F1, r))"

definition checkout_time :: "ck_args \<Rightarrow> fair \<Rightarrow> fair \<times> ck" where
  "checkout_time A F = checkout_script grant_time A F"

definition checkout_count :: "ck_args \<Rightarrow> fair \<Rightarrow> fair \<times> ck" where
  "checkout_count A F = checkout_script grant_count A F"

subsection \<open>Completion, confirmation, abort\<close>

definition charge :: "string \<Rightarrow> rat \<Rightarrow> fair \<Rightarrow> fair" where
  "charge t inc F =
     (let vt = vtime_of t F + inc; F1 = F\<lparr>vth := (vth F)(t \<mapsto> vt)\<rparr>
      in if ready F t \<noteq> [] then F1\<lparr>ring := zadd vt t (ring F1)\<rparr> else F1)"

definition drop_lease :: "string \<Rightarrow> string \<Rightarrow> fair \<Rightarrow> fair" where
  "drop_lease t i F = F\<lparr>leases := zrem i (leases F), tlease := (tlease F)(t := zrem i (tlease F t))\<rparr>"

definition complete_time_lease :: "string \<Rightarrow> rat \<Rightarrow> string \<Rightarrow> fair \<Rightarrow> fair" where
  "complete_time_lease t inc i F =
     (if i \<in> fst ` set (tlease F t) then charge t inc (drop_lease t i F) else drop_lease t i F)"

definition complete_time_legacy :: "string \<Rightarrow> rat \<Rightarrow> fair \<Rightarrow> fair" where
  "complete_time_legacy t inc F = charge t inc F"

definition complete_count_lease :: "string \<Rightarrow> string \<Rightarrow> fair \<Rightarrow> fair" where
  "complete_count_lease t i F = drop_lease t i F"

definition drop_forward :: "string \<Rightarrow> fair \<Rightarrow> fair" where
  "drop_forward i F = F\<lparr>fwd := AList.delete i (fwd F), fwd_meta := (fwd_meta F)(i := None)\<rparr>"

definition confirm_script :: "string \<Rightarrow> fair \<Rightarrow> fair \<times> bool" where
  "confirm_script i F = (if map_of (fwd F) i \<noteq> None then (drop_forward i F, True) else (F, False))"

definition abort_time :: "string \<Rightarrow> string \<Rightarrow> fair \<Rightarrow> fair \<times> bool" where
  "abort_time i t F =
     (case map_of (fwd F) i of
        None \<Rightarrow> (F, False)
      | Some job \<Rightarrow> (drop_lease t i (rpush t job (drop_forward i F)), True))"

definition abort_count :: "rat \<Rightarrow> string \<Rightarrow> string \<Rightarrow> fair \<Rightarrow> fair \<times> bool" where
  "abort_count dw i t F =
     (case map_of (fwd F) i of
        None \<Rightarrow> (F, False)
      | Some job \<Rightarrow> (charge t (- (1 / weight_in dw t F)) (drop_lease t i (rpush t job (drop_forward i F))), True))"

definition rearm_script :: "string \<Rightarrow> string \<Rightarrow> rat \<Rightarrow> fair \<Rightarrow> fair" where
  "rearm_script t i ex F =
     F\<lparr>leases := zadd ex i (leases F), tlease := (tlease F)(t := zadd ex i (tlease F t))\<rparr>"

definition reset_script :: "rat \<Rightarrow> fair \<Rightarrow> fair \<times> bool" where
  "reset_script now F =
     (if ring F \<noteq> [] then (F, False)
      else if zpurge now (leases F) \<noteq> [] then (F, False)
      else if fwd F \<noteq> [] then (F, False)
      else (F\<lparr>vth := Map.empty\<rparr>, True))"

subsection \<open>The Go object\<close>

record sched =
  cfg :: settings
  activeView :: "int \<times> rat"
  activeViewAt :: "int option"
  weightsCache :: "(string \<rightharpoonup> rat) option"
  weightsCacheAt :: int

definition newScheduler :: "settings \<Rightarrow> sched" where
  "newScheduler c =
     (let c1 = (if ReadyWindow c \<le> 0 then c\<lparr>ReadyWindow := 500\<rparr> else c);
          c2 = (if DefaultWeight c1 \<le> 0 then c1\<lparr>DefaultWeight := 1\<rparr> else c1)
      in \<lparr>cfg = c2, activeView = (0, 0), activeViewAt = None, weightsCache = None, weightsCacheAt = 0\<rparr>)"

definition bustWeightCache :: "sched \<Rightarrow> sched" where
  "bustWeightCache S = S\<lparr>weightsCache := None\<rparr>"

definition setWeight :: "string \<Rightarrow> rat \<Rightarrow> fair \<Rightarrow> sched \<Rightarrow> fair \<times> sched" where
  "setWeight t w F S = (F\<lparr>wh := (wh F)(t \<mapsto> Some w)\<rparr>, bustWeightCache S)"

definition cache_of :: "fair \<Rightarrow> string \<rightharpoonup> rat" where
  "cache_of F = (\<lambda>t. case wh F t of Some (Some w) \<Rightarrow> if 0 < w then Some w else None | _ \<Rightarrow> None)"

definition cached_weight :: "int \<Rightarrow> sched \<Rightarrow> string \<Rightarrow> rat option" where
  "cached_weight now S t =
     (case weightsCache S of
        Some c \<Rightarrow> if now - weightsCacheAt S < WeightCacheTTL (cfg S) then c t else None
      | None \<Rightarrow> None)"

text \<open>\<open>up\<close>: whether Redis answers; \<open>now\<close> is the caller's clock in nanoseconds.\<close>

definition weightFor :: "bool \<Rightarrow> int \<Rightarrow> string \<Rightarrow> fair \<Rightarrow> sched \<Rightarrow> rat \<times> sched" where
  "weightFor up now t F S =
     (case cached_weight now S t of
        Some w \<Rightarrow> (w, S)
      | None \<Rightarrow>
          if \<not> up then (DefaultWeight (cfg S), S)
          else ((case cache_of F t of Some w \<Rightarrow> w | None \<Rightarrow> DefaultWeight (cfg S)),
                S\<lparr>weightsCache := Some (cache_of F), weightsCacheAt := now\<rparr>))"

fun sum_weights :: "bool \<Rightarrow> int \<Rightarrow> string list \<Rightarrow> fair \<Rightarrow> sched \<Rightarrow> rat \<times> sched" where
  "sum_weights up now [] F S = (0, S)"
| "sum_weights up now (t # ts) F S =
     (let (w, S1) = weightFor up now t F S; (s, S2) = sum_weights up now ts F S1 in (w + s, S2))"

text \<open>The view of the lane: tenants of the ring and of the lease keys a \<open>SCAN\<close> reports. A
  \<open>SCAN\<close> may report a key twice; the reported tenants are an argument.\<close>

definition computeRingLeaseView :: "bool \<Rightarrow> int \<Rightarrow> string list \<Rightarrow> fair \<Rightarrow> sched \<Rightarrow> (int \<times> rat) \<times> sched" where
  "computeRingLeaseView up now scan F S =
     (if \<not> up then ((0, 0), S)
      else let ids = map fst (ring F) @ filter (\<lambda>t. tlease F t \<noteq> []) scan;
               uniq = rev (remdups (rev ids));
               (s, S1) = (if WeightedConcurrency (cfg S) then sum_weights up now uniq F S else (0, S))
           in ((int (length uniq), s), S1))"

text \<open>The optional ingest-lag counter: \<open>None\<close> not configured, \<open>Some None\<close> an error.\<close>

type_synonym lag = "int option option"

definition computeActiveView :: "lag \<Rightarrow> bool \<Rightarrow> int \<Rightarrow> string list \<Rightarrow> fair \<Rightarrow> sched \<Rightarrow> (int \<times> rat) \<times> sched" where
  "computeActiveView lag up now scan F S =
     (let ((c, s), S1) = computeRingLeaseView up now scan F S in
      if ActiveCountSource (cfg S) = ''ingest_lag''
      then case lag of
          Some (Some n) \<Rightarrow>
            (let dw = (if DefaultWeight (cfg S) \<le> 0 then 1 else DefaultWeight (cfg S));
                 s1 = (if WeightedConcurrency (cfg S) \<and> s \<le> 0 \<and> 0 < n then dw * of_int n else s)
             in ((n, s1), S1))
        | _ \<Rightarrow> ((c, s), S1)
      else ((c, s), S1))"

definition activeViewCached :: "lag \<Rightarrow> bool \<Rightarrow> int \<Rightarrow> string list \<Rightarrow> fair \<Rightarrow> sched \<Rightarrow> (int \<times> rat) \<times> sched" where
  "activeViewCached lag up now scan F S =
     (case activeViewAt S of
        Some since \<Rightarrow>
          if now - since < ActiveCountTTL (cfg S) then (activeView S, S)
          else let (v, S1) = computeActiveView lag up now scan F S in (v, S1\<lparr>activeView := v, activeViewAt := Some now\<rparr>)
      | None \<Rightarrow> let (v, S1) = computeActiveView lag up now scan F S in (v, S1\<lparr>activeView := v, activeViewAt := Some now\<rparr>))"

subsection \<open>Methods\<close>

datatype 'a reply = Ok 'a | BadLane | ScriptError

definition enqueue :: "sched \<Rightarrow> string \<Rightarrow> string \<Rightarrow> fair \<Rightarrow> fair \<times> bool reply" where
  "enqueue S t payload F =
     (if \<not> ValidateLane (lane_of (cfg S)) then (F, BadLane)
      else let (F1, ok) = enqueue_script (ReadyWindow (cfg S)) t payload F in (F1, Ok ok))"

definition ck_args_of :: "settings \<Rightarrow> int \<times> rat \<Rightarrow> string \<Rightarrow> rat \<Rightarrow> ck_args" where
  "ck_args_of c v i rnow = \<lparr>ca_budget = GlobalConcurrency c, ca_cap = MaxInflightPerTenant c, ca_fetch = fetchN c,
     ca_dw = DefaultWeight c, ca_weighted = WeightedConcurrency c, ca_ahint = fst v, ca_shint = snd v,
     ca_ttl = EffectiveLeaseTTL c, ca_slot = i, ca_now = rnow\<rparr>"

definition run_checkout :: "settings \<Rightarrow> int \<times> rat \<Rightarrow> string \<Rightarrow> rat \<Rightarrow> fair \<Rightarrow> fair \<times> ck" where
  "run_checkout c v i rnow F =
     (if lane_of c = LaneTime then checkout_time (ck_args_of c v i rnow) F
      else checkout_count (ck_args_of c v i rnow) F)"

text \<open>\<open>Checkout\<close> under a view; \<open>i\<close> is the fresh slot id and \<open>rnow\<close> the clock of Redis. The result
  is the tenant and the payload.\<close>

definition checkout_view :: "settings \<Rightarrow> int \<times> rat \<Rightarrow> string \<Rightarrow> rat \<Rightarrow> fair \<Rightarrow> fair \<times> (string \<times> string) option reply" where
  "checkout_view c v i rnow F =
     (if \<not> ValidateLane (lane_of c) then (F, BadLane)
      else let (F1, r) = run_checkout c v i rnow F in
           (F1, case r of CkJob t job \<Rightarrow> Ok (Some (t, job)) | CkError \<Rightarrow> ScriptError | _ \<Rightarrow> Ok None))"

definition checkout :: "lag \<Rightarrow> bool \<Rightarrow> int \<Rightarrow> string list \<Rightarrow> string \<Rightarrow> rat \<Rightarrow> fair \<Rightarrow> sched \<Rightarrow>
    fair \<times> sched \<times> (string \<times> string) option reply" where
  "checkout lag up now scan i rnow F S =
     (if \<not> ValidateLane (lane_of (cfg S)) then (F, S, BadLane)
      else let (v, S1) = activeViewCached lag up now scan F S;
               (F1, r) = checkout_view (cfg S1) v i rnow F
           in (F1, S1, r))"

definition confirmForward :: "string \<Rightarrow> fair \<Rightarrow> fair \<times> bool" where
  "confirmForward i F = (if i = '''' then (F, False) else confirm_script i F)"

definition abortForward :: "settings \<Rightarrow> string \<Rightarrow> string \<Rightarrow> fair \<Rightarrow> fair \<times> bool" where
  "abortForward c i t F =
     (if i = '''' \<or> t = '''' then (F, False)
      else if lane_of c = LaneTime then abort_time i t F
      else abort_count (DefaultWeight c) i t F)"

definition complete :: "bool \<Rightarrow> int \<Rightarrow> string \<Rightarrow> string \<Rightarrow> rat \<Rightarrow> fair \<Rightarrow> sched \<Rightarrow> fair \<times> sched" where
  "complete up now t i dur F S =
     (if lane_of (cfg S) = LaneThroughput
      then (if i = '''' then F else complete_count_lease t i F, S)
      else let (w, S1) = weightFor up now t F S;
               inc = (if 0 < w then dur / w else dur)
           in (if i = '''' then complete_time_legacy t inc F else complete_time_lease t inc i F, S1))"

definition renewLease :: "settings \<Rightarrow> rat \<Rightarrow> string \<Rightarrow> string \<Rightarrow> fair \<Rightarrow> fair" where
  "renewLease c gnow t i F =
     (if i = '''' then F
      else let ex = gnow + EffectiveLeaseTTL c in
           F\<lparr>leases := zadd_xx ex i (leases F), tlease := (tlease F)(t := zadd_xx ex i (tlease F t))\<rparr>)"

definition rearmLease :: "settings \<Rightarrow> rat \<Rightarrow> string \<Rightarrow> string \<Rightarrow> fair \<Rightarrow> fair" where
  "rearmLease c gnow t i F = rearm_script t i (gnow + EffectiveLeaseTTL c) F"

definition slotLeaseActive :: "rat \<Rightarrow> string \<Rightarrow> fair \<Rightarrow> bool \<times> rat" where
  "slotLeaseActive gnow i F =
     (if i = '''' then (False, 0)
      else case zscore i (leases F) of None \<Rightarrow> (False, 0) | Some s \<Rightarrow> (gnow < s, s))"

text \<open>\<open>ClaimSlotExecution\<close> fails open: when Redis does not answer the slot counts as claimed.\<close>

definition claimSlotExecution :: "bool \<Rightarrow> settings \<Rightarrow> int \<Rightarrow> string \<Rightarrow> fair \<Rightarrow> fair \<times> bool" where
  "claimSlotExecution up c clk i F =
     (if i = '''' then (F, True)
      else if \<not> up then (F, True)
      else case purge_key clk (slot_dedup F i) of
          None \<Rightarrow> (F\<lparr>slot_dedup := (slot_dedup F)(i := set_key_ex clk (slotDedupTTL c * 1000) ())\<rparr>, True)
        | Some _ \<Rightarrow> (F, False))"

definition clearSlotExecution :: "string \<Rightarrow> fair \<Rightarrow> fair" where
  "clearSlotExecution i F = (if i = '''' then F else F\<lparr>slot_dedup := (slot_dedup F)(i := None)\<rparr>)"

definition reclaimExpiredLeases :: "int \<Rightarrow> rat \<Rightarrow> fair \<Rightarrow> fair \<times> int" where
  "reclaimExpiredLeases clk gnow F =
     (case purge_key clk (reclaim_lock F) of
        Some _ \<Rightarrow> (F, 0)
      | None \<Rightarrow>
          (F\<lparr>reclaim_lock := set_key_ex clk 25000 (), leases := zpurge gnow (leases F),
             tlease := (\<lambda>t. zpurge gnow (tlease F t))\<rparr>,
           int (length (leases F)) - int (length (zpurge gnow (leases F)))))"

definition resetVtimeIfQuiescent :: "settings \<Rightarrow> rat \<Rightarrow> fair \<Rightarrow> fair \<times> bool reply" where
  "resetVtimeIfQuiescent c gnow F =
     (if \<not> ValidateLane (lane_of c) then (F, BadLane)
      else let (F1, ok) = reset_script gnow F in (F1, Ok ok))"

record stats =
  ActiveTenants :: int
  InflightTotal :: int
  ForwardingDepth :: int

definition stats_of :: "rat \<Rightarrow> fair \<Rightarrow> stats" where
  "stats_of gnow F = \<lparr>ActiveTenants = int (length (ring F)), InflightTotal = int (length (zpurge gnow (leases F))),
     ForwardingDepth = int (length (fwd F))\<rparr>"

text \<open>\<open>IngestPending\<close>: \<open>None\<close> when the counter fails.\<close>

definition ingestPending :: "lag \<Rightarrow> bool option" where
  "ingestPending lag = (case lag of None \<Rightarrow> Some False | Some None \<Rightarrow> None | Some (Some n) \<Rightarrow> Some (0 < n))"

subsection \<open>Payloads\<close>

text \<open>\<open>json.Unmarshal\<close> into a Go map: \<open>null\<close> gives a nil map (reads find nothing, a write panics).\<close>

definition unmarshal_map :: "codec \<Rightarrow> string \<Rightarrow> (string \<times> json) list option option" where
  "unmarshal_map K raw =
     (case jdec K raw of Some (JObj m) \<Rightarrow> Some (Some m) | Some JNull \<Rightarrow> Some None | _ \<Rightarrow> None)"

definition map_fields :: "(string \<times> json) list option \<Rightarrow> (string \<times> json) list" where
  "map_fields m = (case m of None \<Rightarrow> [] | Some m \<Rightarrow> m)"

definition str_field :: "string \<Rightarrow> (string \<times> json) list \<Rightarrow> string" where
  "str_field k m = (case jget k m of Some (JStr s) \<Rightarrow> s | _ \<Rightarrow> '''')"

definition tenantFromPayload :: "codec \<Rightarrow> string \<Rightarrow> string" where
  "tenantFromPayload K raw =
     (case unmarshal_map K raw of
        None \<Rightarrow> ''''
      | Some m0 \<Rightarrow> let m = map_fields m0 in
          if str_field ''tenant_id'' m \<noteq> '''' then str_field ''tenant_id'' m
          else if str_field ''batch_id'' m \<noteq> '''' then str_field ''batch_id'' m
          else str_field ''job_id'' m)"

definition tenantFromMessage :: "(string \<times> json) list \<Rightarrow> string" where
  "tenantFromMessage m =
     (if str_field ''tenant_id'' m \<noteq> '''' then str_field ''tenant_id'' m
      else if str_field ''batch_id'' m \<noteq> '''' then str_field ''batch_id'' m
      else if str_field ''job_id'' m \<noteq> '''' then str_field ''job_id'' m
      else ''default'')"

datatype slot_mark = SlotMarked string string | SlotMarkError | SlotMarkPanic

definition markSlot :: "codec \<Rightarrow> string \<Rightarrow> string \<Rightarrow> string \<Rightarrow> lane \<Rightarrow> slot_mark" where
  "markSlot K raw t i l =
     (case unmarshal_map K raw of
        None \<Rightarrow> SlotMarkError
      | Some None \<Rightarrow> SlotMarkPanic
      | Some (Some m) \<Rightarrow>
          (let m1 = jset ''_fair_slot_id'' (JStr i) (jset ''_fair_type'' (JStr (lane_name l))
                      (jset ''_fair_slot'' (JBool True) m));
               m2 = (if jget ''tenant_id'' m1 = None then jset ''tenant_id'' (JStr t) m1 else m1)
           in SlotMarked (jenc K (JObj m2)) (str_field ''job_id'' m2)))"

subsection \<open>Recovery of abandoned forwards\<close>

text \<open>\<open>ListStaleForwards\<close>: the entries of the forwarding buffer whose lease is gone, or expired
  for at least the grace, as (slot, tenant, payload). \<open>HGETALL\<close> gives them in no particular order.\<close>

definition stale_lease :: "settings \<Rightarrow> rat \<Rightarrow> string \<Rightarrow> fair \<Rightarrow> bool" where
  "stale_lease c gnow i F =
     (case zscore i (leases F) of
        None \<Rightarrow> True
      | Some ex \<Rightarrow> \<not> (gnow < ex \<or> gnow - ex < ForwardingRecoveryGrace c))"

definition stale_tenant :: "codec \<Rightarrow> string \<Rightarrow> string \<Rightarrow> fair \<Rightarrow> string" where
  "stale_tenant K i payload F =
     (let t = (case fwd_meta F i of None \<Rightarrow> '''' | Some t \<Rightarrow> t)
      in if t = '''' then tenantFromPayload K payload else t)"

definition listStaleForwards :: "codec \<Rightarrow> settings \<Rightarrow> rat \<Rightarrow> fair \<Rightarrow> (string \<times> string \<times> string) list" where
  "listStaleForwards K c gnow F =
     map (\<lambda>(i, p). (i, stale_tenant K i p F, p))
       (filter (\<lambda>(i, p). stale_lease c gnow i F \<and> stale_tenant K i p F \<noteq> '''') (fwd F))"

text \<open>\<open>ReclaimStaleForward\<close>, under the fates of its calls. The result is the produced message,
  if any, and whether the call returned an error.\<close>

record rf_env =
  rf_claim :: fate
  rf_produce :: fate
  rf_abort :: fate
  rf_confirm :: fate
  rf_rearm :: fate

datatype rf_result = RfOk | RfErr | RfPanic

definition reclaimClaimTTL :: int where "reclaimClaimTTL = 30000"

definition take_claim :: "int \<Rightarrow> string \<Rightarrow> fair \<Rightarrow> fair" where
  "take_claim clk i F = F\<lparr>reclaim_claim := (reclaim_claim F)(i :=
     (case purge_key clk (reclaim_claim F i) of None \<Rightarrow> set_key_ex clk reclaimClaimTTL () | Some k \<Rightarrow> Some k))\<rparr>"

definition finish_forward :: "settings \<Rightarrow> rf_env \<Rightarrow> rat \<Rightarrow> string \<Rightarrow> string \<Rightarrow> fair \<Rightarrow> fair \<times> rf_result" where
  "finish_forward c E gnow t i F =
     (let F1 = when_run (rf_confirm E) (\<lambda>G. fst (confirmForward i G)) F in
      if rf_confirm E \<noteq> Replied then (F1, RfErr)
      else (when_run (rf_rearm E) (rearmLease c gnow t i) F1, if rf_rearm E = Replied then RfOk else RfErr))"

definition reclaimStaleForward :: "codec \<Rightarrow> settings \<Rightarrow> rf_env \<Rightarrow> int \<Rightarrow> rat \<Rightarrow> string \<times> string \<times> string \<Rightarrow> fair \<Rightarrow>
    fair \<times> (string \<times> string) list \<times> rf_result" where
  "reclaimStaleForward K c E clk gnow entry F =
     (case entry of (i, t, p) \<Rightarrow>
      let F1 = when_run (rf_claim E) (take_claim clk i) F in
      if rf_claim E \<noteq> Replied then (F1, [], RfErr)
      else if purge_key clk (reclaim_claim F i) \<noteq> None then (F1, [], RfOk)
      else case markSlot K p t i (lane_of c) of
          SlotMarkError \<Rightarrow> (F1, [], RfErr)
        | SlotMarkPanic \<Rightarrow> (F1, [], RfPanic)
        | SlotMarked body key \<Rightarrow>
            if rf_produce E \<noteq> Replied
            then (when_run (rf_abort E) (\<lambda>G. fst (abortForward c i t G)) F1,
                  if rf_produce E = NotRun then [] else [(key, body)], RfErr)
            else let (F2, r) = finish_forward c E gnow t i F1 in (F2, [(key, body)], r))"

end
