(* ===== verification/Fair_Forwarder.thy ===== *)
theory Fair_Forwarder
  imports Fair_Scheduler
begin

text \<open>
  The two ends of a fairness lane (\<^verbatim>\<open>dispatcher.go\<close>, \<^verbatim>\<open>forwarder.go\<close>, \<^verbatim>\<open>daemon/fair_routing.go\<close>,
  \<^verbatim>\<open>jobexpiry\<close>): the dispatcher moves ingest records into the ready lists, the forwarder checks
  jobs out and produces them to the ready topic of their runtime.

  Every remote call has a fate of its own (\<open>Replied\<close>, \<open>ReplyLost\<close>, \<open>NotRun\<close>), given by the
  environment record of the step; \<^verbatim>\<open>time.Parse\<close> is a function argument (RFC 3339 text to Unix
  seconds). The outputs of a step are the messages it produced and the expired payloads it
  handed to the drop publisher.
\<close>

subsection \<open>Expiry\<close>

definition is_space :: "char \<Rightarrow> bool" where
  "is_space ch = (of_char ch \<in> {9, 10, 11, 12, 13, 32::nat})"

definition trim :: "string \<Rightarrow> string" where
  "trim s = rev (dropWhile is_space (rev (dropWhile is_space s)))"

definition expired :: "(string \<Rightarrow> rat option) \<Rightarrow> string \<Rightarrow> rat \<Rightarrow> bool" where
  "expired parse validTill now =
     (let v = trim validTill in
      if v = '''' then False
      else case parse v of None \<Rightarrow> True | Some t \<Rightarrow> t \<le> now)"

record coords =
  src_topic :: string
  src_partition :: int
  src_offset :: int

definition stamp :: "string \<Rightarrow> json \<Rightarrow> (string \<times> json) list \<Rightarrow> (string \<times> json) list" where
  "stamp k v m = (if jget k m = None then jset k v m else m)"

definition stampSource :: "coords \<Rightarrow> (string \<times> json) list \<Rightarrow> (string \<times> json) list" where
  "stampSource src m =
     stamp ''_src_offset'' (JNum (src_offset src))
       (stamp ''_src_partition'' (JNum (src_partition src))
         (stamp ''_src_topic'' (JStr (src_topic src)) m))"

subsection \<open>Dispatcher\<close>

datatype dp_result = DpCommit bool string | DpBackpressure string | DpError string | DpPanic

text \<open>\<open>DpCommit enqueued tenant\<close>: the offset is committed. \<open>drop_ok\<close>: the expired drop succeeds.\<close>

definition process :: "codec \<Rightarrow> (string \<Rightarrow> rat option) \<Rightarrow> bool \<Rightarrow> fate \<Rightarrow> rat \<Rightarrow> string \<Rightarrow> coords \<Rightarrow> fair \<Rightarrow> sched \<Rightarrow>
    fair \<times> string list \<times> dp_result" where
  "process K parse drop_ok call now raw src F S =
     (case unmarshal_map K raw of
        None \<Rightarrow> (F, [], DpCommit False '''')
      | Some m0 \<Rightarrow>
          (let t = tenantFromMessage (map_fields m0) in
           if expired parse (str_field ''valid_till'' (map_fields m0)) now
           then if drop_ok then (F, [raw], DpCommit False t) else (F, [], DpError t)
           else case m0 of
               None \<Rightarrow> (F, [], DpPanic)
             | Some m \<Rightarrow>
                 (let body = jenc K (JObj (stampSource src m));
                      F1 = when_run call (\<lambda>G. fst (enqueue S t body G)) F in
                  if call \<noteq> Replied then (F1, [], DpError t)
                  else case snd (enqueue S t body F) of
                      Ok ok \<Rightarrow> (F1, [], if ok then DpCommit True t else DpBackpressure t)
                    | _ \<Rightarrow> (F1, [], DpError t))))"

subsection \<open>Routing to the ready topic\<close>

record ready_cfg =
  runtime_for :: "string \<Rightarrow> string"
  ready_go :: string
  ready_ruby :: string

definition lower :: "string \<Rightarrow> string" where
  "lower s = map (\<lambda>ch. if (65::nat) \<le> of_char ch \<and> of_char ch \<le> (90::nat) then char_of ((of_char ch :: nat) + 32) else ch) s"

definition fairReadyForRuntime :: "ready_cfg \<Rightarrow> string \<Rightarrow> string" where
  "fairReadyForRuntime R rt =
     (if lower (trim rt) = ''go'' then ready_go R
      else if lower (trim rt) = ''ruby'' then ready_ruby R else '''')"

definition fairReadyResolver :: "codec \<Rightarrow> ready_cfg \<Rightarrow> string \<Rightarrow> string option" where
  "fairReadyResolver K R payload =
     (case unmarshal_map K payload of
        None \<Rightarrow> None
      | Some m \<Rightarrow>
          (let jt = str_field ''job_type'' (map_fields m) in
           if jt = '''' then None
           else if runtime_for R jt = '''' then None
           else let topic = fairReadyForRuntime R (runtime_for R jt) in
                if topic = '''' then None else Some topic))"

subsection \<open>Forwarder\<close>

record fwd_env =
  fe_lag :: lag
  fe_up :: bool
  fe_now :: int
  fe_scan :: "string list"
  fe_slot :: string
  fe_rnow :: rat
  fe_checkout :: fate
  fe_drop :: "bool option"
  fe_complete :: fate
  fe_produce :: fate
  fe_confirm :: fate
  fe_abort :: fate

datatype outcome = DidWork | Idle | Failed | Panicked

type_synonym outbox = "(string \<times> string \<times> string) list"

definition unix_sec :: "int \<Rightarrow> rat" where "unix_sec ns = of_int ns / 1000000000"

definition payload_expired :: "codec \<Rightarrow> (string \<Rightarrow> rat option) \<Rightarrow> string \<Rightarrow> rat \<Rightarrow> bool" where
  "payload_expired K parse p now =
     (case unmarshal_map K p of None \<Rightarrow> False
      | Some m \<Rightarrow> expired parse (str_field ''valid_till'' (map_fields m)) now)"

text \<open>The expired branch of \<open>handleExpired\<close>: \<open>fe_drop\<close> is \<open>None\<close> without a publisher, else its success.\<close>

definition dropExpired :: "fwd_env \<Rightarrow> string \<Rightarrow> string \<Rightarrow> fair \<Rightarrow> sched \<Rightarrow> fair \<times> sched \<times> string list" where
  "dropExpired E t p F S =
     (if fe_drop E = Some False then (F, S, [])
      else let (F1, S1) = (if fe_complete E = NotRun then (F, S)
                           else complete (fe_up E) (fe_now E) t (fe_slot E) 0 F S);
               F2 = when_run (fe_confirm E) (\<lambda>G. fst (confirmForward (fe_slot E) G)) F1
           in (F2, S1, [p]))"

definition abort_call :: "fwd_env \<Rightarrow> settings \<Rightarrow> string \<Rightarrow> fair \<Rightarrow> fair" where
  "abort_call E c t F = when_run (fe_abort E) (\<lambda>G. fst (abortForward c (fe_slot E) t G)) F"

definition forwardJob :: "codec \<Rightarrow> (string \<Rightarrow> string option) \<Rightarrow> fwd_env \<Rightarrow> settings \<Rightarrow> string \<Rightarrow> string \<Rightarrow> fair \<Rightarrow>
    fair \<times> outbox \<times> outcome" where
  "forwardJob K resolve E c t p F =
     (case markSlot K p t (fe_slot E) (lane_of c) of
        SlotMarkError \<Rightarrow> (abort_call E c t F, [], Failed)
      | SlotMarkPanic \<Rightarrow> (F, [], Panicked)
      | SlotMarked body key0 \<Rightarrow>
          (let key = (if key0 = '''' then t else key0) in
           case resolve p of
             None \<Rightarrow> (abort_call E c t F, [], Failed)
           | Some topic \<Rightarrow>
               if fe_produce E \<noteq> Replied
               then (abort_call E c t F, if fe_produce E = NotRun then [] else [(topic, key, body)], Failed)
               else (when_run (fe_confirm E) (\<lambda>G. fst (confirmForward (fe_slot E) G)) F, [(topic, key, body)],
                     if fe_confirm E = Replied then DidWork else Failed)))"

definition forwardOnce :: "codec \<Rightarrow> (string \<Rightarrow> rat option) \<Rightarrow> (string \<Rightarrow> string option) \<Rightarrow> fwd_env \<Rightarrow> fair \<Rightarrow> sched \<Rightarrow>
    fair \<times> sched \<times> outbox \<times> string list \<times> outcome" where
  "forwardOnce K parse resolve E F S =
     (if fe_checkout E = NotRun then (F, S, [], [], Failed)
      else let (F1, S1, r) = checkout (fe_lag E) (fe_up E) (fe_now E) (fe_scan E) (fe_slot E) (fe_rnow E) F S in
      if fe_checkout E = ReplyLost then (F1, S1, [], [], Failed)
      else case r of
          Ok None \<Rightarrow> (F1, S1, [], [], Idle)
        | Ok (Some (t, p)) \<Rightarrow>
            if payload_expired K parse p (unix_sec (fe_now E))
            then let (F2, S2, ds) = dropExpired E t p F1 S1 in (F2, S2, [], ds, DidWork)
            else let (F2, out, oc) = forwardJob K resolve E (cfg S1) t p F1 in (F2, S1, out, [], oc)
        | _ \<Rightarrow> (F1, S1, [], [], Failed))"

text \<open>\<open>drainBurst\<close>: one environment per iteration; an exhausted list is a cancelled context. A
  panic leaves the loop.\<close>

fun drainBurst :: "codec \<Rightarrow> (string \<Rightarrow> rat option) \<Rightarrow> (string \<Rightarrow> string option) \<Rightarrow> nat \<Rightarrow> fwd_env list \<Rightarrow> fair \<Rightarrow> sched \<Rightarrow>
    fair \<times> sched \<times> outbox \<times> string list \<times> nat \<times> bool \<times> bool" where
  "drainBurst K parse resolve burst [] F S = (F, S, [], [], 0, False, False)"
| "drainBurst K parse resolve 0 (E # Es) F S = (F, S, [], [], 0, False, False)"
| "drainBurst K parse resolve (Suc b) (E # Es) F S =
     (let (F1, S1, out, ds, oc) = forwardOnce K parse resolve E F S in
      case oc of
        DidWork \<Rightarrow>
          (let (F2, S2, out2, ds2, n, em, fl) = drainBurst K parse resolve b Es F1 S1
           in (F2, S2, out @ out2, ds @ ds2, Suc n, em, fl))
      | Idle \<Rightarrow> (F1, S1, out, ds, 0, True, False)
      | Failed \<Rightarrow> (F1, S1, out, ds, 0, False, True)
      | Panicked \<Rightarrow> (F1, S1, out, ds, 0, False, True))"

subsection \<open>Housekeeping of the run loop\<close>

record forwarder =
  lastLeaseReclaim :: "int option"
  lastForwardReclaim :: "int option"
  lastIdleCheck :: "int option"
  quiescentSince :: "int option"
  vtimeResetDone :: bool

definition reclaimInterval :: int where "reclaimInterval = nanos 30"
definition idleCheckInterval :: int where "idleCheckInterval = nanos 5"

definition elapsed :: "int \<Rightarrow> int option \<Rightarrow> int \<Rightarrow> bool" where
  "elapsed d since now = (case since of None \<Rightarrow> True | Some a \<Rightarrow> d \<le> now - a)"

fun reclaim_all :: "codec \<Rightarrow> settings \<Rightarrow> (string \<Rightarrow> rf_env) \<Rightarrow> int \<Rightarrow> rat \<Rightarrow> (string \<times> string \<times> string) list \<Rightarrow> fair \<Rightarrow>
    fair \<times> (string \<times> string) list" where
  "reclaim_all K c env clk gnow [] F = (F, [])"
| "reclaim_all K c env clk gnow (e # es) F =
     (let (F1, out, r) = reclaimStaleForward K c (env (fst e)) clk gnow e F in
      if r = RfPanic then (F1, out)
      else let (F2, out2) = reclaim_all K c env clk gnow es F1 in (F2, out @ out2))"

definition maybeReclaim :: "codec \<Rightarrow> settings \<Rightarrow> bool \<Rightarrow> (string \<Rightarrow> rf_env) \<Rightarrow> int \<Rightarrow> int \<Rightarrow> forwarder \<Rightarrow> fair \<Rightarrow>
    forwarder \<times> fair \<times> (string \<times> string) list" where
  "maybeReclaim K c up env clk now W F =
     (let due1 = elapsed reclaimInterval (lastLeaseReclaim W) now;
          F1 = (if due1 \<and> up then fst (reclaimExpiredLeases clk (unix_sec now) F) else F);
          W1 = (if due1 then W\<lparr>lastLeaseReclaim := Some now\<rparr> else W) in
      if elapsed reclaimInterval (lastForwardReclaim W) now
      then let (F2, out) = reclaim_all K c env clk (unix_sec now)
                 (if up then listStaleForwards K c (unix_sec now) F1 else []) F1
           in (W1\<lparr>lastForwardReclaim := Some now\<rparr>, F2, out)
      else (W1, F1, []))"

definition redisIdle :: "rat \<Rightarrow> fair \<Rightarrow> bool" where
  "redisIdle gnow F = (let s = stats_of gnow F in
     ActiveTenants s = 0 \<and> InflightTotal s = 0 \<and> ForwardingDepth s = 0)"

text \<open>\<open>maybeResetVtimeIdle\<close>: \<open>up\<close> says whether the snapshot and the reset reach Redis. The last
  component tells whether the reset was applied.\<close>

definition maybeResetVtimeIdle :: "settings \<Rightarrow> lag \<Rightarrow> bool \<Rightarrow> int \<Rightarrow> forwarder \<Rightarrow> fair \<Rightarrow> forwarder \<times> fair \<times> bool" where
  "maybeResetVtimeIdle c lag up now W F =
     (if \<not> ResetVtimeWhenIdle c then (W, F, False)
      else if \<not> elapsed idleCheckInterval (lastIdleCheck W) now then (W, F, False)
      else let W1 = W\<lparr>lastIdleCheck := Some now\<rparr> in
      if \<not> up \<or> \<not> redisIdle (unix_sec now) F then (W1\<lparr>quiescentSince := None, vtimeResetDone := False\<rparr>, F, False)
      else if vtimeResetDone W1 then (W1, F, False)
      else case quiescentSince W1 of
          None \<Rightarrow> (W1\<lparr>quiescentSince := Some now\<rparr>, F, False)
        | Some q \<Rightarrow>
            if now - q < EffectiveVtimeIdleResetDebounce c then (W1, F, False)
            else case ingestPending lag of
                None \<Rightarrow> (W1, F, False)
              | Some True \<Rightarrow> (W1\<lparr>quiescentSince := None\<rparr>, F, False)
              | Some False \<Rightarrow>
                  (case resetVtimeIfQuiescent c (unix_sec now) F of
                     (F1, Ok ok) \<Rightarrow> (W1\<lparr>vtimeResetDone := True\<rparr>, F1, ok)
                   | (F1, _) \<Rightarrow> (W1, F1, False)))"

end
