(* ===== verification/Fair_Props.thy ===== *)
theory Fair_Props
  imports Fair_Forwarder
begin

text \<open>
  The lane as a machine: its operations as data, what each keeps of the shape of the keys, and
  how a checkout chooses. A checkout is a scan over the ring; the two rules \<open>scan_rule\<close> and
  \<open>checkout_rule\<close> reduce every property of it to the purge of a lease set, the removal of an
  empty tenant and the grant.
\<close>

subsection \<open>Rules for the checkout\<close>

lemma scan_rule:
  assumes "P F"
    and purge: "\<And>F t. P F \<Longrightarrow> P (set_tlease t (zpurge now (tlease F t)) F)"
    and skip: "\<And>F t. P F \<Longrightarrow> ready F t = [] \<Longrightarrow> P (F\<lparr>ring := zrem t (ring F)\<rparr>)"
    and grant: "\<And>F t job rest. P F \<Longrightarrow> t \<in> set ts \<Longrightarrow> ready F t = job # rest \<Longrightarrow> under (lmt t F) t F \<Longrightarrow>
      Q (grant t job rest F)"
    and none: "\<And>F. P F \<Longrightarrow> Q (F, CkNone)"
  shows "Q (checkout_scan grant lmt now ts F)"
  using assms(1) grant
proof (induction ts arbitrary: F)
  case Nil
  then show ?case by (simp add: none)
next
  case (Cons t ts)
  let ?F = "set_tlease t (zpurge now (tlease F t)) F"
  have P: "P ?F" by (rule purge) (rule Cons.prems(1))
  show ?case
  proof (cases "under (lmt t ?F) t ?F")
    case False
    then show ?thesis using Cons.IH [OF P] Cons.prems(2) by (simp add: Let_def)
  next
    case True
    show ?thesis
    proof (cases "ready ?F t")
      case Nil
      then show ?thesis using Cons.IH [OF skip [OF P Nil]] Cons.prems(2) True by (simp add: Let_def)
    next
      case (Cons job rest)
      then show ?thesis using Cons.prems(2) [OF P _ Cons True] True by (simp add: Let_def)
    qed
  qed
qed

lemma scan_none:
  assumes "checkout_scan grant lmt now ts F = (F1, CkNone)" and "P F"
    and "\<And>F t. P F \<Longrightarrow> P (set_tlease t (zpurge now (tlease F t)) F)"
    and "\<And>F t. P F \<Longrightarrow> ready F t = [] \<Longrightarrow> P (F\<lparr>ring := zrem t (ring F)\<rparr>)"
    and "\<And>F t job rest. snd (grant t job rest F) \<noteq> CkNone"
  shows "P F1"
proof -
  have "snd (checkout_scan grant lmt now ts F) = CkNone \<longrightarrow> P (fst (checkout_scan grant lmt now ts F))"
    by (rule scan_rule [where P = P]) (use assms in simp_all)
  then show ?thesis using assms(1) by simp
qed

lemma checkout_rule:
  assumes init: "(0 < ca_budget A \<longrightarrow> int (length (zpurge (ca_now A) (leases F))) < ca_budget A) \<Longrightarrow>
      P (F\<lparr>leases := zpurge (ca_now A) (leases F)\<rparr>)"
    and budget: "Q (F\<lparr>leases := zpurge (ca_now A) (leases F)\<rparr>, CkBudget)"
    and purge: "\<And>F t. P F \<Longrightarrow> P (set_tlease t (zpurge (ca_now A) (tlease F t)) F)"
    and skip: "\<And>F t. P F \<Longrightarrow> ready F t = [] \<Longrightarrow> P (F\<lparr>ring := zrem t (ring F)\<rparr>)"
    and job: "\<And>F t job rest. snd (grant A t job rest F) \<noteq> CkNone"
    and grant: "\<And>F t job rest c. P F \<Longrightarrow> ready F t = job # rest \<Longrightarrow> under c t F \<Longrightarrow>
      (0 < ca_cap A \<longrightarrow> 0 < c \<and> c \<le> ca_cap A) \<Longrightarrow> Q (grant A t job rest F)"
    and none: "\<And>F. P F \<Longrightarrow> Q (F, CkNone)"
  shows "Q (checkout_script grant A F)"
proof -
  let ?F = "F\<lparr>leases := zpurge (ca_now A) (leases F)\<rparr>"
  let ?ms = "take (nat (ca_fetch A)) (map fst (ring ?F))"
  let ?lmt = "eff_cap A (ck_active A ?F)"
  have cap: "0 < ca_cap A \<longrightarrow> 0 < ?lmt t G \<and> ?lmt t G \<le> ca_cap A" for t G
    by (auto simp: eff_cap_def Let_def)
  have 1: "Q (checkout_scan (grant A) ?lmt (ca_now A) ?ms ?F)" if "P ?F"
  proof (rule scan_rule [where P = P and Q = Q, OF that purge skip _ none])
    fix G t job rest
    assume "P G" "ready G t = job # rest" "under (?lmt t G) t G"
    then show "Q (grant A t job rest G)" by (rule grant) (rule cap)
  qed
  have 2: "Q (checkout_scan (grant A) (\<lambda>_ _. ca_cap A) (ca_now A) ?ms G)" if "P G" for G
  proof (rule scan_rule [where P = P and Q = Q, OF that purge skip _ none])
    fix G t job rest
    assume "P G" "ready G t = job # rest" "under (ca_cap A) t G"
    then show "Q (grant A t job rest G)" by (rule grant) simp
  qed
  show ?thesis
  proof (cases "checkout_scan (grant A) ?lmt (ca_now A) ?ms ?F")
    case (Pair G r)
    have "P G" if "r = CkNone" "P ?F"
      using scan_none [of "grant A" ?lmt "ca_now A" ?ms ?F G P] Pair that purge skip job by blast
    then show ?thesis
      using 1 2 budget init Pair by (simp add: checkout_script_def Let_def not_le)
  qed
qed

lemma grant_time_job [simp]: "snd (grant_time A t job rest F) = CkJob t job"
  by (simp add: grant_time_def Let_def)

lemma grant_count_job [simp]: "snd (grant_count A t job rest F) \<noteq> CkNone"
  by (simp add: grant_count_def Let_def split: option.splits)

subsection \<open>Operations on a lane\<close>

text \<open>The calls clients make, in the order Redis runs them. A completion carries the charge the
  caller computed; a checkout carries the view and the fresh slot id.\<close>

datatype fop =
    Enq string string
  | Ck "int \<times> rat" string rat
  | Confirm string
  | Abort string string
  | Compl string string rat
  | Renew rat string string
  | Rearm rat string string
  | Sweep int rat
  | Reset rat
  | SetW string rat
  | ClaimSlot int string
  | ClearSlot string
  | ClaimReclaim int string

datatype fev = Accepted string string | Granted string string string | Delivered string string | Quiet

definition complete_op :: "settings \<Rightarrow> string \<Rightarrow> string \<Rightarrow> rat \<Rightarrow> fair \<Rightarrow> fair" where
  "complete_op c t i inc F =
     (if lane_of c = LaneThroughput then if i = '''' then F else complete_count_lease t i F
      else if i = '''' then complete_time_legacy t inc F else complete_time_lease t inc i F)"

fun lane_exec :: "settings \<Rightarrow> fop \<Rightarrow> fair \<Rightarrow> fair \<times> fev" where
  "lane_exec c (Enq t p) F = (let (G, ok) = enqueue_script (ReadyWindow c) t p F in (G, if ok then Accepted t p else Quiet))"
| "lane_exec c (Ck v i rnow) F =
     (let (G, r) = run_checkout c v i rnow F in (G, case r of CkJob t p \<Rightarrow> Granted i t p | _ \<Rightarrow> Quiet))"
| "lane_exec c (Confirm i) F =
     (let (G, ok) = confirmForward i F in
      (G, case (map_of (fwd F) i, fwd_meta F i) of (Some p, Some t) \<Rightarrow> if ok then Delivered t p else Quiet | _ \<Rightarrow> Quiet))"
| "lane_exec c (Abort i t) F = (fst (abortForward c i t F), Quiet)"
| "lane_exec c (Compl t i inc) F = (complete_op c t i inc F, Quiet)"
| "lane_exec c (Renew g t i) F = (renewLease c g t i F, Quiet)"
| "lane_exec c (Rearm g t i) F = (rearmLease c g t i F, Quiet)"
| "lane_exec c (Sweep clk g) F = (fst (reclaimExpiredLeases clk g F), Quiet)"
| "lane_exec c (Reset g) F = (fst (reset_script g F), Quiet)"
| "lane_exec c (SetW t w) F = (F\<lparr>wh := (wh F)(t \<mapsto> Some w)\<rparr>, Quiet)"
| "lane_exec c (ClaimSlot clk i) F = (fst (claimSlotExecution True c clk i F), Quiet)"
| "lane_exec c (ClearSlot i) F = (clearSlotExecution i F, Quiet)"
| "lane_exec c (ClaimReclaim clk i) F = (take_claim clk i F, Quiet)"

fun lane_run :: "settings \<Rightarrow> fop list \<Rightarrow> fair \<Rightarrow> fair \<times> fev list" where
  "lane_run c [] F = (F, [])"
| "lane_run c (x # xs) F = (let (G, e) = lane_exec c x F; (H, es) = lane_run c xs G in (H, e # es))"

lemma complete_as_op: "\<exists>inc. fst (complete up now t i dur F S) = complete_op (cfg S) t i inc F"
  by (cases "weightFor up now t F S") (auto simp: complete_def complete_op_def Let_def)

subsection \<open>The shape of the keys\<close>

definition fair_ok :: "fair \<Rightarrow> bool" where
  "fair_ok F = (zset_ok (ring F) \<and> zset_ok (leases F) \<and> (\<forall>t. zset_ok (tlease F t)) \<and>
     distinct (map fst (fwd F)) \<and> dom (fwd_meta F) = fst ` set (fwd F))"

lemmas op_defs = enqueue_script_def ring_seed_def rpush_def set_tlease_def grant_lease_def lpop_rest_def
  charge_def drop_lease_def drop_forward_def complete_time_lease_def complete_time_legacy_def
  complete_count_lease_def confirm_script_def confirmForward_def abort_time_def abort_count_def abortForward_def
  renewLease_def rearmLease_def rearm_script_def reclaimExpiredLeases_def reset_script_def complete_op_def
  claimSlotExecution_def clearSlotExecution_def take_claim_def

lemma fair_ok_empty [simp]: "fair_ok empty_fair"
  by (simp add: fair_ok_def empty_fair_def)

lemma keys_update [simp]: "fst ` set (AList.update k v h) = insert k (fst ` set h)"
  by (simp add: dom_update)

lemma keys_delete [simp]: "fst ` set (AList.delete k h) = fst ` set h - {k}"
  by (metis delete_keys list.set_map set_removeAll list.set_map)

lemma distinct_update_keys: "distinct (map fst h) \<Longrightarrow> distinct (map fst (AList.update k v h))"
  by (rule distinct_update)

lemma fair_ok_set_tlease: "fair_ok F \<Longrightarrow> fair_ok (set_tlease t (zpurge now (tlease F t)) F)"
  by (simp add: fair_ok_def set_tlease_def)

lemma fair_ok_zrem: "fair_ok F \<Longrightarrow> fair_ok (F\<lparr>ring := zrem t (ring F)\<rparr>)"
  by (simp add: fair_ok_def)

lemma fair_ok_upd [simp]:
  "fair_ok (F\<lparr>ready := r\<rparr>) = fair_ok F" "fair_ok (F\<lparr>vth := h\<rparr>) = fair_ok F" "fair_ok (F\<lparr>wh := w\<rparr>) = fair_ok F"
  "fair_ok (F\<lparr>slot_dedup := d\<rparr>) = fair_ok F" "fair_ok (F\<lparr>reclaim_claim := d\<rparr>) = fair_ok F"
  "fair_ok F \<Longrightarrow> fair_ok (F\<lparr>leases := zpurge n (leases F)\<rparr>)"
  "fair_ok F \<Longrightarrow> fair_ok (F\<lparr>ring := zrem t (ring F)\<rparr>)" "fair_ok F \<Longrightarrow> fair_ok (F\<lparr>ring := zadd s t (ring F)\<rparr>)"
  by (simp_all add: fair_ok_def)

lemma fair_ok_grant: "fair_ok F \<Longrightarrow> fair_ok (grant_lease A t job F)"
  by (simp add: fair_ok_def grant_lease_def Let_def distinct_update)

lemma fair_ok_grant_time: "fair_ok F \<Longrightarrow> fair_ok (fst (grant_time A t job rest F))"
  using fair_ok_upd(7) [of "F\<lparr>ready := r\<rparr>" t for r]
  by (simp add: grant_time_def Let_def lpop_rest_def fair_ok_grant)

lemma fair_ok_grant_count: "fair_ok F \<Longrightarrow> fair_ok (fst (grant_count A t job rest F))"
  using fair_ok_upd(7,8) [of "F\<lparr>ready := r, vth := h\<rparr>" for r h]
  by (simp add: grant_count_def Let_def lpop_rest_def fair_ok_grant split: option.splits)

lemma fair_ok_checkout:
  assumes "fair_ok F"
  shows "fair_ok (fst (run_checkout c v i rnow F))"
proof -
  let ?A = "ck_args_of c v i rnow"
  have "fair_ok (fst (checkout_script grant_time ?A F))"
    by (rule checkout_rule [where P = fair_ok])
      (use assms in \<open>auto intro: fair_ok_set_tlease fair_ok_zrem fair_ok_grant_time\<close>)
  moreover have "fair_ok (fst (checkout_script grant_count ?A F))"
    by (rule checkout_rule [where P = fair_ok])
      (use assms in \<open>auto intro: fair_ok_set_tlease fair_ok_zrem fair_ok_grant_count\<close>)
  ultimately show ?thesis by (simp add: run_checkout_def checkout_time_def checkout_count_def)
qed

lemma fair_ok_enqueue: "fair_ok F \<Longrightarrow> fair_ok (fst (enqueue_script w t p F))"
  by (simp add: enqueue_script_def ring_seed_def rpush_def Let_def fair_ok_def)

lemma fair_ok_drop [simp]: "fair_ok F \<Longrightarrow> fair_ok (drop_lease t i F)" "fair_ok F \<Longrightarrow> fair_ok (drop_forward i F)"
  "fair_ok F \<Longrightarrow> fair_ok (rpush t p F)" "fair_ok F \<Longrightarrow> fair_ok (charge t inc F)"
  by (simp_all add: fair_ok_def drop_lease_def drop_forward_def rpush_def charge_def Let_def distinct_delete)

lemma fair_ok_exec: "fair_ok F \<Longrightarrow> fair_ok (fst (lane_exec c x F))"
proof (cases x)
  case (Ck v i rnow)
  then show "fair_ok F \<Longrightarrow> fair_ok (fst (lane_exec c x F))"
    using fair_ok_checkout [of F c v i rnow] by (simp add: split_beta)
next
  case (Enq t p)
  then show "fair_ok F \<Longrightarrow> fair_ok (fst (lane_exec c x F))"
    using fair_ok_enqueue [of F "ReadyWindow c" t p] by (simp add: split_beta)
next
  case (Abort i t)
  then show "fair_ok F \<Longrightarrow> fair_ok (fst (lane_exec c x F))"
    by (simp add: abortForward_def abort_time_def abort_count_def split: option.splits)
next
  case (Sweep clk g)
  then show "fair_ok F \<Longrightarrow> fair_ok (fst (lane_exec c x F))"
    by (simp add: reclaimExpiredLeases_def fair_ok_def split: option.splits)
next
  case (Renew g t i)
  then show "fair_ok F \<Longrightarrow> fair_ok (fst (lane_exec c x F))"
    by (simp add: renewLease_def Let_def fair_ok_def)
next
  case (Rearm g t i)
  then show "fair_ok F \<Longrightarrow> fair_ok (fst (lane_exec c x F))"
    by (simp add: rearmLease_def rearm_script_def fair_ok_def)
qed (simp_all add: split_beta complete_op_def complete_time_lease_def complete_time_legacy_def complete_count_lease_def
    confirmForward_def confirm_script_def reset_script_def claimSlotExecution_def clearSlotExecution_def take_claim_def
    split: option.splits)

lemma fair_ok_run: "fair_ok F \<Longrightarrow> fair_ok (fst (lane_run c xs F))"
  by (induction xs arbitrary: F) (simp_all add: split_beta fair_ok_exec)

subsection \<open>The ring holds exactly the tenants with work\<close>

definition ring_exact :: "fair \<Rightarrow> bool" where
  "ring_exact F = (fst ` set (ring F) = {t. ready F t \<noteq> []})"

lemma ring_exact_set_tlease: "ring_exact F \<Longrightarrow> ring_exact (set_tlease t z F)"
  by (simp add: ring_exact_def set_tlease_def)

lemma ring_exact_skip: "ring_exact F \<Longrightarrow> ready F t = [] \<Longrightarrow> ring_exact (F\<lparr>ring := zrem t (ring F)\<rparr>)"
  unfolding ring_exact_def by (auto simp del: set_zrem)

lemma ring_exact_grant_time: "ring_exact F \<Longrightarrow> ready F t = job # rest \<Longrightarrow> ring_exact (fst (grant_time A t job rest F))"
  unfolding ring_exact_def grant_time_def grant_lease_def lpop_rest_def Let_def
  by (cases "rest = []") (auto simp: fst_zrem simp del: set_zrem)

lemma ring_exact_grant_count: "ring_exact F \<Longrightarrow> ready F t = job # rest \<Longrightarrow>
    ring_exact (fst (grant_count A t job rest F)) \<and> snd (grant_count A t job rest F) = CkJob t job"
  unfolding ring_exact_def grant_count_def grant_lease_def lpop_rest_def Let_def
  by (cases "rest = []"; cases "zscore t (ring F)")
    (auto simp: fst_zrem zscore_None simp del: set_zrem set_zadd)

lemma ring_exact_run_checkout:
  assumes "ring_exact F"
  shows "ring_exact (fst (run_checkout c v i rnow F)) \<and> snd (run_checkout c v i rnow F) \<noteq> CkError"
proof -
  let ?A = "ck_args_of c v i rnow" and ?Q = "\<lambda>x. ring_exact (fst x) \<and> snd x \<noteq> CkError"
  have 0: "ring_exact (F\<lparr>leases := z\<rparr>)" for z using assms by (simp add: ring_exact_def)
  have "?Q (checkout_script grant_time ?A F)"
    by (rule checkout_rule [where P = ring_exact])
      (auto intro: 0 ring_exact_set_tlease ring_exact_skip ring_exact_grant_time)
  moreover have "?Q (checkout_script grant_count ?A F)"
    by (rule checkout_rule [where P = ring_exact])
      (simp_all add: 0 ring_exact_set_tlease ring_exact_skip ring_exact_grant_count)
  ultimately show ?thesis by (simp add: run_checkout_def checkout_time_def checkout_count_def)
qed

lemma ring_exact_charge: "ring_exact F \<Longrightarrow> ring_exact (charge t inc F)"
  unfolding ring_exact_def charge_def Let_def by (auto simp del: set_zadd)

lemma ring_exact_enqueue: "ring_exact F \<Longrightarrow> ring_exact (fst (enqueue_script w t p F))"
  unfolding ring_exact_def enqueue_script_def ring_seed_def rpush_def Let_def
  by (auto simp: zscore_None simp del: set_zadd)

lemma ring_exact_abort_count: "ring_exact F \<Longrightarrow> ring_exact (fst (abort_count dw i t F))"
  by (auto simp: ring_exact_def abort_count_def charge_def drop_lease_def rpush_def drop_forward_def Let_def
      simp del: set_zadd split: option.splits)

text \<open>Every operation keeps the ring exact, except an abort on the time lane.\<close>

lemma ring_exact_exec:
  assumes "ring_exact F" and "lane_of c = LaneTime \<longrightarrow> (\<nexists>i t. x = Abort i t)"
  shows "ring_exact (fst (lane_exec c x F))"
proof (cases x)
  case (Ck v i rnow)
  then show ?thesis using ring_exact_run_checkout [OF assms(1), of c v i rnow] by (simp add: split_beta)
next
  case (Enq t p)
  then show ?thesis using ring_exact_enqueue [OF assms(1), of "ReadyWindow c" t p] by (simp add: split_beta)
next
  case (Abort i t)
  then show ?thesis using assms ring_exact_abort_count [OF assms(1), of "DefaultWeight c" i t]
    by (simp add: abortForward_def)
next
  case (Compl t i inc)
  have "ring_exact (drop_lease t i F)" using assms(1) by (simp add: ring_exact_def drop_lease_def)
  then show ?thesis using Compl assms(1)
    by (simp add: complete_op_def complete_time_lease_def complete_time_legacy_def complete_count_lease_def ring_exact_charge)
next
  case (Reset g)
  moreover have "ring_exact (F\<lparr>vth := h\<rparr>) = ring_exact F" for h by (simp add: ring_exact_def)
  ultimately show ?thesis using assms(1) by (simp add: reset_script_def)
qed (use assms(1) in \<open>simp_all add: split_beta ring_exact_def confirmForward_def confirm_script_def drop_forward_def
    renewLease_def rearmLease_def rearm_script_def reclaimExpiredLeases_def reset_script_def
    claimSlotExecution_def clearSlotExecution_def take_claim_def Let_def split: option.splits\<close>)

subsection \<open>Jobs are neither lost nor duplicated\<close>

text \<open>What a tenant has in the lane: its ready list and its part of the forwarding buffer.\<close>

definition buffered :: "string \<Rightarrow> fair \<Rightarrow> string multiset" where
  "buffered t F = image_mset snd (filter_mset (\<lambda>x. fwd_meta F (fst x) = Some t) (mset (fwd F)))"

definition stock :: "string \<Rightarrow> fair \<Rightarrow> string multiset" where
  "stock t F = mset (ready F t) + buffered t F"

fun accepted_of :: "string \<Rightarrow> fev \<Rightarrow> string multiset" where
  "accepted_of t (Accepted u p) = (if u = t then {#p#} else {#})"
| "accepted_of t e = {#}"

fun delivered_of :: "string \<Rightarrow> fev \<Rightarrow> string multiset" where
  "delivered_of t (Delivered u p) = (if u = t then {#p#} else {#})"
| "delivered_of t e = {#}"

text \<open>Slot ids are fresh at a checkout, and an abort names the tenant its slot was granted to.\<close>

definition legal :: "fair \<Rightarrow> fop \<Rightarrow> bool" where
  "legal F x = (case x of
       Ck v i rnow \<Rightarrow> i \<noteq> '''' \<and> i \<notin> fst ` set (fwd F)
     | Abort i t \<Rightarrow> i \<in> fst ` set (fwd F) \<longrightarrow> fwd_meta F i = Some t
     | _ \<Rightarrow> True)"

lemma update_fresh: "i \<notin> fst ` set h \<Longrightarrow> AList.update i v h = h @ [(i, v)]"
  by (induction h) auto

lemma mset_delete: "distinct (map fst h) \<Longrightarrow> map_of h i = Some p \<Longrightarrow> mset h = add_mset (i, p) (mset (AList.delete i h))"
proof (induction h)
  case (Cons a h)
  have "AList.delete i h = h" if "i \<notin> fst ` set h" using that by (induction h) auto
  then show ?case using Cons by (cases a) (auto split: if_splits)
qed simp

lemma buffered_drop:
  assumes "fair_ok F" and "map_of (fwd F) i = Some p" and "fwd_meta F i = Some u"
  shows "buffered t F = buffered t (drop_forward i F) + (if t = u then {#p#} else {#})"
proof -
  have "fwd_meta (drop_forward i F) (fst x) = fwd_meta F (fst x)" if "x \<in># mset (AList.delete i (fwd F))" for x
  proof -
    have "fst x \<in> fst ` set (AList.delete i (fwd F))" using that by (intro imageI) simp
    then have "fst x \<noteq> i" by simp
    then show ?thesis by (simp add: drop_forward_def)
  qed
  then have "filter_mset (\<lambda>x. fwd_meta (drop_forward i F) (fst x) = Some t) (mset (AList.delete i (fwd F)))
      = filter_mset (\<lambda>x. fwd_meta F (fst x) = Some t) (mset (AList.delete i (fwd F)))"
    by (intro filter_mset_cong) auto
  moreover have "mset (fwd F) = add_mset (i, p) (mset (AList.delete i (fwd F)))"
    using assms by (intro mset_delete) (simp_all add: fair_ok_def)
  ultimately show ?thesis using assms(3) by (simp add: buffered_def drop_forward_def)
qed

lemma buffered_grant:
  assumes "ca_slot A \<notin> fst ` set (fwd F)"
  shows "buffered t (grant_lease A u job F) = buffered t F + (if t = u then {#job#} else {#})"
proof -
  have a: "fwd (grant_lease A u job F) = fwd F @ [(ca_slot A, job)]"
    and m: "fwd_meta (grant_lease A u job F) = (fwd_meta F)(ca_slot A \<mapsto> u)"
    using assms by (simp_all add: grant_lease_def Let_def update_fresh)
  have f: "filter_mset (\<lambda>x. ((fwd_meta F)(ca_slot A \<mapsto> u)) (fst x) = Some t) (mset (fwd F))
      = filter_mset (\<lambda>x. fwd_meta F (fst x) = Some t) (mset (fwd F))"
    using assms by (intro filter_mset_cong) (auto simp: image_iff)
  show ?thesis unfolding buffered_def a m mset_append filter_union_mset image_mset_union f by simp
qed

lemma buffered_upd [simp]:
  "buffered t (F\<lparr>ring := z\<rparr>) = buffered t F" "buffered t (F\<lparr>ready := r\<rparr>) = buffered t F"
  "buffered t (F\<lparr>vth := h\<rparr>) = buffered t F" "buffered t (F\<lparr>leases := l\<rparr>) = buffered t F"
  "buffered t (F\<lparr>tlease := tls\<rparr>) = buffered t F" "buffered t (F\<lparr>wh := w\<rparr>) = buffered t F"
  "buffered t (F\<lparr>slot_dedup := d\<rparr>) = buffered t F" "buffered t (F\<lparr>reclaim_claim := d\<rparr>) = buffered t F"
  "buffered t (F\<lparr>reclaim_lock := k\<rparr>) = buffered t F"
  by (simp_all add: buffered_def)

lemma stock_grant:
  assumes "ca_slot A \<notin> fst ` set (fwd F)" and "ready F u = job # rest"
  shows "stock t (fst (grant_time A u job rest F)) = stock t F"
    and "snd (grant_count A u job rest F) \<noteq> CkError \<Longrightarrow> stock t (fst (grant_count A u job rest F)) = stock t F"
  using assms
  by (auto simp: stock_def grant_time_def grant_count_def Let_def lpop_rest_def buffered_grant
      split: option.splits) (auto simp: grant_lease_def Let_def)

lemma stock_checkout:
  assumes "i \<notin> fst ` set (fwd F)" and "lane_of c \<noteq> LaneTime \<longrightarrow> ring_exact F"
  shows "stock t (fst (run_checkout c v i rnow F)) = stock t F"
proof -
  let ?A = "ck_args_of c v i rnow"
  let ?P = "\<lambda>G. (lane_of c \<noteq> LaneTime \<longrightarrow> ring_exact G) \<and> stock t G = stock t F \<and> i \<notin> fst ` set (fwd G)"
  have slot: "ca_slot ?A = i" by (simp add: ck_args_of_def)
  have 0: "?P (F\<lparr>leases := z\<rparr>)" for z using assms by (simp add: ring_exact_def stock_def)
  have 1: "?P (set_tlease u z G)" if "?P G" for u z G
    using that by (simp add: ring_exact_set_tlease stock_def) (simp add: set_tlease_def)
  have 2: "?P (G\<lparr>ring := zrem u (ring G)\<rparr>)" if "?P G" "ready G u = []" for u G
    using that by (simp add: ring_exact_skip stock_def)
  have "stock t (fst (checkout_script grant_time ?A F)) = stock t F"
    by (rule checkout_rule [where P = ?P]) (use 0 1 2 slot in \<open>simp_all add: stock_grant(1)\<close>)
  moreover have "stock t (fst (checkout_script grant_count ?A F)) = stock t F" if "lane_of c \<noteq> LaneTime"
    by (rule checkout_rule [where P = ?P])
      (use 0 1 2 slot that in \<open>simp_all add: stock_grant(2) ring_exact_grant_count\<close>)
  ultimately show ?thesis by (simp add: run_checkout_def checkout_time_def checkout_count_def)
qed

lemma stock_abort:
  assumes "fair_ok F" and "map_of (fwd F) i = Some p" and "fwd_meta F i = Some u"
  shows "stock t (drop_lease u i (rpush u p (drop_forward i F))) = stock t F"
  using buffered_drop [OF assms, of t]
  by (simp add: stock_def drop_lease_def rpush_def) (simp add: drop_forward_def)

lemma stock_charge [simp]: "stock t (charge u inc F) = stock t F"
  by (simp add: charge_def Let_def stock_def)

lemma stock_drop_lease [simp]: "stock t (drop_lease u i F) = stock t F"
  by (simp add: drop_lease_def stock_def)

lemma stock_enqueue: "stock t (rpush u p (ring_seed u F)) = stock t F + (if t = u then {#p#} else {#})"
  by (simp add: stock_def rpush_def ring_seed_def Let_def)

lemma stock_abortForward:
  assumes "fair_ok F" and "i \<in> fst ` set (fwd F) \<longrightarrow> fwd_meta F i = Some u"
  shows "stock t (fst (abortForward c i u F)) = stock t F"
proof (cases "map_of (fwd F) i")
  case None
  then show ?thesis by (simp add: abortForward_def abort_time_def abort_count_def)
next
  case (Some p)
  then have "fwd_meta F i = Some u" using assms(2) by (metis domI dom_map_of_conv_image_fst)
  then show ?thesis using stock_abort [OF assms(1) Some, of u t] Some
    by (simp add: abortForward_def abort_time_def abort_count_def)
qed

lemma stock_confirm:
  assumes "fair_ok F"
  shows "stock t (fst (lane_exec c (Confirm i) F)) + delivered_of t (snd (lane_exec c (Confirm i) F)) = stock t F"
proof (cases "map_of (fwd F) i")
  case None
  then show ?thesis by (simp add: confirmForward_def confirm_script_def split_beta)
next
  case (Some p)
  then have "i \<in> dom (fwd_meta F)" using assms by (metis domI dom_map_of_conv_image_fst fair_ok_def)
  then obtain u where u: "fwd_meta F i = Some u" by blast
  show ?thesis
    using buffered_drop [OF assms Some u, of t] Some u
    by (auto simp: confirmForward_def confirm_script_def stock_def split_beta) (simp_all add: drop_forward_def)
qed

lemma stock_exec:
  assumes ok: "fair_ok F" and "legal F x" and "lane_of c \<noteq> LaneTime \<longrightarrow> ring_exact F"
  shows "stock t (fst (lane_exec c x F)) + delivered_of t (snd (lane_exec c x F))
       = stock t F + accepted_of t (snd (lane_exec c x F))"
proof (cases x)
  case (Ck v i rnow)
  then show ?thesis using stock_checkout [of i F c t v rnow] assms
    by (simp add: legal_def split_beta split: ck.splits)
next
  case (Abort i u)
  then show ?thesis using stock_abortForward [OF ok, of i u t c] assms(2) by (simp add: legal_def)
next
  case (Confirm i)
  then show ?thesis using stock_confirm [OF ok, of t c i]
    by (simp add: split_beta split: option.splits prod.splits)
next
  case (Enq u p)
  then show ?thesis by (simp add: enqueue_script_def stock_enqueue)
next
  case (Compl u i inc)
  then show ?thesis
    by (simp add: complete_op_def complete_time_lease_def complete_time_legacy_def complete_count_lease_def)
qed (simp_all add: renewLease_def rearmLease_def rearm_script_def reclaimExpiredLeases_def reset_script_def
    claimSlotExecution_def clearSlotExecution_def take_claim_def Let_def stock_def split: option.splits)

end
