(* ===== verification/Fair_Claims.thy ===== *)
theory Fair_Claims
  imports Fair_Props
begin

text \<open>
  What the fairness lanes promise: the concurrency bounds, the conservation of jobs, the ring,
  the choice of the next tenant, the shares over time, and the forwarder's hand-over.
\<close>

subsection \<open>Concurrency bounds\<close>

text \<open>The slots of a lease set outside \<open>R\<close>; \<open>rearmed\<close> are the slots a recovery armed again.\<close>

definition outside :: "string set \<Rightarrow> (string \<times> rat) list \<Rightarrow> int" where
  "outside R z = int (card (fst ` set z - R))"

fun rearmed :: "fop list \<Rightarrow> string set" where
  "rearmed [] = {}"
| "rearmed (Rearm g t i # xs) = insert i (rearmed xs)"
| "rearmed (x # xs) = rearmed xs"

definition bounded :: "settings \<Rightarrow> string set \<Rightarrow> fair \<Rightarrow> bool" where
  "bounded c R F = ((0 < GlobalConcurrency c \<longrightarrow> outside R (leases F) \<le> GlobalConcurrency c) \<and>
     (0 < MaxInflightPerTenant c \<longrightarrow> (\<forall>t. outside R (tlease F t) \<le> MaxInflightPerTenant c)))"

lemma outside_mono: "fst ` set y \<subseteq> fst ` set z \<Longrightarrow> outside R y \<le> outside R z"
  unfolding outside_def by (intro iffD2 [OF of_nat_le_iff] card_mono) auto

lemma outside_le_length: "outside R z \<le> int (length z)"
proof -
  have "card (fst ` set z - R) \<le> card (fst ` set z)" by (intro card_mono) auto
  also have "\<dots> \<le> length z" using card_image_le [of "set z" fst] card_length [of z] by simp
  finally show ?thesis by (simp add: outside_def)
qed

lemma outside_purge: "outside R (zpurge n z) \<le> outside R z"
  by (rule outside_mono) auto

lemma outside_zrem: "outside R (zrem i z) \<le> outside R z"
  by (rule outside_mono) (auto simp del: set_zrem)

lemma outside_xx [simp]: "outside R (zadd_xx s i z) = outside R z"
  by (simp add: outside_def)

lemma outside_rearm: "i \<in> R \<Longrightarrow> outside R (zadd s i z) = outside R z"
  by (simp add: outside_def insert_Diff_if del: set_zadd)

lemma outside_zadd: "outside R (zadd s i z) \<le> int (length z) + 1"
proof -
  have "int (length (zadd s i z)) \<le> int (length z) + 1"
    using length_zrem_le [of i z] by (simp add: length_zadd)
  then show ?thesis using outside_le_length [of R "zadd s i z"] by linarith
qed

lemma bounded_lease_update:
  assumes "bounded c R F" and "outside R l \<le> outside R (leases F)" and "outside R z \<le> outside R (tlease F t)"
  shows "bounded c R (F\<lparr>leases := l, tlease := (tlease F)(t := z)\<rparr>)"
  using assms unfolding bounded_def by (auto intro: order_trans)

lemma bounded_upd [simp]:
  "bounded c R (F\<lparr>ring := r\<rparr>) = bounded c R F" "bounded c R (F\<lparr>ready := q\<rparr>) = bounded c R F"
  "bounded c R (F\<lparr>vth := h\<rparr>) = bounded c R F" "bounded c R (F\<lparr>wh := w\<rparr>) = bounded c R F"
  "bounded c R (F\<lparr>fwd := f\<rparr>) = bounded c R F" "bounded c R (F\<lparr>fwd_meta := g\<rparr>) = bounded c R F"
  "bounded c R (F\<lparr>slot_dedup := d\<rparr>) = bounded c R F" "bounded c R (F\<lparr>reclaim_claim := d\<rparr>) = bounded c R F"
  "bounded c R (F\<lparr>reclaim_lock := k\<rparr>) = bounded c R F"
  by (simp_all add: bounded_def)

lemma bounded_drop_lease: "bounded c R F \<Longrightarrow> bounded c R (drop_lease t i F)"
  unfolding drop_lease_def by (rule bounded_lease_update) (simp_all add: outside_zrem)

lemma bounded_charge [simp]: "bounded c R (charge t inc F) = bounded c R F"
  by (simp add: charge_def Let_def)

lemma bounded_grant:
  assumes "bounded c R F" and "0 < GlobalConcurrency c \<longrightarrow> int (length (leases F)) < GlobalConcurrency c"
    and "0 < MaxInflightPerTenant c \<longrightarrow> int (length (tlease F t)) < MaxInflightPerTenant c"
  shows "bounded c R (grant_lease A t job F)"
proof -
  let ?ex = "ca_now A + ca_ttl A" and ?i = "ca_slot A"
  have "0 < GlobalConcurrency c \<longrightarrow> outside R (zadd ?ex ?i (leases F)) \<le> GlobalConcurrency c"
    using assms(2) outside_zadd [of R ?ex ?i "leases F"] by linarith
  moreover have "0 < MaxInflightPerTenant c \<longrightarrow> outside R (zadd ?ex ?i (tlease F t)) \<le> MaxInflightPerTenant c"
    using assms(3) outside_zadd [of R ?ex ?i "tlease F t"] by linarith
  ultimately show ?thesis using assms(1) by (simp add: grant_lease_def Let_def bounded_def)
qed

lemma bounded_grants:
  assumes "bounded c R F" and "0 < GlobalConcurrency c \<longrightarrow> int (length (leases F)) < GlobalConcurrency c"
    and "0 < MaxInflightPerTenant c \<longrightarrow> int (length (tlease F t)) < MaxInflightPerTenant c"
  shows "bounded c R (fst (grant_time A t job rest F))" "bounded c R (fst (grant_count A t job rest F))"
proof -
  show "bounded c R (fst (grant_time A t job rest F))"
    using assms by (auto simp: grant_time_def Let_def lpop_rest_def intro!: bounded_grant)
  show "bounded c R (fst (grant_count A t job rest F))"
    using assms by (auto simp: grant_count_def Let_def lpop_rest_def split: option.splits intro!: bounded_grant)
qed

lemma bounded_checkout:
  assumes "bounded c R F"
  shows "bounded c R (fst (run_checkout c v i rnow F))"
proof -
  let ?A = "ck_args_of c v i rnow"
  let ?P = "\<lambda>G. bounded c R G \<and> (0 < GlobalConcurrency c \<longrightarrow> int (length (leases G)) < GlobalConcurrency c)"
  let ?Q = "\<lambda>x. bounded c R (fst x)"
  have purge: "bounded c R (F\<lparr>leases := zpurge n (leases F)\<rparr>)" for n
    using assms outside_purge [of R n "leases F"] by (auto simp: bounded_def)
  have tl: "?P (set_tlease t (zpurge n (tlease G t)) G)" if "?P G" for n t G
    using that outside_purge [of R n "tlease G t"] by (auto simp: bounded_def set_tlease_def intro: order_trans)
  have A: "ca_budget ?A = GlobalConcurrency c" "ca_cap ?A = MaxInflightPerTenant c"
    by (simp_all add: ck_args_of_def)
  have cap: "0 < MaxInflightPerTenant c \<longrightarrow> int (length (tlease H t)) < MaxInflightPerTenant c"
    if "under k t H" "0 < ca_cap ?A \<longrightarrow> 0 < k \<and> k \<le> ca_cap ?A" for H t k
    using that A by (auto simp: under_def)
  have "?Q (checkout_script grant_time ?A F)"
    by (rule checkout_rule [where P = ?P])
      (use purge A in \<open>auto intro!: tl bounded_grants(1) dest: cap\<close>)
  moreover have "?Q (checkout_script grant_count ?A F)"
    by (rule checkout_rule [where P = ?P])
      (use purge A in \<open>auto intro!: tl bounded_grants(2) dest: cap\<close>)
  ultimately show ?thesis by (simp add: run_checkout_def checkout_time_def checkout_count_def)
qed

lemma bounded_exec:
  assumes b: "bounded c R F" and "\<forall>g t i. x = Rearm g t i \<longrightarrow> i \<in> R"
  shows "bounded c R (fst (lane_exec c x F))"
proof (cases x)
  case (Ck v i rnow)
  then show ?thesis using bounded_checkout [OF b, of v i rnow] by (simp add: split_beta)
next
  case (Abort i t)
  have "bounded c R (drop_lease t i (rpush t p (drop_forward i F)))" for p
    using b by (intro bounded_drop_lease) (simp add: rpush_def drop_forward_def)
  then show ?thesis using Abort b by (simp add: abortForward_def abort_time_def abort_count_def split: option.splits)
next
  case (Sweep clk g)
  then show ?thesis using b outside_purge [of R g]
    by (auto simp: reclaimExpiredLeases_def bounded_def split: option.splits intro: order_trans)
next
  case (Renew g t i)
  then show ?thesis using b by (auto simp: renewLease_def Let_def intro!: bounded_lease_update)
next
  case (Rearm g t i)
  then show ?thesis using b assms(2)
    by (auto simp: rearmLease_def rearm_script_def outside_rearm intro!: bounded_lease_update)
next
  case (Compl t i inc)
  then show ?thesis using b bounded_drop_lease [OF b, of t i]
    by (simp add: complete_op_def complete_time_lease_def complete_time_legacy_def complete_count_lease_def)
qed (use b in \<open>simp_all add: split_beta enqueue_script_def ring_seed_def rpush_def confirmForward_def confirm_script_def
    drop_forward_def reset_script_def claimSlotExecution_def clearSlotExecution_def take_claim_def Let_def split: option.splits\<close>)

lemma bounded_run: "bounded c R F \<Longrightarrow> rearmed xs \<subseteq> R \<Longrightarrow> bounded c R (fst (lane_run c xs F))"
proof (induction xs arbitrary: F)
  case (Cons x xs)
  have "\<forall>g t i. x = Rearm g t i \<longrightarrow> i \<in> R" and "rearmed xs \<subseteq> R" using Cons.prems(2) by (cases x; auto)+
  then show ?case using Cons.IH [OF bounded_exec [OF Cons.prems(1)]] by (simp add: split_beta)
qed simp

text \<open>C21. Whatever calls reach a lane, and in whatever order, its leases never exceed the global
  budget and no tenant's leases exceed the per-tenant cap, not counting the slots a recovery
  armed again.\<close>

theorem leases_within_budget:
  "(0 < GlobalConcurrency c \<longrightarrow>
      outside (rearmed xs) (leases (fst (lane_run c xs empty_fair))) \<le> GlobalConcurrency c) \<and>
   (0 < MaxInflightPerTenant c \<longrightarrow>
      outside (rearmed xs) (tlease (fst (lane_run c xs empty_fair)) t) \<le> MaxInflightPerTenant c)"
proof -
  have "bounded c (rearmed xs) empty_fair" by (simp add: bounded_def outside_def empty_fair_def)
  then show ?thesis using bounded_run [of c "rearmed xs" empty_fair xs] by (auto simp: bounded_def)
qed

definition demo_cfg :: "lane \<Rightarrow> int \<Rightarrow> int \<Rightarrow> settings" where
  "demo_cfg l budget cap = (DefaultSettings l)\<lparr>GlobalConcurrency := budget, MaxInflightPerTenant := cap\<rparr>"

theorem leases_within_budget_witness:
  "outside (rearmed [Enq ''a'' ''x'', Enq ''a'' ''y'', Ck (0, 0) ''s1'' 1, Ck (0, 0) ''s2'' 2])
     (leases (fst (lane_run (demo_cfg LaneTime 1 1)
       [Enq ''a'' ''x'', Enq ''a'' ''y'', Ck (0, 0) ''s1'' 1, Ck (0, 0) ''s2'' 2] empty_fair))) \<le> 1 \<and>
   map fst (leases (fst (lane_run (demo_cfg LaneTime 1 1)
       [Enq ''a'' ''x'', Enq ''a'' ''y'', Ck (0, 0) ''s1'' 1, Ck (0, 0) ''s2'' 2] empty_fair))) = [''s1'']"
proof -
  have "map fst (leases (fst (lane_run (demo_cfg LaneTime 1 1)
       [Enq ''a'' ''x'', Enq ''a'' ''y'', Ck (0, 0) ''s1'' 1, Ck (0, 0) ''s2'' 2] empty_fair))) = [''s1'']"
    by code_simp
  then show ?thesis
    using leases_within_budget [of "demo_cfg LaneTime 1 1"
        "[Enq ''a'' ''x'', Enq ''a'' ''y'', Ck (0, 0) ''s1'' 1, Ck (0, 0) ''s2'' 2]" "''a''"]
    by (simp add: demo_cfg_def)
qed

subsection \<open>Conservation\<close>

fun legal_run :: "settings \<Rightarrow> fop list \<Rightarrow> fair \<Rightarrow> bool" where
  "legal_run c [] F = True"
| "legal_run c (x # xs) F = (legal F x \<and> legal_run c xs (fst (lane_exec c x F)))"

lemma stock_run:
  assumes "fair_ok F" and "legal_run c xs F" and "lane_of c \<noteq> LaneTime \<longrightarrow> ring_exact F"
  shows "stock t (fst (lane_run c xs F)) + sum_list (map (delivered_of t) (snd (lane_run c xs F)))
       = stock t F + sum_list (map (accepted_of t) (snd (lane_run c xs F)))"
  using assms
proof (induction xs arbitrary: F)
  case (Cons x xs)
  let ?G = "fst (lane_exec c x F)"
  have "lane_of c \<noteq> LaneTime \<longrightarrow> ring_exact ?G" using Cons.prems(3) ring_exact_exec by blast
  then have "stock t (fst (lane_run c xs ?G)) + sum_list (map (delivered_of t) (snd (lane_run c xs ?G)))
       = stock t ?G + sum_list (map (accepted_of t) (snd (lane_run c xs ?G)))"
    using Cons by (simp add: fair_ok_exec)
  moreover have "stock t ?G + delivered_of t (snd (lane_exec c x F)) = stock t F + accepted_of t (snd (lane_exec c x F))"
    using Cons.prems by (intro stock_exec) simp_all
  ultimately have "stock t (fst (lane_run c xs ?G)) + sum_list (map (delivered_of t) (snd (lane_run c xs ?G)))
        + delivered_of t (snd (lane_exec c x F))
      = stock t F + accepted_of t (snd (lane_exec c x F)) + sum_list (map (accepted_of t) (snd (lane_run c xs ?G)))"
    by (metis add.assoc add.commute)
  then show ?case by (simp add: split_beta ac_simps)
qed simp

lemma ring_exact_empty [simp]: "ring_exact empty_fair"
  by (simp add: ring_exact_def empty_fair_def)

text \<open>C7. Under any interleaving of calls with fresh slot ids, the jobs of a tenant accepted by
  \<open>Enqueue\<close> are exactly its jobs waiting in the ready list, its jobs in the forwarding buffer,
  and its confirmed jobs: nothing is lost and nothing is duplicated inside the lane.\<close>

theorem jobs_conserved:
  assumes "legal_run c xs empty_fair"
  shows "stock t (fst (lane_run c xs empty_fair)) + sum_list (map (delivered_of t) (snd (lane_run c xs empty_fair)))
       = sum_list (map (accepted_of t) (snd (lane_run c xs empty_fair)))"
  using stock_run [OF fair_ok_empty assms, of t] by (simp add: stock_def buffered_def) (simp add: empty_fair_def)

theorem jobs_conserved_witness:
  "stock ''a'' (fst (lane_run (demo_cfg LaneThroughput 5 0)
       [Enq ''a'' ''x'', Enq ''a'' ''y'', Ck (0, 0) ''s1'' 1, Confirm ''s1'', Ck (0, 0) ''s2'' 2, Abort ''s2'' ''a'']
       empty_fair)) + {#''x''#} = {#''x'', ''y''#}"
proof -
  let ?c = "demo_cfg LaneThroughput 5 0" and
    ?xs = "[Enq ''a'' ''x'', Enq ''a'' ''y'', Ck (0, 0) ''s1'' 1, Confirm ''s1'', Ck (0, 0) ''s2'' 2, Abort ''s2'' ''a'']"
  have 1: "legal_run ?c ?xs empty_fair" by code_simp
  have 2: "snd (lane_run ?c ?xs empty_fair) = [Accepted ''a'' ''x'', Accepted ''a'' ''y'', Granted ''s1'' ''a'' ''x'',
      Delivered ''a'' ''x'', Granted ''s2'' ''a'' ''y'', Quiet]" by code_simp
  show ?thesis using jobs_conserved [OF 1, of "''a''"] unfolding 2 by simp
qed

subsection \<open>The ring\<close>

definition is_abort :: "fop \<Rightarrow> bool" where
  "is_abort x = (case x of Abort i t \<Rightarrow> True | _ \<Rightarrow> False)"

lemma ring_exact_run:
  "ring_exact F \<Longrightarrow> lane_of c = LaneTime \<longrightarrow> (\<forall>x \<in> set xs. \<not> is_abort x) \<Longrightarrow> ring_exact (fst (lane_run c xs F))"
proof (induction xs arbitrary: F)
  case (Cons x xs)
  have "lane_of c = LaneTime \<longrightarrow> (\<nexists>i t. x = Abort i t)" using Cons.prems(2) by (auto simp: is_abort_def)
  then show ?case using Cons ring_exact_exec [OF Cons.prems(1)] by (simp add: split_beta)
qed simp

text \<open>On the throughput lane, and on the time lane as long as no forward is aborted, a tenant
  is in the ring exactly when it has ready jobs, and no checkout script fails half-way: every
  waiting tenant is offered to the next checkout.\<close>

theorem ring_tracks_work:
  assumes "lane_of c = LaneTime \<longrightarrow> (\<forall>x \<in> set xs. \<not> is_abort x)"
  shows "(t \<in> fst ` set (ring (fst (lane_run c xs empty_fair)))) = (ready (fst (lane_run c xs empty_fair)) t \<noteq> [])
     \<and> snd (run_checkout c v i rnow (fst (lane_run c xs empty_fair))) \<noteq> CkError"
proof -
  have ex: "ring_exact (fst (lane_run c xs empty_fair))" by (rule ring_exact_run [OF ring_exact_empty assms])
  then show ?thesis using ring_exact_run_checkout [OF ex, of c v i rnow] by (simp add: ring_exact_def)
qed

theorem ring_tracks_work_witness:
  "''a'' \<in> fst ` set (ring (fst (lane_run (demo_cfg LaneThroughput 5 0)
     [Enq ''a'' ''x'', Ck (0, 0) ''s1'' 1, Abort ''s1'' ''a''] empty_fair)))"
proof -
  have "ready (fst (lane_run (demo_cfg LaneThroughput 5 0)
     [Enq ''a'' ''x'', Ck (0, 0) ''s1'' 1, Abort ''s1'' ''a''] empty_fair)) ''a'' \<noteq> []" by code_simp
  then show ?thesis
    using ring_tracks_work [of "demo_cfg LaneThroughput 5 0" "[Enq ''a'' ''x'', Ck (0, 0) ''s1'' 1, Abort ''s1'' ''a'']" "''a''"]
    by (simp add: demo_cfg_def DefaultSettings_def)
qed

text \<open>A tenant outside the ring stays outside, and gets no slot, until something is enqueued or
  completed for it.\<close>

definition revives :: "string \<Rightarrow> fop \<Rightarrow> bool" where
  "revives t x = (case x of Enq u p \<Rightarrow> u = t | Compl u i inc \<Rightarrow> u = t | _ \<Rightarrow> False)"

definition off_ring :: "string \<Rightarrow> fair \<Rightarrow> bool" where
  "off_ring t F = (t \<notin> fst ` set (ring F))"

lemma scan_members:
  assumes "P F" "\<And>F t. P F \<Longrightarrow> P (set_tlease t (zpurge now (tlease F t)) F)"
    and "\<And>F t. P F \<Longrightarrow> P (F\<lparr>ring := zrem t (ring F)\<rparr>)"
    and "\<And>F u job rest. P F \<Longrightarrow> u \<in> set ts \<Longrightarrow> Q (grant u job rest F)" and "\<And>F. P F \<Longrightarrow> Q (F, CkNone)"
  shows "Q (checkout_scan grant lmt now ts F)"
  by (rule scan_rule [where P = P]) (use assms in simp_all)

lemma checkout_off_ring:
  assumes "off_ring t F" and job: "\<And>F u job rest. snd (grant A u job rest F) \<noteq> CkNone"
    and "\<And>F u job rest. off_ring t F \<Longrightarrow> u \<noteq> t \<Longrightarrow> off_ring t (fst (grant A u job rest F)) \<and>
      (\<forall>p. snd (grant A u job rest F) \<noteq> CkJob t p)"
  shows "off_ring t (fst (checkout_script grant A F)) \<and> (\<forall>p. snd (checkout_script grant A F) \<noteq> CkJob t p)"
proof -
  let ?F = "F\<lparr>leases := zpurge (ca_now A) (leases F)\<rparr>"
  let ?ms = "take (nat (ca_fetch A)) (map fst (ring ?F))"
  let ?Q = "\<lambda>x. off_ring t (fst x) \<and> (\<forall>p. snd x \<noteq> CkJob t p)"
  have F: "off_ring t ?F" using assms(1) by (simp add: off_ring_def)
  have ms: "u \<noteq> t" if "u \<in> set ?ms" for u
    using that assms(1) by (auto simp: off_ring_def dest: in_set_takeD)
  have st: "off_ring t (set_tlease u z G)" "off_ring t (G\<lparr>ring := zrem u (ring G)\<rparr>)" if "off_ring t G" for u z G
    using that by (simp_all add: off_ring_def set_tlease_def del: set_zrem)
  have scan: "?Q (checkout_scan (grant A) lmt (ca_now A) ?ms G)" if "off_ring t G" for lmt G
    by (rule scan_members [where P = "off_ring t"]) (use that st assms(3) ms in simp_all)
  then show ?thesis using F
    by (auto simp: checkout_script_def Let_def split_beta)
qed

lemma off_ring_exec:
  assumes "lane_of c = LaneTime" and "off_ring t F" and "\<not> revives t x"
  shows "off_ring t (fst (lane_exec c x F)) \<and> (\<forall>i p. snd (lane_exec c x F) \<noteq> Granted i t p)"
proof (cases x)
  case (Ck v i rnow)
  have "off_ring t (fst (checkout_script grant_time A F)) \<and> (\<forall>p. snd (checkout_script grant_time A F) \<noteq> CkJob t p)" for A
    by (rule checkout_off_ring [OF assms(2)])
      (auto simp: off_ring_def grant_time_def grant_lease_def lpop_rest_def Let_def simp del: set_zrem)
  then show ?thesis using Ck assms(1)
    by (simp add: run_checkout_def checkout_time_def split_beta split: ck.splits) blast
qed (use assms in \<open>auto simp: revives_def off_ring_def split_beta op_defs Let_def simp del: set_zrem set_zadd split: option.splits\<close>)

text \<open>On the time lane an abort puts the job back into its tenant's ready list but not the
  tenant into the ring. If checkout had taken the tenant's last job, the tenant is off the
  ring with work waiting, and no sequence of calls grants it a slot until a new job of that
  tenant is enqueued or another one completes.\<close>

theorem aborted_tenant_stranded:
  assumes "lane_of c = LaneTime" and "t \<notin> fst ` set (ring F)" and "\<forall>x \<in> set xs. \<not> revives t x"
  shows "t \<notin> fst ` set (ring (fst (lane_run c xs F))) \<and> (\<forall>i p. Granted i t p \<notin> set (snd (lane_run c xs F)))"
  using assms(2,3) unfolding off_ring_def [symmetric]
proof (induction xs arbitrary: F)
  case (Cons x xs)
  then show ?case using off_ring_exec [OF assms(1) Cons.prems(1), of x] by (simp add: split_beta) metis
qed simp

theorem aborted_tenant_stranded_witness:
  "let F = fst (lane_run (demo_cfg LaneTime 5 0) [Enq ''a'' ''x'', Ck (0, 0) ''s1'' 1, Abort ''s1'' ''a''] empty_fair)
   in ready F ''a'' = [''x''] \<and> fwd F = [] \<and>
      (\<forall>i p. Granted i ''a'' p \<notin> set (snd (lane_run (demo_cfg LaneTime 5 0)
         [Ck (0, 0) ''s2'' 2, Enq ''b'' ''y'', Ck (0, 0) ''s3'' 3] F)))"
proof -
  let ?F = "fst (lane_run (demo_cfg LaneTime 5 0) [Enq ''a'' ''x'', Ck (0, 0) ''s1'' 1, Abort ''s1'' ''a''] empty_fair)"
  have 1: "ready ?F ''a'' = [''x'']" by code_simp
  have 2: "fwd ?F = []" by code_simp
  have 3: "ring ?F = []" by code_simp
  have 4: "lane_of (demo_cfg LaneTime 5 0) = LaneTime" by (simp add: demo_cfg_def DefaultSettings_def)
  show ?thesis unfolding Let_def
    using 1 2 3 aborted_tenant_stranded [OF 4, of "''a''" ?F "[Ck (0, 0) ''s2'' 2, Enq ''b'' ''y'', Ck (0, 0) ''s3'' 3]"]
    by (simp add: revives_def)
qed

end
