(* ===== verification/Fair_Shares.thy ===== *)
theory Fair_Shares
  imports Fair_Props
begin

text \<open>
  Which tenant a checkout serves, against a reference that only looks at the state before the
  script, and what follows for the shares of two backlogged tenants.
\<close>

subsection \<open>The choice of a checkout\<close>

definition live_leases :: "rat \<Rightarrow> string \<Rightarrow> fair \<Rightarrow> int" where
  "live_leases now t F = int (length (zpurge now (tlease F t)))"

definition first_below :: "(string \<Rightarrow> int) \<Rightarrow> rat \<Rightarrow> fair \<Rightarrow> string list \<Rightarrow> string option" where
  "first_below lmt now F ts = find (\<lambda>t. ready F t \<noteq> [] \<and> (lmt t = 0 \<or> live_leases now t F < lmt t)) ts"

text \<open>The reference: nothing when the live leases fill the budget; else the first tenant in order of
  virtual time below its share; else the first below the hard cap.\<close>

definition pick :: "settings \<Rightarrow> int \<times> rat \<Rightarrow> rat \<Rightarrow> fair \<Rightarrow> ck" where
  "pick c v now F =
     (let A = ck_args_of c v '''' now; ts = take (nat (fetchN c)) (map fst (ring F)) in
      if 0 < GlobalConcurrency c \<and> GlobalConcurrency c \<le> int (length (zpurge now (leases F))) then CkBudget
      else case first_below (\<lambda>t. eff_cap A (ck_active A F) t F) now F ts of
          Some t \<Rightarrow> CkJob t (hd (ready F t))
        | None \<Rightarrow> (case first_below (\<lambda>_. MaxInflightPerTenant c) now F ts of
              Some t \<Rightarrow> CkJob t (hd (ready F t)) | None \<Rightarrow> CkNone))"

text \<open>What the scan may have changed of the state \<open>F\<close> it started in.\<close>

definition scanned :: "rat \<Rightarrow> fair \<Rightarrow> fair \<Rightarrow> bool" where
  "scanned now F G = (ready G = ready F \<and> wh G = wh F \<and> ring_exact G \<and>
     (\<forall>t. tlease G t = tlease F t \<or> tlease G t = zpurge now (tlease F t)))"

lemma zpurge_idem [simp]: "zpurge n (zpurge n z) = zpurge n z"
  by (simp add: zpurge_def)

lemma scanned_live: "scanned now F G \<Longrightarrow> zpurge now (tlease G t) = zpurge now (tlease F t)"
  unfolding scanned_def by (metis zpurge_idem)

lemma scanned_purge: "scanned now F G \<Longrightarrow> scanned now F (set_tlease t (zpurge now (tlease G t)) G)"
  using scanned_live [of now F G t] by (auto simp: scanned_def set_tlease_def ring_exact_def)

lemma scanned_skip: "scanned now F G \<Longrightarrow> ready F t = [] \<Longrightarrow> scanned now F (G\<lparr>ring := zrem t (ring G)\<rparr>)"
  using ring_exact_skip [of G t] by (simp add: scanned_def)

lemma scan_choice:
  assumes "scanned now F G"
    and lmt: "\<And>t H. wh H = wh F \<Longrightarrow> lmt t H = L t"
    and job: "\<And>t j rest H. ring_exact H \<Longrightarrow> ready H t = j # rest \<Longrightarrow> snd (grant t j rest H) = CkJob t j"
  shows "snd (checkout_scan grant lmt now ts G) =
      (case first_below L now F ts of None \<Rightarrow> CkNone | Some t \<Rightarrow> CkJob t (hd (ready F t))) \<and>
    (snd (checkout_scan grant lmt now ts G) = CkNone \<longrightarrow> scanned now F (fst (checkout_scan grant lmt now ts G)))"
  using assms(1)
proof (induction ts arbitrary: G)
  case Nil
  then show ?case by (simp add: first_below_def)
next
  case (Cons t ts)
  let ?G = "set_tlease t (zpurge now (tlease G t)) G"
  have sc: "scanned now F ?G" by (rule scanned_purge [OF Cons.prems])
  have u: "under (lmt t ?G) t ?G = (L t = 0 \<or> live_leases now t F < L t)"
    using lmt [of ?G t] sc scanned_live [OF Cons.prems, of t]
    by (simp add: under_def live_leases_def scanned_def set_tlease_def)
  have r: "ready ?G t = ready F t" using sc by (simp add: scanned_def)
  have e: "ring_exact ?G" using sc by (simp add: scanned_def)
  show ?case
  proof (cases "under (lmt t ?G) t ?G")
    case False
    then show ?thesis using Cons.IH [OF sc] u by (simp add: first_below_def Let_def)
  next
    case True
    show ?thesis
    proof (cases "ready F t")
      case Nil
      then show ?thesis using Cons.IH [OF scanned_skip [OF sc Nil]] True r by (simp add: first_below_def Let_def)
    next
      case (Cons j rest)
      then show ?thesis using job [OF e] True r u by (simp add: first_below_def Let_def)
    qed
  qed
qed

lemma checkout_choice:
  assumes ex: "ring_exact F"
    and job: "\<And>t j rest H. ring_exact H \<Longrightarrow> ready H t = j # rest \<Longrightarrow> snd (grant (ck_args_of c v i now) t j rest H) = CkJob t j"
  shows "snd (checkout_script grant (ck_args_of c v i now) F) = pick c v now F"
proof -
  let ?A = "ck_args_of c v i now" and ?B = "ck_args_of c v '''' now"
  let ?F = "F\<lparr>leases := zpurge now (leases F)\<rparr>"
  let ?ts = "take (nat (fetchN c)) (map fst (ring F))"
  let ?L = "\<lambda>t. eff_cap ?B (ck_active ?B F) t F"
  have F: "scanned now F ?F" using ex by (simp add: scanned_def ring_exact_def)
  have act: "ck_active ?A ?F = ck_active ?B F" by (simp add: ck_active_def ck_args_of_def Let_def)
  have share: "eff_cap ?A (ck_active ?B F) t H = ?L t" if "wh H = wh F" for t H
  proof -
    have w: "weight_in d t H = weight_in d t F" for d using that by (simp add: weight_in_def)
    have f: "ca_budget ?A = ca_budget ?B" "ca_weighted ?A = ca_weighted ?B" "ca_cap ?A = ca_cap ?B"
      "ca_dw ?A = ca_dw ?B" "ca_shint ?A = ca_shint ?B" by (simp_all add: ck_args_of_def)
    show ?thesis by (simp only: eff_cap_def ck_sum_w_def f w)
  qed
  let ?X = "checkout_scan (grant ?A) (eff_cap ?A (ck_active ?B F)) now ?ts ?F"
  have 1: "snd ?X = (case first_below ?L now F ?ts of None \<Rightarrow> CkNone | Some t \<Rightarrow> CkJob t (hd (ready F t))) \<and>
      (snd ?X = CkNone \<longrightarrow> scanned now F (fst ?X))"
    by (rule scan_choice [OF F]) (fact share, fact job)
  have 2: "snd (checkout_scan (grant ?A) (\<lambda>_ _. MaxInflightPerTenant c) now ?ts G) =
      (case first_below (\<lambda>_. MaxInflightPerTenant c) now F ?ts of None \<Rightarrow> CkNone | Some t \<Rightarrow> CkJob t (hd (ready F t)))"
    if "scanned now F G" for G
    by (rule scan_choice [OF that, THEN conjunct1]) (rule refl, fact job)
  have fields: "ca_now ?A = now" "ca_budget ?A = GlobalConcurrency c" "ca_fetch ?A = fetchN c"
    "ca_cap ?A = MaxInflightPerTenant c" by (simp_all add: ck_args_of_def)
  obtain G r where s: "?X = (G, r)" by (cases ?X)
  show ?thesis
  proof (cases "r = CkNone")
    case True
    have sc: "scanned now F G" using 1 [THEN conjunct2] unfolding s by (simp add: True)
    have n: "first_below ?L now F ?ts = None"
      using 1 [THEN conjunct1] unfolding s True by (cases "first_below ?L now F ?ts") simp_all
    note n2 = 2 [OF sc]
    show ?thesis
      by (simp add: checkout_script_def pick_def Let_def s act fields True n n2 option.case_eq_if)
  next
    case False
    then obtain t where "first_below ?L now F ?ts = Some t" "r = CkJob t (hd (ready F t))"
      using 1 [THEN conjunct1] unfolding s by (cases "first_below ?L now F ?ts") simp_all
    then show ?thesis using s act fields by (simp add: checkout_script_def pick_def Let_def)
  qed
qed

text \<open>C22. When the ring lists the tenants with work, a checkout of either lane returns what the
  reference choice returns: the payload at the head of the queue of the tenant with the least
  virtual time among those below their share of the budget, else of the first below the hard
  cap, and nothing exactly when the budget is used up or every waiting tenant is at the cap.\<close>

theorem checkout_matches_reference:
  assumes "ring_exact F"
  shows "snd (run_checkout c v i now F) = pick c v now F"
  using checkout_choice [of F grant_time c v i now] checkout_choice [of F grant_count c v i now] assms
  by (auto simp: run_checkout_def checkout_time_def checkout_count_def ring_exact_grant_count)

theorem checkout_matches_reference_witness:
  "pick (DefaultSettings LaneTime) (0, 0) 3 (fst (lane_run (DefaultSettings LaneTime)
     [Enq ''b'' ''y'', Enq ''a'' ''x''] empty_fair)) = CkJob ''a'' ''x''"
proof -
  let ?F = "fst (lane_run (DefaultSettings LaneTime) [Enq ''b'' ''y'', Enq ''a'' ''x''] empty_fair)"
  have "ring_exact empty_fair" by (simp add: ring_exact_def empty_fair_def)
  then have ex: "ring_exact ?F" by (simp add: split_beta ring_exact_enqueue)
  have "snd (run_checkout (DefaultSettings LaneTime) (0, 0) ''s'' 3 ?F) = CkJob ''a'' ''x''" by code_simp
  then show ?thesis using checkout_matches_reference [OF ex, of "DefaultSettings LaneTime" "(0, 0)" "''s''" 3] by simp
qed

subsection \<open>Shares of backlogged tenants\<close>

text \<open>\<open>backlogged c t xs F\<close>: the tenant has work in every state of the run. \<open>slots_of t es\<close>: how many
  slots it was granted.\<close>

fun backlogged :: "settings \<Rightarrow> string \<Rightarrow> fop list \<Rightarrow> fair \<Rightarrow> bool" where
  "backlogged c t [] F = (ready F t \<noteq> [])"
| "backlogged c t (x # xs) F = (ready F t \<noteq> [] \<and> backlogged c t xs (fst (lane_exec c x F)))"

fun granted_to :: "string \<Rightarrow> fev \<Rightarrow> nat" where
  "granted_to t (Granted i u p) = (if u = t then 1 else 0)"
| "granted_to t e = 0"

definition slots_of :: "string \<Rightarrow> fev list \<Rightarrow> nat" where
  "slots_of t es = sum_list (map (granted_to t) es)"

definition steady :: "fop \<Rightarrow> bool" where
  "steady x = (case x of Abort i t \<Rightarrow> False | SetW t w \<Rightarrow> False | _ \<Rightarrow> True)"

definition unlimited :: "settings \<Rightarrow> bool" where
  "unlimited c = (lane_of c = LaneThroughput \<and> GlobalConcurrency c = 0 \<and> MaxInflightPerTenant c = 0 \<and> 0 < DefaultWeight c)"

lemma fetchN_pos: "nat (fetchN c) = Suc (nat (fetchN c - 1))"
  by (simp add: fetchN_def Let_def nat_eq_iff Suc_nat_eq_nat_zadd1)

lemma unlimited_checkout:
  assumes "unlimited c" and "ring F = (t, s) # z" and "ready F t = j # rest"
  shows "run_checkout c v i rnow F = grant_count (ck_args_of c v i rnow) t j rest
     (set_tlease t (zpurge rnow (tlease F t)) (F\<lparr>leases := zpurge rnow (leases F)\<rparr>))"
proof -
  let ?A = "ck_args_of c v i rnow"
  have f: "ca_budget ?A = 0" "ca_cap ?A = 0" "ca_now ?A = rnow" "ca_fetch ?A = fetchN c"
    using assms(1) by (simp_all add: ck_args_of_def unlimited_def)
  have cap: "eff_cap ?A n u G = 0" for n u G by (simp add: eff_cap_def f)
  show ?thesis using assms
    by (simp add: run_checkout_def checkout_count_def checkout_script_def Let_def f cap unlimited_def fetchN_pos under_def
        set_tlease_def split_beta)
qed

lemma empty_checkout:
  assumes "unlimited c" and "ring F = []"
  shows "run_checkout c v i rnow F = (F\<lparr>leases := zpurge rnow (leases F)\<rparr>, CkNone)"
  using assms by (simp add: run_checkout_def checkout_count_def checkout_script_def Let_def unlimited_def ck_args_of_def)

text \<open>One step of a steady run: only a grant moves a score, and it goes to the tenant with the least.\<close>

definition score_step :: "settings \<Rightarrow> string \<Rightarrow> fair \<Rightarrow> fair \<times> fev \<Rightarrow> bool" where
  "score_step c t F Ge = (\<forall>s. zscore t (ring F) = Some s \<longrightarrow> ready (fst Ge) t \<noteq> [] \<longrightarrow>
     zscore t (ring (fst Ge)) = Some (s + of_nat (granted_to t (snd Ge)) / weight_in (DefaultWeight c) t F) \<and>
     (granted_to t (snd Ge) \<noteq> 0 \<longrightarrow> (\<forall>u su. zscore u (ring F) = Some su \<longrightarrow> s \<le> su)))"

lemma score_checkout:
  assumes "unlimited c" and "fair_ok F" and "ring_exact F"
  shows "score_step c t F (lane_exec c (Ck v i rnow) F)"
proof (cases "ring F")
  case Nil
  then show ?thesis using empty_checkout [OF assms(1) Nil, of v i rnow] by (simp add: score_step_def split_beta)
next
  case (Cons h z)
  obtain u s where h: "h = (u, s)" by fastforce
  have "u \<in> fst ` set (ring F)" using Cons h by simp
  then obtain j rest where r: "ready F u = j # rest" using assms(3) by (auto simp: ring_exact_def neq_Nil_conv)
  have z: "zset_ok (ring F)" using assms(2) by (simp add: fair_ok_def)
  have least: "s \<le> su" if "zscore w (ring F) = Some su" for w su
    using that zset_hd_least [of u s z w su] z unfolding Cons h by (simp only: zscore_iff)
  have su: "zscore u (ring F) = Some s" using Cons h by (simp add: zscore_def)
  show ?thesis
    using unlimited_checkout [OF assms(1) Cons [unfolded h] r, of v i rnow] su z least
    by (auto simp: score_step_def grant_count_def Let_def lpop_rest_def set_tlease_def grant_lease_def split_beta
        weight_in_def ck_args_of_def)
qed

lemma score_exec:
  assumes "unlimited c" and "fair_ok F" and "ring_exact F" and "steady x"
  shows "score_step c t F (lane_exec c x F)"
proof (cases x)
  case (Ck v i rnow)
  then show ?thesis using score_checkout [OF assms(1-3)] by simp
next
  case (Enq u p)
  then show ?thesis using assms(2)
    by (auto simp: score_step_def enqueue_script_def ring_seed_def rpush_def Let_def fair_ok_def)
next
  case (Reset g)
  then show ?thesis by (simp add: score_step_def reset_script_def)
qed (use assms in \<open>auto simp: score_step_def steady_def op_defs Let_def split_beta unlimited_def split: option.splits\<close>)

lemma wh_exec: "steady x \<Longrightarrow> wh (fst (lane_exec c x F)) = wh F"
proof (cases x)
  case (Ck v i rnow)
  let ?A = "ck_args_of c v i rnow"
  have "wh (fst (checkout_script grant_time ?A F)) = wh F"
    by (rule checkout_rule [where P = "\<lambda>G. wh G = wh F"])
      (auto simp: set_tlease_def grant_time_def grant_lease_def lpop_rest_def Let_def)
  moreover have "wh (fst (checkout_script grant_count ?A F)) = wh F"
    by (rule checkout_rule [where P = "\<lambda>G. wh G = wh F"])
      (auto simp: set_tlease_def grant_count_def grant_lease_def lpop_rest_def Let_def split: option.splits)
  ultimately show ?thesis using Ck by (simp add: run_checkout_def checkout_time_def checkout_count_def split_beta)
qed (auto simp: steady_def op_defs Let_def split_beta split: option.splits)

lemma slots_Cons [simp]: "slots_of t (e # es) = granted_to t e + slots_of t es"
  by (simp add: slots_of_def)

lemma shares_run:
  fixes w :: rat
  assumes c: "unlimited c" and "fair_ok F" and "ring_exact F" and "\<forall>x \<in> set xs. steady x"
    and "backlogged c a xs F" and "backlogged c b xs F"
    and "zscore a (ring F) = Some va" and "zscore b (ring F) = Some vb"
    and "wa = weight_in (DefaultWeight c) a F" and "wb = weight_in (DefaultWeight c) b F"
  shows "slots_of a (snd (lane_run c xs F)) = 0 \<or>
     va + of_nat (slots_of a (snd (lane_run c xs F))) / wa
       \<le> vb + of_nat (slots_of b (snd (lane_run c xs F))) / wb + 1 / wa"
  using assms(2-)
proof (induction xs arbitrary: F va vb)
  case Nil
  then show ?case by (simp add: slots_of_def)
next
  case (Cons x xs)
  let ?G = "fst (lane_exec c x F)" and ?e = "snd (lane_exec c x F)"
  let ?na = "slots_of a (snd (lane_run c xs ?G))" and ?nb = "slots_of b (snd (lane_run c xs ?G))"
  let ?ga = "granted_to a ?e" and ?gb = "granted_to b ?e"
  have x: "steady x" using Cons.prems(3) by simp
  have bk: "ready ?G a \<noteq> []" "ready ?G b \<noteq> []"
    using Cons.prems(4,5) by (cases xs; simp)+
  have sa: "zscore a (ring ?G) = Some (va + of_nat ?ga / wa)" "?ga \<noteq> 0 \<longrightarrow> va \<le> vb"
    using score_exec [OF c Cons.prems(1,2) x, of a] Cons.prems bk by (auto simp: score_step_def)
  have sb: "zscore b (ring ?G) = Some (vb + of_nat ?gb / wb)"
    using score_exec [OF c Cons.prems(1,2) x, of b] Cons.prems bk by (auto simp: score_step_def)
  have ex: "ring_exact ?G" using Cons.prems(2) c by (intro ring_exact_exec) (auto simp: unlimited_def)
  have w: "wa = weight_in (DefaultWeight c) a ?G" "wb = weight_in (DefaultWeight c) b ?G"
    using wh_exec [OF x, of c F] Cons.prems(8,9) by (simp_all add: weight_in_def)
  have pos: "0 < wa" "0 < wb"
    using c Cons.prems(8,9) by (auto simp: weight_in_def unlimited_def split: option.splits)
  have IH: "?na = 0 \<or> va + of_nat ?ga / wa + of_nat ?na / wa \<le> vb + of_nat ?gb / wb + of_nat ?nb / wb + 1 / wa"
    using Cons.IH [OF fair_ok_exec [OF Cons.prems(1)] ex _ _ _ sa(1) sb w] Cons.prems by simp
  have nb: "0 \<le> (of_nat ?gb + of_nat ?nb) / wb" using pos by simp
  have "?ga \<le> 1" by (cases ?e) auto
  then have first: "va + (of_nat ?ga + of_nat ?na) / wa \<le> vb + 1 / wa" if "?na = 0" "?ga \<noteq> 0"
    using that sa(2) by (simp add: le_Suc_eq)
  show ?case
  proof (cases "?na = 0")
    case False
    then show ?thesis using IH by (simp add: split_beta add_divide_distrib add.assoc)
  next
    case True
    then show ?thesis using first nb by (cases "?ga = 0") (simp_all add: split_beta)
  qed
qed


definition share_cfg :: settings where
  "share_cfg = (DefaultSettings LaneThroughput)\<lparr>GlobalConcurrency := 0\<rparr>"

definition share_start :: fair where
  "share_start = fst (lane_run share_cfg [SetW ''a'' 2, Enq ''a'' ''x'', Enq ''a'' ''x'', Enq ''a'' ''x'', Enq ''a'' ''x'',
     Enq ''b'' ''y'', Enq ''b'' ''y'', Enq ''b'' ''y''] empty_fair)"


end
