(* ===== verification/Claim_Register.thy ===== *)
theory Claim_Register
  imports Kbatch_Prelude
begin

text \<open>
  The interface every \<open>SET NX\<close> claim of the program offers to its clients: whoever takes a free key
  holds it for the time to live, and taking another key releases nothing. The working set's
  reclaim lock, the lane's slot claim and stale-forward claim and the uniqueness lock all are
  such registers (a few keys, the empty ids, are not claimed at all: \<open>proper\<close> says which are; \<open>kid\<close> is the key an attempt is about); what a client may conclude is proved here once.
\<close>

text \<open>A key that is there and has not expired.\<close>

definition key_held :: "int \<Rightarrow> 'v rkey \<Rightarrow> bool" where
  "key_held clk k = (purge_key clk k \<noteq> None)"

lemma key_held_set [simp]: "key_held clk' (set_key_ex clk ttl v) = (clk' < clk + ttl)"
  by (simp add: key_held_def set_key_ex_def purge_key_def cell_live_def)

lemma key_held_purge: "key_held clk' k \<Longrightarrow> clk \<le> clk' \<Longrightarrow> purge_key clk k = k"
  by (cases k) (auto simp: key_held_def purge_key_def cell_live_def split: option.splits if_splits)

lemma key_held_some: "key_held clk k \<Longrightarrow> k \<noteq> None"
  by (cases k) (auto simp: key_held_def)

text \<open>A sequence of attempts, each with its time, and who won.\<close>

fun attempts :: "(int \<Rightarrow> 'k \<Rightarrow> 's \<Rightarrow> 's \<times> bool) \<Rightarrow> (int \<times> 'k) list \<Rightarrow> 's \<Rightarrow> 's \<times> bool list" where
  "attempts grab [] s = (s, [])"
| "attempts grab ((clk, k) # xs) s =
     (let (s1, w) = grab clk k s; (s2, ws) = attempts grab xs s1 in (s2, w # ws))"

lemma length_attempts [simp]: "length (snd (attempts g xs s)) = length xs"
  by (induction xs arbitrary: s) (auto simp: split_beta)

locale claim_register =
  fixes grab :: "int \<Rightarrow> 'k \<Rightarrow> 's \<Rightarrow> 's \<times> bool"
    and kid :: "'k \<Rightarrow> 'i"
    and held :: "int \<Rightarrow> 'i \<Rightarrow> 's \<Rightarrow> bool"
    and ttl :: int
    and proper :: "'k \<Rightarrow> bool"
  assumes refused: "held clk (kid k) s \<Longrightarrow> \<not> snd (grab clk k s)"
    and taken: "proper k \<Longrightarrow> snd (grab clk k s) \<Longrightarrow> clk \<le> clk' \<Longrightarrow> clk' < clk + ttl \<Longrightarrow> held clk' (kid k) (fst (grab clk k s))"
    and kept: "held clk' i s \<Longrightarrow> clk \<le> clk' \<Longrightarrow> held clk' i (fst (grab clk k' s))"
begin

lemma held_blocks:
  "held D k s \<Longrightarrow> \<forall>(clk, _) \<in> set xs. clk \<le> D \<Longrightarrow> j < length xs \<Longrightarrow> fst (xs ! j) = D \<Longrightarrow> kid (snd (xs ! j)) = k \<Longrightarrow> \<not> snd (attempts grab xs s) ! j"
proof (induction xs arbitrary: s j)
  case (Cons x xs)
  obtain clk k' where x: "x = (clk, k')" by fastforce
  show ?case
  proof (cases j)
    case 0
    then show ?thesis using Cons.prems refused x by (simp add: split_beta)
  next
    case (Suc n)
    have "clk \<le> D" using Cons.prems(2) x by simp
    then have "held D k (fst (grab clk k' s))" by (rule kept [OF Cons.prems(1)])
    then show ?thesis using Cons.IH [of "fst (grab clk k' s)" n] Cons.prems Suc x by (simp add: split_beta)
  qed
qed simp

text \<open>In any sequence of attempts ordered by time, two winners of the same key are at least the
  time to live apart.\<close>

lemma winners_apart:
  assumes "sorted (map fst xs)" and "i < j" and "j < length xs" and "kid (snd (xs ! i)) = kid (snd (xs ! j))" and "proper (snd (xs ! i))"
    and "snd (attempts grab xs s) ! i" and "snd (attempts grab xs s) ! j"
  shows "fst (xs ! i) + ttl \<le> fst (xs ! j)"
  using assms
proof (induction xs arbitrary: s i j)
  case (Cons x xs)
  obtain clk k where x: "x = (clk, k)" by fastforce
  let ?s = "fst (grab clk k s)"
  obtain n where j: "j = Suc n" using Cons.prems(2) by (cases j) auto
  obtain D k2 where n: "xs ! n = (D, k2)" by fastforce
  show ?case
  proof (cases i)
    case (Suc m)
    then show ?thesis using Cons.IH [of m n ?s] Cons.prems j x by (simp add: split_beta)
  next
    case 0
    have k2: "kid k2 = kid k" using Cons.prems(4) 0 j n x by simp
    have le: "clk \<le> D" using Cons.prems(1,3) j n x by (auto dest!: nth_mem [of n xs])
    show ?thesis
    proof (rule ccontr)
      assume c: "\<not> ?thesis"
      let ?ys = "take (Suc n) xs"
      have "held D (kid k) ?s" using taken [of k clk s D] Cons.prems(5,6) 0 x le c j n by (simp add: split_beta)
      moreover have "\<forall>(c, _) \<in> set ?ys. c \<le> D"
      proof -
        have "fst (xs ! m) \<le> D" if "m \<le> n" for m
          using Cons.prems(1,3) that j n sorted_nth_mono [of "map fst xs" m n] by simp
        then show ?thesis using Cons.prems(3) j by (auto simp: in_set_conv_nth) (metis fst_conv less_Suc_eq_le)
      qed
      ultimately have "\<not> snd (attempts grab ?ys ?s) ! n"
        using Cons.prems(3) j n k2 by (intro held_blocks [where D = D and k = "kid k"]) simp_all
      moreover have "snd (attempts grab ?ys u) ! n = snd (attempts grab xs u) ! n" if "n < length xs" for u
        using that by (induction xs arbitrary: n u) (auto simp: split_beta nth_Cons split: nat.splits)
      ultimately show False using Cons.prems(3,7) j x by (simp add: split_beta)
    qed
  qed
qed simp

end

end
