(* ===== verification/Fair_Handover.thy ===== *)
theory Fair_Handover
  imports Fair_Claims Fair_Shares Claim_Register
begin

text \<open>
  The hand-over from a lane to the ready topic: what one forward and one recovery do under any
  fate of their calls, the two registers that keep a slot from running or being recovered
  twice, the charge of a completion, and the idle reset of the virtual times.
\<close>

subsection \<open>Slot claims\<close>

definition grab_slot :: "settings \<Rightarrow> int \<Rightarrow> string \<Rightarrow> fair \<Rightarrow> fair \<times> bool" where
  "grab_slot c clk i F = claimSlotExecution True c clk i F"

text \<open>Slots with the empty id are never claimed; the register holds the others.\<close>

interpretation slotReg: claim_register "grab_slot c" "\<lambda>i. i" "\<lambda>clk i F. i \<noteq> '''' \<and> key_held clk (slot_dedup F i)"
  "slotDedupTTL c * 1000" "\<lambda>i. i \<noteq> ''''" for c
proof (unfold_locales, goal_cases)
  case (1 clk k s)
  then show ?case by (simp add: grab_slot_def claimSlotExecution_def key_held_def split: option.splits)
next
  case (2 k clk s clk')
  then show ?case by (simp add: grab_slot_def claimSlotExecution_def split: option.splits)
next
  case (3 clk' k s clk k')
  then have "purge_key clk (slot_dedup s k) = slot_dedup s k" "slot_dedup s k \<noteq> None"
    by (blast dest: key_held_purge key_held_some)+
  then show ?case using 3 by (auto simp: grab_slot_def claimSlotExecution_def split: option.splits)
qed

text \<open>Consumers that see the same slot again, because it was produced twice or redelivered,
  claim its execution at most once per dedup window: in any sequence of claims ordered by time,
  two successful ones for one slot are at least the slot's dedup TTL apart, and with the default
  setting that is no shorter than the lease of the slot.\<close>

theorem slot_executes_once:
  assumes "sorted (map fst xs)" and "i < j" and "j < length xs" and "snd (xs ! i) = snd (xs ! j)"
    and "snd (xs ! i) \<noteq> ''''" and "SlotDedupTTL c = 0"
    and "snd (attempts (claimSlotExecution True c) xs F) ! i" and "snd (attempts (claimSlotExecution True c) xs F) ! j"
  shows "fst (xs ! i) + \<lfloor>EffectiveLeaseTTL c\<rfloor> * 1000 \<le> fst (xs ! j)"
proof -
  have g: "claimSlotExecution True c = grab_slot c" by (simp add: grab_slot_def fun_eq_iff)
  have "\<lfloor>EffectiveLeaseTTL c\<rfloor> \<le> slotDedupTTL c" using assms(6) by (simp add: slotDedupTTL_def Let_def)
  then show ?thesis
    using slotReg.winners_apart [OF assms(1-5) assms(7,8) [unfolded g]] by linarith
qed

theorem slot_executes_once_witness:
  "(5::int) + \<lfloor>EffectiveLeaseTTL (DefaultSettings LaneTime)\<rfloor> * 1000 \<le> 1800005"
proof -
  let ?xs = "[(5, ''s''), (9, ''s''), (1800005, ''s'')] :: (int \<times> string) list"
  have "snd (attempts (claimSlotExecution True (DefaultSettings LaneTime)) ?xs empty_fair) = [True, False, True]"
    by code_simp
  then show ?thesis
    using slot_executes_once [of ?xs 0 2 "DefaultSettings LaneTime" empty_fair]
    by (simp add: DefaultSettings_def)
qed

subsection \<open>Completion\<close>

lemma zrem_twice [simp]: "zrem i (zrem i z) = zrem i z"
  by (simp add: zrem_def)

lemma drop_lease_twice: "drop_lease t i (drop_lease t i F) = drop_lease t i F"
  by (simp add: drop_lease_def)

lemma drop_lease_charge: "drop_lease t i (charge t inc F) = charge t inc (drop_lease t i F)"
  by (simp add: drop_lease_def charge_def Let_def vtime_of_def)

lemma tlease_charge [simp]: "tlease (charge t inc F) = tlease F"
  by (simp add: charge_def Let_def)

lemma vtime_charge: "vtime_of t (charge t inc F) = vtime_of t F + inc"
  by (simp add: charge_def Let_def vtime_of_def)

lemma vtime_drop [simp]: "vtime_of t (drop_lease u i F) = vtime_of t F"
  by (simp add: drop_lease_def vtime_of_def)

text \<open>Completing a slot charges its tenant's virtual time with the run time once and only if
  the tenant still holds the lease (time lane; the throughput lane charges at checkout), and a
  repeated completion of the same slot, with whatever run time, changes nothing at all.\<close>

theorem completion_charged_once:
  assumes "i \<noteq> ''''"
  shows "vtime_of t (complete_op c t i inc F) = vtime_of t F +
      (if lane_of c \<noteq> LaneThroughput \<and> i \<in> fst ` set (tlease F t) then inc else 0) \<and>
    complete_op c t i inc' (complete_op c t i inc F) = complete_op c t i inc F"
proof -
  have "i \<notin> fst ` set (tlease (drop_lease t i F) t)" by (simp add: drop_lease_def del: set_zrem)
  then show ?thesis using assms
    by (simp add: complete_op_def complete_time_lease_def complete_count_lease_def vtime_charge drop_lease_twice
        drop_lease_charge)
qed

theorem completion_charged_once_witness:
  "vtime_of ''a'' (complete_op (DefaultSettings LaneTime) ''a'' ''s'' 7
     (empty_fair\<lparr>tlease := (\<lambda>_. [])(''a'' := [(''s'', 100)])\<rparr>)) = 7"
  using completion_charged_once [of "''s''" "''a''" "DefaultSettings LaneTime" 7
      "empty_fair\<lparr>tlease := (\<lambda>_. [])(''a'' := [(''s'', 100)])\<rparr>"]
  by (simp add: DefaultSettings_def vtime_of_def empty_fair_def)

subsection \<open>One forward\<close>

lemma checkout_buffers:
  "snd (run_checkout c v i rnow F) = CkJob t p \<Longrightarrow>
     map_of (fwd (fst (run_checkout c v i rnow F))) i = Some p \<and> fwd_meta (fst (run_checkout c v i rnow F)) i = Some t"
proof -
  let ?A = "ck_args_of c v i rnow"
  let ?Q = "\<lambda>x. snd x = CkJob t p \<longrightarrow> map_of (fwd (fst x)) i = Some p \<and> fwd_meta (fst x) i = Some t"
  have slot: "ca_slot ?A = i" by (simp add: ck_args_of_def)
  have "?Q (checkout_script grant_time ?A F)"
    by (rule checkout_rule [where P = "\<lambda>_. True"])
      (auto simp: grant_time_def grant_lease_def Let_def slot update_Some_unfold)
  moreover have "?Q (checkout_script grant_count ?A F)"
    by (rule checkout_rule [where P = "\<lambda>_. True"])
      (auto simp: grant_count_def grant_lease_def Let_def slot update_Some_unfold split: option.splits)
  ultimately show "snd (run_checkout c v i rnow F) = CkJob t p \<Longrightarrow> ?thesis"
    by (simp add: run_checkout_def checkout_time_def checkout_count_def split: if_splits)
qed

lemma cfg_sum_weights: "cfg (snd (sum_weights up now ts F S)) = cfg S"
  by (induction ts arbitrary: S) (auto simp: split_beta weightFor_def split: option.splits)

lemma cfg_view: "cfg (snd (activeViewCached lag up now scan F S)) = cfg S"
  by (auto simp: activeViewCached_def computeActiveView_def computeRingLeaseView_def Let_def split_beta cfg_sum_weights
      split: option.splits)

text \<open>A checkout leaves the stock of every tenant alone; a granted slot is the buffered job.\<close>

lemma checkout_stock:
  assumes "fair_ok F" and "lane_of (cfg S) \<noteq> LaneTime \<longrightarrow> ring_exact F" and "i \<notin> fst ` set (fwd F)"
    and "checkout lag up now scan i rnow F S = (F1, S1, r)"
  shows "fair_ok F1" and "stock t F1 = stock t F" and "cfg S1 = cfg S"
    and "r = Ok (Some (u, p)) \<Longrightarrow> map_of (fwd F1) i = Some p \<and> fwd_meta F1 i = Some u"
proof -
  let ?v = "fst (activeViewCached lag up now scan F S)"
  have cfg: "cfg (snd (activeViewCached lag up now scan F S)) = cfg S" by (rule cfg_view)
  have F1: "F1 = F \<and> r = BadLane \<and> S1 = S \<or>
      F1 = fst (run_checkout (cfg S) ?v i rnow F) \<and> cfg S1 = cfg S \<and>
      r = (case snd (run_checkout (cfg S) ?v i rnow F) of CkJob t p \<Rightarrow> Ok (Some (t, p)) | CkError \<Rightarrow> ScriptError | _ \<Rightarrow> Ok None)"
    using assms(4) cfg by (auto simp: checkout_def checkout_view_def Let_def split_beta split: if_splits)
  show "fair_ok F1" using F1 assms(1) fair_ok_checkout by blast
  show "stock t F1 = stock t F" using F1 stock_checkout [OF assms(3,2), of t ?v rnow] by auto
  show "cfg S1 = cfg S" using F1 by auto
  show "r = Ok (Some (u, p)) \<Longrightarrow> map_of (fwd F1) i = Some p \<and> fwd_meta F1 i = Some u"
    using F1 checkout_buffers [of "cfg S" ?v i rnow F u p] by (auto split: ck.splits)
qed

lemma confirm_stock:
  assumes "fair_ok F" and "map_of (fwd F) i = Some p" and "fwd_meta F i = Some u" and "i \<noteq> ''''"
  shows "stock t F = stock t (fst (confirmForward i F)) + (if t = u then {#p#} else {#})"
  using buffered_drop [OF assms(1-3), of t] assms(2,4)
  by (simp add: confirmForward_def confirm_script_def stock_def) (simp add: drop_forward_def)

lemma complete_stock: "stock t (fst (complete up now u i dur F S)) = stock t F" "fair_ok F \<Longrightarrow> fair_ok (fst (complete up now u i dur F S))"
  "fwd (fst (complete up now u i dur F S)) = fwd F" "fwd_meta (fst (complete up now u i dur F S)) = fwd_meta F"
  by (simp_all add: complete_def complete_count_lease_def complete_time_legacy_def complete_time_lease_def Let_def
      split_beta) (simp_all add: charge_def drop_lease_def Let_def)

definition handed_over :: "codec \<Rightarrow> (string \<Rightarrow> string option) \<Rightarrow> lane \<Rightarrow> string \<Rightarrow> string \<Rightarrow> outbox \<Rightarrow> string list \<Rightarrow>
    string \<Rightarrow> bool" where
  "handed_over K resolve l i t out ds p =
     (p \<in> set ds \<or> (\<exists>topic key body k0. (topic, key, body) \<in> set out \<and> resolve p = Some topic \<and>
        markSlot K p t i l = SlotMarked body k0))"

lemma forwardJob_stock:
  assumes "fair_ok F" and "map_of (fwd F) (fe_slot E) = Some p" and "fwd_meta F (fe_slot E) = Some u"
    and "fe_slot E \<noteq> ''''" and "forwardJob K resolve E c u p F = (F2, out, oc)"
  shows "stock t F2 = stock t F \<or>
    (t = u \<and> stock t F = stock t F2 + {#p#} \<and> handed_over K resolve (lane_of c) (fe_slot E) u out [] p)"
proof -
  have ab: "stock t (abort_call E c u F) = stock t F"
    using stock_abortForward [OF assms(1), of "fe_slot E" u t c] assms(3) by (simp add: abort_call_def when_run_def)
  have cf: "stock t F = stock t (when_run (fe_confirm E) (\<lambda>G. fst (confirmForward (fe_slot E) G)) F)
      + (if t = u \<and> fe_confirm E \<noteq> NotRun then {#p#} else {#})"
    using confirm_stock [OF assms(1-4), of t] by (simp add: when_run_def)
  show ?thesis
    using assms(5) ab cf
    by (auto simp: forwardJob_def Let_def handed_over_def split: slot_mark.splits option.splits if_splits)
qed

lemma dropExpired_stock:
  assumes "fair_ok F" and "map_of (fwd F) (fe_slot E) = Some p" and "fwd_meta F (fe_slot E) = Some u"
    and "fe_slot E \<noteq> ''''" and "dropExpired E u p F S = (F2, S2, ds)"
  shows "stock t F2 = stock t F \<or> (t = u \<and> stock t F = stock t F2 + {#p#} \<and> p \<in> set ds)"
proof -
  let ?G = "if fe_complete E = NotRun then F else fst (complete (fe_up E) (fe_now E) u (fe_slot E) 0 F S)"
  have G: "fair_ok ?G" "map_of (fwd ?G) (fe_slot E) = Some p" "fwd_meta ?G (fe_slot E) = Some u" "stock t ?G = stock t F"
    using assms(1-3) by (simp_all add: complete_stock)
  have "fe_drop E \<noteq> Some False \<Longrightarrow> ds = [p] \<and>
      F2 = when_run (fe_confirm E) (\<lambda>G. fst (confirmForward (fe_slot E) G)) ?G"
    using assms(5) by (auto simp: dropExpired_def Let_def split_beta split: if_splits)
  then show ?thesis
    using assms(5) confirm_stock [OF G(1-3) assms(4), of t] G(4)
    by (cases "fe_drop E = Some False") (auto simp: dropExpired_def when_run_def)
qed

text \<open>C23. One forward loses no job, whatever calls fail, with or without effect. For every tenant,
  either its jobs in the lane are the same as before, or exactly one job of it left, and that job
  was produced to its ready topic with the slot marked, or handed to the expiry publisher.\<close>

theorem forward_loses_no_job:
  assumes "fair_ok F" and "lane_of (cfg S) \<noteq> LaneTime \<longrightarrow> ring_exact F"
    and "fe_slot E \<notin> fst ` set (fwd F)" and "fe_slot E \<noteq> ''''"
    and "forwardOnce K parse resolve E F S = (F', S', out, ds, oc)"
  shows "stock t F' = stock t F \<or>
    (\<exists>p. stock t F = stock t F' + {#p#} \<and> handed_over K resolve (lane_of (cfg S)) (fe_slot E) t out ds p)"
proof -
  obtain F1 S1 r where ck: "checkout (fe_lag E) (fe_up E) (fe_now E) (fe_scan E) (fe_slot E) (fe_rnow E) F S = (F1, S1, r)"
    by (cases "checkout (fe_lag E) (fe_up E) (fe_now E) (fe_scan E) (fe_slot E) (fe_rnow E) F S")
  note st = checkout_stock [OF assms(1-3) ck]
  show ?thesis
  proof (cases "fe_checkout E = Replied \<and> (\<exists>u p. r = Ok (Some (u, p)))")
    case False
    then show ?thesis using assms(5) ck st(2) [of t]
      by (cases "fe_checkout E") (auto simp: forwardOnce_def split: reply.splits option.splits)
  next
    case True
    then obtain u p where r: "r = Ok (Some (u, p))" by blast
    note b = conjunct1 [OF st(4) [OF r]] conjunct2 [OF st(4) [OF r]]
    show ?thesis
    proof (cases "payload_expired K parse p (unix_sec (fe_now E))")
      case e: True
      obtain F2 S2 d where d: "dropExpired E u p F1 S1 = (F2, S2, d)" by (cases "dropExpired E u p F1 S1")
      have "F' = F2 \<and> ds = d" using assms(5) ck True r e d by (simp add: forwardOnce_def)
      then show ?thesis using dropExpired_stock [OF st(1) b assms(4) d, of t] st(2) [of t] by (auto simp: handed_over_def)
    next
      case e: False
      obtain F2 o2 c2 where d: "forwardJob K resolve E (cfg S1) u p F1 = (F2, o2, c2)"
        by (cases "forwardJob K resolve E (cfg S1) u p F1")
      have "F' = F2 \<and> out = o2 \<and> ds = []" using assms(5) ck True r e d by (simp add: forwardOnce_def)
      then show ?thesis using forwardJob_stock [OF st(1) b assms(4) d, of t] st(2) [of t] st(3) by auto
    qed
  qed
qed

definition demo_codec :: codec where
  "demo_codec = \<lparr>gzip = Some, gunzip = Some,
     jdec = (\<lambda>s. if s = ''x'' then Some (JObj [(''job_id'', JStr ''j1''), (''job_type'', JStr ''mail'')]) else None),
     jenc = (\<lambda>_. ''marked'')\<rparr>"

definition demo_env :: fwd_env where
  "demo_env = \<lparr>fe_lag = None, fe_up = True, fe_now = 0, fe_scan = [], fe_slot = ''s1'', fe_rnow = 1, fe_checkout = Replied,
     fe_drop = Some True, fe_complete = Replied, fe_produce = Replied, fe_confirm = Replied, fe_abort = Replied\<rparr>"

theorem forward_loses_no_job_witness:
  "\<exists>p. stock ''a'' (fst (lane_run (DefaultSettings LaneTime) [Enq ''a'' ''x''] empty_fair)) = {#p#} \<and>
     handed_over demo_codec (\<lambda>_. Some ''ready'') LaneTime ''s1'' ''a'' [(''ready'', ''j1'', ''marked'')] [] p"
proof -
  let ?F = "fst (lane_run (DefaultSettings LaneTime) [Enq ''a'' ''x''] empty_fair)"
  let ?S = "newScheduler (DefaultSettings LaneTime)"
  obtain F' S' out ds oc where
    f: "forwardOnce demo_codec (\<lambda>_. None) (\<lambda>_. Some ''ready'') demo_env ?F ?S = (F', S', out, ds, oc)"
    by (cases "forwardOnce demo_codec (\<lambda>_. None) (\<lambda>_. Some ''ready'') demo_env ?F ?S")
  have l: "lane_of (cfg ?S) = LaneTime" by (simp add: newScheduler_def DefaultSettings_def Let_def)
  have o: "fst (snd (snd (forwardOnce demo_codec (\<lambda>_. None) (\<lambda>_. Some ''ready'') demo_env ?F ?S)))
      = [(''ready'', ''j1'', ''marked'')]"
    "fst (snd (snd (snd (forwardOnce demo_codec (\<lambda>_. None) (\<lambda>_. Some ''ready'') demo_env ?F ?S)))) = []"
    by code_simp+
  have r: "ready (fst (forwardOnce demo_codec (\<lambda>_. None) (\<lambda>_. Some ''ready'') demo_env ?F ?S)) ''a'' = []"
    "fwd (fst (forwardOnce demo_codec (\<lambda>_. None) (\<lambda>_. Some ''ready'') demo_env ?F ?S)) = []"
    "ready ?F ''a'' = [''x'']" "fwd ?F = []" by code_simp+
  have s: "stock ''a'' ?F = {#''x''#}" "stock ''a'' F' = {#}"
    using r f by (simp_all add: stock_def buffered_def)
  have ok: "fair_ok ?F" by (rule fair_ok_run) simp
  have "stock ''a'' F' = stock ''a'' ?F \<or> (\<exists>p. stock ''a'' ?F = stock ''a'' F' + {#p#} \<and>
      handed_over demo_codec (\<lambda>_. Some ''ready'') (lane_of (cfg ?S)) (fe_slot demo_env) ''a'' out ds p)"
    by (rule forward_loses_no_job [OF ok _ _ _ f]) (use l r in \<open>simp_all add: demo_env_def\<close>)
  then show ?thesis using s l o f by (simp add: demo_env_def)
qed

subsection \<open>A job without a route\<close>

fun forward_all :: "codec \<Rightarrow> (string \<Rightarrow> rat option) \<Rightarrow> (string \<Rightarrow> string option) \<Rightarrow> fwd_env list \<Rightarrow> fair \<Rightarrow> sched \<Rightarrow>
    fair \<times> sched \<times> outbox" where
  "forward_all K parse resolve [] F S = (F, S, [])"
| "forward_all K parse resolve (E # Es) F S =
     (let (F1, S1, out, ds, oc) = forwardOnce K parse resolve E F S;
          (F2, S2, out2) = forward_all K parse resolve Es F1 S1
      in (F2, S2, out @ out2))"

text \<open>A payload nothing can be done with: it decodes to an object, names no route, and does not expire.\<close>

definition unroutable :: "codec \<Rightarrow> (string \<Rightarrow> string option) \<Rightarrow> string \<Rightarrow> bool" where
  "unroutable K resolve p =
     (resolve p = None \<and> (\<exists>m. jdec K p = Some (JObj m) \<and> trim (str_field ''valid_till'' m) = ''''))"

definition dead_head :: "codec \<Rightarrow> (string \<Rightarrow> string option) \<Rightarrow> string \<Rightarrow> rat \<Rightarrow> fair \<Rightarrow> bool" where
  "dead_head K resolve t s F =
     (t \<noteq> '''' \<and> fair_ok F \<and> ring_exact F \<and> ring F \<noteq> [] \<and> hd (ring F) = (t, s) \<and>
      (\<forall>p \<in> set (ready F t). unroutable K resolve p))"

definition calls_run :: "fwd_env \<Rightarrow> bool" where
  "calls_run E = (fe_checkout E = Replied \<and> fe_abort E = Replied \<and> fe_slot E \<noteq> '''')"

lemma zadd_back:
  assumes "zset_ok ((t, s) # z)"
  shows "zadd s t (zadd s' t ((t, s) # z)) = (t, s) # z" and "zadd s t (zrem t ((t, s) # z)) = (t, s) # z"
proof -
  have t: "t \<notin> fst ` set z" using assms by (auto simp: zset_ok_def)
  then have "insert (t, s) {x \<in> set z. fst x \<noteq> t} = insert (t, s) (set z)" by (auto simp: image_iff)
  then show "zadd s t (zadd s' t ((t, s) # z)) = (t, s) # z" "zadd s t (zrem t ((t, s) # z)) = (t, s) # z"
    using assms by (intro zset_eqI; auto)+
qed

lemma unroutable_marks:
  assumes "unroutable K resolve p"
  shows "\<exists>body key. markSlot K p t i l = SlotMarked body key" and "\<not> payload_expired K parse p now" and "resolve p = None"
  using assms
  by (auto simp: unroutable_def markSlot_def unmarshal_map_def Let_def payload_expired_def expired_def map_fields_def)

lemma dead_step:
  assumes c: "unlimited (cfg S)" and d: "dead_head K resolve t s F" and e: "calls_run E"
    and f: "forwardOnce K parse resolve E F S = (F', S', out, ds, oc)"
  shows "out = [] \<and> ds = [] \<and> oc = Failed \<and> cfg S' = cfg S \<and> dead_head K resolve t s F'"
proof -
  obtain z where ring: "ring F = (t, s) # z" using d by (cases "ring F") (auto simp: dead_head_def)
  have ok: "fair_ok F" "ring_exact F" "t \<noteq> ''''" using d by (simp_all add: dead_head_def)
  have "t \<in> fst ` set (ring F)" using ring by simp
  then obtain j rest where r: "ready F t = j # rest" using ok(2) by (auto simp: ring_exact_def neq_Nil_conv)
  let ?v = "fst (activeViewCached (fe_lag E) (fe_up E) (fe_now E) (fe_scan E) F S)"
  let ?A = "ck_args_of (cfg S) ?v (fe_slot E) (fe_rnow E)" and ?w = "weight_in (DefaultWeight (cfg S)) t F"
  obtain G q where G: "run_checkout (cfg S) ?v (fe_slot E) (fe_rnow E) F = (G, q)" by fastforce
  have lane: "lane_of (cfg S) = LaneThroughput" using c by (simp add: unlimited_def)
  have zs: "zscore t (ring F) = Some s" using ring by (simp add: zscore_def)
  have g: "q = CkJob t j" "ready G t = rest" "vth G t = Some (s + 1 / ?w)" "wh G = wh F"
    "ring G = (if rest = [] then zrem t (ring F) else zadd (s + 1 / ?w) t (ring F))"
    using G unlimited_checkout [OF c ring r, of ?v "fe_slot E" "fe_rnow E"] zs
    by (auto simp: grant_count_def grant_lease_def lpop_rest_def set_tlease_def Let_def weight_in_def ck_args_of_def)
  have buf: "map_of (fwd G) (fe_slot E) = Some j"
    using checkout_buffers [of "cfg S" ?v "fe_slot E" "fe_rnow E" F t j] G g(1) by simp
  have okG: "fair_ok G" "ring_exact G"
    using fair_ok_checkout [OF ok(1), of "cfg S" ?v "fe_slot E" "fe_rnow E"]
      ring_exact_run_checkout [OF ok(2), of "cfg S" ?v "fe_slot E" "fe_rnow E"] G by simp_all
  have u: "unroutable K resolve j" using d r by (simp add: dead_head_def)
  obtain body key where m: "markSlot K j t (fe_slot E) (lane_of (cfg S)) = SlotMarked body key"
    using unroutable_marks(1) [OF u] by blast
  let ?H = "fst (abort_count (DefaultWeight (cfg S)) (fe_slot E) t G)"
  have res: "F' = ?H \<and> out = [] \<and> ds = [] \<and> oc = Failed \<and> cfg S' = cfg S"
    using f e G g(1) m lane unroutable_marks(2,3) [OF u] cfg_view [of "fe_lag E" "fe_up E" "fe_now E" "fe_scan E" F S] ok(3)
    by (auto simp: forwardOnce_def calls_run_def checkout_def checkout_view_def split_beta Let_def ValidateLane_def
        forwardJob_def abort_call_def abortForward_def)
  have w: "weight_in (DefaultWeight (cfg S)) t G = ?w" using g(4) by (simp add: weight_in_def)
  have H: "ready ?H t = rest @ [j]" "ring ?H = zadd s t (ring G)"
    using buf g(2,3) w
    by (simp_all add: abort_count_def charge_def drop_lease_def rpush_def drop_forward_def Let_def vtime_of_def)
  have zok: "zset_ok ((t, s) # z)" using ok(1) ring by (simp add: fair_ok_def)
  have "ring ?H = ring F" using H(2) g(5) zadd_back [OF zok] ring by simp
  moreover have "fair_ok ?H" "ring_exact ?H"
    using okG ring_exact_abort_count by (simp_all add: abort_count_def split: option.splits)
  ultimately have "dead_head K resolve t s ?H" using d H(1) r ring by (auto simp: dead_head_def)
  then show ?thesis using res by simp
qed

text \<open>A job whose type no handler manifest entry routes is neither produced nor dropped: the
  forward fails, the abort gives the slot and the virtual time back, and the tenant is again
  the first in the ring. While the tenant at the head of a throughput lane has only such jobs,
  no number of forwards produces anything, so every other tenant of the lane starves.\<close>

theorem unroutable_job_blocks_lane:
  assumes "unlimited (cfg S)" and "dead_head K resolve t s F" and "\<forall>E \<in> set Es. calls_run E"
  shows "snd (snd (forward_all K parse resolve Es F S)) = []
    \<and> dead_head K resolve t s (fst (forward_all K parse resolve Es F S))"
  using assms
proof (induction Es arbitrary: F S)
  case (Cons E Es)
  obtain F1 S1 out ds oc where f: "forwardOnce K parse resolve E F S = (F1, S1, out, ds, oc)"
    by (cases "forwardOnce K parse resolve E F S")
  note d = dead_step [OF Cons.prems(1,2) _ f]
  then show ?case using Cons.IH [of S1 F1] Cons.prems f by (simp add: split_beta)
qed simp

definition stuck_lane :: fair where
  "stuck_lane = fst (lane_run share_cfg [Enq ''a'' ''x'', Enq ''b'' ''y''] empty_fair)"

theorem unroutable_job_blocks_lane_witness:
  "ready stuck_lane ''b'' = [''y''] \<and>
   snd (snd (forward_all demo_codec (\<lambda>_. None) (\<lambda>p. if p = ''x'' then None else Some ''ready'')
     [demo_env, demo_env, demo_env] stuck_lane (newScheduler share_cfg))) = []"
proof -
  let ?r = "\<lambda>p. if p = ''x'' then None else Some ''ready''"
  have ok: "fair_ok stuck_lane" unfolding stuck_lane_def by (rule fair_ok_run) simp
  have ex: "ring_exact stuck_lane" unfolding stuck_lane_def by (simp add: split_beta ring_exact_enqueue)
  have v: "ready stuck_lane ''a'' = [''x'']" "ready stuck_lane ''b'' = [''y'']" "hd (ring stuck_lane) = (''a'', 0)"
    "ring stuck_lane \<noteq> []" by code_simp+
  have u: "unroutable demo_codec ?r ''x''"
    by (simp add: unroutable_def demo_codec_def trim_def str_field_def jget_def)
  have c: "unlimited (cfg (newScheduler share_cfg))"
    by (simp add: unlimited_def share_cfg_def DefaultSettings_def newScheduler_def Let_def)
  have d: "dead_head demo_codec ?r ''a'' 0 stuck_lane" using ok ex v u by (simp add: dead_head_def)
  show ?thesis
    using unroutable_job_blocks_lane [OF c d, of "[demo_env, demo_env, demo_env]"] v(2)
    by (simp add: calls_run_def demo_env_def)
qed

subsection \<open>Recovery by several replicas\<close>

type_synonym recovery = "(string \<times> string \<times> string) \<times> rf_env \<times> rat"

text \<open>One recovery attempt: it wins when it produced.\<close>

definition recover :: "codec \<Rightarrow> settings \<Rightarrow> int \<Rightarrow> recovery \<Rightarrow> fair \<Rightarrow> fair \<times> bool" where
  "recover K c clk k F = (case k of (e, E, g) \<Rightarrow>
     let (F', out, r) = reclaimStaleForward K c E clk g e F in (F', out \<noteq> []))"

lemma claim_kept_by [simp]:
  "reclaim_claim (fst (abortForward c i t F)) = reclaim_claim F"
  "reclaim_claim (fst (finish_forward c E g t i F)) = reclaim_claim F"
  by (simp_all add: op_defs finish_forward_def when_run_def Let_def split: option.splits)

lemma recover_claim:
  "reclaim_claim (fst (recover K c clk (e, E, g) F)) =
     (if rf_claim E = NotRun then reclaim_claim F else reclaim_claim (take_claim clk (fst e) F))"
  "snd (recover K c clk (e, E, g) F) \<Longrightarrow> rf_claim E = Replied \<and> purge_key clk (reclaim_claim F (fst e)) = None"
  by (auto simp: recover_def reclaimStaleForward_def Let_def when_run_def split_beta split: prod.splits slot_mark.splits if_splits)

interpretation recoveryReg: claim_register "recover K c" "\<lambda>k. fst (fst k)" "\<lambda>clk i F. key_held clk (reclaim_claim F i)"
  reclaimClaimTTL "\<lambda>_. True" for K c
proof (unfold_locales, goal_cases)
  case (1 clk k F)
  then show ?case using recover_claim(2) [of K c clk "fst k" "fst (snd k)" "snd (snd k)" F] by (auto simp: key_held_def)
next
  case (2 k clk F clk')
  then show ?case
    using recover_claim [of K c clk "fst k" "fst (snd k)" "snd (snd k)" F] by (simp add: take_claim_def)
next
  case (3 clk' i F clk k)
  then have "purge_key clk (reclaim_claim F i) = reclaim_claim F i" "reclaim_claim F i \<noteq> None"
    by (blast dest: key_held_purge key_held_some)+
  then show ?case
    using 3 recover_claim(1) [of K c clk "fst k" "fst (snd k)" "snd (snd k)" F] by (auto simp: take_claim_def split: option.splits)
qed

text \<open>However many forwarder replicas list the same abandoned slot, and whatever calls of theirs
  fail, it is produced at most once in any thirty seconds: of the recoveries of a slot, in the
  order of their claims, two that produced are at least the claim TTL apart.\<close>

theorem stale_forward_recovered_once:
  assumes "sorted (map fst xs)" and "i < j" and "j < length xs"
    and "fst (fst (snd (xs ! i))) = fst (fst (snd (xs ! j)))"
    and "snd (attempts (recover K c) xs F) ! i" and "snd (attempts (recover K c) xs F) ! j"
  shows "fst (xs ! i) + 30000 \<le> fst (xs ! j)"
  using recoveryReg.winners_apart [OF assms(1-4) TrueI assms(5,6)] by (simp add: reclaimClaimTTL_def)

definition all_run :: rf_env where
  "all_run = \<lparr>rf_claim = Replied, rf_produce = Replied, rf_abort = Replied, rf_confirm = NotRun, rf_rearm = Replied\<rparr>"

theorem stale_forward_recovered_once_witness:
  "(5::int) + 30000 \<le> 30005"
proof -
  let ?k = "((''s'', ''a'', ''x''), all_run, 0) :: recovery"
  let ?xs = "[(5, ?k), (9, ?k), (30005, ?k)]"
  have "snd (attempts (recover demo_codec (DefaultSettings LaneTime)) ?xs empty_fair) = [True, False, True]"
    by code_simp
  then show ?thesis
    using stale_forward_recovered_once [of ?xs 0 2 demo_codec "DefaultSettings LaneTime" empty_fair] by simp
qed

end
