(* ===== verification/Tenant_Partitions.thy ===== *)
theory Tenant_Partitions
  imports Kbatch_Prelude "HOL-Library.AList"
begin

text \<open>
  The assignment of tenants to ingest partitions (\<^verbatim>\<open>pkg/fairness/tenant_partitions.go\<close>): the two
  scripts on the hash of assignments and the set of free partitions of a lane, and the resolver
  with its cache on top of them.

  Only the two scripts write the hash and the set, so their texts are integers. \<open>SPOP\<close> takes an
  arbitrary member of the free set: the model takes the member at a position given as an
  argument. Go times are in nanoseconds.
\<close>

subsection \<open>The scripts\<close>

record pool =
  pmap :: "(string \<times> int) list"
  pfree :: "int list"
  pcount :: "int option"

definition empty_pool :: pool where
  "empty_pool = \<lparr>pmap = [], pfree = [], pcount = None\<rparr>"

definition in_range :: "int \<Rightarrow> int \<Rightarrow> bool" where
  "in_range cnt p = (0 \<le> p \<and> p < cnt)"

definition warm_script :: "int \<Rightarrow> pool \<Rightarrow> pool \<times> int" where
  "warm_script cnt P =
     (if cnt < 1 then (P, -1)
      else let keep = filter (\<lambda>(t, p). in_range cnt p) (pmap P);
               untaken = filter (\<lambda>p. p \<notin> snd ` set keep) [0..cnt - 1];
               stored = (case pcount P of None \<Rightarrow> -1 | Some n \<Rightarrow> n) in
      if stored \<noteq> cnt
      then (P\<lparr>pmap := keep, pfree := untaken, pcount := Some cnt\<rparr>, int (length untaken))
      else let cur = filter (in_range cnt) (pfree P);
               free = cur @ filter (\<lambda>p. p \<notin> set cur) untaken
           in (P\<lparr>pmap := keep, pfree := free\<rparr>, int (length free)))"

definition pop_free :: "string \<Rightarrow> int \<Rightarrow> nat \<Rightarrow> pool \<Rightarrow> pool \<times> int" where
  "pop_free t cnt r P =
     (if pfree P = [] then (P, -1)
      else let p = pfree P ! (r mod length (pfree P)); rest = removeAll p (pfree P) in
           if \<not> in_range cnt p then (P\<lparr>pfree := rest @ [p]\<rparr>, -2)
           else (P\<lparr>pfree := rest, pmap := AList.update t p (pmap P)\<rparr>, p))"

definition checkout_part :: "string \<Rightarrow> int \<Rightarrow> nat \<Rightarrow> pool \<Rightarrow> pool \<times> int" where
  "checkout_part t cnt r P =
     (if cnt < 1 then (P, -2)
      else case map_of (pmap P) t of
          Some p \<Rightarrow> if in_range cnt p then (P, p)
                   else pop_free t cnt r (P\<lparr>pmap := AList.delete t (pmap P)\<rparr>)
        | None \<Rightarrow> pop_free t cnt r P)"

subsection \<open>The resolver\<close>

record tparts =
  tp_static :: "string \<rightharpoonup> int"
  tp_dynamic :: bool
  tp_rdb :: bool
  tp_counter :: bool
  tp_ttl :: int
  tp_cache :: "string \<times> string \<rightharpoonup> int \<times> int"
  tp_lastWarm :: "string \<rightharpoonup> int"

definition newTenantPartitions :: "bool \<Rightarrow> (string \<rightharpoonup> int) \<Rightarrow> bool \<Rightarrow> int \<Rightarrow> bool \<Rightarrow> tparts" where
  "newTenantPartitions rdb static dynamic ttl counter =
     \<lparr>tp_static = static, tp_dynamic = dynamic, tp_rdb = rdb, tp_counter = counter,
      tp_ttl = (if ttl \<le> 0 then 30 * 1000000000 else ttl), tp_cache = Map.empty, tp_lastWarm = Map.empty\<rparr>"

definition readCache :: "int \<Rightarrow> string \<Rightarrow> string \<Rightarrow> tparts \<Rightarrow> tparts \<times> int option" where
  "readCache now l t T =
     (if tp_ttl T \<le> 0 then (T, None)
      else case tp_cache T (l, t) of
          Some (p, since) \<Rightarrow> if now - since \<ge> tp_ttl T then (T\<lparr>tp_cache := (tp_cache T)((l, t) := None)\<rparr>, None) else (T, Some p)
        | None \<Rightarrow> (T\<lparr>tp_cache := (tp_cache T)((l, t) := None)\<rparr>, None))"

definition writeCache :: "int \<Rightarrow> string \<Rightarrow> string \<Rightarrow> int \<Rightarrow> tparts \<Rightarrow> tparts" where
  "writeCache now l t p T = (if tp_ttl T \<le> 0 then T else T\<lparr>tp_cache := (tp_cache T)((l, t) \<mapsto> (p, now))\<rparr>)"

text \<open>\<open>n\<close> is the answer of the partition counter (\<open>None\<close>: an error), \<open>up\<close> whether Redis runs the script.\<close>

definition warm :: "int option \<Rightarrow> bool \<Rightarrow> tparts \<Rightarrow> pool \<Rightarrow> pool" where
  "warm n up T P =
     (if \<not> tp_dynamic T \<or> \<not> tp_rdb T \<or> \<not> tp_counter T then P
      else case n of None \<Rightarrow> P
        | Some cnt \<Rightarrow> if cnt < 1 \<or> \<not> up then P else fst (warm_script cnt P))"

definition warmThrottled :: "int \<Rightarrow> int option \<Rightarrow> bool \<Rightarrow> string \<Rightarrow> tparts \<Rightarrow> pool \<Rightarrow> tparts \<times> pool" where
  "warmThrottled now n up l T P =
     (case tp_lastWarm T l of
        Some since \<Rightarrow> if now - since < tp_ttl T then (T, P)
                    else (T\<lparr>tp_lastWarm := (tp_lastWarm T)(l \<mapsto> now)\<rparr>, warm n up T P)
      | None \<Rightarrow> (T\<lparr>tp_lastWarm := (tp_lastWarm T)(l \<mapsto> now)\<rparr>, warm n up T P))"

datatype part = Part int | NoPart | PartPanic

text \<open>\<open>checkout\<close> calls the counter without checking that there is one.\<close>

definition checkout_tenant :: "int option \<Rightarrow> bool \<Rightarrow> nat \<Rightarrow> string \<Rightarrow> tparts \<Rightarrow> pool \<Rightarrow> pool \<times> part" where
  "checkout_tenant n up r t T P =
     (if \<not> tp_counter T then (P, PartPanic)
      else case n of None \<Rightarrow> (P, NoPart)
        | Some cnt \<Rightarrow>
            if cnt < 1 \<or> \<not> up then (P, NoPart)
            else let (P1, res) = checkout_part t cnt r P
                 in (P1, if res = -1 \<or> res = -2 then NoPart else Part res))"

definition resolve_tenant :: "int \<Rightarrow> int option \<Rightarrow> bool \<Rightarrow> nat \<Rightarrow> string \<Rightarrow> string \<Rightarrow> tparts \<Rightarrow> pool \<Rightarrow> tparts \<times> pool \<times> part" where
  "resolve_tenant now n up r t l T P =
     (if t = '''' then (T, P, NoPart)
      else let (T0, hit) = readCache now l t T in
      case hit of
        Some p \<Rightarrow> (T0, P, Part p)
      | None \<Rightarrow>
          (case tp_static T0 t of
             Some p \<Rightarrow> (writeCache now l t p T0, P, Part p)
           | None \<Rightarrow>
               if \<not> tp_dynamic T0 \<or> \<not> tp_rdb T0 then (T0, P, NoPart)
               else let (T1, P1) = warmThrottled now n up l T0 P;
                        (P2, res) = checkout_tenant n up r t T1 P1 in
                    (case res of
                       Part p \<Rightarrow> (writeCache now l t p T1, P2, Part p)
                     | x \<Rightarrow> (T1, P2, x))))"

subsection \<open>Isolation\<close>

definition pool_ok :: "pool \<Rightarrow> bool" where
  "pool_ok P = (distinct (map fst (pmap P)) \<and> distinct (map snd (pmap P)) \<and> set (map snd (pmap P)) \<inter> set (pfree P) = {}
     \<and> distinct (pfree P))"

lemma pool_ok_empty [simp]: "pool_ok empty_pool"
  by (simp add: pool_ok_def empty_pool_def)

lemma pool_ok_warm: "pool_ok P \<Longrightarrow> pool_ok (fst (warm_script cnt P))"
  unfolding pool_ok_def warm_script_def Let_def
  by (auto simp: distinct_map_filter)

lemma snd_set_delete: "snd ` set (AList.delete t h) \<subseteq> snd ` set h"
  by (auto simp: AList.delete_eq)

lemma pool_ok_delete: "pool_ok P \<Longrightarrow> pool_ok (P\<lparr>pmap := AList.delete t (pmap P)\<rparr>)"
  using snd_set_delete [of t "pmap P"] by (auto simp: pool_ok_def AList.delete_eq distinct_map_filter)

lemma update_new: "t \<notin> fst ` set h \<Longrightarrow> AList.update t v h = h @ [(t, v)]"
  by (induction h) auto

lemma pool_ok_pop:
  assumes "pool_ok P" and "t \<notin> fst ` set (pmap P)"
  shows "pool_ok (fst (pop_free t cnt r P))"
proof (cases "pfree P")
  case Nil
  then show ?thesis using assms by (simp add: pop_free_def)
next
  case (Cons a fs)
  let ?p = "pfree P ! (r mod length (pfree P))"
  have "r mod length (pfree P) < length (pfree P)" using Cons by simp
  then have "?p \<in> set (pfree P)" by (rule nth_mem)
  then show ?thesis using assms
    by (auto simp: pop_free_def Let_def pool_ok_def update_new distinct_removeAll)
qed

lemma pool_ok_checkout: "pool_ok P \<Longrightarrow> pool_ok (fst (checkout_part t cnt r P))"
proof -
  assume ok: "pool_ok P"
  have del: "t \<notin> fst ` set (AList.delete t (pmap P))" by (auto simp: AList.delete_eq)
  show ?thesis
    using ok pool_ok_pop [OF pool_ok_delete [OF ok] , of t t] pool_ok_pop [OF ok, of t] del
    by (auto simp: checkout_part_def map_of_eq_None_iff split: option.splits)
qed

datatype part_op = PWarm int | PCheck string int nat

fun part_run :: "part_op list \<Rightarrow> pool \<Rightarrow> pool" where
  "part_run [] P = P"
| "part_run (PWarm n # xs) P = part_run xs (fst (warm_script n P))"
| "part_run (PCheck t n r # xs) P = part_run xs (fst (checkout_part t n r P))"

lemma pool_ok_run: "pool_ok P \<Longrightarrow> pool_ok (part_run xs P)"
  by (induction xs P rule: part_run.induct) (simp_all add: pool_ok_warm pool_ok_checkout)

lemma pool_ok_inj: "pool_ok P \<Longrightarrow> map_of (pmap P) t = Some p \<Longrightarrow> map_of (pmap P) u = Some p \<Longrightarrow> t = u"
  by (auto simp: pool_ok_def distinct_map inj_on_def dest!: map_of_SomeD) fastforce

lemma pop_assigns:
  assumes "0 \<le> snd (pop_free t cnt r P)"
  shows "map_of (pmap (fst (pop_free t cnt r P))) t = Some (snd (pop_free t cnt r P)) \<and> snd (pop_free t cnt r P) < cnt"
  using assms by (auto simp: pop_free_def Let_def in_range_def update_conv split: if_splits)

lemma checkout_assigns:
  assumes "0 \<le> snd (checkout_part t cnt r P)"
  shows "map_of (pmap (fst (checkout_part t cnt r P))) t = Some (snd (checkout_part t cnt r P)) \<and> snd (checkout_part t cnt r P) < cnt"
  using assms pop_assigns by (auto simp: checkout_part_def in_range_def split: if_splits option.splits)



text \<open>The free set ignores the static assignments: with both configured, a tenant without a
  static partition can be given the very partition another tenant is pinned to.\<close>

theorem static_partition_shared:
  "let T = newTenantPartitions True [''a'' \<mapsto> 0] True 0 True;
       (T1, P1, x) = resolve_tenant 0 (Some 2) True 0 ''a'' ''time'' T empty_pool;
       (T2, P2, y) = resolve_tenant 0 (Some 2) True 0 ''b'' ''time'' T1 P1
   in x = Part 0 \<and> y = Part 0"
  by code_simp

end
