(* ===== verification/Job_Processor.thy ===== *)
theory Job_Processor
  imports Fair_Forwarder
begin

text \<open>
  Running one job message (\<^verbatim>\<open>pkg/control/job\<close>, \<^verbatim>\<open>pkg/jobexpiry/drop.go\<close>, the retry settings of
  \<^verbatim>\<open>pkg/config\<close>).

  \<^item> \<open>job_msg\<close> is \<open>protocol.JobMessage\<close>, decoded from a JSON object with the type errors of
    \<^verbatim>\<open>encoding/json\<close>; a field that is absent or \<open>null\<close> keeps its zero value, pointers are options.
  \<^item> The other components a run calls are its environment: \<open>job_env\<close> holds their answers, and the
    model records the calls it makes, in order, as a list of \<open>act\<close>. \<open>Perform\<close> is the execution of the
    handler.
  \<^item> \<open>job_out\<close> is the \<open>Outcome\<close> the consumer then publishes. Messages stay JSON objects here;
    \<open>json.Marshal\<close> is applied when they are produced. Times are Unix seconds; the RFC 3339 text of
    a time is \<open>fmt_time\<close> of the environment. Liveness reports and metrics are left out. Field names
    are compared exactly (\<^verbatim>\<open>encoding/json\<close> also accepts them in another case).
\<close>

subsection \<open>Messages\<close>

type_synonym jobj = "(string \<times> json) list"

record job_msg =
  j_id :: string
  j_batch :: "string option"
  j_type :: string
  j_worker :: string
  j_attempt :: int
  j_max :: "int option"
  j_tenant :: "string option"
  j_seq :: "int option"
  j_tier :: string
  j_valid :: string
  j_counted :: bool
  j_fp :: string

definition dec_str :: "string \<Rightarrow> jobj \<Rightarrow> string option" where
  "dec_str k m = (case jget k m of None \<Rightarrow> Some '''' | Some JNull \<Rightarrow> Some '''' | Some (JStr s) \<Rightarrow> Some s | _ \<Rightarrow> None)"

definition dec_int :: "string \<Rightarrow> jobj \<Rightarrow> int option" where
  "dec_int k m = (case jget k m of None \<Rightarrow> Some 0 | Some JNull \<Rightarrow> Some 0 | Some (JNum n) \<Rightarrow> Some n | _ \<Rightarrow> None)"

definition dec_bool :: "string \<Rightarrow> jobj \<Rightarrow> bool option" where
  "dec_bool k m = (case jget k m of None \<Rightarrow> Some False | Some JNull \<Rightarrow> Some False | Some (JBool b) \<Rightarrow> Some b | _ \<Rightarrow> None)"

definition dec_pstr :: "string \<Rightarrow> jobj \<Rightarrow> string option option" where
  "dec_pstr k m = (case jget k m of None \<Rightarrow> Some None | Some JNull \<Rightarrow> Some None | Some (JStr s) \<Rightarrow> Some (Some s) | _ \<Rightarrow> None)"

definition dec_pint :: "string \<Rightarrow> jobj \<Rightarrow> int option option" where
  "dec_pint k m = (case jget k m of None \<Rightarrow> Some None | Some JNull \<Rightarrow> Some None | Some (JNum n) \<Rightarrow> Some (Some n) | _ \<Rightarrow> None)"

definition dec_map :: "string \<Rightarrow> jobj \<Rightarrow> bool" where
  "dec_map k m = (case jget k m of None \<Rightarrow> True | Some JNull \<Rightarrow> True | Some (JObj _) \<Rightarrow> True | _ \<Rightarrow> False)"

text \<open>The other fields of the struct are text or flags the processor does not read; they only
  matter for the type check.\<close>

definition rest_ok :: "jobj \<Rightarrow> bool" where
  "rest_ok m = (dec_map ''payload'' m \<and> dec_str ''enqueued_at'' m \<noteq> None \<and> dec_str ''retry_after'' m \<noteq> None \<and>
     dec_str ''retry_to'' m \<noteq> None \<and> dec_bool ''_reclaim'' m \<noteq> None)"

definition decode_job :: "jobj \<Rightarrow> job_msg option" where
  "decode_job m =
     (case (dec_str ''job_id'' m, dec_pstr ''batch_id'' m, dec_str ''job_type'' m, dec_str ''worker_class'' m,
            dec_int ''attempt'' m, dec_pint ''max_retries'' m) of
        (Some i, Some b, Some ty, Some w, Some a, Some mx) \<Rightarrow>
          (case (dec_pstr ''tenant_id'' m, dec_pint ''batch_seq'' m, dec_str ''retry_tier'' m, dec_str ''valid_till'' m,
                 dec_bool ''batch_counted'' m, dec_str ''_uniq_fp'' m) of
             (Some t, Some s, Some tier, Some v, Some c, Some fp) \<Rightarrow>
               if rest_ok m
               then Some \<lparr>j_id = i, j_batch = b, j_type = ty, j_worker = w, j_attempt = a, j_max = mx, j_tenant = t,
                          j_seq = s, j_tier = tier, j_valid = v, j_counted = c, j_fp = fp\<rparr>
               else None
           | _ \<Rightarrow> None)
      | _ \<Rightarrow> None)"

record event_msg =
  ev_batch :: string
  ev_job :: string
  ev_status :: string
  ev_worker :: string
  ev_at :: string
  ev_src :: coords
  ev_seq :: int

text \<open>\<open>failureRecord\<close>: what is written for the dashboard (\<open>store.FailureEntry\<close>).\<close>

record failure =
  f_batch :: string
  f_job :: string
  f_worker :: string
  f_class :: string
  f_message :: string
  f_status :: string
  f_attempt :: int

subsection \<open>Configuration\<close>

record job_cfg =
  SkipCancelledJobs :: bool
  MaxRetries :: int
  RetryTopicBase :: string
  RetryTiers :: "string \<rightharpoonup> int"
  RetryProgression :: "string list"
  TenantGuardEnabled :: bool
  has_store :: bool
  has_cancel_cache :: bool
  has_retry_cancel :: bool
  fair_time :: bool
  fair_throughput :: bool
  handlers :: "string \<Rightarrow> bool"
  runtimes :: "string \<Rightarrow> string"

text \<open>\<open>RetryTierFor\<close> indexes the progression; with an empty progression the index is \<open>-1\<close> and Go
  panics (\<open>None\<close>).\<close>

definition retryTierFor :: "job_cfg \<Rightarrow> int \<Rightarrow> string \<Rightarrow> string option" where
  "retryTierFor C next tier =
     (if tier \<noteq> '''' \<and> RetryTiers C tier \<noteq> None then Some tier
      else let n = int (length (RetryProgression C)); i = (if next - 1 < 0 then 0 else next - 1);
               k = (if n \<le> i then n - 1 else i)
           in if k < 0 then None else Some (RetryProgression C ! nat k))"

definition retryTopic :: "job_cfg \<Rightarrow> string \<Rightarrow> string" where
  "retryTopic C tier = RetryTopicBase C @ ''.'' @ tier"

definition retryDelay :: "job_cfg \<Rightarrow> string \<Rightarrow> int" where
  "retryDelay C tier = (case RetryTiers C tier of None \<Rightarrow> 30 | Some s \<Rightarrow> if s < 0 then 30 else s)"

subsection \<open>Environment and outcome\<close>

datatype act =
    ReleaseUniq string string
  | ClearFailure string string
  | RecordFailure failure
  | AckCancel string
  | ClearSlot lane string
  | ClaimSlotCall lane string
  | CompleteSlot lane string string
  | Perform
  | Exhausted string
  | Guard string string

record job_env =
  jv_now :: rat
  jv_iso :: string
  fmt_time :: "rat \<Rightarrow> string"
  jv_parse :: "string \<Rightarrow> rat option"
  jv_cancelled :: "bool option"
  jv_retry_cancelled :: bool
  jv_claim_up :: bool
  jv_claim :: bool
  jv_recorded :: "bool option"
  jv_lease :: "(bool \<times> rat) option"
  jv_run :: "(string \<times> string) option"
  jv_errtext :: string
  jv_quote :: "string \<Rightarrow> string"

text \<open>\<open>jv_run\<close>: \<open>None\<close> when the handler succeeds, else the class and the text of its error.
  \<open>jv_claim_up\<close>: Redis answers the slot claim; \<open>jv_claim\<close>: the slot was free. \<open>jv_quote\<close> is the
  \<^verbatim>\<open>%q\<close> verb of \<^verbatim>\<open>fmt\<close>.\<close>

record job_out =
  jo_commit :: bool
  jo_event :: "event_msg option"
  jo_retry :: "(string \<times> string \<times> jobj) option"
  jo_dlt :: "(string \<times> jobj) option"

datatype job_res = JobOut job_out | JobError | JobPanic

definition no_out :: job_out where
  "no_out = \<lparr>jo_commit = True, jo_event = None, jo_retry = None, jo_dlt = None\<rparr>"

subsection \<open>Pieces\<close>

definition buildEvent :: "job_env \<Rightarrow> job_msg \<Rightarrow> string \<Rightarrow> coords \<Rightarrow> event_msg" where
  "buildEvent V j st src = \<lparr>ev_batch = (case j_batch j of None \<Rightarrow> '''' | Some b \<Rightarrow> b), ev_job = j_id j, ev_status = st,
     ev_worker = j_worker j, ev_at = jv_iso V, ev_src = src, ev_seq = (case j_seq j of None \<Rightarrow> 0 | Some n \<Rightarrow> n)\<rparr>"

definition batch_event :: "job_env \<Rightarrow> job_msg \<Rightarrow> string \<Rightarrow> coords \<Rightarrow> event_msg option" where
  "batch_event V j st src = (if j_batch j \<noteq> None \<and> j_seq j \<noteq> None then Some (buildEvent V j st src) else None)"

definition dltPayload :: "job_env \<Rightarrow> jobj \<Rightarrow> string \<Rightarrow> string \<Rightarrow> string \<Rightarrow> string \<times> jobj" where
  "dltPayload V base topic cls msg =
     (let m = jset ''dlt_at'' (JStr (jv_iso V)) (jset ''dlt_error_message'' (JStr msg) (jset ''dlt_error_class'' (JStr cls)
                (jset ''dlt_source_topic'' (JStr topic) (jset ''dlt_type'' (JStr ''job'') base))));
          key = str_field ''job_id'' m
      in (if key = '''' then ''dlt'' else key, m))"

definition jdel :: "string \<Rightarrow> jobj \<Rightarrow> jobj" where
  "jdel k m = filter (\<lambda>(a, _). a \<noteq> k) m"

definition buildRetryPayload :: "job_env \<Rightarrow> jobj \<Rightarrow> job_msg \<Rightarrow> rat \<Rightarrow> string \<Rightarrow> jobj" where
  "buildRetryPayload V m j retryAt retryTo =
     (let m1 = jset ''retry_to'' (JStr retryTo) (jset ''retry_after'' (JStr (fmt_time V retryAt))
                 (jset ''retry_count'' (JNum (j_attempt j + 1)) (jset ''attempt'' (JNum (j_attempt j + 1)) m)));
          m2 = (if j_counted j then jset ''batch_counted'' (JBool True) m1 else m1)
      in jdel ''_fair_type'' (jdel ''_fair_slot_id'' (jdel ''_fair_slot'' m2)))"

definition buildFairDeferPayload :: "job_env \<Rightarrow> jobj \<Rightarrow> rat \<Rightarrow> string \<Rightarrow> jobj" where
  "buildFairDeferPayload V m retryAt retryTo =
     jset ''retry_to'' (JStr retryTo) (jset ''retry_after'' (JStr (fmt_time V retryAt)) m)"

definition releaseUniq :: "job_cfg \<Rightarrow> job_msg \<Rightarrow> act list" where
  "releaseUniq C j = (if has_store C then [ReleaseUniq (j_fp j) (j_id j)] else [])"

definition recordTenantOutcome :: "job_cfg \<Rightarrow> job_msg \<Rightarrow> string \<Rightarrow> act list" where
  "recordTenantOutcome C j oc =
     (if \<not> TenantGuardEnabled C \<or> \<not> has_store C then []
      else case j_tenant j of None \<Rightarrow> [] | Some t \<Rightarrow> if t = '''' then [] else [Guard t oc])"

definition recordExecutionFailure :: "job_msg \<Rightarrow> string \<times> string \<Rightarrow> act list" where
  "recordExecutionFailure j err =
     (case j_batch j of None \<Rightarrow> []
      | Some b \<Rightarrow> if b = '''' then []
          else [RecordFailure \<lparr>f_batch = b, f_job = j_id j, f_worker = j_worker j, f_class = fst err, f_message = snd err,
                  f_status = ''failed'', f_attempt = j_attempt j\<rparr>])"

definition nonRetryable :: "string \<Rightarrow> bool" where
  "nonRetryable cls = (cls = ''UnknownHandler'' \<or> cls = ''Overloaded'')"

subsection \<open>Expired jobs: \<open>BuildDrop\<close>\<close>

definition ExpiredErrorClass :: string where "ExpiredErrorClass = ''KafkaBatch::JobExpiry::ExpiredError''"

definition int_field :: "string \<Rightarrow> jobj \<Rightarrow> int option" where
  "int_field k m = (case jget k m of Some (JNum n) \<Rightarrow> Some n | _ \<Rightarrow> None)"

definition buildDrop :: "(rat \<Rightarrow> string) \<Rightarrow> jobj \<Rightarrow> coords \<Rightarrow> rat \<Rightarrow> event_msg option \<times> failure option \<times> (string \<times> jobj)" where
  "buildDrop fmt m src now =
     (let v = str_field ''valid_till'' m;
          msg = (if v = '''' then ''job expired'' else ''Job expired (valid_till='' @ v @ '')'');
          dlt = jset ''dlt_at'' (JStr (fmt now)) (jset ''dlt_error_message'' (JStr msg)
                  (jset ''dlt_error_class'' (JStr ExpiredErrorClass) (jset ''dlt_source_topic'' (JStr (src_topic src))
                    (jset ''dlt_type'' (JStr ''expired'') m))));
          key = (if str_field ''job_id'' m = '''' then ''expired'' else str_field ''job_id'' m);
          b = str_field ''batch_id'' m
      in case int_field ''batch_seq'' m of
           Some n \<Rightarrow>
             if b \<noteq> '''' \<and> 0 < n
             then (Some \<lparr>ev_batch = b, ev_job = str_field ''job_id'' m, ev_status = ''failed'',
                         ev_worker = str_field ''worker_class'' m, ev_at = fmt now, ev_src = src, ev_seq = n\<rparr>,
                   Some \<lparr>f_batch = b, f_job = str_field ''job_id'' m, f_worker = str_field ''worker_class'' m,
                         f_class = ExpiredErrorClass, f_message = msg, f_status = ''expired'',
                         f_attempt = (case int_field ''attempt'' m of None \<Rightarrow> 0 | Some a \<Rightarrow> a)\<rparr>,
                   (key, dlt))
             else (None, None, (key, dlt))
         | None \<Rightarrow> (None, None, (key, dlt)))"

subsection \<open>Fair slots\<close>

record fair_meta =
  fm_slot :: bool
  fm_id :: string
  fm_tenant :: string
  fm_lane :: lane

definition lane_from :: "string \<Rightarrow> lane" where
  "lane_from s = (if s = ''time'' then LaneTime else if s = ''throughput'' then LaneThroughput else LaneOther s)"

definition parseFairMeta :: "jobj \<Rightarrow> fair_meta" where
  "parseFairMeta m = \<lparr>fm_slot = (jget ''_fair_slot'' m = Some (JBool True)), fm_id = str_field ''_fair_slot_id'' m,
     fm_tenant = str_field ''tenant_id'' m,
     fm_lane = (if str_field ''_fair_type'' m = '''' then LaneTime else lane_from (str_field ''_fair_type'' m))\<rparr>"

definition isReclaimPayload :: "jobj \<Rightarrow> bool" where
  "isReclaimPayload m = (jget ''_reclaim'' m = Some (JBool True))"

text \<open>\<open>fairScheduler\<close>: the lane whose scheduler serves the message, if it is configured.\<close>

definition fairScheduler :: "job_cfg \<Rightarrow> jobj \<Rightarrow> lane option" where
  "fairScheduler C m =
     (if fm_lane (parseFairMeta m) = LaneThroughput then if fair_throughput C then Some LaneThroughput else None
      else if fair_time C then Some LaneTime else None)"

definition tenant_or_default :: "string \<Rightarrow> string" where
  "tenant_or_default t = (if t = '''' then ''default'' else t)"

text \<open>\<open>withFairSlot\<close>: the actions and what it returns: the error of the handler (or of the claim), or
  that the slot was taken.\<close>

datatype slot_res = Ran "(string \<times> string) option" | Skipped

definition withFairSlot :: "job_cfg \<Rightarrow> job_env \<Rightarrow> jobj \<Rightarrow> act list \<times> slot_res" where
  "withFairSlot C V m =
     (let fm = parseFairMeta m in
      case fairScheduler C m of
        None \<Rightarrow> ([Perform], Ran (jv_run V))
      | Some l \<Rightarrow>
          if \<not> fm_slot fm \<or> fm_id fm = '''' then ([Perform], Ran (jv_run V))
          else let pre = (if isReclaimPayload m then [ClearSlot l (fm_id fm)] else []) @ [ClaimSlotCall l (fm_id fm)] in
               if \<not> jv_claim_up V then (pre, Ran (Some (''GoExecutionError'', ''redis'')))
               else if \<not> jv_claim V then (pre, Skipped)
               else (pre @ [Perform, CompleteSlot l (tenant_or_default (fm_tenant fm)) (fm_id fm)], Ran (jv_run V)))"

definition releaseFairSlotIfHeld :: "job_cfg \<Rightarrow> jobj \<Rightarrow> act list" where
  "releaseFairSlotIfHeld C m =
     (let fm = parseFairMeta m in
      if \<not> fm_slot fm \<or> fm_id fm = '''' then []
      else case fairScheduler C m of
          None \<Rightarrow> [] | Some l \<Rightarrow> [CompleteSlot l (tenant_or_default (fm_tenant fm)) (fm_id fm)])"

subsection \<open>Failures\<close>

definition handleFailure :: "job_cfg \<Rightarrow> job_env \<Rightarrow> job_msg \<Rightarrow> jobj \<Rightarrow> coords \<Rightarrow> string \<times> string \<Rightarrow> act list \<times> job_res" where
  "handleFailure C V j m src err =
     (let mx = (case j_max j of None \<Rightarrow> MaxRetries C | Some n \<Rightarrow> n) in
      if nonRetryable (fst err)
      then (releaseUniq C j @ recordTenantOutcome C j ''fail'',
            JobOut (no_out\<lparr>jo_event := batch_event V j ''failed'' src,
                           jo_dlt := Some (dltPayload V m (src_topic src) (fst err) (snd err))\<rparr>))
      else if j_attempt j < mx
      then case retryTierFor C (j_attempt j + 1) (j_tier j) of
          None \<Rightarrow> ([], JobPanic)
        | Some tier \<Rightarrow>
            (let fresh = (j_batch j \<noteq> None \<and> j_seq j \<noteq> None \<and> \<not> j_counted j);
                 j1 = (if fresh then j\<lparr>j_counted := True\<rparr> else j);
                 retryAt = jv_now V + of_int (retryDelay C tier)
             in (recordTenantOutcome C j ''retry'',
                 JobOut (no_out\<lparr>jo_event := (if fresh then Some (buildEvent V j ''executed'' src) else None),
                   jo_retry := Some (retryTopic C tier, j_id j, buildRetryPayload V m j1 retryAt (src_topic src))\<rparr>)))
      else (recordExecutionFailure j err @ (if handlers C (j_type j) then [Exhausted (j_id j)] else []) @
              releaseUniq C j @ recordTenantOutcome C j ''fail'',
            JobOut (no_out\<lparr>jo_event := batch_event V j ''failed'' src,
                           jo_dlt := Some (dltPayload V m (src_topic src) (fst err) (snd err))\<rparr>)))"

definition fairSkipDeferGrace :: rat where "fairSkipDeferGrace = 5"

definition defer_at :: "job_env \<Rightarrow> rat \<Rightarrow> rat" where
  "defer_at V expiry =
     (let r = of_int \<lfloor>expiry\<rfloor> + fairSkipDeferGrace in if r \<le> jv_now V then jv_now V + fairSkipDeferGrace else r)"

definition run_orphan :: "job_cfg \<Rightarrow> job_env \<Rightarrow> job_msg \<Rightarrow> jobj \<Rightarrow> coords \<Rightarrow> act list \<times> job_res" where
  "run_orphan C V j m src =
     (case jv_run V of
        Some err \<Rightarrow> (let (as, r) = handleFailure C V j m src err in (Perform # as, r))
      | None \<Rightarrow>
          (Perform # (if 0 < j_attempt j then case j_batch j of None \<Rightarrow> [] | Some b \<Rightarrow> [ClearFailure b (j_id j)] else [])
             @ releaseUniq C j,
           JobOut (no_out\<lparr>jo_event := Some (buildEvent V j ''success'' src)\<rparr>)))"

definition handleFairSkip :: "job_cfg \<Rightarrow> job_env \<Rightarrow> job_msg \<Rightarrow> jobj \<Rightarrow> coords \<Rightarrow> act list \<times> job_res" where
  "handleFairSkip C V j m src =
     (if \<not> has_store C \<or> j_batch j = None \<or> j_seq j = None \<or> j_counted j then ([], JobOut no_out)
      else case jv_recorded V of
          None \<Rightarrow> ([], JobError)
        | Some True \<Rightarrow> ([], JobOut no_out)
        | Some False \<Rightarrow>
            if fairScheduler C m \<noteq> None \<and> fm_id (parseFairMeta m) \<noteq> ''''
            then case jv_lease V of
                None \<Rightarrow> ([], JobError)
              | Some (active, expiry) \<Rightarrow>
                  if active
                  then case retryTierFor C (j_attempt j + 1) (j_tier j) of
                      None \<Rightarrow> ([], JobPanic)
                    | Some tier \<Rightarrow>
                        ([], JobOut (no_out\<lparr>jo_retry := Some (retryTopic C tier, j_id j,
                           buildFairDeferPayload V m (defer_at V expiry) (src_topic src))\<rparr>))
                  else run_orphan C V j m src
            else run_orphan C V j m src)"

subsection \<open>\<open>Process\<close>\<close>

definition batchCancelled :: "job_cfg \<Rightarrow> job_env \<Rightarrow> bool option" where
  "batchCancelled C V = (if \<not> has_cancel_cache C \<and> \<not> has_store C then Some False else jv_cancelled V)"

definition drop_retry_cancelled :: "job_cfg \<Rightarrow> job_env \<Rightarrow> job_msg \<Rightarrow> coords \<Rightarrow> act list \<times> job_res" where
  "drop_retry_cancelled C V j src =
     ((case j_batch j of None \<Rightarrow> [] | Some b \<Rightarrow> [ClearFailure b (j_id j)]) @ [AckCancel (j_id j)] @ releaseUniq C j,
      JobOut (no_out\<lparr>jo_event := batch_event V j ''failed'' src\<rparr>))"

definition drop_expired_job :: "job_cfg \<Rightarrow> job_env \<Rightarrow> job_msg \<Rightarrow> jobj \<Rightarrow> coords \<Rightarrow> act list \<times> job_res" where
  "drop_expired_job C V j m src =
     (case buildDrop (fmt_time V) m src (jv_now V) of (ev, fl, dlt) \<Rightarrow>
      (releaseFairSlotIfHeld C m @ (case fl of None \<Rightarrow> [] | Some f \<Rightarrow> [RecordFailure f]) @ releaseUniq C j,
       JobOut (no_out\<lparr>jo_event := ev, jo_dlt := Some dlt\<rparr>)))"

definition reject_unknown :: "job_cfg \<Rightarrow> job_env \<Rightarrow> job_msg \<Rightarrow> jobj \<Rightarrow> coords \<Rightarrow> act list \<times> job_res" where
  "reject_unknown C V j m src =
     (let msg = (if runtimes C (j_type j) = ''ruby''
                 then ''job_type '' @ jv_quote V (j_type j) @ '' is runtime ruby '' @ [CHR 0xE2, CHR 0x80, CHR 0x94] @
                        '' consume via Karafka JobConsumer''
                 else ''unknown job_type '' @ jv_quote V (j_type j))
      in (releaseUniq C j,
          JobOut (no_out\<lparr>jo_event := batch_event V j ''failed'' src,
                         jo_dlt := Some (dltPayload V m (src_topic src) ''UnknownHandler'' msg)\<rparr>)))"

definition run_job :: "job_cfg \<Rightarrow> job_env \<Rightarrow> job_msg \<Rightarrow> jobj \<Rightarrow> coords \<Rightarrow> act list \<times> job_res" where
  "run_job C V j m src =
     (case withFairSlot C V m of
        (as, Skipped) \<Rightarrow> (let (bs, r) = handleFairSkip C V j m src in (as @ bs, r))
      | (as, Ran (Some err)) \<Rightarrow> (let (bs, r) = handleFailure C V j m src err in (as @ bs, r))
      | (as, Ran None) \<Rightarrow>
          (as @ (case j_batch j of None \<Rightarrow> [] | Some b \<Rightarrow> if 0 < j_attempt j then [ClearFailure b (j_id j)] else [])
             @ releaseUniq C j @ recordTenantOutcome C j ''ok'',
           JobOut (no_out\<lparr>jo_event := batch_event V j ''success'' src\<rparr>)))"

definition process_job :: "job_cfg \<Rightarrow> job_env \<Rightarrow> job_msg \<Rightarrow> jobj \<Rightarrow> coords \<Rightarrow> act list \<times> job_res" where
  "process_job C V j m src =
     (if SkipCancelledJobs C \<and> j_batch j \<noteq> None \<and> batchCancelled C V = None then ([], JobError)
      else if SkipCancelledJobs C \<and> j_batch j \<noteq> None \<and> batchCancelled C V = Some True then (releaseUniq C j, JobOut no_out)
      else if has_retry_cancel C \<and> j_id j \<noteq> '''' \<and> jv_retry_cancelled V then drop_retry_cancelled C V j src
      else if expired (jv_parse V) (j_valid j) (jv_now V) then drop_expired_job C V j m src
      else if \<not> handlers C (j_type j) then reject_unknown C V j m src
      else run_job C V j m src)"

text \<open>The message as it arrives: a body that does not decode goes to the dead-letter topic; \<open>null\<close>
  decodes to the zero message, and to a nil map, which \<open>buildRetryPayload\<close> cannot write to.\<close>

definition process_raw :: "codec \<Rightarrow> job_cfg \<Rightarrow> job_env \<Rightarrow> string \<Rightarrow> coords \<Rightarrow> act list \<times> job_res" where
  "process_raw K C V raw src =
     (let bad = ([], JobOut (no_out\<lparr>jo_dlt := Some (dltPayload V [(''raw_payload'', JStr raw)] (src_topic src)
                   ''json.ParseError'' (jv_errtext V))\<rparr>))
      in case jdec K raw of
           Some (JObj m) \<Rightarrow> (case decode_job m of None \<Rightarrow> bad | Some j \<Rightarrow> process_job C V j m src)
         | Some JNull \<Rightarrow>
             (case decode_job [] of
                None \<Rightarrow> bad
              | Some j \<Rightarrow>
                  (case process_job C V j [] src of
                     (as, JobOut q) \<Rightarrow> (as, if jo_retry q = None then JobOut q else JobPanic)
                   | r \<Rightarrow> r))
         | _ \<Rightarrow> bad)"

end
