(* ===== verification/Retry_Processor.thy ===== *)
theory Retry_Processor
  imports Job_Processor
begin

text \<open>
  The retry topics (\<^verbatim>\<open>pkg/control/retry\<close>, \<^verbatim>\<open>pkg/retrycancel\<close>) and the publishing of outcomes
  (\<^verbatim>\<open>pkg/daemon/produce.go\<close>).

  A retry record is paused until its time, then produced back to the topic it came from; records
  an operator deleted, records without a target and expired ones end here. Publishing is modelled
  against a list of fates, one per produce call in order; an exhausted list is a cancelled context.
\<close>

subsection \<open>Operator-deleted retries: \<open>retrycancel.Store\<close>\<close>

record retry_cancel =
  rc_cancel :: "string set rkey"
  rc_skip :: "(string \<times> int \<rightharpoonup> int option) rkey"

definition rc_purge :: "int \<Rightarrow> retry_cancel \<Rightarrow> retry_cancel" where
  "rc_purge clk R = R\<lparr>rc_cancel := purge_key clk (rc_cancel R), rc_skip := purge_key clk (rc_skip R)\<rparr>"

definition rc_ttl :: "int \<Rightarrow> int" where
  "rc_ttl ttl = (if ttl \<le> 0 then 7 * 24 * 3600 * 1000 else ttl)"

definition cancel_ids :: "int \<Rightarrow> int \<Rightarrow> string list \<Rightarrow> retry_cancel \<Rightarrow> retry_cancel" where
  "cancel_ids clk ttl ids R0 =
     (let R = rc_purge clk R0; new = {i \<in> set ids. i \<noteq> ''''} in
      if new = {} then R0
      else R\<lparr>rc_cancel := expire_key clk (rc_ttl ttl) (put_key (key_val {} (rc_cancel R) \<union> new) (rc_cancel R))\<rparr>)"

definition cancelled_id :: "int \<Rightarrow> string \<Rightarrow> retry_cancel \<Rightarrow> bool" where
  "cancelled_id clk i R = (i \<noteq> '''' \<and> i \<in> key_val {} (purge_key clk (rc_cancel R)))"

definition acknowledge :: "int \<Rightarrow> string \<Rightarrow> retry_cancel \<Rightarrow> retry_cancel" where
  "acknowledge clk i R0 =
     (let R = rc_purge clk R0 in
      if i = '''' \<or> rc_cancel R = None then R
      else let s = key_val {} (rc_cancel R) - {i} in
           R\<lparr>rc_cancel := (if s = {} then None else put_key s (rc_cancel R))\<rparr>)"

definition clearCancelSet :: "retry_cancel \<Rightarrow> retry_cancel" where
  "clearCancelSet R = R\<lparr>rc_cancel := None\<rparr>"

definition setSkipWatermarks :: "int \<Rightarrow> int \<Rightarrow> ((string \<times> int) \<times> int) list \<Rightarrow> retry_cancel \<Rightarrow> retry_cancel" where
  "setSkipWatermarks clk ttl marks R0 =
     (if marks = [] then R0
      else let R = rc_purge clk R0 in
           R\<lparr>rc_skip := expire_key clk (rc_ttl ttl)
              (put_key (\<lambda>k. case map_of (rev marks) k of Some n \<Rightarrow> Some (Some n) | None \<Rightarrow> key_val Map.empty (rc_skip R) k) (rc_skip R))\<rparr>)"

definition skipUntil :: "int \<Rightarrow> string \<Rightarrow> int \<Rightarrow> retry_cancel \<Rightarrow> int option" where
  "skipUntil clk topic part R =
     (case key_val Map.empty (purge_key clk (rc_skip R)) (topic, part) of Some (Some n) \<Rightarrow> Some n | _ \<Rightarrow> None)"

definition shouldSkip :: "int \<Rightarrow> coords \<Rightarrow> string \<Rightarrow> retry_cancel \<Rightarrow> bool" where
  "shouldSkip clk src i R =
     ((case skipUntil clk (src_topic src) (src_partition src) R of Some n \<Rightarrow> src_offset src \<le> n | None \<Rightarrow> False)
      \<or> cancelled_id clk i R)"

subsection \<open>\<open>Process\<close> of a retry record\<close>

record retry_env =
  rv_now :: rat
  rv_iso :: string
  rv_fmt :: "rat \<Rightarrow> string"
  rv_parse :: "string \<Rightarrow> rat option"
  rv_skip :: bool
  rv_maxpause :: rat

record retry_out =
  ro_commit :: bool
  ro_pause :: "rat option"
  ro_produce :: "(string \<times> string \<times> jobj) option"
  ro_dlt :: "(string \<times> jobj) option"
  ro_event :: "event_msg option"
  ro_ack :: string
  ro_failure :: "failure option"

definition no_retry_out :: retry_out where
  "no_retry_out = \<lparr>ro_commit = True, ro_pause = None, ro_produce = None, ro_dlt = None, ro_event = None, ro_ack = '''',
     ro_failure = None\<rparr>"

definition failedEvent :: "retry_env \<Rightarrow> jobj \<Rightarrow> coords \<Rightarrow> event_msg option" where
  "failedEvent V m src =
     (case int_field ''batch_seq'' m of
        None \<Rightarrow> None
      | Some n \<Rightarrow>
          if str_field ''batch_id'' m = '''' \<or> n \<le> 0 then None
          else Some \<lparr>ev_batch = str_field ''batch_id'' m, ev_job = str_field ''job_id'' m, ev_status = ''failed'',
                 ev_worker = str_field ''worker_class'' m, ev_at = rv_iso V, ev_src = src, ev_seq = n\<rparr>)"

definition dltRaw :: "retry_env \<Rightarrow> string \<Rightarrow> string \<Rightarrow> string \<times> jobj" where
  "dltRaw V raw topic = (''retry'', [(''dlt_type'', JStr ''retry_routing''), (''dlt_source_topic'', JStr topic),
     (''dlt_raw_payload'', JStr raw), (''dlt_at'', JStr (rv_iso V))])"

definition dltMap :: "retry_env \<Rightarrow> jobj \<Rightarrow> string \<Rightarrow> string \<Rightarrow> string \<times> jobj" where
  "dltMap V m raw topic =
     (let d = jset ''dlt_at'' (JStr (rv_iso V)) (jset ''dlt_raw_payload'' (JStr raw)
                (jset ''dlt_source_topic'' (JStr topic) (jset ''dlt_type'' (JStr ''retry_routing'') m)));
          key = str_field ''job_id'' d
      in (if key = '''' then ''retry'' else key, d))"

definition retry_wait :: "retry_env \<Rightarrow> jobj \<Rightarrow> rat" where
  "retry_wait V m =
     (case jget ''retry_after'' m of
        Some (JStr s) \<Rightarrow> if s = '''' then 0 else (case rv_parse V s of Some t \<Rightarrow> t - rv_now V | None \<Rightarrow> 0)
      | _ \<Rightarrow> 0)"

definition retry_body :: "jobj \<Rightarrow> jobj" where
  "retry_body m =
     (let m1 = jdel ''retry_to'' (jdel ''retry_after'' m) in
      case jget ''attempt'' m1 of Some a \<Rightarrow> jset ''retry_count'' a m1 | None \<Rightarrow> m1)"

definition process_retry_obj :: "retry_env \<Rightarrow> string \<Rightarrow> jobj \<Rightarrow> coords \<Rightarrow> retry_out" where
  "process_retry_obj V raw m src =
     (let i = str_field ''job_id'' m; to = str_field ''retry_to'' m in
      if rv_skip V then no_retry_out\<lparr>ro_event := failedEvent V m src, ro_ack := i\<rparr>
      else if to = '''' then no_retry_out\<lparr>ro_event := failedEvent V m src, ro_dlt := Some (dltMap V m raw (src_topic src))\<rparr>
      else if expired (rv_parse V) (str_field ''valid_till'' m) (rv_now V)
      then case buildDrop (rv_fmt V) m src (rv_now V) of (ev, fl, dlt) \<Rightarrow>
             no_retry_out\<lparr>ro_event := ev, ro_dlt := Some dlt, ro_failure := fl\<rparr>
      else if 0 < retry_wait V m
      then no_retry_out\<lparr>ro_commit := False, ro_pause := Some (if rv_maxpause V < retry_wait V m then rv_maxpause V else retry_wait V m)\<rparr>
      else no_retry_out\<lparr>ro_produce := Some (to, str_field ''job_id'' (retry_body m), retry_body m)\<rparr>)"

definition process_retry :: "codec \<Rightarrow> retry_env \<Rightarrow> string \<Rightarrow> coords \<Rightarrow> retry_out" where
  "process_retry K V raw src =
     (case jdec K raw of
        Some (JObj m) \<Rightarrow> process_retry_obj V raw m src
      | _ \<Rightarrow> no_retry_out\<lparr>ro_dlt := Some (dltRaw V raw (src_topic src))\<rparr>)"

subsection \<open>Publishing outcomes\<close>

datatype body = EventB event_msg | JobB jobj | ParkB event_msg

type_synonym msg = "string \<times> string \<times> body"

record pub_cfg =
  EventsTopic :: string
  DeadLetterTopic :: string
  EventEmitRetries :: int

text \<open>One produce call: the remaining fates, what reached the broker, and whether the caller saw success.\<close>

definition produce1 :: "'m \<Rightarrow> fate list \<Rightarrow> fate list \<times> 'm list \<times> bool" where
  "produce1 x fs =
     (case fs of [] \<Rightarrow> ([], [], False)
      | f # fs \<Rightarrow> (fs, if f = NotRun then [] else [x], f = Replied))"

fun emit_loop :: "nat \<Rightarrow> 'm \<Rightarrow> fate list \<Rightarrow> fate list \<times> 'm list \<times> bool" where
  "emit_loop 0 x fs = (fs, [], False)"
| "emit_loop (Suc n) x fs =
     (let (fs1, out, ok) = produce1 x fs in
      if ok then (fs1, out, True)
      else let (fs2, out2, ok2) = emit_loop n x fs1 in (fs2, out @ out2, ok2))"

definition event_key :: "(int \<Rightarrow> string) \<Rightarrow> event_msg \<Rightarrow> string" where
  "event_key show e = src_topic (ev_src e) @ ''/'' @ show (src_partition (ev_src e))"

definition produceEventWithRetry :: "(int \<Rightarrow> string) \<Rightarrow> pub_cfg \<Rightarrow> event_msg \<Rightarrow> fate list \<Rightarrow> fate list \<times> msg list \<times> bool" where
  "produceEventWithRetry show C e fs =
     (let mx = (if EventEmitRetries C \<le> 0 then 3 else EventEmitRetries C)
      in emit_loop (Suc (nat mx)) (EventsTopic C, event_key show e, EventB e) fs)"

definition parkFailedEventEmit :: "pub_cfg \<Rightarrow> event_msg \<Rightarrow> fate list \<Rightarrow> fate list \<times> msg list \<times> bool" where
  "parkFailedEventEmit C e fs =
     (if DeadLetterTopic C = '''' then (fs, [], False)
      else let key = (if ev_batch e \<noteq> '''' then ev_batch e else if ev_job e \<noteq> '''' then ev_job e else ''event_emit_failed'')
           in produce1 (DeadLetterTopic C, key, ParkB e) fs)"

definition emitEventOrPark :: "(int \<Rightarrow> string) \<Rightarrow> pub_cfg \<Rightarrow> event_msg option \<Rightarrow> fate list \<Rightarrow> fate list \<times> msg list \<times> bool" where
  "emitEventOrPark show C ev fs =
     (case ev of None \<Rightarrow> (fs, [], True)
      | Some e \<Rightarrow>
          (let (fs1, out, ok) = produceEventWithRetry show C e fs in
           if ok then (fs1, out, True)
           else let (fs2, out2, ok2) = parkFailedEventEmit C e fs1 in (fs2, out @ out2, ok2)))"

definition produce_opt :: "msg option \<Rightarrow> fate list \<Rightarrow> fate list \<times> msg list \<times> bool" where
  "produce_opt x fs = (case x of None \<Rightarrow> (fs, [], True) | Some m \<Rightarrow> produce1 m fs)"

text \<open>Run two publishing steps in order, stopping at the first error.\<close>

definition and_then :: "(fate list \<Rightarrow> fate list \<times> msg list \<times> bool) \<Rightarrow> (fate list \<Rightarrow> fate list \<times> msg list \<times> bool) \<Rightarrow>
    fate list \<Rightarrow> fate list \<times> msg list \<times> bool" where
  "and_then f g fs =
     (let (fs1, out, ok) = f fs in
      if \<not> ok then (fs1, out, False) else let (fs2, out2, ok2) = g fs1 in (fs2, out @ out2, ok2))"

definition retry_msg :: "job_out \<Rightarrow> msg option" where
  "retry_msg q = (case jo_retry q of None \<Rightarrow> None | Some (topic, key, m) \<Rightarrow> Some (topic, key, JobB m))"

definition dlt_msg :: "pub_cfg \<Rightarrow> (string \<times> jobj) option \<Rightarrow> msg option" where
  "dlt_msg C d = (case d of None \<Rightarrow> None | Some (key, m) \<Rightarrow> Some (DeadLetterTopic C, key, JobB m))"

definition apply_sequential :: "(int \<Rightarrow> string) \<Rightarrow> pub_cfg \<Rightarrow> job_out \<Rightarrow> fate list \<Rightarrow> fate list \<times> msg list \<times> bool" where
  "apply_sequential show C q =
     and_then (emitEventOrPark show C (jo_event q))
       (and_then (produce_opt (retry_msg q)) (produce_opt (dlt_msg C (jo_dlt q))))"

text \<open>\<open>ProduceManySync\<close> reports one fate per record, or (\<open>None\<close>) an answer of the wrong length.\<close>

definition fate_of :: "msg option \<Rightarrow> fate list \<Rightarrow> fate \<times> fate list" where
  "fate_of x gs = (case x of None \<Rightarrow> (Replied, gs) | Some _ \<Rightarrow> (case gs of [] \<Rightarrow> (NotRun, []) | g # gs \<Rightarrow> (g, gs)))"

definition landed :: "msg option \<Rightarrow> fate \<Rightarrow> msg list" where
  "landed x g = (case x of None \<Rightarrow> [] | Some m \<Rightarrow> if g = NotRun then [] else [m])"

definition apply_batched :: "(int \<Rightarrow> string) \<Rightarrow> pub_cfg \<Rightarrow> job_out \<Rightarrow> fate list option \<Rightarrow> fate list \<Rightarrow> fate list \<times> msg list \<times> bool" where
  "apply_batched show C q batch fs =
     (case batch of
        None \<Rightarrow> apply_sequential show C q fs
      | Some gs \<Rightarrow>
          (let ev = (case jo_event q of None \<Rightarrow> None | Some e \<Rightarrow> Some (EventsTopic C, event_key show e, EventB e));
               (ge, gs1) = fate_of ev gs; (gr, gs2) = fate_of (retry_msg q) gs1;
               (gd, gs3) = fate_of (dlt_msg C (jo_dlt q)) gs2;
               out = landed ev ge @ landed (retry_msg q) gr @ landed (dlt_msg C (jo_dlt q)) gd;
               (fs1, out1, ok) = (if ge \<noteq> Replied then emitEventOrPark show C (jo_event q) fs else (fs, [], True))
           in (fs1, out @ out1, ok \<and> gr = Replied \<and> gd = Replied)))"

definition applyJobSideEffects :: "(int \<Rightarrow> string) \<Rightarrow> pub_cfg \<Rightarrow> bool \<Rightarrow> fate list option \<Rightarrow> job_out \<Rightarrow> fate list \<Rightarrow>
    fate list \<times> msg list \<times> bool" where
  "applyJobSideEffects show C canBatch batch q fs =
     (let n = (if jo_event q = None then 0 else 1) + (if jo_retry q = None then 0 else 1) + (if jo_dlt q = None then 0 else (1::nat)) in
      if 2 \<le> n \<and> canBatch then apply_batched show C q batch fs else apply_sequential show C q fs)"

definition applyJobOutcome :: "(int \<Rightarrow> string) \<Rightarrow> pub_cfg \<Rightarrow> bool \<Rightarrow> fate list option \<Rightarrow> job_out \<Rightarrow> fate list \<Rightarrow>
    fate list \<times> msg list \<times> bool" where
  "applyJobOutcome show C canBatch batch q fs =
     (let (fs1, out, ok) = applyJobSideEffects show C canBatch batch q fs in (fs1, out, ok \<and> jo_commit q))"

text \<open>\<open>applyRetryOutcome\<close>: a pause is reported as an error of its own.\<close>

datatype retry_apply = Applied | ApplyError | Paused rat

definition applyRetryOutcome :: "(int \<Rightarrow> string) \<Rightarrow> pub_cfg \<Rightarrow> retry_out \<Rightarrow> fate list \<Rightarrow> fate list \<times> msg list \<times> retry_apply" where
  "applyRetryOutcome show C q fs =
     (let prod = (case ro_produce q of None \<Rightarrow> None | Some (topic, key, m) \<Rightarrow> Some (topic, key, JobB m));
          (fs1, out, ok) = and_then (emitEventOrPark show C (ro_event q))
                             (and_then (produce_opt prod) (produce_opt (dlt_msg C (ro_dlt q)))) fs
      in (fs1, out, if \<not> ok then ApplyError else case ro_pause q of Some d \<Rightarrow> Paused d | None \<Rightarrow> Applied))"

end
