(* ===== verification/Job_Claims.thy ===== *)
theory Job_Claims
  imports Retry_Processor
begin

text \<open>
  What happens to a job between the two queues: every processed batch job is accounted for, a
  failing job runs its retry budget and then ends, and an outcome counts as applied only when
  everything it holds is durable.
\<close>

subsection \<open>Fields through the wire\<close>

lemma jget_jdel [simp]: "jget k (jdel k' m) = (if k = k' then None else jget k m)"
  by (simp add: jget_def jdel_def map_of_rev_filter)

lemma decode_fields:
  assumes "decode_job m = Some j"
  shows "dec_str ''job_id'' m = Some (j_id j)" "dec_pstr ''batch_id'' m = Some (j_batch j)"
    "dec_str ''valid_till'' m = Some (j_valid j)" "dec_pint ''batch_seq'' m = Some (j_seq j)"
    "dec_int ''attempt'' m = Some (j_attempt j)" "dec_str ''worker_class'' m = Some (j_worker j)"
  using assms by (auto simp: decode_job_def split: option.splits if_splits)

lemma str_of_dec: "dec_str k m = Some s \<Longrightarrow> str_field k m = s"
  by (auto simp: dec_str_def str_field_def split: option.splits json.splits)

lemma str_of_pdec: "dec_pstr k m = Some (Some s) \<Longrightarrow> str_field k m = s"
  by (auto simp: dec_pstr_def str_field_def split: option.splits json.splits)

lemma int_of_pdec: "dec_pint k m = Some (Some n) \<Longrightarrow> int_field k m = Some n"
  by (auto simp: dec_pint_def int_field_def split: option.splits json.splits)

subsection \<open>Accounting\<close>

text \<open>An outcome that ends the job for its batch, and one that carries it on.\<close>

definition ends_job :: "string \<Rightarrow> int \<Rightarrow> job_msg \<Rightarrow> job_out \<Rightarrow> bool" where
  "ends_job b n j q = (\<exists>e. jo_event q = Some e \<and> ev_batch e = b \<and> ev_seq e = n \<and> ev_job e = j_id j \<and>
     ev_status e \<in> {''success'', ''failed''} \<and> jo_retry q = None)"

definition carries_on :: "job_msg \<Rightarrow> job_out \<Rightarrow> bool" where
  "carries_on j q = (\<exists>topic m. jo_retry q = Some (topic, j_id j, m) \<and> jo_dlt q = None \<and>
     (\<forall>e. jo_event q = Some e \<longrightarrow> ev_status e = ''executed''))"

lemma batch_event_Some: "j_batch j = Some b \<Longrightarrow> j_seq j = Some n \<Longrightarrow>
    batch_event V j st src = Some (buildEvent V j st src) \<and> ev_batch (buildEvent V j st src) = b \<and>
    ev_seq (buildEvent V j st src) = n \<and> ev_job (buildEvent V j st src) = j_id j \<and> ev_status (buildEvent V j st src) = st"
  by (simp add: batch_event_def buildEvent_def)

lemma handleFailure_accounted:
  assumes "j_batch j = Some b" and "j_seq j = Some n" and "handleFailure C V j m src err = (as, JobOut q)"
  shows "jo_commit q \<and> (ends_job b n j q \<or> carries_on j q)"
  using assms batch_event_Some [OF assms(1,2), of V _ src]
  by (auto simp: handleFailure_def Let_def ends_job_def carries_on_def no_out_def split: if_splits option.splits)

lemma run_orphan_accounted:
  assumes "j_batch j = Some b" and "j_seq j = Some n" and "run_orphan C V j m src = (as, JobOut q)"
  shows "jo_commit q \<and> (ends_job b n j q \<or> carries_on j q)"
  using assms batch_event_Some [OF assms(1,2), of V _ src] handleFailure_accounted [OF assms(1,2)]
  by (auto simp: run_orphan_def ends_job_def no_out_def split: option.splits prod.splits)

lemma deferred: "jo_commit (no_out\<lparr>jo_retry := Some (topic, j_id j, m)\<rparr>) \<and> carries_on j (no_out\<lparr>jo_retry := Some (topic, j_id j, m)\<rparr>)"
  by (simp add: carries_on_def no_out_def)

lemma fairSkip_accounted:
  assumes "j_batch j = Some b" and "j_seq j = Some n" and "handleFairSkip C V j m src = (as, JobOut q)"
    and "\<not> j_counted j" and "jv_recorded V = Some False" and "has_store C"
  shows "jo_commit q \<and> (ends_job b n j q \<or> carries_on j q)"
  using assms run_orphan_accounted [OF assms(1,2), of C V m src as q]
  by (auto simp: handleFairSkip_def deferred split: option.splits if_splits bool.splits)

lemma drop_accounted:
  assumes "decode_job m = Some j" and "j_batch j = Some b" and "b \<noteq> ''''" and "j_seq j = Some n" and "0 < n"
    and "drop_expired_job C V j m src = (as, JobOut q)"
  shows "jo_commit q \<and> ends_job b n j q"
proof -
  have "str_field ''batch_id'' m = b" "int_field ''batch_seq'' m = Some n" "str_field ''job_id'' m = j_id j"
    using decode_fields [OF assms(1)] assms(2,4) str_of_pdec int_of_pdec str_of_dec by simp_all
  then show ?thesis using assms(3,5,6)
    by (auto simp: drop_expired_job_def buildDrop_def Let_def ends_job_def no_out_def)
qed


definition demo_job :: jobj where
  "demo_job = [(''job_id'', JStr ''j1''), (''batch_id'', JStr ''b1''), (''job_type'', JStr ''mail''), (''batch_seq'', JNum 4)]"

definition demo_jcfg :: job_cfg where
  "demo_jcfg = \<lparr>SkipCancelledJobs = True, MaxRetries = 2, RetryTopicBase = ''retry'', RetryTiers = [''short'' \<mapsto> 30],
     RetryProgression = [''short''], TenantGuardEnabled = False, has_store = True, has_cancel_cache = False,
     has_retry_cancel = True, fair_time = True, fair_throughput = True, handlers = (\<lambda>t. t = ''mail''), runtimes = (\<lambda>_. '''')\<rparr>"

definition demo_jenv :: "(string \<times> string) option \<Rightarrow> job_env" where
  "demo_jenv res = \<lparr>jv_now = 0, jv_iso = ''now'', fmt_time = (\<lambda>_. ''later''), jv_parse = (\<lambda>_. None), jv_cancelled = Some False,
     jv_retry_cancelled = False, jv_claim_up = True, jv_claim = True, jv_recorded = Some False, jv_lease = None, jv_run = res,
     jv_errtext = '''', jv_quote = id\<rparr>"

definition demo_src :: coords where
  "demo_src = \<lparr>src_topic = ''jobs'', src_partition = 0, src_offset = 7\<rparr>"


subsection \<open>Durability\<close>

text \<open>The event is on its topic, or parked on the dead-letter topic.\<close>

definition event_safe :: "(int \<Rightarrow> string) \<Rightarrow> pub_cfg \<Rightarrow> msg list \<Rightarrow> event_msg option \<Rightarrow> bool" where
  "event_safe show C out ev = (\<forall>e. ev = Some e \<longrightarrow>
     (EventsTopic C, event_key show e, EventB e) \<in> set out \<or> (\<exists>key. DeadLetterTopic C \<noteq> '''' \<and> (DeadLetterTopic C, key, ParkB e) \<in> set out))"

lemma produce1_ok: "produce1 x fs = (fs1, out, True) \<Longrightarrow> x \<in> set out"
  by (auto simp: produce1_def split: list.splits if_splits)

lemma emit_loop_ok: "emit_loop n x fs = (fs1, out, True) \<Longrightarrow> x \<in> set out"
proof (induction n arbitrary: fs fs1 out)
  case (Suc n)
  then show ?case by (auto split: prod.splits if_splits dest: produce1_ok)
qed simp

lemma emit_safe: "emitEventOrPark show C ev fs = (fs1, out, True) \<Longrightarrow> event_safe show C out ev"
  unfolding emitEventOrPark_def produceEventWithRetry_def parkFailedEventEmit_def event_safe_def Let_def
  by (auto split: option.splits prod.splits if_splits dest!: emit_loop_ok produce1_ok)

lemma produce_opt_ok: "produce_opt x fs = (fs1, out, True) \<Longrightarrow> x = Some y \<Longrightarrow> y \<in> set out"
  by (auto simp: produce_opt_def dest: produce1_ok)

lemma and_then_ok:
  assumes "and_then f g fs = (fs2, out, True)"
  obtains fs1 a b where "f fs = (fs1, a, True)" "g fs1 = (fs2, b, True)" "out = a @ b"
  using assms by (auto simp: and_then_def split: prod.splits if_splits)

lemma event_safe_mono: "event_safe show C out ev \<Longrightarrow> set out \<subseteq> set out' \<Longrightarrow> event_safe show C out' ev"
  unfolding event_safe_def by blast

definition outcome_safe :: "(int \<Rightarrow> string) \<Rightarrow> pub_cfg \<Rightarrow> job_out \<Rightarrow> msg list \<Rightarrow> bool" where
  "outcome_safe show C q out = (event_safe show C out (jo_event q) \<and>
     (\<forall>x. retry_msg q = Some x \<longrightarrow> x \<in> set out) \<and> (\<forall>x. dlt_msg C (jo_dlt q) = Some x \<longrightarrow> x \<in> set out))"

lemma sequential_safe: "apply_sequential show C q fs = (fs1, out, True) \<Longrightarrow> outcome_safe show C q out"
  unfolding apply_sequential_def outcome_safe_def
  by (elim and_then_ok) (auto dest: emit_safe produce_opt_ok intro: event_safe_mono)

lemma batched_safe:
  assumes "apply_batched show C q batch fs = (fs1, out, True)"
  shows "outcome_safe show C q out"
proof (cases batch)
  case None
  then show ?thesis using assms sequential_safe by (simp add: apply_batched_def)
next
  case (Some gs)
  let ?ev = "case jo_event q of None \<Rightarrow> None | Some e \<Rightarrow> Some (EventsTopic C, event_key show e, EventB e)"
  obtain ge gs1 where e: "fate_of ?ev gs = (ge, gs1)" by fastforce
  obtain gr gs2 where r: "fate_of (retry_msg q) gs1 = (gr, gs2)" by fastforce
  obtain gd gs3 where d: "fate_of (dlt_msg C (jo_dlt q)) gs2 = (gd, gs3)" by fastforce
  obtain f1 o1 k where p: "(if ge \<noteq> Replied then emitEventOrPark show C (jo_event q) fs else (fs, [], True)) = (f1, o1, k)"
    by (cases "if ge \<noteq> Replied then emitEventOrPark show C (jo_event q) fs else (fs, [], True)")
  have out: "out = landed ?ev ge @ landed (retry_msg q) gr @ landed (dlt_msg C (jo_dlt q)) gd @ o1" and k: "k" "gr = Replied" "gd = Replied"
    using assms Some e r d p by (auto simp: apply_batched_def Let_def)
  have "event_safe show C out (jo_event q)"
  proof (cases "ge = Replied")
    case True
    then show ?thesis using out by (auto simp: event_safe_def landed_def split: option.splits)
  next
    case False
    then have "emitEventOrPark show C (jo_event q) fs = (f1, o1, True)" using p k(1) by simp
    then show ?thesis by (rule event_safe_mono [OF emit_safe]) (auto simp: out)
  qed
  then show ?thesis using out k by (auto simp: outcome_safe_def landed_def)
qed

lemma published_safe: "applyJobOutcome show C canBatch batch q fs = (fs', out, True) \<Longrightarrow> outcome_safe show C q out \<and> jo_commit q"
  using sequential_safe batched_safe
  by (auto simp: applyJobOutcome_def applyJobSideEffects_def Let_def split: prod.splits if_splits)


definition demo_pub :: pub_cfg where
  "demo_pub = \<lparr>EventsTopic = ''events'', DeadLetterTopic = ''dlt'', EventEmitRetries = 1\<rparr>"

definition demo_outcome :: job_out where
  "demo_outcome = no_out\<lparr>jo_event := Some \<lparr>ev_batch = ''b1'', ev_job = ''j1'', ev_status = ''failed'', ev_worker = '''',
     ev_at = '''', ev_src = demo_src, ev_seq = 4\<rparr>\<rparr>"


subsection \<open>The retry chain\<close>

lemma dec_jset [simp]:
  "k \<noteq> k' \<Longrightarrow> dec_str k (jset k' v m) = dec_str k m" "k \<noteq> k' \<Longrightarrow> dec_int k (jset k' v m) = dec_int k m"
  "k \<noteq> k' \<Longrightarrow> dec_bool k (jset k' v m) = dec_bool k m" "k \<noteq> k' \<Longrightarrow> dec_pstr k (jset k' v m) = dec_pstr k m"
  "k \<noteq> k' \<Longrightarrow> dec_pint k (jset k' v m) = dec_pint k m" "k \<noteq> k' \<Longrightarrow> dec_map k (jset k' v m) = dec_map k m"
  "dec_int k (jset k (JNum n) m) = Some n" "dec_bool k (jset k (JBool c) m) = Some c" "dec_str k (jset k (JStr s) m) = Some s"
  by (simp_all add: dec_str_def dec_int_def dec_bool_def dec_pstr_def dec_pint_def dec_map_def)

lemma dec_jdel [simp]:
  "k \<noteq> k' \<Longrightarrow> dec_str k (jdel k' m) = dec_str k m" "k \<noteq> k' \<Longrightarrow> dec_int k (jdel k' m) = dec_int k m"
  "k \<noteq> k' \<Longrightarrow> dec_bool k (jdel k' m) = dec_bool k m" "k \<noteq> k' \<Longrightarrow> dec_pstr k (jdel k' m) = dec_pstr k m"
  "k \<noteq> k' \<Longrightarrow> dec_pint k (jdel k' m) = dec_pint k m" "k \<noteq> k' \<Longrightarrow> dec_map k (jdel k' m) = dec_map k m"
  "dec_str k (jdel k m) = Some ''''"
  by (simp_all add: dec_str_def dec_int_def dec_bool_def dec_pstr_def dec_pint_def dec_map_def)

text \<open>A message that is retried comes back the same but for its attempt and the counted flag.\<close>

lemma retry_roundtrip:
  assumes "decode_job m = Some j"
  shows "decode_job (retry_body (buildRetryPayload V m (j\<lparr>j_counted := c\<rparr>) due to)) =
      Some (j\<lparr>j_attempt := j_attempt j + 1, j_counted := c \<or> j_counted j\<rparr>)"
  using assms
  by (auto simp: decode_job_def retry_body_def buildRetryPayload_def Let_def rest_ok_def split: option.splits if_splits)

text \<open>One round: the job runs; a retry record waits on its topic and comes back when due. The
  result is the next message, or the outcome that ends the job.\<close>

definition retry_round :: "job_cfg \<Rightarrow> job_env \<Rightarrow> retry_env \<Rightarrow> coords \<Rightarrow> jobj \<Rightarrow> (jobj + job_out) option" where
  "retry_round C V R src m =
     (case decode_job m of
        None \<Rightarrow> None
      | Some j \<Rightarrow>
          (case process_job C V j m src of
             (as, JobOut q) \<Rightarrow>
               (case jo_retry q of
                  None \<Rightarrow> Some (Inr q)
                | Some (topic, key, m') \<Rightarrow>
                    (case ro_produce (process_retry_obj R '''' m' src) of
                       Some (to, k, m'') \<Rightarrow> Some (Inl m'') | None \<Rightarrow> None))
           | _ \<Rightarrow> None))"

text \<open>The life of a job under a handler that always fails: the messages it was run as, and its end.\<close>

fun life :: "nat \<Rightarrow> job_cfg \<Rightarrow> job_env \<Rightarrow> retry_env \<Rightarrow> coords \<Rightarrow> jobj \<Rightarrow> (nat \<times> job_out) option" where
  "life 0 C V R src m = None"
| "life (Suc n) C V R src m =
     (case retry_round C V R src m of
        None \<Rightarrow> None
      | Some (Inr q) \<Rightarrow> Some (1, q)
      | Some (Inl m') \<Rightarrow> (case life n C V R src m' of None \<Rightarrow> None | Some (k, q) \<Rightarrow> Some (Suc k, q)))"

text \<open>The surroundings of the claim: nothing cancels, expires or defers the job, the handler fails with
  a retryable error, and a retry that waited long enough is due.\<close>

definition always_fails :: "job_cfg \<Rightarrow> job_env \<Rightarrow> retry_env \<Rightarrow> coords \<Rightarrow> job_msg \<Rightarrow> bool" where
  "always_fails C V R src j =
     ((\<exists>cls msg. jv_run V = Some (cls, msg) \<and> \<not> nonRetryable cls) \<and> handlers C (j_type j) \<and>
      batchCancelled C V = Some False \<and> \<not> jv_retry_cancelled V \<and> trim (j_valid j) = '''' \<and> \<not> fair_time C \<and> \<not> fair_throughput C \<and>
      RetryProgression C \<noteq> [] \<and> \<not> rv_skip R \<and> src_topic src \<noteq> '''' \<and>
      (\<forall>a. rv_parse R (fmt_time V a) \<noteq> None \<longrightarrow> the (rv_parse R (fmt_time V a)) \<le> rv_now R))"

definition budget_of :: "job_cfg \<Rightarrow> job_msg \<Rightarrow> int" where
  "budget_of C j = (case j_max j of None \<Rightarrow> MaxRetries C | Some n \<Rightarrow> n)"

lemma tier_exists: "RetryProgression C \<noteq> [] \<Longrightarrow> \<exists>t. retryTierFor C n tier = Some t"
  by (auto simp: retryTierFor_def Let_def)

lemma valid_of_payload: "decode_job m = Some j \<Longrightarrow> str_field ''valid_till'' (buildRetryPayload V m j' due to) = j_valid j"
  using decode_fields(3) [of m j]
  by (auto simp: buildRetryPayload_def Let_def str_field_def dec_str_def split: option.splits json.splits)

lemma round_retries:
  assumes f: "always_fails C V R src j" and d: "decode_job m = Some j" and "j_attempt j < budget_of C j"
  shows "\<exists>m' c. retry_round C V R src m = Some (Inl m') \<and> decode_job m' = Some (j\<lparr>j_attempt := j_attempt j + 1, j_counted := c\<rparr>)"
proof -
  obtain cls msg where err: "jv_run V = Some (cls, msg)" "\<not> nonRetryable cls" using f by (auto simp: always_fails_def)
  obtain tier where t: "retryTierFor C (j_attempt j + 1) (j_tier j) = Some tier"
    using tier_exists [of C "j_attempt j + 1" "j_tier j"] f by (auto simp: always_fails_def)
  let ?fresh = "j_batch j \<noteq> None \<and> j_seq j \<noteq> None \<and> \<not> j_counted j"
  let ?c = "?fresh \<or> j_counted j"
  let ?at = "jv_now V + of_int (retryDelay C tier)"
  let ?m = "buildRetryPayload V m (j\<lparr>j_counted := ?c\<rparr>) ?at (src_topic src)"
  have j1: "(if ?fresh then j\<lparr>j_counted := True\<rparr> else j) = j\<lparr>j_counted := ?c\<rparr>" by (cases "j_counted j") auto
  have "fairScheduler C m = None" using f by (simp add: fairScheduler_def always_fails_def)
  then have w: "withFairSlot C V m = ([Perform], Ran (Some (cls, msg)))" using err by (simp add: withFairSlot_def)
  have e: "\<not> expired p (j_valid j) now" for p now using f by (simp add: always_fails_def expired_def)
  have bc: "j\<lparr>j_counted := True\<rparr> = j" if "j_counted j" using that by (cases j) simp
  have p: "\<exists>as q. process_job C V j m src = (as, JobOut q) \<and> jo_retry q = Some (retryTopic C tier, j_id j, ?m)"
    using f e w err(2) t assms(3) j1
    by (auto simp: bc process_job_def always_fails_def run_job_def handleFailure_def Let_def budget_of_def no_out_def split: prod.splits)
  have to: "str_field ''retry_to'' ?m = src_topic src" and ra: "jget ''retry_after'' ?m = Some (JStr (fmt_time V ?at))"
    by (simp_all add: buildRetryPayload_def Let_def str_field_def)
  have wait: "\<not> 0 < retry_wait R ?m"
    using f ra by (auto simp: retry_wait_def always_fails_def split: option.splits)
  have x: "\<not> expired (rv_parse R) (str_field ''valid_till'' ?m) (rv_now R)"
    using e valid_of_payload [OF d] by simp
  have pr: "\<exists>k. ro_produce (process_retry_obj R '''' ?m src) = Some (src_topic src, k, retry_body ?m)"
    using f to x wait by (simp add: process_retry_obj_def Let_def no_retry_out_def always_fails_def)
  have "decode_job (retry_body ?m) = Some (j\<lparr>j_attempt := j_attempt j + 1, j_counted := ?c \<or> j_counted j\<rparr>)"
    by (rule retry_roundtrip [OF d])
  then show ?thesis using p pr d by (force simp: retry_round_def)
qed

lemma round_ends:
  assumes f: "always_fails C V R src j" and d: "decode_job m = Some j" and "budget_of C j \<le> j_attempt j"
  shows "\<exists>q. retry_round C V R src m = Some (Inr q) \<and> jo_dlt q \<noteq> None \<and> jo_event q = batch_event V j ''failed'' src"
proof -
  obtain cls msg where err: "jv_run V = Some (cls, msg)" "\<not> nonRetryable cls" using f by (auto simp: always_fails_def)
  have "fairScheduler C m = None" using f by (simp add: fairScheduler_def always_fails_def)
  then have w: "withFairSlot C V m = ([Perform], Ran (Some (cls, msg)))" using err by (simp add: withFairSlot_def)
  have e: "\<not> expired (jv_parse V) (j_valid j) (jv_now V)" using f by (simp add: always_fails_def expired_def)
  show ?thesis using f e w err(2) d assms(3)
    by (auto simp: retry_round_def process_job_def always_fails_def run_job_def handleFailure_def Let_def budget_of_def no_out_def
        split: prod.splits)
qed

lemma always_fails_next: "always_fails C V R src (j\<lparr>j_attempt := a, j_counted := c\<rparr>) = always_fails C V R src j"
  by (simp add: always_fails_def)

lemma batch_event_upd [simp]: "batch_event V (j\<lparr>j_attempt := a, j_counted := c\<rparr>) st src = batch_event V j st src"
  by (simp add: batch_event_def buildEvent_def)

lemma life_ends:
  assumes "always_fails C V R src j" and "decode_job m = Some j" and "k = nat (budget_of C j - j_attempt j)"
  shows "\<exists>q. life (Suc k) C V R src m = Some (Suc k, q) \<and> jo_dlt q \<noteq> None \<and> jo_event q = batch_event V j ''failed'' src"
  using assms
proof (induction k arbitrary: j m)
  case 0
  then have "budget_of C j \<le> j_attempt j" by simp
  then obtain q where "retry_round C V R src m = Some (Inr q)" "jo_dlt q \<noteq> None" "jo_event q = batch_event V j ''failed'' src"
    using round_ends [OF 0(1,2)] by blast
  then show ?case by simp
next
  case (Suc k)
  then have "j_attempt j < budget_of C j" by simp
  then obtain m' c where r: "retry_round C V R src m = Some (Inl m')"
      "decode_job m' = Some (j\<lparr>j_attempt := j_attempt j + 1, j_counted := c\<rparr>)"
    using round_retries [OF Suc.prems(1,2)] by blast
  have k: "k = nat (budget_of C (j\<lparr>j_attempt := j_attempt j + 1, j_counted := c\<rparr>) -
      j_attempt (j\<lparr>j_attempt := j_attempt j + 1, j_counted := c\<rparr>))"
    using Suc.prems(3) by (simp add: budget_of_def)
  have f: "always_fails C V R src (j\<lparr>j_attempt := j_attempt j + 1, j_counted := c\<rparr>)"
    using Suc.prems(1) by (simp add: always_fails_next)
  obtain q where "life (Suc k) C V R src m' = Some (Suc k, q)" "jo_dlt q \<noteq> None" "jo_event q = batch_event V j ''failed'' src"
    using Suc.IH [OF f r(2) k] by auto
  then show ?case using r(1) by (simp add: life.simps(2) [of "Suc k"] del: life.simps)
qed

text \<open>C9. A job whose handler always fails ends: it is run exactly once more than the retries it has
  left (its own \<open>max_retries\<close>, or the configured default), going through the retry topic and back
  each time, and its last run dead-letters it with a failed event for its batch.\<close>

theorem failing_job_ends:
  assumes "always_fails C V R src j" and "decode_job m = Some j" and "j_attempt j \<le> budget_of C j"
  shows "\<exists>q. life (nat (budget_of C j - j_attempt j) + 1) C V R src m = Some (nat (budget_of C j - j_attempt j) + 1, q) \<and>
     jo_dlt q \<noteq> None \<and> jo_event q = batch_event V j ''failed'' src"
  using life_ends [OF assms(1,2) refl] by simp

definition plain_cfg :: job_cfg where
  "plain_cfg = demo_jcfg\<lparr>fair_time := False, fair_throughput := False\<rparr>"

definition demo_renv :: retry_env where
  "demo_renv = \<lparr>rv_now = 100, rv_iso = ''now'', rv_fmt = (\<lambda>_. ''later''), rv_parse = (\<lambda>_. Some 60), rv_skip = False, rv_maxpause = 5\<rparr>"

theorem failing_job_ends_witness:
  "\<exists>q. life 3 plain_cfg (demo_jenv (Some (''Boom'', ''x''))) demo_renv demo_src demo_job = Some (3, q) \<and> jo_dlt q \<noteq> None"
proof -
  let ?V = "demo_jenv (Some (''Boom'', ''x''))"
  define j where "j = \<lparr>j_id = ''j1'', j_batch = Some ''b1'', j_type = ''mail'', j_worker = '''', j_attempt = 0, j_max = None,
    j_tenant = None, j_seq = Some 4, j_tier = '''', j_valid = '''', j_counted = False, j_fp = ''''\<rparr>"
  have d: "decode_job demo_job = Some j" unfolding j_def by code_simp
  have f: "always_fails plain_cfg ?V demo_renv demo_src j"
    by (simp add: always_fails_def plain_cfg_def demo_jcfg_def demo_jenv_def demo_renv_def demo_src_def j_def nonRetryable_def
        batchCancelled_def trim_def)
  have b: "budget_of plain_cfg j = 2" and a: "j_attempt j = 0" by (simp_all add: budget_of_def j_def plain_cfg_def demo_jcfg_def)
  have n: "nat (budget_of plain_cfg j - j_attempt j) + 1 = 3" by (simp add: a b)
  have "j_attempt j \<le> budget_of plain_cfg j" by (simp add: a b)
  from failing_job_ends [OF f d this] show ?thesis unfolding n by blast
qed

subsection \<open>Corners of the processor\<close>

text \<open>\<open>ClaimSlotExecution\<close> fails open, but \<open>withFairSlot\<close> returns its error: when Redis does not answer
  the claim, a fair job is treated as if its handler had failed. On its last attempt it is
  dead-lettered and reported failed without having been run in that attempt.\<close>

theorem claim_outage_fails_job:
  assumes "fairScheduler C m = Some l" and "fm_slot (parseFairMeta m)" and "fm_id (parseFairMeta m) \<noteq> ''''"
    and "\<not> jv_claim_up V" and "handlers C (j_type j)" and "batchCancelled C V = Some False" and "\<not> jv_retry_cancelled V"
    and "\<not> expired (jv_parse V) (j_valid j) (jv_now V)" and "budget_of C j \<le> j_attempt j"
  shows "\<exists>as q. process_job C V j m src = (as, JobOut q) \<and> Perform \<notin> set as \<and> jo_dlt q \<noteq> None \<and>
    jo_event q = batch_event V j ''failed'' src"
  using assms
  by (auto simp: process_job_def run_job_def withFairSlot_def handleFailure_def Let_def nonRetryable_def budget_of_def no_out_def
      recordExecutionFailure_def releaseUniq_def recordTenantOutcome_def split: option.splits)

text \<open>A fair job that is skipped because its batch or the job itself was cancelled, or because its type is
  unknown, does not give its slot back: unlike the expiry path it makes no \<open>Complete\<close> call, so the
  lease counts against the lane until it times out.\<close>

theorem skipped_fair_job_keeps_slot:
  assumes "SkipCancelledJobs C \<and> j_batch j \<noteq> None \<and> batchCancelled C V = Some True \<or>
      has_retry_cancel C \<and> j_id j \<noteq> '''' \<and> jv_retry_cancelled V \<and> batchCancelled C V \<noteq> None \<or>
      \<not> handlers C (j_type j) \<and> batchCancelled C V \<noteq> None \<and> \<not> expired (jv_parse V) (j_valid j) (jv_now V)"
  shows "CompleteSlot l t i \<notin> set (fst (process_job C V j m src))"
  using assms
  by (auto simp: process_job_def drop_retry_cancelled_def reject_unknown_def releaseUniq_def Let_def split: option.splits)

text \<open>The job processor takes a cancelled job out of the cancel set while it handles it, before its
  failed event is published. If the publishing fails and the record comes back, the job is no
  longer in the set and runs.\<close>

theorem cancelled_job_runs_after_failed_publish:
  "let R = cancel_ids 0 0 [''j1''] \<lparr>rc_cancel = None, rc_skip = None\<rparr>;
       V1 = (demo_jenv None)\<lparr>jv_retry_cancelled := cancelled_id 1 ''j1'' R\<rparr>;
       (as1, r1) = process_job plain_cfg V1 (the (decode_job demo_job)) demo_job demo_src;
       R2 = (if AckCancel ''j1'' \<in> set as1 then acknowledge 2 ''j1'' R else R);
       V2 = (demo_jenv None)\<lparr>jv_retry_cancelled := cancelled_id 3 ''j1'' R2\<rparr>;
       (as2, r2) = process_job plain_cfg V2 (the (decode_job demo_job)) demo_job demo_src
   in Perform \<notin> set as1 \<and> Perform \<in> set as2"
  by code_simp

end
