(* ===== verification/Event_Processor.thy ===== *)
theory Event_Processor
  imports Ledger_Props Retry_Processor
begin

text \<open>
  From completion events to callbacks: \<open>RecordCompletionsBatch\<close> and \<open>FindReplayCallbackBatches\<close> of
  \<^verbatim>\<open>pkg/store/redis.go\<close>, the event processor (\<^verbatim>\<open>pkg/control/event\<close>), the callback processor
  (\<^verbatim>\<open>pkg/control/callback\<close>) and the publisher of expired jobs (\<^verbatim>\<open>pkg/daemon/expired.go\<close>).

  \<^item> \<open>batch_view\<close> is \<open>store.Batch\<close>, read from the hash by \<open>hashToBatch\<close>.
  \<^item> A Redis pipeline either answers every command (each may say \<open>NOSCRIPT\<close>, which means it did not
    run) or breaks after a prefix of its commands has run. The commands of one pipeline see one clock.
  \<^item> Producing is modelled against lists of fates as in \<open>Retry_Processor\<close>. A callback message always
    marshals, so the branches for marshal errors are left out, as are metrics and logging.
\<close>

subsection \<open>Reading a batch\<close>

record batch_view =
  bv_id :: string
  bv_total :: int
  bv_completed :: int
  bv_failed :: int
  bv_touched :: int
  bv_status :: string
  bv_on_success :: string
  bv_on_complete :: string
  bv_meta :: string
  bv_args :: string
  bv_description :: string
  bv_tenant :: string
  bv_locked :: string
  bv_finished :: string
  bv_refired :: string
  bv_claimed :: bool

definition text_of :: "string option \<Rightarrow> string" where
  "text_of f = (case f of None \<Rightarrow> '''' | Some s \<Rightarrow> s)"

definition hashToBatch :: "batch_hash rkey \<Rightarrow> batch_view option" where
  "hashToBatch k =
     (case k of
        None \<Rightarrow> None
      | Some c \<Rightarrow>
          (let h = cval c in
           Some \<lparr>bv_id = text_of (h_id h), bv_total = total_jobs h, bv_completed = completed_count h,
             bv_failed = failed_count h, bv_touched = touched_count h, bv_status = status h, bv_on_success = on_success h,
             bv_on_complete = on_complete h, bv_meta = meta h, bv_args = callback_args h, bv_description = description h,
             bv_tenant = tenant_id h, bv_locked = locked_at h, bv_finished = finished_at h,
             bv_refired = reconciler_refired_at h,
             bv_claimed = (text_of (callback_dispatched_at h) \<noteq> '''' \<or> text_of (complete_callback_dispatched_at h) \<noteq> '''')\<rparr>))"

definition read_hash :: "int \<Rightarrow> string \<Rightarrow> ledger \<Rightarrow> batch_hash rkey" where
  "read_hash clk i L = purge_key clk (hash (bkeys L i))"

definition findBatch :: "int \<Rightarrow> string \<Rightarrow> ledger \<Rightarrow> batch_view option" where
  "findBatch clk i L = hashToBatch (read_hash clk i L)"

text \<open>\<open>CompletionRecorded\<close> and \<open>BatchCancelled\<close>.\<close>

definition completionRecorded :: "int \<Rightarrow> string \<Rightarrow> int \<Rightarrow> ledger \<Rightarrow> bool" where
  "completionRecorded clk i s L = (1 \<le> s \<and> getbit (nat (s - 1)) (purge_key clk (touch_bm (bkeys L i))))"

definition batch_cancelled :: "string \<Rightarrow> ledger \<Rightarrow> bool" where
  "batch_cancelled i L = (case cancelled_ix L i of None \<Rightarrow> False | Some s \<Rightarrow> 0 < s)"

subsection \<open>\<open>RecordCompletionsBatch\<close>\<close>

record completion_event =
  ce_batch :: string
  ce_job :: string
  ce_status :: string
  ce_seq :: int

definition completion_op :: "string \<Rightarrow> string" where
  "completion_op st = (if st \<noteq> ''success'' \<and> st \<noteq> ''failed'' \<and> st \<noteq> ''executed'' then ''failed'' else st)"

datatype pipe = PipeOk "bool list" | PipeFail nat

record poll_env =
  pe_now :: string
  pe_score :: score
  pe_clk :: int
  pe_first :: pipe
  pe_second :: pipe
  pe_read :: bool

definition done_call :: "lcfg \<Rightarrow> poll_env \<Rightarrow> completion_event \<Rightarrow> ledger \<Rightarrow> ledger \<times> (nat \<times> string)" where
  "done_call C E e L =
     batchDoneJob (pe_clk E) (mk_args C (pe_now E) (pe_score E) (ce_seq e) (completion_op (ce_status e))) (ce_batch e) L"

text \<open>The first pipeline: a command flagged \<open>NOSCRIPT\<close> does not run and has no reply. The second
  pipeline runs exactly those.\<close>

fun run_pipe :: "(completion_event \<Rightarrow> ledger \<Rightarrow> ledger \<times> (nat \<times> string)) \<Rightarrow> (completion_event \<times> bool) list \<Rightarrow> ledger \<Rightarrow>
    ledger \<times> (nat \<times> string) option list" where
  "run_pipe f [] L = (L, [])"
| "run_pipe f ((e, noscript) # xs) L =
     (if noscript then (let (L', rs) = run_pipe f xs L in (L', None # rs))
      else let (L1, r) = f e L; (L', rs) = run_pipe f xs L1 in (L', Some r # rs))"

fun rerun_pipe :: "(completion_event \<Rightarrow> ledger \<Rightarrow> ledger \<times> (nat \<times> string)) \<Rightarrow>
    (completion_event \<times> (nat \<times> string) option) list \<Rightarrow> ledger \<Rightarrow> ledger \<times> (nat \<times> string) list" where
  "rerun_pipe f [] L = (L, [])"
| "rerun_pipe f ((e, Some r) # xs) L = (let (L', rs) = rerun_pipe f xs L in (L', r # rs))"
| "rerun_pipe f ((e, None) # xs) L = (let (L1, r) = f e L; (L', rs) = rerun_pipe f xs L1 in (L', r # rs))"

definition pipe_flags :: "bool list \<Rightarrow> nat \<Rightarrow> bool list" where
  "pipe_flags ns n = map (\<lambda>k. k < length ns \<and> ns ! k) [0..<n]"

definition prefix_run :: "(completion_event \<Rightarrow> ledger \<Rightarrow> ledger \<times> (nat \<times> string)) \<Rightarrow> nat \<Rightarrow> completion_event list \<Rightarrow> ledger \<Rightarrow> ledger" where
  "prefix_run f n es L = fst (run_pipe f (map (\<lambda>e. (e, False)) (take n es)) L)"

record completions =
  cm_finished :: "(batch_view option \<times> string \<times> bool) list"
  cm_replays :: "string list"
  cm_dropped :: "(completion_event \<times> string) list"

definition fires_of :: "(completion_event \<times> nat \<times> string) list \<Rightarrow> (completion_event \<times> nat \<times> string) list" where
  "fires_of rs = filter (\<lambda>(e, c, w). c = 1 \<or> c = 3) rs"

definition collect :: "poll_env \<Rightarrow> (completion_event \<times> nat \<times> string) list \<Rightarrow> ledger \<Rightarrow> completions option" where
  "collect E rs L =
     (let fires = fires_of rs;
          replays = map (\<lambda>(e, c, w). ce_batch e) (filter (\<lambda>(e, c, w). c = 0 \<and> w = ''duplicate'') rs);
          dropped = map (\<lambda>(e, c, w). (e, w)) (filter (\<lambda>(e, c, w). c = 0 \<and> w \<noteq> ''duplicate'') rs)
      in if fires = [] then Some \<lparr>cm_finished = [], cm_replays = replays, cm_dropped = dropped\<rparr>
         else if \<not> pe_read E then None
         else Some \<lparr>cm_finished = map (\<lambda>(e, c, w). (findBatch (pe_clk E) (ce_batch e) L, w, c = 3)) fires,
                    cm_replays = replays, cm_dropped = dropped\<rparr>)"

definition recordCompletionsBatch :: "lcfg \<Rightarrow> poll_env \<Rightarrow> completion_event list \<Rightarrow> ledger \<Rightarrow> ledger \<times> completions option" where
  "recordCompletionsBatch C E es L =
     (if es = [] then (L, Some \<lparr>cm_finished = [], cm_replays = [], cm_dropped = []\<rparr>)
      else case pe_first E of
        PipeFail n \<Rightarrow> (prefix_run (done_call C E) n es L, None)
      | PipeOk ns \<Rightarrow>
          (let (L1, rs) = run_pipe (done_call C E) (zip es (pipe_flags ns (length es))) L;
               pend = map fst (filter (\<lambda>(e, r). r = None) (zip es rs))
           in if pend = [] then (L1, collect E (zip es (map the rs)) L1)
              else case pe_second E of
                PipeFail n \<Rightarrow> (prefix_run (done_call C E) n pend L1, None)
              | PipeOk _ \<Rightarrow> (let (L2, rs2) = rerun_pipe (done_call C E) (zip es rs) L1 in (L2, collect E (zip es rs2) L2))))"

text \<open>\<open>FindReplayCallbackBatches\<close>: finished batches whose claims are still missing.\<close>

definition replay_due :: "batch_hash \<Rightarrow> bool" where
  "replay_due h =
     ((status h = ''success'' \<or> status h = ''complete'') \<and>
      (text_of (complete_callback_dispatched_at h) = '''' \<and> text_of (callback_dispatched_at h) = '''' \<or>
       status h = ''success'' \<and> text_of (success_callback_dispatched_at h) = ''''))"

fun replay_views :: "int \<Rightarrow> string list \<Rightarrow> ledger \<Rightarrow> batch_view list" where
  "replay_views clk [] L = []"
| "replay_views clk (i # is) L =
     (case read_hash clk i L of
        Some c \<Rightarrow> if replay_due (cval c)
          then (case hashToBatch (Some c) of Some b \<Rightarrow> b # replay_views clk is L | None \<Rightarrow> replay_views clk is L)
          else replay_views clk is L
      | None \<Rightarrow> replay_views clk is L)"

definition findReplayCallbackBatches :: "int \<Rightarrow> bool \<Rightarrow> string list \<Rightarrow> ledger \<Rightarrow> batch_view list option" where
  "findReplayCallbackBatches clk answered is L =
     (if is = [] then Some [] else if \<not> answered then None else Some (replay_views clk is L))"

subsection \<open>Callback messages\<close>

record callback_msg =
  cb_batch :: string
  cb_outcome :: string
  cb_total :: int
  cb_completed :: int
  cb_failed :: int
  cb_touched :: int
  cb_on_success :: string
  cb_on_complete :: string
  cb_meta :: "jobj option"
  cb_args :: "jobj option"
  cb_finished :: string
  cb_reconciled :: bool
  cb_preclaimed :: bool

definition decodeJSONMap :: "codec \<Rightarrow> string \<Rightarrow> jobj option" where
  "decodeJSONMap K raw =
     (if raw = '''' then None else case jdec K raw of Some (JObj m) \<Rightarrow> Some m | _ \<Rightarrow> None)"

text \<open>The wire form: \<open>omitempty\<close> leaves out zero values.\<close>

definition omit_map :: "string \<Rightarrow> jobj option \<Rightarrow> jobj" where
  "omit_map k v = (case v of None \<Rightarrow> [] | Some m \<Rightarrow> if m = [] then [] else [(k, JObj m)])"

definition encode_callback :: "callback_msg \<Rightarrow> jobj" where
  "encode_callback c =
     [(''batch_id'', JStr (cb_batch c)), (''outcome'', JStr (cb_outcome c)), (''total_jobs'', JNum (cb_total c)),
      (''completed_count'', JNum (cb_completed c)), (''failed_count'', JNum (cb_failed c))] @
     (if cb_touched c = 0 then [] else [(''touched_count'', JNum (cb_touched c))]) @
     (if cb_on_success c = '''' then [] else [(''on_success'', JStr (cb_on_success c))]) @
     (if cb_on_complete c = '''' then [] else [(''on_complete'', JStr (cb_on_complete c))]) @
     omit_map ''meta'' (cb_meta c) @ omit_map ''callback_args'' (cb_args c) @
     [(''finished_at'', JStr (cb_finished c))] @
     (if cb_reconciled c then [(''reconciled'', JBool True)] else []) @
     (if cb_preclaimed c then [(''preclaimed'', JBool True)] else [])"

definition dec_pmap :: "string \<Rightarrow> jobj \<Rightarrow> jobj option option" where
  "dec_pmap k m = (case jget k m of None \<Rightarrow> Some None | Some JNull \<Rightarrow> Some None | Some (JObj v) \<Rightarrow> Some (Some v) | _ \<Rightarrow> None)"

definition decode_callback :: "jobj \<Rightarrow> callback_msg option" where
  "decode_callback m =
     (case (dec_str ''batch_id'' m, dec_str ''outcome'' m, dec_int ''total_jobs'' m, dec_int ''completed_count'' m,
            dec_int ''failed_count'' m, dec_int ''touched_count'' m) of
        (Some b, Some w, Some t, Some c, Some f, Some u) \<Rightarrow>
          (case (dec_str ''on_success'' m, dec_str ''on_complete'' m, dec_pmap ''meta'' m, dec_pmap ''callback_args'' m,
                 dec_str ''finished_at'' m, dec_bool ''reconciled'' m, dec_bool ''preclaimed'' m) of
             (Some os, Some oc, Some me, Some ar, Some fi, Some re, Some pr) \<Rightarrow>
               Some \<lparr>cb_batch = b, cb_outcome = w, cb_total = t, cb_completed = c, cb_failed = f, cb_touched = u,
                     cb_on_success = os, cb_on_complete = oc, cb_meta = me, cb_args = ar, cb_finished = fi,
                     cb_reconciled = re, cb_preclaimed = pr\<rparr>
           | _ \<Rightarrow> None)
      | _ \<Rightarrow> None)"

definition finished_callback :: "codec \<Rightarrow> string \<Rightarrow> batch_view \<Rightarrow> string \<Rightarrow> callback_msg" where
  "finished_callback K iso_now b w =
     \<lparr>cb_batch = bv_id b, cb_outcome = w, cb_total = bv_total b, cb_completed = bv_completed b, cb_failed = bv_failed b,
      cb_touched = bv_touched b, cb_on_success = bv_on_success b, cb_on_complete = bv_on_complete b, cb_meta = None,
      cb_args = decodeJSONMap K (bv_args b), cb_finished = (if bv_finished b = '''' then iso_now else bv_finished b),
      cb_reconciled = False, cb_preclaimed = True\<rparr>"

definition replay_callback :: "codec \<Rightarrow> batch_view \<Rightarrow> callback_msg" where
  "replay_callback K b =
     \<lparr>cb_batch = bv_id b, cb_outcome = bv_status b, cb_total = bv_total b, cb_completed = bv_completed b,
      cb_failed = bv_failed b, cb_touched = bv_touched b, cb_on_success = bv_on_success b, cb_on_complete = bv_on_complete b,
      cb_meta = None, cb_args = decodeJSONMap K (bv_args b), cb_finished = bv_finished b, cb_reconciled = False,
      cb_preclaimed = False\<rparr>"

subsection \<open>Producing callbacks\<close>

record event_cfg =
  ec_callbacks :: string
  ec_dlt :: string
  ec_events :: string
  ec_node :: string

datatype cb_body = CallbackB callback_msg | CallbackDlt callback_msg | DropEvent event_msg | DropDlt jobj

type_synonym cb_rec = "string \<times> string \<times> cb_body"

record prod_env =
  pv_sync :: "fate list option"
  pv_legacy :: "fate list option"
  pv_each :: "fate list"
  pv_runner :: bool

definition callback_rec :: "event_cfg \<Rightarrow> callback_msg \<Rightarrow> cb_rec" where
  "callback_rec P cb = (ec_callbacks P, cb_batch cb, CallbackB cb)"

definition callbackProduceAttempts :: nat where "callbackProduceAttempts = 3"

definition produceOneCallback :: "event_cfg \<Rightarrow> callback_msg \<Rightarrow> fate list \<Rightarrow> fate list \<times> cb_rec list \<times> bool" where
  "produceOneCallback P cb fs = emit_loop callbackProduceAttempts (callback_rec P cb) fs"

definition deadLetterCallback :: "event_cfg \<Rightarrow> callback_msg \<Rightarrow> fate list \<Rightarrow> fate list \<times> cb_rec list \<times> bool" where
  "deadLetterCallback P cb fs =
     (if ec_dlt P = '''' then (fs, [], False) else produce1 (ec_dlt P, cb_batch cb, CallbackDlt cb) fs)"

text \<open>One callback after the other; the flag says that a batch call has already delivered it. The
  result: what reached the broker, the callbacks whose runner is recorded, and those that are logged
  as lost because the dead-letter topic is unset or refused them too.\<close>

fun produce_each :: "event_cfg \<Rightarrow> (callback_msg \<times> bool) list \<Rightarrow> fate list \<Rightarrow> cb_rec list \<times> callback_msg list \<times> callback_msg list" where
  "produce_each P [] fs = ([], [], [])"
| "produce_each P ((cb, delivered) # xs) fs =
     (if delivered then (let (out, ds, ls) = produce_each P xs fs in (out, cb # ds, ls))
      else let (fs1, out1, good) = produceOneCallback P cb fs in
           if good then (let (out, ds, ls) = produce_each P xs fs1 in (out1 @ out, cb # ds, ls))
           else let (fs2, out2, parked) = deadLetterCallback P cb fs1; (out, ds, ls) = produce_each P xs fs2
                in (out1 @ out2 @ out, ds, if parked then ls else cb # ls))"

definition landed_many :: "event_cfg \<Rightarrow> callback_msg list \<Rightarrow> fate list \<Rightarrow> cb_rec list" where
  "landed_many P cbs gs = map (callback_rec P \<circ> fst) (filter (\<lambda>(cb, g). g \<noteq> NotRun) (zip cbs gs))"

definition per_item :: "event_cfg \<Rightarrow> callback_msg list \<Rightarrow> fate list \<Rightarrow> cb_rec list \<times> callback_msg list \<times> callback_msg list" where
  "per_item P cbs fs = produce_each P (map (\<lambda>cb. (cb, False)) cbs) fs"

definition legacy_produce :: "event_cfg \<Rightarrow> prod_env \<Rightarrow> callback_msg list \<Rightarrow> cb_rec list \<times> callback_msg list \<times> callback_msg list" where
  "legacy_produce P V cbs =
     (case pv_legacy V of
        None \<Rightarrow> per_item P cbs (pv_each V)
      | Some gs \<Rightarrow>
          if length cbs \<le> length gs \<and> (\<forall>g \<in> set (take (length cbs) gs). g = Replied) then (landed_many P cbs gs, cbs, [])
          else case per_item P cbs (pv_each V) of (out, ds, ls) \<Rightarrow> (landed_many P cbs gs @ out, ds, ls))"

definition produceCallbacks :: "event_cfg \<Rightarrow> prod_env \<Rightarrow> callback_msg list \<Rightarrow> cb_rec list \<times> callback_msg list \<times> callback_msg list" where
  "produceCallbacks P V cbs =
     (if cbs = [] then ([], [], [])
      else case pv_sync V of
        None \<Rightarrow> legacy_produce P V cbs
      | Some gs \<Rightarrow>
          if length gs = length cbs
          then case produce_each P (zip cbs (map (\<lambda>g. g = Replied) gs)) (pv_each V) of
                 (out, ds, ls) \<Rightarrow> (landed_many P cbs gs @ out, ds, ls)
          else case legacy_produce P V cbs of (out, ds, ls) \<Rightarrow> (landed_many P cbs gs @ out, ds, ls))"

definition recordCallbackRunners :: "event_cfg \<Rightarrow> int \<Rightarrow> bool \<Rightarrow> callback_msg list \<Rightarrow> ledger \<Rightarrow> ledger" where
  "recordCallbackRunners P clk up cbs L =
     (if ec_node P = '''' \<or> \<not> up then L
      else fold (\<lambda>cb L. recordCallbackRunner clk (cb_batch cb) (ec_node P) L) cbs L)"

subsection \<open>\<open>ProcessBatch\<close>\<close>

definition decode_event :: "jobj \<Rightarrow> event_msg option" where
  "decode_event m =
     (case (dec_str ''batch_id'' m, dec_str ''job_id'' m, dec_str ''status'' m, dec_str ''worker_class'' m,
            dec_str ''occurred_at'' m) of
        (Some b, Some j, Some st, Some w, Some t) \<Rightarrow>
          (case (dec_str ''src_topic'' m, dec_int ''src_partition'' m, dec_int ''src_offset'' m, dec_int ''batch_seq'' m) of
             (Some tp, Some p, Some off, Some s) \<Rightarrow>
               Some \<lparr>ev_batch = b, ev_job = j, ev_status = st, ev_worker = w, ev_at = t,
                     ev_src = \<lparr>src_topic = tp, src_partition = p, src_offset = off\<rparr>, ev_seq = s\<rparr>
           | _ \<Rightarrow> None)
      | _ \<Rightarrow> None)"

definition completion_of :: "event_msg \<Rightarrow> completion_event" where
  "completion_of e = \<lparr>ce_batch = ev_batch e, ce_job = ev_job e, ce_status = ev_status e, ce_seq = ev_seq e\<rparr>"

definition valid_event :: "codec \<Rightarrow> string \<Rightarrow> completion_event option" where
  "valid_event K raw =
     (case jdec K raw of
        Some (JObj m) \<Rightarrow>
          (case decode_event m of
             None \<Rightarrow> None
           | Some e \<Rightarrow> if ev_batch e = '''' \<or> ev_seq e \<le> 0 then None else Some (completion_of e))
      | _ \<Rightarrow> None)"

definition poll_callbacks :: "codec \<Rightarrow> string \<Rightarrow> completions \<Rightarrow> batch_view list \<Rightarrow> callback_msg list" where
  "poll_callbacks K iso_now r replays =
     concat (map (\<lambda>(b, w, _). case b of None \<Rightarrow> [] | Some v \<Rightarrow> [finished_callback K iso_now v w]) (cm_finished r)) @
     map (replay_callback K) replays"

text \<open>The last result is \<open>None\<close> when the poll fails, else the callbacks of the poll and those logged as
  lost.\<close>

definition processBatch :: "codec \<Rightarrow> lcfg \<Rightarrow> event_cfg \<Rightarrow> poll_env \<Rightarrow> bool \<Rightarrow> prod_env \<Rightarrow> string list \<Rightarrow> ledger \<Rightarrow>
    ledger \<times> cb_rec list \<times> (callback_msg list \<times> callback_msg list) option" where
  "processBatch K C P E replay_up V raws L =
     (let es = List.map_filter (valid_event K) raws in
      if es = [] then (L, [], Some ([], []))
      else case recordCompletionsBatch C E es L of
        (L1, None) \<Rightarrow> (L1, [], None)
      | (L1, Some r) \<Rightarrow>
          (case findReplayCallbackBatches (pe_clk E) replay_up (cm_replays r) L1 of
             None \<Rightarrow> (L1, [], None)
           | Some replays \<Rightarrow>
               (let cbs = poll_callbacks K (pe_now E) r replays; (out, ds, ls) = produceCallbacks P V cbs
                in (recordCallbackRunners P (pe_clk E) (pv_runner V) ds L1, out, Some (cbs, ls)))))"

subsection \<open>The callback processor\<close>

definition claimKind :: "string \<Rightarrow> string" where
  "claimKind w = (if w = ''success'' \<or> w = ''success_only'' then ''success'' else ''complete'')"

definition callbackMethod :: "callback_msg \<Rightarrow> string" where
  "callbackMethod cb =
     (if (cb_outcome cb = ''success'' \<or> cb_outcome cb = ''success_only'') \<and> cb_on_success cb \<noteq> '''' then ''on_success''
      else ''on_complete'')"

definition callbackClass :: "callback_msg \<Rightarrow> string" where
  "callbackClass cb = (if callbackMethod cb = ''on_success'' then cb_on_success cb else cb_on_complete cb)"

record cb_env =
  cv_clk :: int
  cv_now :: string
  cv_node :: string
  cv_claim :: fate
  cv_runner :: fate
  cv_mark :: fate
  cv_invoker :: bool
  cv_err :: "string option"
  cv_dlt :: bool

datatype cb_act = InvokeCb callback_msg | DltError callback_msg string | DltMalformed string

datatype cb_res = CbDone | CbError

definition claim_turn :: "cb_env \<Rightarrow> callback_msg \<Rightarrow> ledger \<Rightarrow> ledger \<times> bool option" where
  "claim_turn V cb L =
     (if cb_preclaimed cb then (L, Some True)
      else if cv_claim V = NotRun then (L, None)
      else let (L1, n) = claimCallback (cv_clk V) (cv_now V) (cv_node V) (cb_batch cb) (claimKind (cb_outcome cb)) L
           in (L1, if cv_claim V = Replied then Some (n = 1) else None))"

text \<open>The invoke guard fails open: without an answer from Redis the callback is invoked.\<close>

definition invoke_turn :: "cb_env \<Rightarrow> callback_msg \<Rightarrow> ledger \<Rightarrow> ledger \<times> bool" where
  "invoke_turn V cb L =
     (if cv_mark V = NotRun then (L, True)
      else let (L1, w) = markCallbackInvoked (cv_clk V) (cv_now V) (cb_batch cb) (claimKind (cb_outcome cb)) L
           in (L1, cv_mark V = ReplyLost \<or> w))"

definition invoke_callback :: "cb_env \<Rightarrow> callback_msg \<Rightarrow> cb_act list" where
  "invoke_callback V cb =
     InvokeCb cb # (case cv_err V of None \<Rightarrow> [] | Some e \<Rightarrow> if cv_dlt V then [DltError cb e] else [])"

definition process_cb :: "cb_env \<Rightarrow> callback_msg \<Rightarrow> ledger \<Rightarrow> ledger \<times> cb_act list \<times> cb_res" where
  "process_cb V cb L =
     (if cb_batch cb = '''' then (L, [], CbDone)
      else case claim_turn V cb L of
        (L1, None) \<Rightarrow> (L1, [], CbError)
      | (L1, Some False) \<Rightarrow> (L1, [], CbDone)
      | (L1, Some True) \<Rightarrow>
          (let L2 = when_run (cv_runner V) (recordCallbackRunner (cv_clk V) (cb_batch cb) (cv_node V)) L1 in
           if \<not> cv_invoker V then (L2, [], CbDone)
           else let (L3, go) = invoke_turn V cb L2 in (L3, if go then invoke_callback V cb else [], CbDone)))"

definition process_cb_raw :: "codec \<Rightarrow> cb_env \<Rightarrow> string \<Rightarrow> ledger \<Rightarrow> ledger \<times> cb_act list \<times> cb_res" where
  "process_cb_raw K V raw L =
     (let bad = (L, if cv_dlt V then [DltMalformed raw] else [], CbDone) in
      case jdec K raw of
        Some (JObj m) \<Rightarrow> (case decode_callback m of None \<Rightarrow> bad | Some cb \<Rightarrow> process_cb V cb L)
      | Some JNull \<Rightarrow> (L, [], CbDone)
      | _ \<Rightarrow> bad)"

subsection \<open>Expired jobs of a fair lane: \<open>expiredPublisher.publish\<close>\<close>

definition expired_callback :: "batch_view \<Rightarrow> string \<Rightarrow> callback_msg" where
  "expired_callback b w =
     \<lparr>cb_batch = bv_id b, cb_outcome = w, cb_total = bv_total b, cb_completed = bv_completed b, cb_failed = bv_failed b,
      cb_touched = 0, cb_on_success = bv_on_success b, cb_on_complete = bv_on_complete b, cb_meta = None, cb_args = None,
      cb_finished = bv_finished b, cb_reconciled = False, cb_preclaimed = False\<rparr>"

text \<open>Produce a list of records in order and stop at the first error.\<close>

fun produce_all :: "cb_rec list \<Rightarrow> fate list \<Rightarrow> fate list \<times> cb_rec list \<times> bool" where
  "produce_all [] fs = (fs, [], True)"
| "produce_all (x # xs) fs =
     (let (fs1, out1, good) = produce1 x fs in
      if \<not> good then (fs1, out1, False) else let (fs2, out2, good2) = produce_all xs fs1 in (fs2, out1 @ out2, good2))"

record expired_out =
  xo_msgs :: "cb_rec list"
  xo_failure :: "failure option"
  xo_release :: "(string \<times> string) option"
  xo_ok :: bool

definition expired_callbacks :: "event_cfg \<Rightarrow> completions \<Rightarrow> cb_rec list" where
  "expired_callbacks P r =
     map (callback_rec P) (concat (map (\<lambda>(b, w, _). case b of None \<Rightarrow> [] | Some v \<Rightarrow> [expired_callback v w]) (cm_finished r)))"

definition expired_finish :: "event_cfg \<Rightarrow> bool \<Rightarrow> jobj \<Rightarrow> failure option \<Rightarrow> string \<times> jobj \<Rightarrow> cb_rec list \<Rightarrow> fate list \<Rightarrow> expired_out" where
  "expired_finish P stored m fl dlt before fs =
     (let (fs', out, good) = produce1 (ec_dlt P, fst dlt, DropDlt (snd dlt)) fs in
      \<lparr>xo_msgs = before @ out, xo_failure = fl,
       xo_release = (if good \<and> stored \<and> str_field ''job_id'' m \<noteq> '''' then Some (str_field ''_uniq_fp'' m, str_field ''job_id'' m) else None),
       xo_ok = good\<rparr>)"

definition failed_out :: "cb_rec list \<Rightarrow> expired_out" where
  "failed_out out = \<lparr>xo_msgs = out, xo_failure = None, xo_release = None, xo_ok = False\<rparr>"

definition publish_expired :: "(int \<Rightarrow> string) \<Rightarrow> (rat \<Rightarrow> string) \<Rightarrow> lcfg \<Rightarrow> event_cfg \<Rightarrow> poll_env \<Rightarrow> bool \<Rightarrow> rat \<Rightarrow> coords \<Rightarrow>
    jobj \<Rightarrow> fate list \<Rightarrow> ledger \<Rightarrow> ledger \<times> expired_out" where
  "publish_expired show fmt C P E stored now src m fs L =
     (case buildDrop fmt m src now of
        (ev, fl, dlt) \<Rightarrow>
          (case (ev, stored) of
             (Some e, True) \<Rightarrow>
               (case recordCompletionsBatch C E [completion_of e] L of
                  (L1, None) \<Rightarrow> (L1, failed_out [])
                | (L1, Some r) \<Rightarrow>
                    (let (fs1, out, good) = produce_all (expired_callbacks P r @ [(ec_events P, event_key show e, DropEvent e)]) fs in
                     (L1, if good then expired_finish P stored m fl dlt out fs1 else failed_out out)))
           | _ \<Rightarrow> (L, expired_finish P stored m fl dlt [] fs)))"

end
