(* ===== verification/Reconciler.thy ===== *)
theory Reconciler
  imports Event_Processor
begin

text \<open>
  The reconciler (\<^verbatim>\<open>pkg/reconciler\<close>), the index listings and the counter rebuild it uses
  (\<^verbatim>\<open>pkg/store/reconciler.go\<close>), the listing of cancelled batches (\<^verbatim>\<open>pkg/store/cancel.go\<close>) and the
  process-local cache of it (\<^verbatim>\<open>pkg/cancellation\<close>).

  The indexes of the ledger are maps from ids to scores; a range query also needs the order Redis
  keeps them in, which is the argument \<open>ord\<close>: a list of ids that covers the index. A sweep runs at one
  clock value; the fate of each remote call it makes is part of its environment, per batch. Scores
  and times are Unix seconds. The summary a sweep stores for the dashboard is left out.
\<close>

subsection \<open>Index listings\<close>

definition index_range :: "string list \<Rightarrow> score \<Rightarrow> zset \<Rightarrow> string list" where
  "index_range ord mx ix = filter (\<lambda>i. case ix i of None \<Rightarrow> False | Some s \<Rightarrow> s \<le> mx) ord"

definition keep_views :: "int \<Rightarrow> (batch_view \<Rightarrow> bool) \<Rightarrow> string list \<Rightarrow> ledger \<Rightarrow> batch_view list" where
  "keep_views clk keep is L =
     List.map_filter (\<lambda>i. case findBatch clk i L of None \<Rightarrow> None | Some b \<Rightarrow> if keep b then Some b else None) is"

definition prune_ids :: "int \<Rightarrow> (batch_view \<Rightarrow> bool) \<Rightarrow> string list \<Rightarrow> ledger \<Rightarrow> string list" where
  "prune_ids clk keep is L = filter (\<lambda>i. case findBatch clk i L of None \<Rightarrow> True | Some b \<Rightarrow> \<not> keep b) is"

definition zrem_all :: "string list \<Rightarrow> zset \<Rightarrow> zset" where
  "zrem_all is ix = (\<lambda>i. if i \<in> set is then None else ix i)"

record list_env =
  li_range :: bool
  li_read :: bool
  li_prune :: bool

text \<open>\<open>filterIndexedBatches\<close>: the batches to keep and the ids to take out of the index; the removal is
  best effort.\<close>

definition filterIndexedBatches :: "list_env \<Rightarrow> int \<Rightarrow> (batch_view \<Rightarrow> bool) \<Rightarrow> string list \<Rightarrow> ledger \<Rightarrow>
    (batch_view list \<times> string list) option" where
  "filterIndexedBatches Q clk keep is L =
     (if is = [] then Some ([], [])
      else if \<not> li_read Q then None
      else Some (keep_views clk keep is L, if li_prune Q then prune_ids clk keep is L else []))"

definition stale_keep :: "batch_view \<Rightarrow> bool" where
  "stale_keep b = (bv_status b = ''running'')"

definition lost_keep :: "batch_view \<Rightarrow> bool" where
  "lost_keep b = (\<not> bv_claimed b \<and> (bv_status b = ''success'' \<or> bv_status b = ''complete''))"

definition staleBatches :: "list_env \<Rightarrow> string list \<Rightarrow> int \<Rightarrow> score \<Rightarrow> ledger \<Rightarrow> ledger \<times> batch_view list option" where
  "staleBatches Q ord clk mx L =
     (if \<not> li_range Q then (L, None)
      else case filterIndexedBatches Q clk stale_keep (index_range ord mx (running_ix L)) L of
        None \<Rightarrow> (L, None)
      | Some (bs, gone) \<Rightarrow> (L\<lparr>running_ix := zrem_all gone (running_ix L)\<rparr>, Some bs))"

definition doneBatchesWithoutCallback :: "list_env \<Rightarrow> string list \<Rightarrow> int \<Rightarrow> score \<Rightarrow> ledger \<Rightarrow> ledger \<times> batch_view list option" where
  "doneBatchesWithoutCallback Q ord clk mx L =
     (if \<not> li_range Q then (L, None)
      else case filterIndexedBatches Q clk lost_keep (index_range ord mx (done_ix L)) L of
        None \<Rightarrow> (L, None)
      | Some (bs, gone) \<Rightarrow> (L\<lparr>done_ix := zrem_all gone (done_ix L)\<rparr>, Some bs))"

subsection \<open>One batch\<close>

datatype stale_outcome = RecoveredRunning | RecoveredEmpty | SkippedGone | SkippedNotRunning | SkippedOpen
  | SkippedInProgress | StaleProduceFailed

datatype lost_outcome = RefiredLost | SkippedNotDone | SkippedRecentRefire | LostProduceFailed

record fix_env =
  fx_find :: "string \<Rightarrow> bool"
  fx_mark :: "string \<Rightarrow> fate"
  fx_prod :: "string \<Rightarrow> fate"
  fx_refire :: "string \<Rightarrow> fate"

record sweep_env =
  sw_clk :: int
  sw_now :: string
  sw_score :: score
  sw_parse :: "string \<Rightarrow> rat option"
  sw_interval :: rat

definition reconciled_callback :: "codec \<Rightarrow> string \<Rightarrow> batch_view \<Rightarrow> string \<Rightarrow> bool \<Rightarrow> callback_msg" where
  "reconciled_callback K now b w again =
     \<lparr>cb_batch = bv_id b, cb_outcome = w, cb_total = bv_total b, cb_completed = bv_completed b, cb_failed = bv_failed b,
      cb_touched = 0, cb_on_success = bv_on_success b, cb_on_complete = bv_on_complete b, cb_meta = None,
      cb_args = decodeJSONMap K (bv_args b), cb_finished = (if bv_finished b = '''' then now else bv_finished b),
      cb_reconciled = again, cb_preclaimed = False\<rparr>"

definition produceCallback :: "codec \<Rightarrow> event_cfg \<Rightarrow> string \<Rightarrow> fate \<Rightarrow> batch_view \<Rightarrow> string \<Rightarrow> bool \<Rightarrow> cb_rec list \<times> bool" where
  "produceCallback K P now f b w again =
     (if f = NotRun then [] else [callback_rec P (reconciled_callback K now b w again)], f = Replied)"

definition sweep_find :: "sweep_env \<Rightarrow> fix_env \<Rightarrow> string \<Rightarrow> ledger \<Rightarrow> batch_view option" where
  "sweep_find E X i L = (if fx_find X i then findBatch (sw_clk E) i L else None)"

text \<open>\<open>MarkFinishedIfRunning\<close> from the sweep: an error counts as not won, even when the script ran.\<close>

definition sweep_mark :: "sweep_env \<Rightarrow> fix_env \<Rightarrow> string \<Rightarrow> string \<Rightarrow> ledger \<Rightarrow> ledger \<times> bool" where
  "sweep_mark E X i w L =
     (if fx_mark X i = NotRun then (L, False)
      else let (L1, won) = markFinishedIfRunning (sw_clk E) (sw_now E) (sw_score E) i w L
           in (L1, fx_mark X i = Replied \<and> won))"

definition finish_batch :: "codec \<Rightarrow> event_cfg \<Rightarrow> sweep_env \<Rightarrow> fix_env \<Rightarrow> string \<Rightarrow> batch_view \<Rightarrow> string \<Rightarrow> stale_outcome \<Rightarrow> ledger \<Rightarrow>
    ledger \<times> cb_rec list \<times> stale_outcome" where
  "finish_batch K P E X i b w good L =
     (let (L1, won) = sweep_mark E X i w L in
      if \<not> won then (L1, [], SkippedNotRunning)
      else let (out, sent) = produceCallback K P (sw_now E) (fx_prod X i) (b\<lparr>bv_status := w\<rparr>) w False
           in (L1, out, if sent then good else StaleProduceFailed))"

definition reconcileRunning :: "codec \<Rightarrow> event_cfg \<Rightarrow> sweep_env \<Rightarrow> fix_env \<Rightarrow> batch_view \<Rightarrow> ledger \<Rightarrow>
    ledger \<times> cb_rec list \<times> stale_outcome" where
  "reconcileRunning K P E X listed L =
     (let i = bv_id listed in
      case sweep_find E X i L of
        None \<Rightarrow> (L, [], SkippedGone)
      | Some b \<Rightarrow>
          if bv_status b \<noteq> ''running'' then (L, [], SkippedNotRunning)
          else if bv_locked b = '''' then (L, [], SkippedOpen)
          else if bv_total b = 0 then finish_batch K P E X i b ''success'' RecoveredEmpty L
          else if bv_completed b + bv_failed b < bv_total b then (L, [], SkippedInProgress)
          else finish_batch K P E X i b (if 0 < bv_failed b then ''complete'' else ''success'') RecoveredRunning L)"

text \<open>\<open>time.Since(t) < interval\<close>; the time of the sweep is its score.\<close>

definition recentlyReconcilerRefired :: "sweep_env \<Rightarrow> string \<Rightarrow> bool" where
  "recentlyReconcilerRefired E t =
     (if t = '''' \<or> sw_interval E \<le> 0 then False
      else case sw_parse E t of None \<Rightarrow> False | Some u \<Rightarrow> sw_score E - u < sw_interval E)"

definition refireCallback :: "codec \<Rightarrow> event_cfg \<Rightarrow> sweep_env \<Rightarrow> fix_env \<Rightarrow> batch_view \<Rightarrow> ledger \<Rightarrow>
    ledger \<times> cb_rec list \<times> lost_outcome" where
  "refireCallback K P E X listed L =
     (let i = bv_id listed in
      case sweep_find E X i L of
        None \<Rightarrow> (L, [], SkippedNotDone)
      | Some b \<Rightarrow>
          if bv_status b \<noteq> ''success'' \<and> bv_status b \<noteq> ''complete'' then (L, [], SkippedNotDone)
          else if recentlyReconcilerRefired E (bv_refired b) then (L, [], SkippedRecentRefire)
          else let (out, sent) = produceCallback K P (sw_now E) (fx_prod X i) b (bv_status b) True in
               if sent
               then (when_run (fx_refire X i) (markReconcilerRefired (sw_clk E) (sw_now E) (bv_id b)) L, out, RefiredLost)
               else (L, out, LostProduceFailed))"

subsection \<open>The counter rebuild\<close>

definition status_at :: "int \<Rightarrow> string \<Rightarrow> ledger \<Rightarrow> string" where
  "status_at clk i L = (case read_hash clk i L of None \<Rightarrow> '''' | Some c \<Rightarrow> status (cval c))"

record count_env =
  ct_range :: bool
  ct_read :: bool
  ct_prune :: bool
  ct_swap :: fate

definition reconcileBatchCounts :: "count_env \<Rightarrow> string list \<Rightarrow> int \<Rightarrow> ledger \<Rightarrow> ledger" where
  "reconcileBatchCounts Q ord clk L =
     (let is = filter (\<lambda>i. all_ix L i \<noteq> None) ord in
      if \<not> ct_range Q \<or> is \<noteq> [] \<and> \<not> ct_read Q then L
      else let gone = filter (\<lambda>i. status_at clk i L = '''') is;
               fresh = (\<lambda>st. if st = '''' then 0 else int (length (filter (\<lambda>i. status_at clk i L = st) is)));
               L1 = (if ct_prune Q then L\<lparr>all_ix := zrem_all gone (all_ix L)\<rparr> else L)
           in if ct_swap Q = NotRun then L1 else L1\<lparr>counts := fresh\<rparr>)"

subsection \<open>The sweep\<close>

text \<open>The distributed lock: \<open>SET NX EX\<close> with a random token, released only by its owner.\<close>

definition acquireLock :: "int \<Rightarrow> int \<Rightarrow> string \<Rightarrow> string rkey \<Rightarrow> string rkey \<times> bool" where
  "acquireLock clk ttl token k0 =
     (let k = purge_key clk k0 in if k = None then (set_key_ex clk ttl token, True) else (k, False))"

definition releaseLock :: "int \<Rightarrow> string \<Rightarrow> string rkey \<Rightarrow> string rkey" where
  "releaseLock clk token k0 = (let k = purge_key clk k0 in if k \<noteq> None \<and> key_val '''' k = token then None else k)"

definition lock_ttl :: "rat \<Rightarrow> int" where
  "lock_ttl ttl = (let t = (if ttl \<le> 0 then 600 else ttl); s = \<lfloor>t\<rfloor> in if s < 1 then 1 else s)"

definition sweep_interval :: "rat \<Rightarrow> rat" where
  "sweep_interval iv = (if iv \<le> 0 then 300 else iv)"

definition sweep_max :: "int \<Rightarrow> nat" where
  "sweep_max mx = nat (if mx < 1 then 100 else mx)"

fun each_batch :: "(batch_view \<Rightarrow> ledger \<Rightarrow> ledger \<times> cb_rec list \<times> 'o) \<Rightarrow> batch_view list \<Rightarrow> ledger \<Rightarrow> ledger \<times> cb_rec list \<times> 'o list" where
  "each_batch f [] L = (L, [], [])"
| "each_batch f (b # bs) L =
     (let (L1, out1, r) = f b L; (L2, out2, rs) = each_batch f bs L1 in (L2, out1 @ out2, r # rs))"

record sweep_cfg =
  sc_interval :: rat
  sc_max :: int
  sc_lock_ttl :: rat

record sweep_in =
  si_ord :: "string list"
  si_stale_list :: list_env
  si_lost_list :: list_env
  si_stale :: fix_env
  si_lost :: fix_env
  si_counts :: count_env

text \<open>The body run under the lock; \<open>None\<close> is the error that ends it.\<close>

definition sweep_body :: "codec \<Rightarrow> event_cfg \<Rightarrow> sweep_cfg \<Rightarrow> sweep_env \<Rightarrow> sweep_in \<Rightarrow> ledger \<Rightarrow>
    ledger \<times> cb_rec list \<times> (stale_outcome list \<times> lost_outcome list) option" where
  "sweep_body K P S E I L =
     (let mx = sw_score E - sweep_interval (sc_interval S); n = sweep_max (sc_max S); ord = si_ord I in
      case staleBatches (si_stale_list I) ord (sw_clk E) mx L of
        (L1, None) \<Rightarrow> (L1, [], None)
      | (L1, Some stale) \<Rightarrow>
          (case doneBatchesWithoutCallback (si_lost_list I) ord (sw_clk E) mx L1 of
             (L2, None) \<Rightarrow> (L2, [], None)
           | (L2, Some lost) \<Rightarrow>
               (let (L3, out1, rs) = each_batch (reconcileRunning K P E (si_stale I)) (take n stale) L2;
                    (L4, out2, ls) = each_batch (refireCallback K P E (si_lost I)) (take n lost) L3
                in (reconcileBatchCounts (si_counts I) ord (sw_clk E) L4, out1 @ out2, Some (rs, ls)))))"

datatype sweep_result = ResultCompleted | ResultLockSkipped | ResultFailed

text \<open>\<open>Run\<close> around the body. The lock call has a fate of its own; the release is best effort and
  happens at the clock of the end of the sweep.\<close>

definition sweep_run :: "codec \<Rightarrow> event_cfg \<Rightarrow> sweep_cfg \<Rightarrow> sweep_env \<Rightarrow> sweep_in \<Rightarrow> string \<Rightarrow> fate \<Rightarrow> (int \<times> fate) \<Rightarrow>
    string rkey \<times> ledger \<Rightarrow> (string rkey \<times> ledger) \<times> cb_rec list \<times> sweep_result" where
  "sweep_run K P S E I token got rel s =
     (let (k, L) = s;
          (k1, won) = (if got = NotRun then (k, False) else acquireLock (sw_clk E) (lock_ttl (sc_lock_ttl S)) token k)
      in if \<not> won \<or> got \<noteq> Replied then ((k1, L), [], ResultLockSkipped)
         else let (L1, out, r) = sweep_body K P S E I L;
                  k2 = when_run (snd rel) (releaseLock (fst rel) token) k1
              in ((k2, L1), out, if r = None then ResultFailed else ResultCompleted))"

text \<open>\<open>MaybeRun\<close>: at most one sweep at a time per process, one per interval unless it failed.\<close>

record sched_state =
  rs_running :: bool
  rs_last :: "rat option"

definition maybeRun :: "rat \<Rightarrow> rat \<Rightarrow> sched_state \<Rightarrow> sched_state \<times> bool" where
  "maybeRun iv now s =
     (if rs_running s then (s, False)
      else case rs_last s of
        Some t \<Rightarrow> if now - t < sweep_interval iv then (s, False) else (\<lparr>rs_running = True, rs_last = Some now\<rparr>, True)
      | None \<Rightarrow> (\<lparr>rs_running = True, rs_last = Some now\<rparr>, True))"

definition sweep_ended :: "sweep_result option \<Rightarrow> sched_state \<Rightarrow> sched_state" where
  "sweep_ended r s =
     (let s1 = (if r = None \<or> r = Some ResultFailed then s\<lparr>rs_last := None\<rparr> else s) in s1\<lparr>rs_running := False\<rparr>)"

subsection \<open>Cancelled batches\<close>

definition cancelledBatchIDs :: "rat \<Rightarrow> rat \<Rightarrow> string list \<Rightarrow> ledger \<Rightarrow> ledger \<times> string list" where
  "cancelledBatchIDs ttl now ord L =
     (let t = (if ttl \<le> 0 then 7 * 24 * 3600 else ttl); cutoff = now - 2 * t;
          ix = (\<lambda>i. case cancelled_ix L i of Some s \<Rightarrow> if s \<le> cutoff then None else Some s | None \<Rightarrow> None)
      in (L\<lparr>cancelled_ix := ix\<rparr>, filter (\<lambda>i. ix i \<noteq> None) ord))"

record cancel_cache =
  cc_ttl :: rat
  cc_ids :: "string set"
  cc_at :: "rat option"
  cc_loaded :: bool

definition new_cache :: "rat \<Rightarrow> cancel_cache" where
  "new_cache ttl = \<lparr>cc_ttl = ttl, cc_ids = {}, cc_at = None, cc_loaded = False\<rparr>"

definition cache_fresh :: "rat \<Rightarrow> cancel_cache \<Rightarrow> bool" where
  "cache_fresh now c = (0 < cc_ttl c \<and> (case cc_at c of None \<Rightarrow> False | Some t \<Rightarrow> now - t < cc_ttl c))"

text \<open>\<open>currentIDs\<close>: \<open>fetch\<close> is the answer of the store, \<open>None\<close> an error.\<close>

definition currentIDs :: "rat \<Rightarrow> string list option \<Rightarrow> cancel_cache \<Rightarrow> cancel_cache \<times> string set" where
  "currentIDs now fetch c =
     (if cc_loaded c \<and> cache_fresh now c then (c, cc_ids c)
      else case fetch of
        None \<Rightarrow> (c, if cc_loaded c then cc_ids c else {})
      | Some is \<Rightarrow>
          (let s = {i \<in> set is. i \<noteq> ''''} in (c\<lparr>cc_ids := s, cc_at := Some now, cc_loaded := True\<rparr>, s)))"

definition cache_cancelled :: "rat \<Rightarrow> string list option \<Rightarrow> string \<Rightarrow> cancel_cache \<Rightarrow> cancel_cache \<times> bool" where
  "cache_cancelled now fetch i c =
     (if i = '''' then (c, False) else let (c1, s) = currentIDs now fetch c in (c1, i \<in> s))"

definition cache_add :: "string \<Rightarrow> cancel_cache \<Rightarrow> cancel_cache" where
  "cache_add i c = (if i = '''' then c else c\<lparr>cc_ids := insert i (cc_ids c), cc_loaded := True\<rparr>)"

definition cache_reset :: "cancel_cache \<Rightarrow> cancel_cache" where
  "cache_reset c = c\<lparr>cc_ids := {}, cc_at := None, cc_loaded := False\<rparr>"

end
