(* ===== verification/Delivery_Props.thy ===== *)
theory Delivery_Props
  imports Reconciler Ledger_Claims
begin

text \<open>
  Every component that works on the ledger (event processor, callback processor, reconciler, expired
  publisher) does so through the atomic ledger calls. \<open>atomic_steps\<close> is that interface: an invariant
  of the atomic steps and a relation they keep carry over to any handler made of them.
\<close>

locale atomic_steps =
  fixes step :: "'s \<Rightarrow> 's \<Rightarrow> bool"
    and good :: "'s \<Rightarrow> bool"
  assumes step_good: "good s \<Longrightarrow> step s s' \<Longrightarrow> good s'"
begin

lemma reach_good: "step\<^sup>*\<^sup>* s s' \<Longrightarrow> good s \<Longrightarrow> good s'"
  by (induction rule: rtranclp_induct) (auto intro: step_good)

lemma reach_rel:
  assumes "step\<^sup>*\<^sup>* s s'" and "good s" and "\<And>s. R s s" and "\<And>a b c. R a b \<Longrightarrow> R b c \<Longrightarrow> R a c"
    and "\<And>a b. good a \<Longrightarrow> step a b \<Longrightarrow> R a b"
  shows "R s s'"
  using assms(1,2)
proof (induction rule: rtranclp_induct)
  case base
  then show ?case by (simp add: assms(3))
next
  case (step a b)
  then show ?case using assms(4,5) reach_good by metis
qed

text \<open>A handler that applies a call to each element of a list.\<close>

lemma reach_fold:
  assumes "\<And>x s. x \<in> set xs \<Longrightarrow> good s \<Longrightarrow> step\<^sup>*\<^sup>* s (f x s)" and "good s"
  shows "step\<^sup>*\<^sup>* s (fold f xs s)"
  using assms
proof (induction xs arbitrary: s)
  case (Cons x xs)
  have 1: "step\<^sup>*\<^sup>* s (f x s)" using Cons.prems by simp
  have "step\<^sup>*\<^sup>* (f x s) (fold f xs (f x s))" using Cons reach_good [OF 1] by simp
  with 1 show ?case by simp
qed simp

end

subsection \<open>Atomic steps of the ledger\<close>

text \<open>One ledger call by anybody inside the retention window, or a change of the indexes and counters
  that leaves the batches alone.\<close>

definition lstep :: "lcfg \<Rightarrow> int \<Rightarrow> ledger \<Rightarrow> ledger \<Rightarrow> bool" where
  "lstep C D L L' =
     (bkeys L' = bkeys L \<or>
      (\<exists>clk now sc x r. D - cfg_window C \<le> clk \<and> clk < D \<and> now \<noteq> '''' \<and> lop_ok L x \<and> exec C clk now sc x L = (L', r)))"

definition in_window :: "lcfg \<Rightarrow> int \<Rightarrow> int \<Rightarrow> bool" where
  "in_window C D clk = (D - cfg_window C \<le> clk \<and> clk < D)"

lemma ledger_inv_bkeys: "bkeys L' = bkeys L \<Longrightarrow> ledger_inv D L' = ledger_inv D L"
  by (simp add: ledger_inv_def)

interpretation lst: atomic_steps "lstep C D" "ledger_inv D" for C D
proof unfold_locales
  fix L L' assume "ledger_inv D L" and "lstep C D L L'"
  then show "ledger_inv D L'" unfolding lstep_def by (metis ledger_inv_bkeys exec_inv)
qed

lemma lstep_exec:
  "in_window C D clk \<Longrightarrow> now \<noteq> '''' \<Longrightarrow> lop_ok L x \<Longrightarrow> L' = fst (exec C clk now sc x L) \<Longrightarrow> (lstep C D)\<^sup>*\<^sup>* L L'"
  unfolding lstep_def in_window_def by (rule r_into_rtranclp) (metis prod.collapse)

lemma lstep_bkeys: "bkeys L' = bkeys L \<Longrightarrow> (lstep C D)\<^sup>*\<^sup>* L L'"
  by (rule r_into_rtranclp) (simp add: lstep_def)

subsection \<open>Stamps are written once\<close>

text \<open>A stamp that is set stays as it is, and a batch that exists goes on existing.\<close>

definition kept_keys :: "batch_keys \<Rightarrow> batch_keys \<Rightarrow> bool" where
  "kept_keys b b' =
     (hash b \<noteq> None \<longrightarrow> hash b' \<noteq> None \<and>
        (\<forall>f \<in> {complete_callback_dispatched_at, success_callback_dispatched_at, callback_dispatched_at,
               complete_callback_invoked_at, success_callback_invoked_at}.
           \<forall>v. f (the_hash b) = Some v \<longrightarrow> f (the_hash b') = Some v) \<and>
        (ends_status (status (the_hash b)) \<longrightarrow> status (the_hash b') = status (the_hash b)))"

lemma kept_refl [simp]: "kept_keys b b"
  by (simp add: kept_keys_def)

lemma kept_trans: "kept_keys a b \<Longrightarrow> kept_keys b c \<Longrightarrow> kept_keys a c"
  by (auto simp: kept_keys_def)

lemma kept_same: "the_hash b' = the_hash b \<Longrightarrow> (hash b \<noteq> None \<Longrightarrow> hash b' \<noteq> None) \<Longrightarrow> kept_keys b b'"
  by (simp add: kept_keys_def)

lemma kept_claims: "kept_keys b (fst (claim_complete now b))" "kept_keys b (fst (claim_success now b))"
  by (auto simp: kept_keys_def claim_complete_def claim_success_def simp del: not_None_eq split: option.splits)

lemma kept_settle:
  assumes "0 < a_ttl a" and "hash b \<noteq> None"
  shows "kept_keys b (bkeys (fst (settle clk a i b L)) i)"
proof -
  have f: "kept_keys b (retain_finished clk (finished_ttl_of a) (upd_hash (\<lambda>h. h\<lparr>status := t, finished_at := n\<rparr>) b))"
    if "status (the_hash b) = ''running''" for t n
    using that ttl_pos(1) [OF assms(1)] by (simp add: kept_keys_def ends_status_def retain_finished_def)
  have c: "kept_keys b x \<Longrightarrow> kept_keys b (fst (claim_complete n x))" "kept_keys b x \<Longrightarrow> kept_keys b (fst (claim_success n x))" for x n
    using kept_trans kept_claims by blast+
  show ?thesis by (simp add: settle_def Let_def split_beta f c split: option.splits)
qed

lemma kept_done:
  assumes inv: "keyed_inv D i (bkeys L i)" and clk: "clk < D" and ttl: "0 < a_ttl a"
  shows "kept_keys (bkeys L i) (bkeys (fst (batchDoneJob clk a i L)) i)"
  using inv clk ttl
proof (cases rule: batchDoneJob_cases)
  case (refused w)
  then show ?thesis by simp
next
  case (applied b1 b2)
  have "kept_keys (bkeys L i) b2" unfolding kept_keys_def applied(7) using applied(9) by (simp add: card_counters_def split: prod.splits)
  then show ?thesis using kept_trans [OF _ kept_settle [OF ttl applied(9)]] applied(1) by simp
qed

lemma kept_seal:
  assumes inv: "keyed_inv D i (bkeys L i)" and clk: "clk < D" and ttl: "0 < ttl"
  shows "kept_keys (bkeys L i) (bkeys (fst (sealBatch clk ttl now sc i L)) i)"
proof -
  have p: "purge_batch clk (bkeys L i) = bkeys L i" using inv clk by (rule keyed_purge)
  define b2 where "b2 = seal_prepare clk ttl now (bkeys L i)"
  have k: "kept_keys (bkeys L i) b2" and s: "status (the_hash b2) = status (the_hash (bkeys L i))"
    using ttl by (simp_all add: kept_keys_def b2_def seal_prepare_def seal_bitmaps_def Let_def del: not_None_eq)
  have f: "kept_keys (bkeys L i) (upd_hash (\<lambda>h. h\<lparr>status := t, finished_at := n\<rparr>) b2)"
    if "status (the_hash (bkeys L i)) = ''running''" for t n
    using that k s by (simp add: kept_keys_def ends_status_def del: not_None_eq)
  have c: "kept_keys (bkeys L i) x \<Longrightarrow> kept_keys (bkeys L i) (fst (claim_complete n x))"
    "kept_keys (bkeys L i) x \<Longrightarrow> kept_keys (bkeys L i) (fst (claim_success n x))" for x n
    using kept_trans kept_claims by blast+
  show ?thesis
    using k f c by (auto simp: sealBatch_def seal_settle_def p Let_def split_beta b2_def [symmetric] split: option.splits)
qed

lemma kept_quiet:
  assumes k: "keyed_inv D i (bkeys L i)" and clk: "clk < D" and ttl: "0 < ttl"
  shows "p_id p = i \<Longrightarrow> kept_keys (bkeys L i) (bkeys (fst (createBatch clk ttl now sc p L)) i)"
    and "kept_keys (bkeys L i) (bkeys (fst (addJobs clk ttl i n L)) i)"
    and "kept_keys (bkeys L i) (bkeys (fst (claimCallback clk now node i kind L)) i)"
    and "kept_keys (bkeys L i) (bkeys (fst (markCallbackInvoked clk now i kind L)) i)"
    and "kept_keys (bkeys L i) (bkeys (recordCallbackRunner clk i node L) i)"
    and "kept_keys (bkeys L i) (bkeys (fst (markFinishedIfRunning clk now sc i q L)) i)"
    and "kept_keys (bkeys L i) (bkeys (fst (cancelBatch clk sc i L)) i)"
    and "kept_keys (bkeys L i) (bkeys (markReconcilerRefired clk now i L) i)"
proof -
  note [simp] = keyed_purge [OF k clk] Let_def
  note [simp del] = not_None_eq
  show "kept_keys (bkeys L i) (bkeys (fst (createBatch clk ttl now sc p L)) i)" if "p_id p = i"
    using that k by (cases "hash (bkeys L i) = None")
      (simp_all add: createBatch_def createBatchScript_def createBatchIndex_def kept_keys_def keyed_inv_def del: not_None_eq)
  show "kept_keys (bkeys L i) (bkeys (fst (addJobs clk ttl i n L)) i)"
    using ttl by (simp add: addJobs_def kept_keys_def del: not_None_eq)
  show "kept_keys (bkeys L i) (bkeys (fst (claimCallback clk now node i kind L)) i)"
    by (simp add: claimCallback_def claim_field_def set_claim_field_def kept_keys_def setnx_def split: option.splits)
  show "kept_keys (bkeys L i) (bkeys (fst (markCallbackInvoked clk now i kind L)) i)"
    by (simp add: markCallbackInvoked_def kept_keys_def)
  show "kept_keys (bkeys L i) (bkeys (recordCallbackRunner clk i node L) i)"
    by (simp add: recordCallbackRunner_def kept_keys_def)
  show "kept_keys (bkeys L i) (bkeys (fst (markFinishedIfRunning clk now sc i q L)) i)"
    by (simp add: markFinishedIfRunning_def kept_keys_def ends_status_def)
  show "kept_keys (bkeys L i) (bkeys (fst (cancelBatch clk sc i L)) i)"
    by (simp add: cancelBatch_def updateBatchStatus_def updateStatus_def split_beta kept_keys_def)
  show "kept_keys (bkeys L i) (bkeys (markReconcilerRefired clk now i L) i)"
    by (simp add: markReconcilerRefired_def kept_keys_def)
qed

lemma exec_kept:
  assumes inv: "ledger_inv D L" and w: "in_window C D clk"
  shows "kept_keys (bkeys L i) (bkeys (fst (exec C clk now sc x L)) i)"
proof -
  have k: "keyed_inv D j (bkeys L j)" for j using inv by (simp add: ledger_inv_def)
  have clk: "clk < D" and ttl: "0 < c_ttl C" using w window_pos by (auto simp: in_window_def)
  have ttl': "0 < a_ttl (mk_args C now sc s q)" for s q using ttl by (simp add: mk_args_def)
  note keeps = kept_quiet [OF k clk ttl] kept_seal [OF k clk ttl] kept_done [OF k clk ttl']
  show ?thesis
  proof (cases x)
    case (Create p)
    then show ?thesis by (cases "p_id p = i") (simp_all add: other_create keeps)
  next
    case (Add j n)
    then show ?thesis by (cases "j = i") (simp_all add: other_keys keeps)
  next
    case (Seal j)
    then show ?thesis by (cases "j = i") (simp_all add: other_keys keeps)
  next
    case (Done j s q)
    then show ?thesis by (cases "j = i") (simp_all add: other_keys keeps)
  next
    case (Claim j n kind)
    then show ?thesis by (cases "j = i") (simp_all add: other_keys keeps)
  next
    case (Invoke j kind)
    then show ?thesis by (cases "j = i") (simp_all add: other_keys keeps)
  next
    case (Runner j n)
    then show ?thesis by (cases "j = i") (simp_all add: other_keys keeps)
  next
    case (Finish j q)
    then show ?thesis by (cases "j = i") (simp_all add: other_keys keeps)
  next
    case (Cancel j)
    then show ?thesis by (cases "j = i") (simp_all add: other_keys keeps)
  next
    case (Refire j)
    then show ?thesis by (cases "j = i") (simp_all add: other_keys keeps)
  qed
qed

lemma reach_kept:
  assumes "(lstep C D)\<^sup>*\<^sup>* L L'" and "ledger_inv D L"
  shows "kept_keys (bkeys L i) (bkeys L' i)"
proof (rule lst.reach_rel [OF assms, where R = "\<lambda>L L'. kept_keys (bkeys L i) (bkeys L' i)"])
  fix a b assume "ledger_inv D a" and "lstep C D a b"
  then show "kept_keys (bkeys a i) (bkeys b i)"
    unfolding lstep_def using exec_kept by (metis fst_conv in_window_def kept_refl)
qed (auto intro: kept_trans)

subsection \<open>The handlers are made of ledger calls\<close>

lemma read_alive: "ledger_inv D L \<Longrightarrow> clk < D \<Longrightarrow> read_hash clk i L = hash (bkeys L i)"
  by (auto simp: read_hash_def ledger_inv_def keyed_inv_def keys_survive_def intro: purge_survives)

lemma view_id:
  assumes "ledger_inv D L" and "clk < D" and "findBatch clk i L = Some b"
  shows "bv_id b = i" "hash (bkeys L i) \<noteq> None"
proof -
  have h: "hashToBatch (hash (bkeys L i)) = Some b" using assms by (simp add: findBatch_def read_alive)
  then show "hash (bkeys L i) \<noteq> None" by (auto simp: hashToBatch_def split: option.splits)
  then have "h_id (the_hash (bkeys L i)) = Some i" using assms(1) by (simp add: ledger_inv_def keyed_inv_def)
  then show "bv_id b = i" using h by (auto simp: hashToBatch_def the_hash_def key_val_def text_of_def Let_def split: option.splits)
qed

lemma done_reach:
  assumes "in_window C D (pe_clk E)" and "pe_now E \<noteq> ''''"
  shows "(lstep C D)\<^sup>*\<^sup>* L (fst (done_call C E e L))"
  by (rule lstep_exec [OF assms, where x = "Done (ce_batch e) (ce_seq e) (completion_op (ce_status e))" and sc = "pe_score E"])
    (simp_all add: done_call_def)

text \<open>Any sequence of completion scripts, in whatever order the pipelines ran them.\<close>

lemma run_pipe_reach:
  assumes "\<And>e L. (lstep C D)\<^sup>*\<^sup>* L (fst (f e L))"
  shows "(lstep C D)\<^sup>*\<^sup>* L (fst (run_pipe f xs L))"
proof (induction xs arbitrary: L)
  case (Cons x xs)
  obtain e ns where x: "x = (e, ns)" by fastforce
  show ?case using Cons.IH rtranclp_trans [OF assms Cons.IH] by (simp add: x split_beta)
qed simp

lemma rerun_pipe_reach:
  assumes "\<And>e L. (lstep C D)\<^sup>*\<^sup>* L (fst (f e L))"
  shows "(lstep C D)\<^sup>*\<^sup>* L (fst (rerun_pipe f xs L))"
proof (induction xs arbitrary: L)
  case (Cons x xs)
  obtain e r where x: "x = (e, r)" by fastforce
  show ?case using Cons.IH rtranclp_trans [OF assms Cons.IH] by (cases r) (simp_all add: x split_beta)
qed simp

lemma record_reach:
  assumes "in_window C D (pe_clk E)" and "pe_now E \<noteq> ''''"
  shows "(lstep C D)\<^sup>*\<^sup>* L (fst (recordCompletionsBatch C E es L))"
proof -
  note d = done_reach [OF assms]
  note r = run_pipe_reach [of C D "done_call C E", OF d] rerun_pipe_reach [of C D "done_call C E", OF d]
  show ?thesis
    using r rtranclp_trans [OF r(1) r(1)] rtranclp_trans [OF r(1) r(2)]
    by (simp add: recordCompletionsBatch_def prefix_run_def split_beta Let_def split: pipe.splits)
qed

lemma runners_reach:
  assumes "in_window C D clk" and "ledger_inv D L"
  shows "(lstep C D)\<^sup>*\<^sup>* L (recordCallbackRunners P clk up cbs L)"
proof -
  have "(lstep C D)\<^sup>*\<^sup>* L (recordCallbackRunner clk i n L)" for i n L
    by (rule lstep_exec [OF assms(1), where x = "Runner i n" and now = "''x''"]) simp_all
  then have "(lstep C D)\<^sup>*\<^sup>* L (fold (\<lambda>cb. recordCallbackRunner clk (cb_batch cb) (ec_node P)) cbs L)"
    by (intro lst.reach_fold [OF _ assms(2)])
  then show ?thesis by (simp add: recordCallbackRunners_def)
qed

lemma poll_reach:
  assumes "in_window C D (pe_clk E)" and "pe_now E \<noteq> ''''" and "ledger_inv D L"
  shows "(lstep C D)\<^sup>*\<^sup>* L (fst (processBatch K C P E up V raws L))"
proof -
  let ?r = "recordCompletionsBatch C E (List.map_filter (valid_event K) raws) L"
  have 1: "(lstep C D)\<^sup>*\<^sup>* L (fst ?r)" by (rule record_reach [OF assms(1,2)])
  have 2: "(lstep C D)\<^sup>*\<^sup>* (fst ?r) (recordCallbackRunners P (pe_clk E) q ds (fst ?r))" for q ds
    by (rule runners_reach [OF assms(1) lst.reach_good [OF 1 assms(3)]])
  show ?thesis
    using 1 rtranclp_trans [OF 1 2]
    by (auto simp: processBatch_def Let_def split_beta split: prod.splits option.splits)
qed

lemma callback_reach:
  assumes "in_window C D (cv_clk V)" and "cv_now V \<noteq> ''''" and "ledger_inv D L"
  shows "(lstep C D)\<^sup>*\<^sup>* L (fst (process_cb V cb L))"
proof -
  have c: "(lstep C D)\<^sup>*\<^sup>* L (fst (claimCallback (cv_clk V) (cv_now V) n i k L))" for n i k L
    by (rule lstep_exec [OF assms(1,2), where x = "Claim i n k"]) simp_all
  have r: "(lstep C D)\<^sup>*\<^sup>* L (when_run f (recordCallbackRunner (cv_clk V) i n) L)" for f i n L
    by (cases f) (auto intro: lstep_exec [OF assms(1,2), where x = "Runner i n"])
  have m: "(lstep C D)\<^sup>*\<^sup>* L (fst (markCallbackInvoked (cv_clk V) (cv_now V) i k L))" for i k L
    by (rule lstep_exec [OF assms(1,2), where x = "Invoke i k"]) simp_all
  obtain L1 w where t: "claim_turn V cb L = (L1, w)" by fastforce
  let ?L2 = "when_run (cv_runner V) (recordCallbackRunner (cv_clk V) (cb_batch cb) (cv_node V)) L1"
  have 1: "(lstep C D)\<^sup>*\<^sup>* L L1" using c [of L] t by (auto simp: claim_turn_def split_beta split: if_splits)
  note 2 = rtranclp_trans [OF 1 r [of L1 "cv_runner V" "cb_batch cb" "cv_node V"]]
  have "(lstep C D)\<^sup>*\<^sup>* ?L2 (fst (invoke_turn V cb ?L2))" using m by (simp add: invoke_turn_def split_beta)
  note 3 = rtranclp_trans [OF 2 this]
  show ?thesis using 1 2 3 by (simp add: process_cb_def t Let_def split_beta split: option.splits bool.splits)
qed

lemma expired_reach:
  assumes "in_window C D (pe_clk E)" and "pe_now E \<noteq> ''''"
  shows "(lstep C D)\<^sup>*\<^sup>* L (fst (publish_expired dec fmt C P E stored now src m fs L))"
  using record_reach [OF assms]
  by (auto simp: publish_expired_def Let_def split: prod.splits option.splits bool.splits) (metis fst_conv)+

lemma markFinished_reach:
  assumes "in_window C D (sw_clk E)" and "sw_now E \<noteq> ''''" and "is_terminal w"
  shows "(lstep C D)\<^sup>*\<^sup>* L (fst (sweep_mark E X i w L))"
proof -
  have "(lstep C D)\<^sup>*\<^sup>* L (fst (markFinishedIfRunning (sw_clk E) (sw_now E) (sw_score E) i w L))"
    by (rule lstep_exec [OF assms(1,2), where x = "Finish i w" and sc = "sw_score E"]) (use assms(3) in simp_all)
  then show ?thesis by (simp add: sweep_mark_def split_beta)
qed

lemma stale_reach:
  assumes "in_window C D (sw_clk E)" and "sw_now E \<noteq> ''''"
  shows "(lstep C D)\<^sup>*\<^sup>* L (fst (reconcileRunning K P E X b L))"
  using markFinished_reach [OF assms]
  by (auto simp: reconcileRunning_def finish_batch_def is_terminal_def Let_def split_beta split: option.splits)

lemma lost_reach:
  assumes "in_window C D (sw_clk E)" and "sw_now E \<noteq> ''''" and "ledger_inv D L"
  shows "(lstep C D)\<^sup>*\<^sup>* L (fst (refireCallback K P E X b L))"
proof -
  have "(lstep C D)\<^sup>*\<^sup>* L (markReconcilerRefired (sw_clk E) (sw_now E) (bv_id v) L)" if "sweep_find E X (bv_id b) L = Some v" for v
  proof (rule lstep_exec [OF assms(1,2), where x = "Refire (bv_id v)"])
    have "findBatch (sw_clk E) (bv_id b) L = Some v" using that by (simp add: sweep_find_def split: if_splits)
    then show "lop_ok L (Refire (bv_id v))" using view_id [OF assms(3)] assms(1) by (auto simp: in_window_def)
  qed simp
  then show ?thesis by (auto simp: refireCallback_def Let_def split_beta when_run_def split: option.splits)
qed

lemma each_reach:
  assumes "\<And>b L. ledger_inv D L \<Longrightarrow> (lstep C D)\<^sup>*\<^sup>* L (fst (f b L))" and "ledger_inv D L"
  shows "(lstep C D)\<^sup>*\<^sup>* L (fst (each_batch f bs L))"
  using assms(2)
proof (induction bs arbitrary: L)
  case (Cons b bs)
  note 1 = assms(1) [OF Cons.prems, of b]
  from Cons.IH [OF lst.reach_good [OF 1 Cons.prems]] 1 show ?case by (simp add: split_beta)
qed simp

lemma listing_bkeys [simp]:
  "bkeys (fst (staleBatches Q ord clk mx L)) = bkeys L" "bkeys (fst (doneBatchesWithoutCallback Q ord clk mx L)) = bkeys L"
  "bkeys (reconcileBatchCounts R ord clk L) = bkeys L"
  by (auto simp: staleBatches_def doneBatchesWithoutCallback_def reconcileBatchCounts_def Let_def split: option.splits)

lemma sweep_reach:
  assumes "in_window C D (sw_clk E)" and "sw_now E \<noteq> ''''" and "ledger_inv D L"
  shows "(lstep C D)\<^sup>*\<^sup>* L (fst (sweep_body K P S E I L))"
proof -
  let ?mx = "sw_score E - sweep_interval (sc_interval S)" and ?n = "sweep_max (sc_max S)"
  obtain L1 r1 where 1: "staleBatches (si_stale_list I) (si_ord I) (sw_clk E) ?mx L = (L1, r1)" by fastforce
  obtain L2 r2 where 2: "doneBatchesWithoutCallback (si_lost_list I) (si_ord I) (sw_clk E) ?mx L1 = (L2, r2)" by fastforce
  have b: "bkeys L1 = bkeys L" "bkeys L2 = bkeys L"
    using arg_cong [OF 1, of "\<lambda>x. bkeys (fst x)"] arg_cong [OF 2, of "\<lambda>x. bkeys (fst x)"] by simp_all
  have i2: "ledger_inv D L2" using assms(3) ledger_inv_bkeys [OF b(2)] by simp
  note s = each_reach [OF stale_reach [OF assms(1,2)] i2]
  have i3: "ledger_inv D (fst (each_batch (reconcileRunning K P E (si_stale I)) bs L2))" for bs
    by (rule lst.reach_good [OF s i2])
  have l: "(lstep C D)\<^sup>*\<^sup>* (fst (each_batch (reconcileRunning K P E (si_stale I)) bs L2))
      (fst (each_batch (refireCallback K P E (si_lost I)) cs (fst (each_batch (reconcileRunning K P E (si_stale I)) bs L2))))" for bs cs
    by (rule each_reach [OF lost_reach [OF assms(1,2)] i3])
  have c: "(lstep C D)\<^sup>*\<^sup>* L (reconcileBatchCounts Q ord clk (fst (each_batch (refireCallback K P E (si_lost I)) cs
      (fst (each_batch (reconcileRunning K P E (si_stale I)) bs L2)))))" for Q ord clk bs cs
    by (rule rtranclp_trans [OF lstep_bkeys [OF b(2)] rtranclp_trans [OF s rtranclp_trans [OF l lstep_bkeys]]]) simp
  show ?thesis
    using c lstep_bkeys [OF b(1)] lstep_bkeys [OF b(2)]
    by (simp add: sweep_body_def Let_def 1 2 split_beta split: option.splits)
qed

subsection \<open>Runs of the whole delivery system\<close>

text \<open>Clients, event processors, callback processors, reconcilers and expired publishers on one
  ledger, in any order. Everything produced and every callback action is logged. A delivery may
  bring any callback message, old or new; Redis answers its invoke guard.\<close>

inductive sys_step :: "codec \<Rightarrow> lcfg \<Rightarrow> event_cfg \<Rightarrow> int \<Rightarrow> ledger \<Rightarrow> ledger \<Rightarrow> cb_rec list \<Rightarrow> cb_act list \<Rightarrow> bool"
  for K C P D L where
  client_call: "in_window C D clk \<Longrightarrow> now \<noteq> '''' \<Longrightarrow> lop_ok L x \<Longrightarrow> exec C clk now sc x L = (L', rep) \<Longrightarrow>
     sys_step K C P D L L' [] []"
| event_poll: "in_window C D (pe_clk E) \<Longrightarrow> pe_now E \<noteq> '''' \<Longrightarrow>
     processBatch K C P E up V raws L = (L', out, r) \<Longrightarrow> sys_step K C P D L L' out []"
| delivery: "in_window C D (cv_clk W) \<Longrightarrow> cv_now W \<noteq> '''' \<Longrightarrow> cv_mark W = Replied \<Longrightarrow>
     process_cb W cb L = (L', as, q) \<Longrightarrow> sys_step K C P D L L' [] as"
| reconcile: "in_window C D (sw_clk G) \<Longrightarrow> sw_now G \<noteq> '''' \<Longrightarrow>
     sweep_body K P S G I L = (L', out, z) \<Longrightarrow> sys_step K C P D L L' out []"
| expiry: "in_window C D (pe_clk E) \<Longrightarrow> pe_now E \<noteq> '''' \<Longrightarrow>
     publish_expired dec fmt C P E stored t src m fs L = (L', y) \<Longrightarrow> sys_step K C P D L L' (xo_msgs y) []"

inductive sys_run :: "codec \<Rightarrow> lcfg \<Rightarrow> event_cfg \<Rightarrow> int \<Rightarrow> ledger \<Rightarrow> ledger \<Rightarrow> cb_rec list \<Rightarrow> cb_act list \<Rightarrow> bool"
  for K C P D L0 where
  sys_init: "sys_run K C P D L0 L0 [] []"
| sys_next: "sys_run K C P D L0 L out as \<Longrightarrow> sys_step K C P D L L' out' as' \<Longrightarrow>
     sys_run K C P D L0 L' (out @ out') (as @ as')"

lemma step_reach:
  assumes "sys_step K C P D L L' out as" and "ledger_inv D L"
  shows "(lstep C D)\<^sup>*\<^sup>* L L'"
  using assms(1)
proof cases
  case (client_call clk now x sc rep)
  then show ?thesis using lstep_exec [OF client_call(3,4,5), of L' sc] by simp
next
  case (event_poll E up V raws r)
  then show ?thesis using poll_reach [OF event_poll(2,3) assms(2), of K P up V raws] by simp
next
  case (delivery W cb q)
  then show ?thesis using callback_reach [OF delivery(2,3) assms(2), of cb] by simp
next
  case (reconcile G S I z)
  then show ?thesis using sweep_reach [OF reconcile(2,3) assms(2), of K P S I] by simp
next
  case (expiry E dec fmt stored t src m fs y)
  then show ?thesis using expired_reach [OF expiry(3,4), of L dec fmt P stored t src m fs] by simp
qed

lemma sys_inv: "sys_run K C P D L0 L out as \<Longrightarrow> ledger_inv D L0 \<Longrightarrow> ledger_inv D L"
proof (induction rule: sys_run.induct)
  case (sys_next L out as L' out' as')
  then show ?case using lst.reach_good [OF step_reach [OF sys_next(2)]] by blast
qed

lemma sys_reach: "sys_run K C P D L0 L out as \<Longrightarrow> ledger_inv D L0 \<Longrightarrow> (lstep C D)\<^sup>*\<^sup>* L0 L"
proof (induction rule: sys_run.induct)
  case (sys_next L out as L' out' as')
  from rtranclp_trans [OF sys_next.IH [OF sys_next(4)] step_reach [OF sys_next(2) sys_inv [OF sys_next(1,4)]]]
  show ?case .
qed simp

lemma sys_kept: "sys_run K C P D L0 L out as \<Longrightarrow> ledger_inv D L0 \<Longrightarrow> kept_keys (bkeys L0 i) (bkeys L i)"
  by (rule reach_kept [OF sys_reach])

end
