(* ===== verification/Delivery_Claims.thy ===== *)
theory Delivery_Claims
  imports Delivery_Props Job_Claims
begin

text \<open>
  Delivery of callbacks: a callback that the ledger fires is produced and invoked, and invoked at
  most once; what can and cannot be recovered afterwards; and the reconciler's repairs.
\<close>

subsection \<open>Invocation\<close>

definition invokes :: "string \<Rightarrow> string \<Rightarrow> cb_act \<Rightarrow> bool" where
  "invokes i k a = (case a of InvokeCb cb \<Rightarrow> cb_batch cb = i \<and> claimKind (cb_outcome cb) = k | _ \<Rightarrow> False)"

definition istamp :: "string \<Rightarrow> ledger \<Rightarrow> string \<Rightarrow> string option" where
  "istamp k L i = (if k = ''success'' then success_callback_invoked_at (the_hash (bkeys L i))
     else complete_callback_invoked_at (the_hash (bkeys L i)))"

lemma kept_istamp:
  assumes "kept_keys (bkeys L i) (bkeys L' i)" and "hash (bkeys L i) \<noteq> None"
  shows "istamp k L i = Some v \<Longrightarrow> istamp k L' i = Some v" and "hash (bkeys L' i) \<noteq> None"
  using assms by (auto simp: kept_keys_def istamp_def split: if_splits)

lemma invokes_callback: "filter (invokes i k) (invoke_callback W cb) =
    (if cb_batch cb = i \<and> claimKind (cb_outcome cb) = k then [InvokeCb cb] else [])"
  by (auto simp: invoke_callback_def invokes_def split: option.splits)

lemma mark_invoked:
  assumes "ledger_inv D L" and "clk < D" and "hash (bkeys L i) \<noteq> None" and "i \<noteq> ''''" and "k = ''success'' \<or> k = ''complete''"
  shows "snd (markCallbackInvoked clk now i k L) = (istamp k L i = None)"
    and "istamp k (fst (markCallbackInvoked clk now i k L)) i \<noteq> None"
proof -
  have p: "purge_batch clk (bkeys L i) = bkeys L i" using assms(1,2) by (auto simp: ledger_inv_def intro: keyed_purge)
  show "snd (markCallbackInvoked clk now i k L) = (istamp k L i = None)"
    and "istamp k (fst (markCallbackInvoked clk now i k L)) i \<noteq> None"
    using assms(3-5) by (auto simp: markCallbackInvoked_def p Let_def istamp_def)
qed

lemma claimKind_cases: "claimKind w = ''success'' \<or> claimKind w = ''complete''"
  by (simp add: claimKind_def)

text \<open>One delivery invokes a kind at most once, and only while its invoke stamp is empty.\<close>

lemma deliver_invokes:
  assumes inv: "ledger_inv D L" and w: "in_window C D (cv_clk W)" and n: "cv_now W \<noteq> ''''" and m: "cv_mark W = Replied"
    and p: "process_cb W cb L = (L', as, q)" and h: "hash (bkeys L i) \<noteq> None"
  shows "filter (invokes i k) as = [] \<or>
     length (filter (invokes i k) as) = 1 \<and> istamp k L i = None \<and> istamp k L' i \<noteq> None"
proof -
  obtain L1 won where t: "claim_turn W cb L = (L1, won)" by fastforce
  let ?L2 = "when_run (cv_runner W) (recordCallbackRunner (cv_clk W) (cb_batch cb) (cv_node W)) L1"
  have c: "(lstep C D)\<^sup>*\<^sup>* L (fst (claimCallback (cv_clk W) (cv_now W) a b c L))" for a b c
    by (rule lstep_exec [OF w n, where x = "Claim b a c"]) simp_all
  have 1: "(lstep C D)\<^sup>*\<^sup>* L L1" using c t by (auto simp: claim_turn_def split_beta split: if_splits)
  have 2: "(lstep C D)\<^sup>*\<^sup>* L1 ?L2"
    by (cases "cv_runner W") (auto intro: lstep_exec [OF w n, where x = "Runner (cb_batch cb) (cv_node W)"])
  note r = rtranclp_trans [OF 1 2]
  note inv2 = lst.reach_good [OF r inv]
  note kept = kept_istamp [OF reach_kept [OF r inv] h]
  have clk: "cv_clk W < D" using w by (simp add: in_window_def)
  show ?thesis
  proof (cases "cb_batch cb = i \<and> claimKind (cb_outcome cb) = k \<and> won = Some True \<and> cv_invoker W \<and> cb_batch cb \<noteq> ''''")
    case False
    then show ?thesis
      using p t by (auto simp: process_cb_def Let_def split_beta invokes_callback split: option.splits bool.splits if_splits)
  next
    case True
    have k: "k = ''success'' \<or> k = ''complete''" using claimKind_cases [of "cb_outcome cb"] True by simp
    note mk = mark_invoked [OF inv2 clk kept(2) _ k, of "cv_now W"]
    have "L' = fst (invoke_turn W cb ?L2)" "as = (if snd (invoke_turn W cb ?L2) then invoke_callback W cb else [])"
      using p t True by (auto simp: process_cb_def Let_def split_beta)
    moreover have "istamp k L i = None" if "istamp k ?L2 i = None" using kept(1) that by (cases "istamp k L i") auto
    ultimately show ?thesis
      using True m mk by (auto simp: invoke_turn_def split_beta invokes_callback)
  qed
qed


subsection \<open>Fired callbacks are produced\<close>

lemma done_claims:
  assumes inv: "ledger_inv D L" and w: "in_window C D (pe_clk E)" and d: "done_call C E e L = (L', r)"
  shows "c_stamp L' i = (c_stamp L i \<or> ce_batch e = i \<and> complete_fired r)"
    and "s_stamp L' i = (s_stamp L i \<or> ce_batch e = i \<and> success_fired r)"
    and "complete_fired r \<Longrightarrow> \<not> c_stamp L (ce_batch e)" and "success_fired r \<Longrightarrow> \<not> s_stamp L (ce_batch e)"
proof -
  let ?a = "mk_args C (pe_now E) (pe_score E) (ce_seq e) (completion_op (ce_status e))"
  have clk: "pe_clk E < D" and ttl: "0 < a_ttl ?a" using w window_pos by (auto simp: in_window_def mk_args_def)
  have L': "L' = fst (batchDoneJob (pe_clk E) ?a (ce_batch e) L)" "r = snd (batchDoneJob (pe_clk E) ?a (ce_batch e) L)"
    using d by (simp_all add: done_call_def)
  have k: "keyed_inv D (ce_batch e) (bkeys L (ce_batch e))" using inv by (simp add: ledger_inv_def)
  have all: "c_stamp L' (ce_batch e) = (c_stamp L (ce_batch e) \<or> complete_fired r) \<and>
      s_stamp L' (ce_batch e) = (s_stamp L (ce_batch e) \<or> success_fired r) \<and>
      (complete_fired r \<longrightarrow> \<not> c_stamp L (ce_batch e)) \<and> (success_fired r \<longrightarrow> \<not> s_stamp L (ce_batch e))"
    using k clk ttl
  proof (cases rule: batchDoneJob_cases)
    case (refused v)
    then show ?thesis by (simp add: L')
  next
    case (applied b1 b2)
    have b2: "complete_callback_dispatched_at (the_hash b2) = complete_callback_dispatched_at (the_hash (bkeys L (ce_batch e)))"
      "success_callback_dispatched_at (the_hash b2) = success_callback_dispatched_at (the_hash (bkeys L (ce_batch e)))"
      unfolding applied(7) by (simp_all add: card_counters_def split: prod.splits)
    show ?thesis
      using settle_stamps [OF ttl, where clk = "pe_clk E" and i = "ce_batch e" and b = b2 and L = L]
      by (auto simp: L' applied(1) c_stamp_def s_stamp_def b2 simp del: not_None_eq)
  qed
  have o: "ce_batch e \<noteq> i \<Longrightarrow> bkeys L' i = bkeys L i" using other_keys(1) by (auto simp: L')
  show "c_stamp L' i = (c_stamp L i \<or> ce_batch e = i \<and> complete_fired r)"
    and "s_stamp L' i = (s_stamp L i \<or> ce_batch e = i \<and> success_fired r)"
    using all o by (cases "ce_batch e = i"; auto simp: c_stamp_def s_stamp_def)+
  show "complete_fired r \<Longrightarrow> \<not> c_stamp L (ce_batch e)" and "success_fired r \<Longrightarrow> \<not> s_stamp L (ce_batch e)"
    using all by blast+
qed

lemma fire_code: "(fst (fire_reply fs fc t) = Suc 0 \<or> fst (fire_reply fs fc t) = 3) = (fc \<or> fs)"
  by (simp add: fire_reply_def)

lemma settle_code: "fst (snd (settle clk a i b L)) = 1 \<or> fst (snd (settle clk a i b L)) = 3 \<Longrightarrow>
    complete_fired (snd (settle clk a i b L)) \<or> success_fired (snd (settle clk a i b L))"
  by (simp add: settle_def Let_def split_beta fire_code split: option.splits if_splits)

lemma done_settles: "fst (snd (batchDoneJob clk a i L)) = 0 \<or> (\<exists>b L1. batchDoneJob clk a i L = settle clk a i b L1)"
  by (simp add: batchDoneJob_def Let_def split: option.splits) blast

lemma done_code: "done_call C E e L = (L', r) \<Longrightarrow> fst r = 1 \<or> fst r = 3 \<Longrightarrow> complete_fired r \<or> success_fired r"
  unfolding done_call_def using done_settles settle_code
  by (metis One_nat_def numeral_3_eq_3 old.nat.distinct(1) snd_conv zero_neq_one)

text \<open>The replies of a poll, whichever pipeline they came from: the claim stamps a poll sets are exactly
  those its replies fire, and nothing fires that was claimed before.\<close>

definition replies_ok :: "ledger \<Rightarrow> ledger \<Rightarrow> (completion_event \<times> nat \<times> string) list \<Rightarrow> bool" where
  "replies_ok L L' rs =
     ((\<forall>i. (c_stamp L' i = (c_stamp L i \<or> (\<exists>(e, r) \<in> set rs. ce_batch e = i \<and> complete_fired r))) \<and>
          (s_stamp L' i = (s_stamp L i \<or> (\<exists>(e, r) \<in> set rs. ce_batch e = i \<and> success_fired r))) \<and>
          (\<forall>(e, r) \<in> set rs. ce_batch e = i \<longrightarrow> (complete_fired r \<longrightarrow> \<not> c_stamp L i) \<and> (success_fired r \<longrightarrow> \<not> s_stamp L i))) \<and>
      (\<forall>(e, r) \<in> set rs. fst r = 1 \<or> fst r = 3 \<longrightarrow> complete_fired r \<or> success_fired r))"

lemma replies_Nil [simp]: "replies_ok L L []"
  by (simp add: replies_ok_def)

lemma replies_one:
  assumes "ledger_inv D L" and "in_window C D (pe_clk E)" and "done_call C E e L = (L', r)"
  shows "replies_ok L L' [(e, r)]"
  using done_claims [OF assms] done_code [OF assms(3)] by (auto simp: replies_ok_def)

lemma replies_append:
  assumes "replies_ok L L1 rs" and "replies_ok L1 L2 qs"
  shows "replies_ok L L2 (rs @ qs)"
  using assms unfolding replies_ok_def by (auto simp: split_beta)

lemma replies_set: "set rs = set qs \<Longrightarrow> replies_ok L L' rs = replies_ok L L' qs"
  by (simp add: replies_ok_def)

definition answered :: "(completion_event \<times> (nat \<times> string) option) list \<Rightarrow> (completion_event \<times> nat \<times> string) list" where
  "answered xs = List.map_filter (\<lambda>(e, r). case r of None \<Rightarrow> None | Some q \<Rightarrow> Some (e, q)) xs"

lemma run_pipe_replies:
  assumes w: "in_window C D (pe_clk E)" and n: "pe_now E \<noteq> ''''" and inv: "ledger_inv D L"
    and r: "run_pipe (done_call C E) (zip es fl) L = (L', rs)" and l: "length fl = length es"
  shows "replies_ok L L' (answered (zip es rs)) \<and> length rs = length es"
  using inv r l
proof (induction es arbitrary: fl L rs)
  case Nil
  then show ?case by (simp add: answered_def List.map_filter_def)
next
  case (Cons e es)
  obtain f fl' where fl: "fl = f # fl'" using Cons.prems(3) by (cases fl) auto
  show ?case
  proof (cases f)
    case True
    obtain rs' where rs: "rs = None # rs'" "run_pipe (done_call C E) (zip es fl') L = (L', rs')"
      using Cons.prems(2) fl True by (auto simp: split_beta split: prod.splits)
    show ?thesis using Cons.IH [OF Cons.prems(1) rs(2)] Cons.prems(3) fl rs(1) by (simp add: answered_def List.map_filter_def)
  next
    case False
    obtain L1 q where q: "done_call C E e L = (L1, q)" by (cases "done_call C E e L")
    obtain rs' where rs: "rs = Some q # rs'" "run_pipe (done_call C E) (zip es fl') L1 = (L', rs')"
      using Cons.prems(2) fl False q by (auto simp: split_beta split: prod.splits)
    have "(lstep C D)\<^sup>*\<^sup>* L L1" using done_reach [OF w n, of L e] q by simp
    note inv1 = lst.reach_good [OF this Cons.prems(1)]
    have "replies_ok L L' ([(e, q)] @ answered (zip es rs'))"
      using Cons.IH [OF inv1 rs(2)] Cons.prems(3) fl by (intro replies_append [OF replies_one [OF Cons.prems(1) w q]]) simp
    then show ?thesis using Cons.IH [OF inv1 rs(2)] Cons.prems(3) fl rs(1) by (simp add: answered_def List.map_filter_def)
  qed
qed

lemma rerun_pipe_replies:
  assumes w: "in_window C D (pe_clk E)" and n: "pe_now E \<noteq> ''''" and inv: "ledger_inv D L"
    and r: "rerun_pipe (done_call C E) (zip es rs) L = (L', qs)" and l: "length rs = length es"
  shows "length qs = length es \<and>
     (\<exists>new. replies_ok L L' new \<and> set (zip es qs) = set (answered (zip es rs)) \<union> set new)"
  using inv r l
proof (induction es arbitrary: rs L qs)
  case Nil
  then show ?case by (auto simp: answered_def List.map_filter_def intro: exI [of _ "[]"])
next
  case (Cons e es)
  obtain o' rs' where rs: "rs = o' # rs'" using Cons.prems(3) by (cases rs) auto
  show ?case
  proof (cases o')
    case (Some q)
    obtain qs' where qs: "qs = q # qs'" "rerun_pipe (done_call C E) (zip es rs') L = (L', qs')"
      using Cons.prems(2) rs Some by (auto simp: split_beta split: prod.splits)
    obtain new where "length qs' = length es" "replies_ok L L' new"
        "set (zip es qs') = set (answered (zip es rs')) \<union> set new"
      using Cons.IH [OF Cons.prems(1) qs(2)] Cons.prems(3) rs by auto
    then show ?thesis using qs(1) rs Some by (auto simp: answered_def List.map_filter_def)
  next
    case None
    obtain L1 q where q: "done_call C E e L = (L1, q)" by (cases "done_call C E e L")
    obtain qs' where qs: "qs = q # qs'" "rerun_pipe (done_call C E) (zip es rs') L1 = (L', qs')"
      using Cons.prems(2) rs None q by (auto simp: split_beta split: prod.splits)
    have "(lstep C D)\<^sup>*\<^sup>* L L1" using done_reach [OF w n, of L e] q by simp
    note inv1 = lst.reach_good [OF this Cons.prems(1)]
    obtain new where new: "length qs' = length es" "replies_ok L1 L' new"
        "set (zip es qs') = set (answered (zip es rs')) \<union> set new"
      using Cons.IH [OF inv1 qs(2)] Cons.prems(3) rs by auto
    have "replies_ok L L' ([(e, q)] @ new)" by (rule replies_append [OF replies_one [OF Cons.prems(1) w q] new(2)])
    then show ?thesis using new qs(1) rs None
      by (intro conjI exI [of _ "[(e, q)] @ new"]) (auto simp: answered_def List.map_filter_def)
  qed
qed

lemma answered_all: "length rs = length es \<Longrightarrow> filter (\<lambda>(e, r). r = None) (zip es rs) = [] \<Longrightarrow> answered (zip es rs) = zip es (map the rs)"
  by (induction es rs rule: list_induct2') (auto simp: answered_def List.map_filter_def split: option.splits)

lemma record_replies:
  assumes w: "in_window C D (pe_clk E)" and n: "pe_now E \<noteq> ''''" and inv: "ledger_inv D L"
    and r: "recordCompletionsBatch C E es L = (L', Some c)"
  shows "\<exists>rs. replies_ok L L' rs \<and> collect E rs L' = Some c"
proof (cases "es = []")
  case True
  then show ?thesis using r by (auto simp: recordCompletionsBatch_def collect_def fires_of_def intro!: exI [of _ "[]"])
next
  case False
  obtain ns where ns: "pe_first E = PipeOk ns" using r False by (auto simp: recordCompletionsBatch_def split: pipe.splits)
  obtain L1 rs where p: "run_pipe (done_call C E) (zip es (pipe_flags ns (length es))) L = (L1, rs)"
    by (cases "run_pipe (done_call C E) (zip es (pipe_flags ns (length es))) L")
  have 1: "replies_ok L L1 (answered (zip es rs))" "length rs = length es"
    using run_pipe_replies [OF w n inv p] by (simp_all add: pipe_flags_def)
  show ?thesis
  proof (cases "filter (\<lambda>(e, r). r = None) (zip es rs) = []")
    case True
    then have "L' = L1" "collect E (zip es (map the rs)) L1 = Some c"
      using r False ns p by (auto simp: recordCompletionsBatch_def Let_def)
    then show ?thesis using 1 answered_all [OF 1(2) True] by auto
  next
    case pend: False
    obtain qs where q: "rerun_pipe (done_call C E) (zip es rs) L1 = (L', qs)" "collect E (zip es qs) L' = Some c"
      using r False ns p pend by (auto simp: recordCompletionsBatch_def Let_def split: pipe.splits prod.splits)
    have "ledger_inv D L1"
      using lst.reach_good [OF run_pipe_reach [of C D "done_call C E", OF done_reach [OF w n]] inv] p by (metis fst_conv)
    from rerun_pipe_replies [OF w n this q(1) 1(2)] obtain new
      where "replies_ok L1 L' new" "set (zip es qs) = set (answered (zip es rs)) \<union> set new" by blast
    then have "replies_ok L L' (zip es qs)"
      using replies_set [of "answered (zip es rs) @ new" "zip es qs" L L'] replies_append [OF 1(1), of L' new] by simp
    with q(2) show ?thesis by blast
  qed
qed

lemma fired_codes: "complete_fired r \<or> success_fired r \<Longrightarrow> fst r = 1 \<or> fst r = 3"
  by (auto simp: complete_fired_def success_fired_def)

lemma collect_finished:
  assumes "collect E rs L = Some c"
  shows "cm_finished c = map (\<lambda>(e, k, w). (findBatch (pe_clk E) (ce_batch e) L, w, k = 3)) (fires_of rs)"
  using assms by (auto simp: collect_def Let_def split: if_splits)

lemma runner_hash:
  assumes "ledger_inv D L" and "clk < D"
  shows "complete_callback_dispatched_at (the_hash (bkeys (recordCallbackRunner clk j n L) i)) = complete_callback_dispatched_at (the_hash (bkeys L i))"
    and "success_callback_dispatched_at (the_hash (bkeys (recordCallbackRunner clk j n L) i)) = success_callback_dispatched_at (the_hash (bkeys L i))"
proof -
  have p: "purge_batch clk (bkeys L i) = bkeys L i" using assms by (auto simp: ledger_inv_def intro: keyed_purge)
  have "complete_callback_dispatched_at (the_hash (bkeys (recordCallbackRunner clk i n L) i)) = complete_callback_dispatched_at (the_hash (bkeys L i))"
    "success_callback_dispatched_at (the_hash (bkeys (recordCallbackRunner clk i n L) i)) = success_callback_dispatched_at (the_hash (bkeys L i))"
    by (simp_all add: recordCallbackRunner_def p Let_def)
  then show "complete_callback_dispatched_at (the_hash (bkeys (recordCallbackRunner clk j n L) i)) = complete_callback_dispatched_at (the_hash (bkeys L i))"
    and "success_callback_dispatched_at (the_hash (bkeys (recordCallbackRunner clk j n L) i)) = success_callback_dispatched_at (the_hash (bkeys L i))"
    by (cases "j = i"; simp add: other_keys(6))+
qed

lemma runners_stamps:
  assumes w: "in_window C D clk" and "ledger_inv D L"
  shows "c_stamp (recordCallbackRunners P clk up cbs L) i = c_stamp L i \<and> s_stamp (recordCallbackRunners P clk up cbs L) i = s_stamp L i"
proof -
  have "c_stamp (fold (\<lambda>cb. recordCallbackRunner clk (cb_batch cb) (ec_node P)) cbs L) i = c_stamp L i \<and>
      s_stamp (fold (\<lambda>cb. recordCallbackRunner clk (cb_batch cb) (ec_node P)) cbs L) i = s_stamp L i"
    using assms(2)
  proof (induction cbs arbitrary: L)
    case (Cons cb cbs)
    have "(lstep C D)\<^sup>*\<^sup>* L (recordCallbackRunner clk (cb_batch cb) (ec_node P) L)"
      by (rule lstep_exec [OF w, where x = "Runner (cb_batch cb) (ec_node P)" and now = "''x''"]) simp_all
    from Cons.IH [OF lst.reach_good [OF this Cons.prems]] runner_hash [OF Cons.prems, of clk] w
    show ?case by (simp add: c_stamp_def s_stamp_def in_window_def)
  qed simp
  then show ?thesis by (simp add: recordCallbackRunners_def)
qed

text \<open>What producing does with each callback.\<close>

definition cb_handled :: "event_cfg \<Rightarrow> cb_rec list \<Rightarrow> callback_msg list \<Rightarrow> callback_msg \<Rightarrow> bool" where
  "cb_handled P out lost cb =
     (callback_rec P cb \<in> set out \<or> ec_dlt P \<noteq> '''' \<and> (ec_dlt P, cb_batch cb, CallbackDlt cb) \<in> set out \<or> cb \<in> set lost)"

lemma cb_handled_more:
  "cb_handled P b lost cb \<Longrightarrow> cb_handled P (a @ b) lost cb" "cb_handled P a lost cb \<Longrightarrow> cb_handled P a (x # lost) cb"
  by (auto simp: cb_handled_def)

lemma produce_each_handles:
  "produce_each P xs fs = (out, ds, lost) \<Longrightarrow> (cb, False) \<in> set xs \<Longrightarrow> cb_handled P out lost cb"
proof (induction xs arbitrary: fs out ds lost)
  case (Cons y xs)
  obtain x b where y: "y = (x, b)" by fastforce
  have e: "emit_loop n m gs = (gs1, ms, True) \<Longrightarrow> m \<in> set ms" for n :: nat and m :: cb_rec and gs gs1 ms
    by (rule emit_loop_ok)
  have d: "deadLetterCallback P x gs = (gs1, ms, True) \<Longrightarrow> ec_dlt P \<noteq> '''' \<and> (ec_dlt P, cb_batch x, CallbackDlt x) \<in> set ms" for gs gs1 ms
    by (auto simp: deadLetterCallback_def split: if_splits dest: produce1_ok)
  show ?case
  proof (cases "(cb, False) \<in> set xs")
    case True
    then show ?thesis
      using Cons.IH Cons.prems(1) by (auto simp: y split: if_splits prod.splits intro!: cb_handled_more)
  next
    case False
    then have "cb = x" "\<not> b" using Cons.prems(2) y by auto
    then show ?thesis
      using Cons.prems(1) by (auto simp: y produceOneCallback_def cb_handled_def split: if_splits prod.splits dest!: e d)
  qed
qed simp

lemma produce_handles:
  assumes "produceCallbacks P V cbs = (out, ds, lost)" and "cb \<in> set cbs"
  shows "cb_handled P out lost cb"
proof -
  have item: "per_item P cbs fs = (o1, d1, l1) \<Longrightarrow> cb_handled P o1 l1 cb" for fs o1 d1 l1
    using assms(2) by (auto simp: per_item_def dest!: produce_each_handles)
  have many: "callback_rec P cb \<in> set (landed_many P cbs gs)"
    if "k < length cbs" "cbs ! k = cb" "k < length gs" "gs ! k \<noteq> NotRun" for gs k
    using that by (auto simp: landed_many_def image_iff set_zip intro!: exI [of _ k])
  obtain k where k: "k < length cbs" "cbs ! k = cb" using assms(2) by (auto simp: in_set_conv_nth)
  have legacy: "legacy_produce P V cbs = (o1, d1, l1) \<Longrightarrow> cb_handled P o1 l1 cb" for o1 d1 l1
  proof (cases "pv_legacy V")
    case (Some gs)
    assume l: "legacy_produce P V cbs = (o1, d1, l1)"
    show ?thesis
    proof (cases "length cbs \<le> length gs \<and> (\<forall>g \<in> set (take (length cbs) gs). g = Replied)")
      case True
      then have "gs ! k = Replied" using k(1) nth_mem [of k "take (length cbs) gs"] by auto
      then show ?thesis using many [OF k, of gs] True k l Some by (auto simp: legacy_produce_def cb_handled_def)
    next
      case False
      obtain a b c where abc: "per_item P cbs (pv_each V) = (a, b, c)" by (cases "per_item P cbs (pv_each V)")
      have "o1 = landed_many P cbs gs @ a" "l1 = c" using l Some False abc by (simp_all add: legacy_produce_def)
      then show ?thesis using item [OF abc] by (simp add: cb_handled_more)
    qed
  qed (simp add: legacy_produce_def item)
  show ?thesis
  proof (cases "pv_sync V")
    case None
    then show ?thesis using assms legacy by (auto simp: produceCallbacks_def split: if_splits)
  next
    case (Some gs)
    show ?thesis
    proof (cases "length gs = length cbs")
      case True
      have "(cb, gs ! k = Replied) \<in> set (zip cbs (map (\<lambda>g. g = Replied) gs))"
        using k True by (auto simp: set_zip intro!: exI [of _ k])
      then show ?thesis
        using assms Some True many [OF k, of gs] k produce_each_handles
        by (cases "gs ! k = Replied") (fastforce simp: produceCallbacks_def cb_handled_def split: if_splits prod.splits)+
    next
      case False
      then show ?thesis using assms Some legacy by (auto simp: produceCallbacks_def split: if_splits prod.splits intro!: cb_handled_more)
    qed
  qed
qed

text \<open>C25. No fired callback is dropped silently. When a poll of completion events succeeds, every callback
  it claims in the ledger becomes a preclaimed message of the poll (complete or success, according
  to the claim), and every message of the poll is on the callbacks topic, or parked on the
  dead-letter topic, or reported as lost because the dead-letter topic is unset or failed as well;
  whatever the pipelines, the batch produce and the single produces went through.\<close>

theorem fired_callbacks_produced:
  assumes "processBatch K C P E up V raws L = (L', out, Some (cbs, lost))" and "ledger_inv D L"
    and "in_window C D (pe_clk E)" and "pe_now E \<noteq> ''''"
  shows "(\<forall>cb \<in> set cbs. cb_handled P out lost cb) \<and>
     (c_stamp L' i \<and> \<not> c_stamp L i \<longrightarrow>
        (\<exists>cb \<in> set cbs. cb_batch cb = i \<and> cb_preclaimed cb \<and> cb_outcome cb \<in> {''success'', ''complete''})) \<and>
     (s_stamp L' i \<and> \<not> s_stamp L i \<longrightarrow>
        (\<exists>cb \<in> set cbs. cb_batch cb = i \<and> cb_preclaimed cb \<and> cb_outcome cb \<in> {''success'', ''success_only''}))"
proof (cases "List.map_filter (valid_event K) raws = []")
  case True
  then show ?thesis using assms(1) by (simp add: processBatch_def)
next
  case False
  obtain L1 c replays ds where r: "recordCompletionsBatch C E (List.map_filter (valid_event K) raws) L = (L1, Some c)"
      and cbs: "cbs = poll_callbacks K (pe_now E) c replays" and p: "produceCallbacks P V cbs = (out, ds, lost)"
      and L': "L' = recordCallbackRunners P (pe_clk E) (pv_runner V) ds L1"
    using assms(1) False by (auto simp: processBatch_def Let_def split: prod.splits option.splits)
  obtain rs where ok: "replies_ok L L1 rs" and col: "collect E rs L1 = Some c"
    using record_replies [OF assms(3,4,2) r] by blast
  have inv1: "ledger_inv D L1" using lst.reach_good [OF record_reach [OF assms(3,4)] assms(2)] r by (metis fst_conv)
  have st: "c_stamp L' i = c_stamp L1 i" "s_stamp L' i = s_stamp L1 i" using runners_stamps [OF assms(3) inv1] by (simp_all add: L')
  have msg: "\<exists>cb \<in> set cbs. cb_batch cb = i \<and> cb_preclaimed cb \<and> cb_outcome cb = w"
    if f: "(e, q, w) \<in> set rs" "ce_batch e = i" "complete_fired (q, w) \<or> success_fired (q, w)" and s: "c_stamp L1 i \<or> s_stamp L1 i" for e q w
  proof -
    have h: "hash (bkeys L1 i) \<noteq> None"
      using s by (cases "hash (bkeys L1 i)") (auto simp: c_stamp_def s_stamp_def the_hash_def empty_hash_def)
    then obtain b where b: "findBatch (pe_clk E) i L1 = Some b"
      using read_alive [OF inv1, of "pe_clk E" i] assms(3) by (auto simp: findBatch_def hashToBatch_def Let_def in_window_def)
    have "(e, q, w) \<in> set (fires_of rs)" using f(1) fired_codes [OF f(3)] by (auto simp: fires_of_def)
    then have "(Some b, w, q = 3) \<in> set (cm_finished c)" using collect_finished [OF col] b f(2) by (auto simp: image_iff) (force)
    then have "finished_callback K (pe_now E) b w \<in> set cbs" by (force simp: cbs poll_callbacks_def)
    moreover have "bv_id b = i" using view_id [OF inv1 _ b] assms(3) by (simp add: in_window_def)
    ultimately show ?thesis by (force simp: finished_callback_def)
  qed
  have "\<exists>cb \<in> set cbs. cb_batch cb = i \<and> cb_preclaimed cb \<and> cb_outcome cb \<in> {''success'', ''complete''}" if c: "c_stamp L1 i" "\<not> c_stamp L i"
  proof -
    obtain e q w where e: "(e, q, w) \<in> set rs" "ce_batch e = i" "complete_fired (q, w)" using ok c by (force simp: replies_ok_def)
    then have "w \<in> {''success'', ''complete''}" by (auto simp: complete_fired_def)
    then show ?thesis using msg [of e q w] e c by blast
  qed
  moreover have "\<exists>cb \<in> set cbs. cb_batch cb = i \<and> cb_preclaimed cb \<and> cb_outcome cb \<in> {''success'', ''success_only''}"
    if c: "s_stamp L1 i" "\<not> s_stamp L i"
  proof -
    obtain e q w where e: "(e, q, w) \<in> set rs" "ce_batch e = i" "success_fired (q, w)" using ok c by (force simp: replies_ok_def)
    then have "w \<in> {''success'', ''success_only''}" by (auto simp: success_fired_def)
    then show ?thesis using msg [of e q w] e c by blast
  qed
  ultimately show ?thesis using produce_handles [OF p] by (simp add: st)
qed

subsection \<open>What is claimed is not sent again\<close>

lemma produce1_only: "produce1 x fs = (fs', out, g) \<Longrightarrow> set out \<subseteq> {x}"
  by (auto simp: produce1_def split: list.splits if_splits)

lemma emit_loop_only: "emit_loop n x fs = (fs', out, g) \<Longrightarrow> set out \<subseteq> {x}"
proof (induction n arbitrary: fs fs' out g)
  case (Suc n)
  then show ?case by (auto split: prod.splits if_splits dest!: produce1_only Suc.IH)
qed simp

text \<open>The callback messages among what reached the broker.\<close>

definition sent :: "cb_rec list \<Rightarrow> callback_msg set" where
  "sent out = {cb. \<exists>t k. (t, k, CallbackB cb) \<in> set out}"

lemma sent_simps [simp]: "sent [] = {}" "sent (a @ b) = sent a \<union> sent b"
  by (auto simp: sent_def)

lemma each_sent: "produce_each P xs fs = (out, ds, lost) \<Longrightarrow> sent out \<subseteq> fst ` set xs"
proof (induction xs arbitrary: fs out ds lost)
  case (Cons y xs)
  obtain x b where y: "y = (x, b)" by fastforce
  have e: "produceOneCallback P x gs = (gs1, ms, g) \<Longrightarrow> sent ms \<subseteq> {x}" for gs gs1 ms g
    by (auto simp: produceOneCallback_def sent_def callback_rec_def dest!: emit_loop_only)
  have d: "deadLetterCallback P x gs = (gs1, ms, g) \<Longrightarrow> sent ms = {}" for gs gs1 ms g
    by (auto simp: deadLetterCallback_def sent_def split: if_splits dest!: produce1_only)
  show ?case using Cons.prems by (auto simp: y split: if_splits prod.splits dest!: e d Cons.IH)
qed simp

lemma produce_sent:
  assumes "produceCallbacks P V cbs = (out, ds, lost)"
  shows "sent out \<subseteq> set cbs"
proof -
  have many: "sent (landed_many P cbs gs) \<subseteq> set cbs" for gs
    by (auto simp: landed_many_def sent_def callback_rec_def dest: set_zip_leftD)
  have item: "per_item P cbs fs = (o1, d1, l1) \<Longrightarrow> sent o1 \<subseteq> set cbs" for fs o1 d1 l1
    by (force simp: per_item_def dest!: each_sent)
  have legacy: "legacy_produce P V cbs = (o1, d1, l1) \<Longrightarrow> sent o1 \<subseteq> set cbs" for o1 d1 l1
    using many [THEN subsetD] item [THEN subsetD]
    by (cases "per_item P cbs (pv_each V)") (auto simp: legacy_produce_def split: option.splits if_splits)
  have zipped: "produce_each P (zip cbs fl) fs = (o1, d1, l1) \<Longrightarrow> sent o1 \<subseteq> set cbs" for fl fs o1 d1 l1
    by (drule each_sent) (use set_zip_leftD in fastforce)
  show ?thesis
    using assms many [THEN subsetD] legacy [THEN subsetD] zipped [THEN subsetD]
    by (auto simp: produceCallbacks_def split: option.splits if_splits prod.splits)
qed



lemma finished_legit:
  assumes ok: "replies_ok L L1 rs" and col: "collect E rs L1 = Some c" and inv: "ledger_inv D L1" and clk: "pe_clk E < D"
    and f: "(Some b, w, q) \<in> set (cm_finished c)"
  shows "\<exists>k. (complete_fired (k, w) \<longrightarrow> \<not> c_stamp L (bv_id b)) \<and> (success_fired (k, w) \<longrightarrow> \<not> s_stamp L (bv_id b)) \<and>
     (complete_fired (k, w) \<or> success_fired (k, w))"
proof -
  obtain e k where e: "(e, k, w) \<in> set (fires_of rs)" "findBatch (pe_clk E) (ce_batch e) L1 = Some b"
    using f by (auto simp: collect_finished [OF col])
  have "bv_id b = ce_batch e" by (rule view_id(1) [OF inv clk e(2)])
  moreover have m: "(e, k, w) \<in> set rs" "k = 1 \<or> k = 3" using e(1) by (auto simp: fires_of_def)
  then have "complete_fired (k, w) \<or> success_fired (k, w)" using ok by (fastforce simp: replies_ok_def)
  moreover have "(complete_fired (k, w) \<longrightarrow> \<not> c_stamp L (ce_batch e)) \<and> (success_fired (k, w) \<longrightarrow> \<not> s_stamp L (ce_batch e))"
    using ok m(1) by (fastforce simp: replies_ok_def)
  ultimately show ?thesis by auto
qed

lemma replay_source:
  assumes "b \<in> set (replay_views clk ids L)"
  shows "\<exists>j. findBatch clk j L = Some b \<and> (\<exists>h. read_hash clk j L = Some h \<and> replay_due (cval h) \<and> bv_status b = status (cval h))"
  using assms
proof (induction ids)
  case (Cons j ids)
  have st: "hashToBatch (Some c) = Some v \<Longrightarrow> bv_status v = status (cval c)" for c v by (auto simp: hashToBatch_def Let_def)
  consider "b \<in> set (replay_views clk ids L)"
    | c where "read_hash clk j L = Some c" "replay_due (cval c)" "hashToBatch (Some c) = Some b"
    using Cons.prems by (auto split: option.splits if_splits)
  then show ?case
  proof cases
    case (2 c)
    then show ?thesis using st [OF 2(3)] by (intro exI [of _ j]) (simp add: findBatch_def)
  qed (rule Cons.IH)
qed simp

lemma poll_sent:
  assumes p: "processBatch K C P E up V raws L = (L', out, r)" and inv: "ledger_inv D L"
    and w: "in_window C D (pe_clk E)" and n: "pe_now E \<noteq> ''''" and cb: "cb \<in> sent out"
  shows "\<exists>L1. (lstep C D)\<^sup>*\<^sup>* L L1 \<and>
     ((\<exists>k. (complete_fired (k, cb_outcome cb) \<longrightarrow> \<not> c_stamp L (cb_batch cb)) \<and> (success_fired (k, cb_outcome cb) \<longrightarrow> \<not> s_stamp L (cb_batch cb)) \<and>
         (complete_fired (k, cb_outcome cb) \<or> success_fired (k, cb_outcome cb))) \<or>
      replay_due (the_hash (bkeys L1 (cb_batch cb))) \<and> cb_outcome cb = status (the_hash (bkeys L1 (cb_batch cb))))"
proof -
  have ne: "List.map_filter (valid_event K) raws \<noteq> []" using p cb by (auto simp: processBatch_def)
  obtain L1 c where rc: "recordCompletionsBatch C E (List.map_filter (valid_event K) raws) L = (L1, Some c)"
    using p cb ne by (auto simp: processBatch_def Let_def split: prod.splits option.splits)
  obtain replays where rp: "findReplayCallbackBatches (pe_clk E) up (cm_replays c) L1 = Some replays"
      and x: "cb \<in> set (poll_callbacks K (pe_now E) c replays)"
    using p cb ne rc by (auto simp: processBatch_def Let_def split: prod.splits option.splits dest!: produce_sent)
  obtain rs where ok: "replies_ok L L1 rs" and col: "collect E rs L1 = Some c" using record_replies [OF w n inv rc] by blast
  have reach: "(lstep C D)\<^sup>*\<^sup>* L L1" using record_reach [OF w n, of L] rc by (metis fst_conv)
  note inv1 = lst.reach_good [OF reach inv]
  have clk: "pe_clk E < D" using w by (simp add: in_window_def)
  consider (fin) b v q where "(Some b, v, q) \<in> set (cm_finished c)" "cb = finished_callback K (pe_now E) b v"
    | (rep) b where "b \<in> set replays" "cb = replay_callback K b"
    using x by (auto simp: poll_callbacks_def split: option.splits)
  then show ?thesis
  proof cases
    case fin
    then show ?thesis using finished_legit [OF ok col inv1 clk fin(1)] reach by (auto simp: finished_callback_def)
  next
    case rep
    have "b \<in> set (replay_views (pe_clk E) (cm_replays c) L1)"
      using rp rep(1) by (auto simp: findReplayCallbackBatches_def split: if_splits)
    from replay_source [OF this] obtain j h where j: "findBatch (pe_clk E) j L1 = Some b" "read_hash (pe_clk E) j L1 = Some h"
        "replay_due (cval h)" "bv_status b = status (cval h)" by blast
    have "bv_id b = j" "the_hash (bkeys L1 j) = cval h"
      using view_id [OF inv1 clk j(1)] j(2) read_alive [OF inv1 clk, of j] by (simp_all add: the_hash_def key_val_def)
    then show ?thesis using rep(2) j reach by (auto simp: replay_callback_def)
  qed
qed

lemma stale_sent:
  assumes "reconcileRunning K P G X b L = (L', out, q)" and "ledger_inv D L" and "sw_clk G < D" and "cb \<in> sent out"
  shows "status (the_hash (bkeys L (cb_batch cb))) = ''running''"
proof -
  obtain v where v: "findBatch (sw_clk G) (bv_id b) L = Some v" "bv_status v = ''running''" "cb_batch cb = bv_id v"
    using assms(1,4)
    by (auto simp: reconcileRunning_def finish_batch_def sweep_find_def produceCallback_def sent_def callback_rec_def
        reconciled_callback_def Let_def split: option.splits if_splits prod.splits)
  have "bv_id v = bv_id b" by (rule view_id(1) [OF assms(2,3) v(1)])
  moreover have "status (the_hash (bkeys L (bv_id b))) = bv_status v"
    using v(1) read_alive [OF assms(2,3), of "bv_id b"] by (auto simp: findBatch_def hashToBatch_def the_hash_def key_val_def Let_def split: option.splits)
  ultimately show ?thesis using v by simp
qed

lemma lost_sent:
  assumes "refireCallback K P G X b L = (L', out, q)" and "ledger_inv D L" and "sw_clk G < D" and "cb \<in> sent out"
  shows "cb_batch cb = bv_id b"
proof -
  obtain v where v: "findBatch (sw_clk G) (bv_id b) L = Some v" "cb_batch cb = bv_id v"
    using assms(1,4)
    by (auto simp: refireCallback_def sweep_find_def produceCallback_def sent_def callback_rec_def
        reconciled_callback_def Let_def split: option.splits if_splits prod.splits)
  then show ?thesis using view_id(1) [OF assms(2,3) v(1)] by simp
qed

lemma each_sent_from:
  assumes "\<And>b L. ledger_inv D L \<Longrightarrow> (lstep C D)\<^sup>*\<^sup>* L (fst (f b L))" and "ledger_inv D L"
    and "each_batch f bs L = (L', out, qs)" and "cb \<in> sent out"
  shows "\<exists>b \<in> set bs. \<exists>L1 L2 o1 q. (lstep C D)\<^sup>*\<^sup>* L L1 \<and> f b L1 = (L2, o1, q) \<and> cb \<in> sent o1"
  using assms(2-4)
proof (induction bs arbitrary: L L' out qs)
  case (Cons b bs)
  obtain L1 o1 q where f: "f b L = (L1, o1, q)" by (cases "f b L")
  obtain L2 o2 q2 where e: "each_batch f bs L1 = (L2, o2, q2)" by (cases "each_batch f bs L1")
  have out: "out = o1 @ o2" using Cons.prems(2) f e by simp
  have r: "(lstep C D)\<^sup>*\<^sup>* L L1" using assms(1) [OF Cons.prems(1), of b] f by simp
  show ?case
  proof (cases "cb \<in> sent o1")
    case True
    then show ?thesis using f by (intro bexI [of _ b] exI [of _ L] exI [of _ L1] exI [of _ o1] exI [of _ q]) simp_all
  next
    case False
    then have "cb \<in> sent o2" using Cons.prems(3) out by simp
    from Cons.IH [OF lst.reach_good [OF r Cons.prems(1)] e this] r show ?thesis by (meson list.set_intros(2) rtranclp_trans)
  qed
qed simp

lemma set_keep_views: "b \<in> set (keep_views clk keep ids L) \<Longrightarrow> \<exists>i \<in> set ids. findBatch clk i L = Some b \<and> keep b"
  by (induction ids) (auto simp: keep_views_def List.map_filter_simps split: option.splits if_splits)

lemma listed_unclaimed:
  assumes "doneBatchesWithoutCallback Q ord clk mx L = (L', Some bs)" and "b \<in> set bs" and "ledger_inv D L" and "clk < D"
  shows "text_of (complete_callback_dispatched_at (the_hash (bkeys L (bv_id b)))) = ''''"
proof -
  obtain i where i: "findBatch clk i L = Some b" "lost_keep b"
    using assms(1,2)
    by (auto simp: doneBatchesWithoutCallback_def filterIndexedBatches_def split: if_splits option.splits dest!: set_keep_views)
  have "bv_id b = i" by (rule view_id(1) [OF assms(3,4) i(1)])
  then show ?thesis
    using i read_alive [OF assms(3,4), of i]
    by (auto simp: findBatch_def hashToBatch_def the_hash_def key_val_def lost_keep_def Let_def split: option.splits)
qed

lemma sweep_sent:
  assumes s: "sweep_body K P S G I L = (L', out, z)" and inv: "ledger_inv D L" and w: "in_window C D (sw_clk G)"
    and n: "sw_now G \<noteq> ''''" and cb: "cb \<in> sent out"
  shows "(\<exists>L1. (lstep C D)\<^sup>*\<^sup>* L L1 \<and> status (the_hash (bkeys L1 (cb_batch cb))) = ''running'') \<or>
     text_of (complete_callback_dispatched_at (the_hash (bkeys L (cb_batch cb)))) = ''''"
proof -
  let ?mx = "sw_score G - sweep_interval (sc_interval S)" and ?n = "sweep_max (sc_max S)"
  obtain L1 r1 where 1: "staleBatches (si_stale_list I) (si_ord I) (sw_clk G) ?mx L = (L1, r1)" by fastforce
  obtain L2 r2 where 2: "doneBatchesWithoutCallback (si_lost_list I) (si_ord I) (sw_clk G) ?mx L1 = (L2, r2)" by fastforce
  have b: "bkeys L1 = bkeys L" "bkeys L2 = bkeys L"
    using arg_cong [OF 1, of "\<lambda>x. bkeys (fst x)"] arg_cong [OF 2, of "\<lambda>x. bkeys (fst x)"] by simp_all
  have inv1: "ledger_inv D L1" "ledger_inv D L2" using inv ledger_inv_bkeys [OF b(1)] ledger_inv_bkeys [OF b(2)] by blast+
  have clk: "sw_clk G < D" using w by (simp add: in_window_def)
  obtain stale lost where sl: "r1 = Some stale" "r2 = Some lost"
  proof -
    have "\<not> (r1 = None \<or> r2 = None)"
    proof
      assume "r1 = None \<or> r2 = None"
      then have "out = []" using s by (cases r1) (simp_all add: sweep_body_def Let_def 1 2)
      then show False using cb by simp
    qed
    then show thesis using that by (cases r1; cases r2) simp_all
  qed
  obtain L3 o1 q1 where e1: "each_batch (reconcileRunning K P G (si_stale I)) (take ?n stale) L2 = (L3, o1, q1)"
    by (cases "each_batch (reconcileRunning K P G (si_stale I)) (take ?n stale) L2")
  obtain L4 o2 q2 where e2: "each_batch (refireCallback K P G (si_lost I)) (take ?n lost) L3 = (L4, o2, q2)"
    by (cases "each_batch (refireCallback K P G (si_lost I)) (take ?n lost) L3")
  have out: "out = o1 @ o2" using s by (simp add: sweep_body_def Let_def 1 2 sl e1 e2)
  have r3: "(lstep C D)\<^sup>*\<^sup>* L2 L3"
    using each_reach [where f = "reconcileRunning K P G (si_stale I)" and bs = "take ?n stale", OF stale_reach [OF w n] inv1(2)]
    by (simp only: e1 fst_conv)
  note inv3 = lst.reach_good [OF r3 inv1(2)]
  show ?thesis
  proof (cases "cb \<in> sent o1")
    case True
    from each_sent_from [OF stale_reach [OF w n] inv1(2) e1 True] obtain b La Lb oa q
      where a: "(lstep C D)\<^sup>*\<^sup>* L2 La" "reconcileRunning K P G (si_stale I) b La = (Lb, oa, q)" "cb \<in> sent oa" by blast
    have "status (the_hash (bkeys La (cb_batch cb))) = ''running''"
      by (rule stale_sent [OF a(2) lst.reach_good [OF a(1) inv1(2)] clk a(3)])
    then show ?thesis using rtranclp_trans [OF lstep_bkeys [OF b(2)] a(1)] by blast
  next
    case False
    then have "cb \<in> sent o2" using cb out by simp
    from each_sent_from [OF lost_reach [OF w n] inv3 e2 this] obtain b La Lb oa q
      where a: "b \<in> set lost" "(lstep C D)\<^sup>*\<^sup>* L3 La" "refireCallback K P G (si_lost I) b La = (Lb, oa, q)" "cb \<in> sent oa"
      by (auto dest: in_set_takeD)
    have "cb_batch cb = bv_id b" by (rule lost_sent [OF a(3) lst.reach_good [OF a(2) inv3] clk a(4)])
    then show ?thesis using listed_unclaimed [OF 2 [unfolded sl(2)] a(1) inv1(1) clk] b(1) by simp
  qed
qed

lemma produce_all_only: "produce_all xs fs = (fs', out, g) \<Longrightarrow> set out \<subseteq> set xs"
proof (induction xs arbitrary: fs fs' out g)
  case (Cons x xs)
  then show ?case by (fastforce split: prod.splits if_splits dest: produce1_only)
qed simp

lemma expired_sent:
  assumes x: "publish_expired dec fmt C P E stored t src m fs L = (L', y)" and inv: "ledger_inv D L"
    and w: "in_window C D (pe_clk E)" and n: "pe_now E \<noteq> ''''" and cb: "cb \<in> sent (xo_msgs y)"
  shows "\<not> cb_preclaimed cb \<and>
     (\<exists>k. (complete_fired (k, cb_outcome cb) \<longrightarrow> \<not> c_stamp L (cb_batch cb) \<and> c_stamp L' (cb_batch cb)) \<and>
          (success_fired (k, cb_outcome cb) \<longrightarrow> \<not> s_stamp L (cb_batch cb) \<and> s_stamp L' (cb_batch cb)) \<and>
          (complete_fired (k, cb_outcome cb) \<or> success_fired (k, cb_outcome cb)))"
proof -
  obtain ev fl d where bd: "buildDrop fmt m src t = (ev, fl, d)" by (cases "buildDrop fmt m src t")
  have fin: "sent (xo_msgs (expired_finish P stored m fl d out gs)) = sent out" for out gs
    by (auto simp: expired_finish_def sent_def split: prod.splits dest!: produce1_only)
  obtain e c where e: "ev = Some e" "stored" "recordCompletionsBatch C E [completion_of e] L = (L', Some c)"
      and "cb \<in> sent (expired_callbacks P c)"
  proof (cases "\<exists>e. ev = Some e \<and> stored")
    case True
    then obtain e where e: "ev = Some e" "stored" by blast
    obtain L1 c where r: "recordCompletionsBatch C E [completion_of e] L = (L1, c)" by fastforce
    obtain gs o1 g where p: "produce_all (expired_callbacks P (the c) @ [(ec_events P, event_key dec e, DropEvent e)]) fs = (gs, o1, g)"
      by (cases "produce_all (expired_callbacks P (the c) @ [(ec_events P, event_key dec e, DropEvent e)]) fs")
    have "L' = L1" "c \<noteq> None" "cb \<in> sent o1"
      using x cb e r p fin by (auto simp: publish_expired_def bd failed_out_def split: option.splits if_splits)
    moreover have "sent o1 \<subseteq> sent (expired_callbacks P (the c))" using produce_all_only [OF p] by (auto simp: sent_def)
    ultimately show ?thesis using that e r by (cases c) auto
  next
    case False
    then have "y = expired_finish P stored m fl d [] fs" using x by (auto simp: publish_expired_def bd split: option.splits bool.splits)
    then show ?thesis using cb fin by simp
  qed
  then obtain b v q where b: "(Some b, v, q) \<in> set (cm_finished c)" "cb = expired_callback b v"
    by (auto simp: expired_callbacks_def sent_def callback_rec_def split: option.splits)
  obtain rs where ok: "replies_ok L L' rs" and col: "collect E rs L' = Some c" using record_replies [OF w n inv e(3)] by blast
  have inv': "ledger_inv D L'" using lst.reach_good [OF record_reach [OF w n] inv] e(3) by (metis fst_conv)
  obtain ev' k where f: "(ev', k, v) \<in> set (fires_of rs)" "findBatch (pe_clk E) (ce_batch ev') L' = Some b"
    using b(1) by (auto simp: collect_finished [OF col])
  have "bv_id b = ce_batch ev'" using view_id(1) [OF inv' _ f(2)] w by (simp add: in_window_def)
  moreover have m: "(ev', k, v) \<in> set rs" "k = 1 \<or> k = 3" using f(1) by (auto simp: fires_of_def)
  moreover have "complete_fired (k, v) \<or> success_fired (k, v)" using ok m by (fastforce simp: replies_ok_def)
  moreover have "(complete_fired (k, v) \<longrightarrow> \<not> c_stamp L (ce_batch ev') \<and> c_stamp L' (ce_batch ev')) \<and>
      (success_fired (k, v) \<longrightarrow> \<not> s_stamp L (ce_batch ev') \<and> s_stamp L' (ce_batch ev'))"
    using ok m(1) by (fastforce simp: replies_ok_def)
  ultimately show ?thesis using b(2) by (auto simp: expired_callback_def)
qed

lemma stamp_alive: "c_stamp L i \<or> s_stamp L i \<Longrightarrow> hash (bkeys L i) \<noteq> None"
  by (cases "hash (bkeys L i)") (auto simp: c_stamp_def s_stamp_def the_hash_def empty_hash_def)

lemma kept_stamps:
  assumes "kept_keys (bkeys L i) (bkeys L' i)" and "hash (bkeys L i) \<noteq> None"
  shows "complete_callback_dispatched_at (the_hash (bkeys L i)) = Some v \<Longrightarrow> complete_callback_dispatched_at (the_hash (bkeys L' i)) = Some v"
    and "success_callback_dispatched_at (the_hash (bkeys L i)) = Some v \<Longrightarrow> success_callback_dispatched_at (the_hash (bkeys L' i)) = Some v"
    and "is_terminal (status (the_hash (bkeys L i))) \<Longrightarrow> status (the_hash (bkeys L' i)) = status (the_hash (bkeys L i))"
  using assms by (auto simp: kept_keys_def is_terminal_def ends_status_def)

text \<open>A batch that is finished and whose \<open>on_complete\<close> claim is stamped.\<close>

definition claimed_done :: "string \<Rightarrow> ledger \<Rightarrow> bool" where
  "claimed_done i L = (hash (bkeys L i) \<noteq> None \<and> is_terminal (status (the_hash (bkeys L i))) \<and>
     text_of (complete_callback_dispatched_at (the_hash (bkeys L i))) \<noteq> '''')"

lemma claimed_done_kept:
  assumes "claimed_done i L" and "(lstep C D)\<^sup>*\<^sup>* L L'" and "ledger_inv D L"
  shows "claimed_done i L'" and "text_of (success_callback_dispatched_at (the_hash (bkeys L' i))) = '''' \<Longrightarrow>
     text_of (success_callback_dispatched_at (the_hash (bkeys L i))) = ''''" and "c_stamp L i"
proof -
  have h: "hash (bkeys L i) \<noteq> None" using assms(1) by (simp add: claimed_done_def)
  note k = reach_kept [OF assms(2,3), of i]
  note st = kept_stamps [OF k h]
  show "claimed_done i L'" using assms(1) st(1,3) kept_istamp(2) [OF k h]
    by (cases "complete_callback_dispatched_at (the_hash (bkeys L i))") (auto simp: claimed_done_def text_of_def)
  show "text_of (success_callback_dispatched_at (the_hash (bkeys L' i))) = '''' \<Longrightarrow>
     text_of (success_callback_dispatched_at (the_hash (bkeys L i))) = ''''"
    using st(2) by (cases "success_callback_dispatched_at (the_hash (bkeys L i))") (auto simp: text_of_def)
  show "c_stamp L i" using assms(1) by (auto simp: claimed_done_def c_stamp_def text_of_def split: option.splits)
qed

lemma step_not_resent:
  assumes s: "sys_step K C P D L L' out as" and inv: "ledger_inv D L" and d: "claimed_done i L"
    and cb: "cb \<in> sent out" "cb_batch cb = i"
  shows "cb_outcome cb \<noteq> ''complete'' \<and> text_of (success_callback_dispatched_at (the_hash (bkeys L i))) = ''''"
proof -
  note stamped = claimed_done_kept(3) [OF d rtranclp.rtrancl_refl inv]
  have fired: ?thesis
    if "complete_fired (k, cb_outcome cb) \<longrightarrow> \<not> c_stamp L i" "success_fired (k, cb_outcome cb) \<longrightarrow> \<not> s_stamp L i"
      "complete_fired (k, cb_outcome cb) \<or> success_fired (k, cb_outcome cb)" for k
    using that stamped by (auto simp: success_fired_def s_stamp_def text_of_def)
  show ?thesis
    using s
  proof cases
    case (event_poll E up V raws r)
    from poll_sent [OF event_poll(4) inv event_poll(2,3) cb(1)] obtain L1 where L1: "(lstep C D)\<^sup>*\<^sup>* L L1"
      "(\<exists>k. (complete_fired (k, cb_outcome cb) \<longrightarrow> \<not> c_stamp L i) \<and> (success_fired (k, cb_outcome cb) \<longrightarrow> \<not> s_stamp L i) \<and>
         (complete_fired (k, cb_outcome cb) \<or> success_fired (k, cb_outcome cb))) \<or>
       replay_due (the_hash (bkeys L1 i)) \<and> cb_outcome cb = status (the_hash (bkeys L1 i))"
      using cb(2) by auto
    note k = claimed_done_kept [OF d L1(1) inv]
    show ?thesis using L1(2) fired k(1,2) by (auto simp: claimed_done_def replay_due_def)
  next
    case (reconcile G S I z)
    from sweep_sent [OF reconcile(4) inv reconcile(2,3) cb(1)] have False
    proof
      assume "\<exists>L1. (lstep C D)\<^sup>*\<^sup>* L L1 \<and> status (the_hash (bkeys L1 (cb_batch cb))) = ''running''"
      then obtain L1 where "(lstep C D)\<^sup>*\<^sup>* L L1" "status (the_hash (bkeys L1 i)) = ''running''" using cb(2) by blast
      then show False using claimed_done_kept(1) [OF d _ inv, of C L1] by (simp add: claimed_done_def is_terminal_def)
    qed (use d cb(2) in \<open>simp add: claimed_done_def\<close>)
    then show ?thesis ..
  next
    case (expiry E dec fmt stored t src m fs y)
    from expired_sent [OF expiry(5) inv expiry(3,4)] expiry(1) cb show ?thesis using fired by auto
  qed (use cb in simp_all)
qed

text \<open>A claim is final. Once a finished batch's complete callback is stamped in the ledger, no component
  ever produces that callback again: no poll, replay, reconciler sweep or expiry, in any run, sends a
  complete message for it, and if the success callback is stamped too, no message at all. So a
  callback whose processor fails between the claim and the produce is not recovered.\<close>

theorem claimed_callback_not_resent:
  assumes "sys_run K C P D L0 L out as" and "ledger_inv D L0" and "claimed_done i L0"
    and "cb \<in> sent out" and "cb_batch cb = i"
  shows "cb_outcome cb \<noteq> ''complete'' \<and> text_of (success_callback_dispatched_at (the_hash (bkeys L0 i))) = ''''"
  using assms
proof (induction rule: sys_run.induct)
  case (sys_next L out as L' out' as')
  note inv = sys_inv [OF sys_next(1,4)] and k = claimed_done_kept [OF sys_next(5) sys_reach [OF sys_next(1,4)] sys_next(4)]
  show ?case
  proof (cases "cb \<in> sent out")
    case False
    then show ?thesis using step_not_resent [OF sys_next(2) inv k(1)] sys_next(6,7) k(2) by auto
  qed (rule sys_next.IH [OF sys_next(4,5) _ sys_next(7)])
qed simp

lemma claim_refused:
  assumes "ledger_inv D L" and "clk < D" and "k = ''success'' \<and> s_stamp L i \<or> k = ''complete'' \<and> c_stamp L i"
  shows "snd (claimCallback clk now node i k L) = 0"
proof -
  have p: "purge_batch clk (bkeys L i) = bkeys L i" using assms(1,2) by (auto simp: ledger_inv_def intro: keyed_purge)
  then show ?thesis using assms(3) by (auto simp: claimCallback_def claim_field_def c_stamp_def s_stamp_def Let_def)
qed

lemma kind_stamped:
  assumes "complete_fired (q, w) \<longrightarrow> c_stamp L i" and "success_fired (q, w) \<longrightarrow> s_stamp L i" and "complete_fired (q, w) \<or> success_fired (q, w)"
  shows "claimKind w = ''success'' \<and> s_stamp L i \<or> claimKind w = ''complete'' \<and> c_stamp L i"
  using assms by (auto simp: complete_fired_def success_fired_def claimKind_def)

text \<open>The callback of a batch whose last job expires in a fair lane is never run: the message the expired
  publisher produces does not say that the ledger has already claimed the callback, so wherever and
  whenever it is delivered, the callback processor loses the claim and invokes nothing.\<close>

theorem expired_callback_not_invoked:
  assumes "publish_expired dec fmt C P E stored t src m fs L = (L', y)" and "ledger_inv D L"
    and "in_window C D (pe_clk E)" and "pe_now E \<noteq> ''''" and "cb \<in> sent (xo_msgs y)"
    and "sys_run K C P D L' L2 out as" and "cv_clk W < D"
  shows "fst (snd (process_cb W cb L2)) = []"
proof -
  obtain q where q: "complete_fired (q, cb_outcome cb) \<longrightarrow> c_stamp L' (cb_batch cb)" "success_fired (q, cb_outcome cb) \<longrightarrow> s_stamp L' (cb_batch cb)"
      "complete_fired (q, cb_outcome cb) \<or> success_fired (q, cb_outcome cb)" and np: "\<not> cb_preclaimed cb"
    using expired_sent [OF assms(1-5)] by auto
  have inv': "ledger_inv D L'" using lst.reach_good [OF expired_reach [OF assms(3,4)] assms(2)] assms(1) by (metis fst_conv)
  have h: "hash (bkeys L' (cb_batch cb)) \<noteq> None" using q stamp_alive by blast
  note k = kept_stamps [OF sys_kept [OF assms(6) inv'] h]
  have "s_stamp L' (cb_batch cb) \<longrightarrow> s_stamp L2 (cb_batch cb)" "c_stamp L' (cb_batch cb) \<longrightarrow> c_stamp L2 (cb_batch cb)"
    using k(1,2) by (auto simp: s_stamp_def c_stamp_def)
  then have "claimKind (cb_outcome cb) = ''success'' \<and> s_stamp L2 (cb_batch cb) \<or> claimKind (cb_outcome cb) = ''complete'' \<and> c_stamp L2 (cb_batch cb)"
    using kind_stamped [OF q] by blast
  note refuse = claim_refused [OF sys_inv [OF assms(6) inv'] assms(7) this]
  have "snd (claim_turn W cb L2) \<noteq> Some True" using np refuse by (auto simp: claim_turn_def split_beta)
  then show ?thesis by (auto simp: process_cb_def split: prod.splits option.splits bool.splits)
qed

end
