(* ===== verification/Delivery_Demo.thy ===== *)
theory Delivery_Demo
  imports Delivery_Claims
begin

text \<open>
  Concrete runs of the event, callback, expiry and reconciler components on the two-job batch of
  \<open>Ledger_Claims\<close>: each theorem of \<open>Delivery_Claims\<close> is applied to one.
\<close>

definition demo_event :: string where "demo_event = ''e''"

text \<open>A decoder that knows two events: job 2 of the batch failed, and it succeeded on a manual retry.\<close>

definition demo_codec :: codec where
  "demo_codec = \<lparr>gzip = Some, gunzip = Some,
     jdec = (\<lambda>s. Some (JObj [(''batch_id'', JStr ''b''), (''job_id'', JStr ''j2''),
                  (''status'', JStr (if s = demo_event then ''failed'' else ''success'')), (''batch_seq'', JNum 2)])),
     jenc = (\<lambda>_. '''')\<rparr>"

definition demo_ecfg :: event_cfg where
  "demo_ecfg = \<lparr>ec_callbacks = ''callbacks'', ec_dlt = ''dlt'', ec_events = ''events'', ec_node = ''n''\<rparr>"

definition demo_penv :: poll_env where
  "demo_penv = \<lparr>pe_now = ''t'', pe_score = 0, pe_clk = 1004, pe_first = PipeOk [], pe_second = PipeOk [], pe_read = True\<rparr>"

text \<open>The batch produce is not available; the first single produce is lost and the second works.\<close>

definition demo_prod :: prod_env where
  "demo_prod = \<lparr>pv_sync = None, pv_legacy = None, pv_each = [NotRun, Replied], pv_runner = True\<rparr>"

definition demo_poll :: "ledger \<times> cb_rec list \<times> (callback_msg list \<times> callback_msg list) option" where
  "demo_poll = processBatch demo_codec demo_cfg demo_ecfg demo_penv True demo_prod [demo_event] (snd demo_mid)"

definition demo_cbenv :: cb_env where
  "demo_cbenv = \<lparr>cv_clk = 1005, cv_now = ''t'', cv_node = ''n'', cv_claim = Replied, cv_runner = Replied, cv_mark = Replied,
     cv_invoker = True, cv_err = None, cv_dlt = True\<rparr>"

definition demo_cb :: callback_msg where
  "demo_cb = hd (fst (the (snd (snd demo_poll))))"

definition demo_turn :: "ledger \<Rightarrow> ledger \<times> cb_act list \<times> cb_res" where
  "demo_turn L = process_cb demo_cbenv demo_cb L"

lemma demo_mid_inv: "ledger_inv 1050 (snd demo_mid)"
  by (rule ledger_run_inv [OF demo_mid_run])

lemma demo_window: "in_window demo_cfg 1050 (pe_clk demo_penv)" "in_window demo_cfg 1050 (cv_clk demo_cbenv)"
  by code_simp+

lemma demo_poll_facts:
  "length (fst (the (snd (snd demo_poll)))) = 1" "snd (the (snd (snd demo_poll))) = []" "snd (snd demo_poll) \<noteq> None"
  "cb_batch demo_cb = ''b''" "cb_outcome demo_cb = ''complete''" "length (fst (snd demo_poll)) = 1"
  by code_simp+

text \<open>The poll, then the callback delivered twice.\<close>

definition demo_run2 :: "ledger \<times> cb_rec list \<times> cb_act list" where
  "demo_run2 = (let (L1, out, _) = demo_poll; (L2, as1, _) = demo_turn L1; (L3, as2, _) = demo_turn L2
     in (L3, out, as1 @ as2))"

lemma demo_step_poll: "sys_step demo_codec demo_cfg demo_ecfg 1050 (snd demo_mid) (fst demo_poll) (fst (snd demo_poll)) []"
  by (rule event_poll [where E = demo_penv and up = True and V = demo_prod and raws = "[demo_event]" and r = "snd (snd demo_poll)"])
    (use demo_window in \<open>simp_all add: demo_penv_def demo_poll_def\<close>)

lemma demo_step_turn: "sys_step demo_codec demo_cfg demo_ecfg 1050 L (fst (demo_turn L)) [] (fst (snd (demo_turn L)))"
  by (rule delivery [where W = demo_cbenv and cb = demo_cb and q = "snd (snd (demo_turn L))"])
    (use demo_window in \<open>simp_all add: demo_cbenv_def demo_turn_def\<close>)

lemma demo_sys_run:
  "sys_run demo_codec demo_cfg demo_ecfg 1050 (snd demo_mid) (fst demo_run2) (fst (snd demo_run2)) (snd (snd demo_run2))"
  using sys_next [OF sys_next [OF sys_next [OF sys_init demo_step_poll] demo_step_turn] demo_step_turn]
  by (simp add: demo_run2_def split_beta Let_def)


theorem fired_callbacks_produced_witness:
  "c_stamp (fst demo_poll) ''b'' \<and> \<not> c_stamp (snd demo_mid) ''b'' \<and>
   (\<exists>cb \<in> set (fst (the (snd (snd demo_poll)))). cb_batch cb = ''b'' \<and> cb_preclaimed cb \<and> cb_outcome cb \<in> {''success'', ''complete''})"
proof -
  have c: "c_stamp (fst demo_poll) ''b''" "\<not> c_stamp (snd demo_mid) ''b''" by code_simp+
  obtain L' out r where d: "demo_poll = (L', out, r)" by (cases demo_poll)
  have "r \<noteq> None" using demo_poll_facts(3) unfolding d by simp
  then obtain cbs lost where r: "r = Some (cbs, lost)" by auto
  have p: "processBatch demo_codec demo_cfg demo_ecfg demo_penv True demo_prod [demo_event] (snd demo_mid) = (L', out, Some (cbs, lost))"
    using d r by (simp add: demo_poll_def)
  have "pe_now demo_penv \<noteq> ''''" by (simp add: demo_penv_def)
  from fired_callbacks_produced [OF p demo_mid_inv demo_window(1) this, of "''b''"]
  have "\<exists>cb \<in> set cbs. cb_batch cb = ''b'' \<and> cb_preclaimed cb \<and> cb_outcome cb \<in> {''success'', ''complete''}" using c unfolding d by simp
  then show ?thesis using c unfolding d r by simp
qed

text \<open>The finished batch of \<open>Ledger_Claims\<close>: both its claims are stamped.\<close>

lemma demo_inv: "ledger_inv 1050 (snd demo)"
  by (rule ledger_run_inv [OF demo_run])

lemma demo_claimed: "claimed_done ''b'' (fst demo_poll)"
  unfolding claimed_done_def by (intro conjI) code_simp+

text \<open>The retry of the failed job succeeds: the poll sends the success callback, and only that one.\<close>

definition demo_again :: "ledger \<times> cb_rec list \<times> (callback_msg list \<times> callback_msg list) option" where
  "demo_again = processBatch demo_codec demo_cfg demo_ecfg demo_penv True demo_prod [''s''] (fst demo_poll)"

definition again_cb :: callback_msg where
  "again_cb = (case fst (snd demo_again) of (_, _, CallbackB cb) # _ \<Rightarrow> cb | _ \<Rightarrow> demo_cb)"

lemma first_sent: "(case out of (_, _, CallbackB cb) # _ \<Rightarrow> True | _ \<Rightarrow> False) \<Longrightarrow> (case out of (_, _, CallbackB cb) # _ \<Rightarrow> cb | _ \<Rightarrow> d) \<in> sent out"
  by (auto simp: sent_def split: list.splits cb_body.splits)

theorem claimed_callback_not_resent_witness:
  "again_cb \<in> sent (fst (snd demo_again)) \<and> cb_batch again_cb = ''b'' \<and> cb_outcome again_cb \<noteq> ''complete''"
proof -
  have s: "sys_step demo_codec demo_cfg demo_ecfg 1050 (fst demo_poll) (fst demo_again) (fst (snd demo_again)) []"
    by (rule event_poll [where E = demo_penv and up = True and V = demo_prod and raws = "[''s'']" and r = "snd (snd demo_again)"])
      (use demo_window in \<open>simp_all add: demo_penv_def demo_again_def\<close>)
  have i: "ledger_inv 1050 (fst demo_poll)" using sys_inv [OF sys_next [OF sys_init demo_step_poll] demo_mid_inv] .
  have c: "again_cb \<in> sent (fst (snd demo_again))" unfolding again_cb_def by (rule first_sent) code_simp
  have b: "cb_batch again_cb = ''b''" by code_simp
  show ?thesis using claimed_callback_not_resent [OF sys_next [OF sys_init s] i demo_claimed] c b by simp
qed
text \<open>The second job expires in a fair lane instead of failing.\<close>

definition demo_expired :: jobj where
  "demo_expired = [(''job_id'', JStr ''j2''), (''batch_id'', JStr ''b''), (''batch_seq'', JNum 2)]"

definition demo_drop :: "ledger \<times> expired_out" where
  "demo_drop = publish_expired (\<lambda>_. ''0'') (\<lambda>_. ''t'') demo_cfg demo_ecfg demo_penv True 0 demo_src demo_expired
     [Replied, Replied, Replied] (snd demo_mid)"

definition drop_cb :: callback_msg where
  "drop_cb = (case xo_msgs (snd demo_drop) of (_, _, CallbackB cb) # _ \<Rightarrow> cb | _ \<Rightarrow> demo_cb)"

theorem expired_callback_not_invoked_witness:
  "cb_batch drop_cb = ''b'' \<and> cb_outcome drop_cb = ''complete'' \<and> fst (snd (process_cb demo_cbenv drop_cb (fst demo_drop))) = []"
proof -
  have b: "cb_batch drop_cb = ''b''" "cb_outcome drop_cb = ''complete''" by code_simp+
  have c: "drop_cb \<in> sent (xo_msgs (snd demo_drop))" unfolding drop_cb_def by (rule first_sent) code_simp
  have p: "publish_expired (\<lambda>_. ''0'') (\<lambda>_. ''t'') demo_cfg demo_ecfg demo_penv True 0 demo_src demo_expired
     [Replied, Replied, Replied] (snd demo_mid) = (fst demo_drop, snd demo_drop)" by (simp add: demo_drop_def)
  have n: "pe_now demo_penv \<noteq> ''''" "cv_clk demo_cbenv < 1050" by (simp_all add: demo_penv_def demo_cbenv_def)
  show ?thesis using b expired_callback_not_invoked [OF p demo_mid_inv demo_window(1) n(1) c sys_init n(2)] by simp
qed

end
