(* ===== verification/Super_Fetch.thy ===== *)
theory Super_Fetch
  imports Workset Watermark Retry_Processor
begin

text \<open>
  The SuperFetch executor (\<^verbatim>\<open>pkg/daemon/superfetch.go\<close>): a poll batch is claimed in the working set,
  acknowledged to Kafka at once and performed in the background.

  \<^item> \<open>executor\<close> holds the fixed fields of \<open>SuperFetchExecutor\<close>, \<open>sf\<close> what changes: the accepting flag, the
    \<open>inFlight\<close> map, the taken slots of \<open>ClaimWindow\<close>, the renew set, the \<open>perform\<close> goroutines, the marked
    records and the working set. Two fields are history: \<open>sf_routed\<close> are the malformed records sent to the
    dead-letter topic, \<open>sf_stored\<close> what Redis held for a job right after its claim was answered, \<open>sf_out\<close> what
    the performs produced.
  \<^item> Other goroutines and processes run between the steps of the dispatcher: the environment gives the list of
    \<open>bg\<close> events at each such point. A perform or a renewal tick is one event.
  \<^item> A claim has a fate, as every remote call; a loop that retries until its context ends is fed with a list of
    answers, and the end of the list is the end of the context.
  \<^item> When the dispatcher waits for a slot, the context ends or a slot is free: if the window is still full after
    the events of the wait, the context has ended.
  \<^item> Durations are in nanoseconds, as in \<open>Workset\<close>.
\<close>

subsection \<open>Configuration\<close>

record sf_cfg =
  SuperFetchConcurrency :: int
  SuperFetchClaimWindow :: int
  SuperFetchLeaseTTL :: int
  SuperFetchOrphanGrace :: int
  SuperFetchReclaimEvery :: int
  LivenessTTL :: int
  LivenessHeartbeatInterval :: int

definition superFetchWorkers :: "sf_cfg \<Rightarrow> int" where
  "superFetchWorkers C = (if SuperFetchConcurrency C < 1 then 10 else SuperFetchConcurrency C)"

definition superFetchClaimWindowSize :: "sf_cfg \<Rightarrow> int" where
  "superFetchClaimWindowSize C =
     (let workers = superFetchWorkers C in
      if workers \<le> SuperFetchClaimWindow C then SuperFetchClaimWindow C else workers * 2)"

definition livenessTTLDuration :: "sf_cfg \<Rightarrow> int" where
  "livenessTTLDuration C = (if LivenessTTL C \<le> 0 then 180 * second else LivenessTTL C)"

definition livenessHeartbeatIntervalDuration :: "sf_cfg \<Rightarrow> int" where
  "livenessHeartbeatIntervalDuration C =
     (if LivenessHeartbeatInterval C \<le> 0 then 20 * second else LivenessHeartbeatInterval C)"

record executor =
  x_consumer :: string
  x_lease :: int
  x_hb :: int
  x_every :: int
  x_grace :: int
  x_window :: nat
  x_sem :: nat

definition reclaim_every :: "sf_cfg \<Rightarrow> int" where
  "reclaim_every C = (if SuperFetchReclaimEvery C \<le> 0 then 30 * second else SuperFetchReclaimEvery C)"

definition newSuperFetchExecutor :: "sf_cfg \<Rightarrow> string \<Rightarrow> executor" where
  "newSuperFetchExecutor C c =
     (let lease = (if SuperFetchLeaseTTL C \<le> 0 then 120 * second else SuperFetchLeaseTTL C);
          grace = (if SuperFetchOrphanGrace C \<le> 0 then DefaultOrphanGrace else SuperFetchOrphanGrace C);
          hbTTL = livenessTTLDuration C;
          minLease = hbTTL + grace + reclaim_every C + 30 * second
      in \<lparr>x_consumer = c, x_lease = (if lease < minLease then minLease else lease), x_hb = hbTTL,
          x_every = livenessHeartbeatIntervalDuration C, x_grace = grace,
          x_window = nat (superFetchClaimWindowSize C), x_sem = nat (superFetchWorkers C)\<rparr>)"

subsection \<open>State\<close>

record running_job =
  pf_rec :: wm_rec
  pf_job :: string
  pf_fence :: string

record sf =
  sf_accepting :: bool
  sf_inFlight :: "string set"
  sf_window :: nat
  sf_renewSet :: "string \<rightharpoonup> string"
  sf_running :: "running_job list"
  sf_marks :: "wm_rec list"
  sf_work :: workset
  sf_routed :: "wm_rec list"
  sf_stored :: "(wm_rec \<times> stored option) list"
  sf_out :: "msg list"

definition new_sf :: "workset \<Rightarrow> sf" where
  "new_sf W = \<lparr>sf_accepting = True, sf_inFlight = {}, sf_window = 0, sf_renewSet = Map.empty, sf_running = [],
     sf_marks = [], sf_work = W, sf_routed = [], sf_stored = [], sf_out = []\<rparr>"

definition sf_stopAccepting :: "sf \<Rightarrow> sf" where
  "sf_stopAccepting S = S\<lparr>sf_accepting := False\<rparr>"

definition sf_inFlightCount :: "sf \<Rightarrow> nat" where
  "sf_inFlightCount S = card (sf_inFlight S)"

definition extractJobID :: "codec \<Rightarrow> string \<Rightarrow> string" where
  "extractJobID K raw =
     (case jdec K raw of
        Some (JObj m) \<Rightarrow> (case dec_str ''job_id'' m of None \<Rightarrow> '''' | Some j \<Rightarrow> j)
      | _ \<Rightarrow> '''')"

subsection \<open>One perform\<close>

definition retryBackoff :: "nat \<Rightarrow> int" where
  "retryBackoff attempt = (let d = int attempt * 200000000 in if d > 5 * second then 5 * second else d)"

text \<open>The retry loop around \<open>processWithSem\<close>. A panic of the handler ends the process.\<close>

fun process_until :: "job_res list \<Rightarrow> job_out option" where
  "process_until [] = None"
| "process_until (JobOut q # rs) = Some q"
| "process_until (JobError # rs) = process_until rs"
| "process_until (JobPanic # rs) = None"

text \<open>The retry loop around \<open>Apply\<close>: per attempt whether the batch produce can be used, its fates and those of
  the single produces.\<close>

fun apply_until :: "(int \<Rightarrow> string) \<Rightarrow> pub_cfg \<Rightarrow> job_out \<Rightarrow> (bool \<times> fate list option \<times> fate list) list \<Rightarrow> msg list \<times> bool" where
  "apply_until dec P q [] = ([], False)"
| "apply_until dec P q ((canBatch, batch, fs) # as) =
     (let (_, out, done) = applyJobOutcome dec P canBatch batch q fs in
      if done then (out, True) else let (out', r) = apply_until dec P q as in (out @ out', r))"

text \<open>At most five attempts at \<open>Complete\<close>.\<close>

fun complete_tries :: "nat \<Rightarrow> string \<Rightarrow> string \<Rightarrow> string \<Rightarrow> (int \<times> fate) list \<Rightarrow> workset \<Rightarrow> workset" where
  "complete_tries 0 j c f xs W = W"
| "complete_tries (Suc n) j c f [] W = W"
| "complete_tries (Suc n) j c f ((clk, a) # xs) W =
     (let W1 = when_run a (complete_job clk j c f) W in
      if a = Replied then W1 else complete_tries n j c f xs W1)"

record perform_env =
  ru_process :: "job_res list"
  ru_apply :: "(bool \<times> fate list option \<times> fate list) list"
  ru_complete :: "(int \<times> fate) list"

definition perform :: "(int \<Rightarrow> string) \<Rightarrow> pub_cfg \<Rightarrow> executor \<Rightarrow> perform_env \<Rightarrow> running_job \<Rightarrow> workset \<Rightarrow>
    workset \<times> msg list \<times> job_out option" where
  "perform dec P X v p W =
     (case process_until (ru_process v) of
        None \<Rightarrow> (W, [], None)
      | Some q \<Rightarrow>
          (let (out, done) = apply_until dec P q (ru_apply v) in
           if \<not> done then (W, out, None)
           else (complete_tries 5 (pf_job p) (x_consumer X) (pf_fence p) (ru_complete v) W, out, Some q)))"

subsection \<open>Renewal\<close>

definition registerRenew :: "string \<Rightarrow> string \<Rightarrow> sf \<Rightarrow> sf" where
  "registerRenew j f S = S\<lparr>sf_renewSet := (sf_renewSet S)(j \<mapsto> f)\<rparr>"

definition stopRenew :: "string \<Rightarrow> string \<Rightarrow> sf \<Rightarrow> sf" where
  "stopRenew j f S = (if sf_renewSet S j = Some f then S\<lparr>sf_renewSet := (sf_renewSet S)(j := None)\<rparr> else S)"

text \<open>One tick: the entries come in some order, each with the fate of its renewal; \<open>None\<close> is an error.\<close>

fun renew_each :: "int \<Rightarrow> string \<Rightarrow> int \<Rightarrow> (string \<times> string \<times> fate) list \<Rightarrow> workset \<Rightarrow> workset \<times> bool option list" where
  "renew_each clk c ttl [] W = (W, [])"
| "renew_each clk c ttl ((j, f, a) # es) W =
     (if a = NotRun then (let (W2, oks) = renew_each clk c ttl es W in (W2, None # oks))
      else let (W1, n) = renew_script clk j c f (seconds (if ttl \<le> 0 then defaultLeaseTTL else ttl)) W;
               (W2, oks) = renew_each clk c ttl es W1
           in (W2, (if a = Replied then Some (n = 1) else None) # oks))"

definition renew_entries :: "(string \<times> fate) list \<Rightarrow> sf \<Rightarrow> (string \<times> string \<times> fate) list" where
  "renew_entries ord S =
     List.map_filter (\<lambda>(j, a). case sf_renewSet S j of None \<Rightarrow> None | Some f \<Rightarrow> Some (j, f, a)) ord"

definition renew_tick :: "executor \<Rightarrow> int \<Rightarrow> (string \<times> fate) list \<Rightarrow> sf \<Rightarrow> sf" where
  "renew_tick X clk ord S =
     (let es = renew_entries ord S; (W1, oks) = renew_each clk (x_consumer X) (x_lease X) es (sf_work S)
      in fold (\<lambda>((j, f, _), r). if r = Some False then stopRenew j f else id) (zip es oks) (S\<lparr>sf_work := W1\<rparr>))"

subsection \<open>What runs beside the dispatcher\<close>

datatype bg = BgEnd nat perform_env | BgStop | BgTick int "(string \<times> fate) list" | BgRedis workset

definition end_perform :: "(int \<Rightarrow> string) \<Rightarrow> pub_cfg \<Rightarrow> executor \<Rightarrow> nat \<Rightarrow> perform_env \<Rightarrow> sf \<Rightarrow> sf" where
  "end_perform dec P X n v S =
     (if length (sf_running S) \<le> n then S
      else let p = sf_running S ! n; (W1, out, _) = perform dec P X v p (sf_work S);
               S1 = stopRenew (pf_job p) (pf_fence p)
                      (S\<lparr>sf_work := W1, sf_out := sf_out S @ out, sf_running := take n (sf_running S) @ drop (Suc n) (sf_running S)\<rparr>)
           in S1\<lparr>sf_inFlight := sf_inFlight S1 - {pf_job p}, sf_window := sf_window S1 - 1\<rparr>)"

fun bg_step :: "(int \<Rightarrow> string) \<Rightarrow> pub_cfg \<Rightarrow> executor \<Rightarrow> bg \<Rightarrow> sf \<Rightarrow> sf" where
  "bg_step dec P X (BgEnd n v) S = end_perform dec P X n v S"
| "bg_step dec P X BgStop S = sf_stopAccepting S"
| "bg_step dec P X (BgTick clk ord) S = renew_tick X clk ord S"
| "bg_step dec P X (BgRedis W) S = S\<lparr>sf_work := W\<rparr>"

definition run_bg :: "(int \<Rightarrow> string) \<Rightarrow> pub_cfg \<Rightarrow> executor \<Rightarrow> bg list \<Rightarrow> sf \<Rightarrow> sf" where
  "run_bg dec P X bs S = fold (bg_step dec P X) bs S"

subsection \<open>Claims of a chunk\<close>

definition maxClaimPipeline :: nat where "maxClaimPipeline = 256"

datatype dispatchKind = DispatchClaim | DispatchDuplicate | DispatchMalformed

record dispatchItem =
  it_rec :: wm_rec
  it_job :: string
  it_kind :: dispatchKind
  it_slot :: bool

definition item_params :: "executor \<Rightarrow> dispatchItem \<Rightarrow> claim_params" where
  "item_params X t =
     \<lparr>c_job = it_job t, c_payload = r_value (it_rec t), c_topic = r_topic (it_rec t), c_partition = r_part (it_rec t),
      c_offset = r_off (it_rec t), c_consumer = x_consumer X, c_lease = x_lease X, c_hb = x_hb X, c_grace = x_grace X\<rparr>"

text \<open>\<open>ClaimMany\<close> with a fate for every script call and, for resumed claims, whether the entry could be read
  back; the rest is as in \<open>claimMany\<close>.\<close>

datatype claim_reply = ClaimErr | ClaimRes claim_result

record claim_fate =
  cf_fate :: fate
  cf_read :: bool
  cf_fence :: string

fun claim_each :: "codec \<Rightarrow> int \<Rightarrow> int \<Rightarrow> string \<Rightarrow> (claim_fate \<times> claim_params) list \<Rightarrow> workset \<Rightarrow> workset \<times> nat option list" where
  "claim_each K clk now iso_at [] W = (W, [])"
| "claim_each K clk now iso_at ((a, p) # ps) W =
     (if c_job p = '''' \<or> cf_fate a = NotRun then (let (W2, rs) = claim_each K clk now iso_at ps W in (W2, None # rs))
      else let (W1, n) = run_claim K clk now iso_at (cf_fence a) p W; (W2, rs) = claim_each K clk now iso_at ps W1
           in (W2, (if cf_fate a = Replied then Some n else None) # rs))"

definition claim_answer :: "int \<Rightarrow> int \<Rightarrow> string \<Rightarrow> workset \<Rightarrow> claim_fate \<times> claim_params \<Rightarrow> nat option \<Rightarrow> claim_reply" where
  "claim_answer clk now iso_at W ap r =
     (case (ap, r) of
        ((a, p), Some n) \<Rightarrow>
          if n = 2 \<and> \<not> cf_read a then ClaimErr
          else ClaimRes (claim_outcome clk (c_job p) (claim_entry p (cf_fence a) iso_at now) n W)
      | _ \<Rightarrow> ClaimErr)"

definition claim_many :: "codec \<Rightarrow> int \<Rightarrow> int \<Rightarrow> string \<Rightarrow> (claim_fate \<times> claim_params) list \<Rightarrow> workset \<Rightarrow> workset \<times> claim_reply list" where
  "claim_many K clk now iso_at ps W =
     (let (W1, rs) = claim_each K clk now iso_at ps W in (W1, map2 (claim_answer clk now iso_at W1) ps rs))"

subsection \<open>\<open>flushDispatchChunk\<close>\<close>

record flush_env =
  fl_clk :: int
  fl_now :: int
  fl_stamp :: string
  fl_claims :: "nat \<Rightarrow> claim_fate"
  fl_items :: "nat \<Rightarrow> bg list \<times> bool"

definition mark_rec :: "wm_rec \<Rightarrow> sf \<Rightarrow> sf" where
  "mark_rec r S = S\<lparr>sf_marks := sf_marks S @ [r]\<rparr>"

definition release_claim :: "dispatchItem \<Rightarrow> sf \<Rightarrow> sf" where
  "release_claim t S =
     S\<lparr>sf_inFlight := sf_inFlight S - {it_job t}, sf_window := (if it_slot t then sf_window S - 1 else sf_window S)\<rparr>"

definition start_perform :: "dispatchItem \<Rightarrow> string \<Rightarrow> sf \<Rightarrow> sf" where
  "start_perform t f S =
     (let S1 = registerRenew (it_job t) f S
      in S1\<lparr>sf_running := sf_running S1 @ [\<lparr>pf_rec = it_rec t, pf_job = it_job t, pf_fence = f\<rparr>]\<rparr>)"

text \<open>\<open>processMissingJobID\<close>: the flag says that \<open>Process\<close> and \<open>Apply\<close> both succeeded.\<close>

definition processMissingJobID :: "bool \<Rightarrow> wm_rec \<Rightarrow> sf \<Rightarrow> sf \<times> bool" where
  "processMissingJobID routed r S =
     (if routed then (mark_rec r (S\<lparr>sf_routed := sf_routed S @ [r]\<rparr>), True) else (S, False))"

text \<open>The loop over the items; \<open>Some k\<close> is the index of the item that stopped it.\<close>

fun flush_items :: "(int \<Rightarrow> string) \<Rightarrow> pub_cfg \<Rightarrow> executor \<Rightarrow> (nat \<Rightarrow> bg list \<times> bool) \<Rightarrow> nat \<Rightarrow> dispatchItem list \<Rightarrow> claim_reply list \<Rightarrow>
    sf \<Rightarrow> sf \<times> nat option" where
  "flush_items dec P X E k [] rs S = (S, None)"
| "flush_items dec P X E k (t # ts) rs S0 =
     (let S = run_bg dec P X (fst (E k)) S0 in
      case it_kind t of
        DispatchMalformed \<Rightarrow>
          (let (S1, good) = processMissingJobID (snd (E k)) (it_rec t) S in
           if good then flush_items dec P X E (Suc k) ts rs S1 else (S1, Some k))
      | DispatchDuplicate \<Rightarrow> flush_items dec P X E (Suc k) ts rs (mark_rec (it_rec t) S)
      | DispatchClaim \<Rightarrow>
          (case rs of
             ClaimRes (ClaimWon f e) # rs' \<Rightarrow>
               flush_items dec P X E (Suc k) ts rs' (start_perform t f (mark_rec (it_rec t) S))
           | ClaimRes _ # rs' \<Rightarrow>
               flush_items dec P X E (Suc k) ts rs' (release_claim t (mark_rec (it_rec t) S))
           | _ \<Rightarrow> (release_claim t S, Some k)))"

definition claim_items :: "dispatchItem list \<Rightarrow> dispatchItem list" where
  "claim_items ts = filter (\<lambda>t. it_kind t = DispatchClaim) ts"

definition chunk_params :: "executor \<Rightarrow> flush_env \<Rightarrow> dispatchItem list \<Rightarrow> (claim_fate \<times> claim_params) list" where
  "chunk_params X F ts = map (\<lambda>(k, t). (fl_claims F k, item_params X t)) (List.enumerate 0 (claim_items ts))"

text \<open>The history records, for every claim that was answered, what Redis holds for the job after the pipeline.\<close>

definition flushDispatchChunk :: "codec \<Rightarrow> (int \<Rightarrow> string) \<Rightarrow> pub_cfg \<Rightarrow> executor \<Rightarrow> flush_env \<Rightarrow> dispatchItem list \<Rightarrow> sf \<Rightarrow>
    sf \<times> nat option" where
  "flushDispatchChunk K dec P X F ts S =
     (let (W1, rs) = claim_many K (fl_clk F) (fl_now F) (fl_stamp F) (chunk_params X F ts) (sf_work S);
          answered = map fst (filter (\<lambda>(t, r). r \<noteq> ClaimErr) (zip (claim_items ts) rs));
          S1 = S\<lparr>sf_work := W1, sf_stored := sf_stored S @ map (\<lambda>t. (it_rec t, getEntry (fl_clk F) (it_job t) W1)) answered\<rparr>
      in flush_items dec P X (fl_items F) 0 ts rs S1)"

subsection \<open>\<open>DispatchClaimsAndAcks\<close>\<close>

definition releaseChunkClaims :: "dispatchItem list \<Rightarrow> sf \<Rightarrow> sf" where
  "releaseChunkClaims ts S = fold release_claim (claim_items ts) S"

text \<open>\<open>undispatchedRewindOffsets\<close>: the lowest offset of each partition.\<close>

definition undispatchedRewindOffsets :: "wm_rec list \<Rightarrow> partitionKey \<rightharpoonup> int" where
  "undispatchedRewindOffsets recs =
     fold (\<lambda>r m. case m (key_of r) of
             Some d \<Rightarrow> if r_off r < d then m(key_of r \<mapsto> r_off r) else m
           | None \<Rightarrow> m(key_of r \<mapsto> r_off r)) recs Map.empty"

record rec_env =
  re_bg :: "bg list"
  re_wait :: "bg list"
  re_done :: bool
  re_flush :: flush_env

text \<open>The dispatcher between two records: the start of the pending chunk, the chunk, the executor. A stopped
  dispatch has the records that are rewound.\<close>

datatype dispatch_state = Going nat "dispatchItem list" sf | Stopped "wm_rec list" sf

definition flush_pending :: "codec \<Rightarrow> (int \<Rightarrow> string) \<Rightarrow> pub_cfg \<Rightarrow> executor \<Rightarrow> wm_rec list \<Rightarrow> flush_env \<Rightarrow> nat \<Rightarrow> dispatchItem list \<Rightarrow> sf \<Rightarrow>
    dispatch_state" where
  "flush_pending K dec P X recs F start ts S =
     (if ts = [] then Going start [] S
      else case flushDispatchChunk K dec P X F ts S of
        (S1, None) \<Rightarrow> Going (start + length ts) [] S1
      | (S1, Some k) \<Rightarrow> Stopped (drop (start + k) recs) (releaseChunkClaims (drop (Suc k) ts) S1))"

definition push_item :: "codec \<Rightarrow> (int \<Rightarrow> string) \<Rightarrow> pub_cfg \<Rightarrow> executor \<Rightarrow> wm_rec list \<Rightarrow> flush_env \<Rightarrow> dispatchItem \<Rightarrow> nat \<Rightarrow> dispatchItem list \<Rightarrow>
    sf \<Rightarrow> dispatch_state" where
  "push_item K dec P X recs F t start ts S =
     (if maxClaimPipeline \<le> Suc (length ts) then flush_pending K dec P X recs F start (ts @ [t]) S
      else Going start (ts @ [t]) S)"

definition take_slot :: "sf \<Rightarrow> sf" where
  "take_slot S = S\<lparr>sf_window := Suc (sf_window S)\<rparr>"

definition dispatch_record :: "codec \<Rightarrow> (int \<Rightarrow> string) \<Rightarrow> pub_cfg \<Rightarrow> executor \<Rightarrow> wm_rec list \<Rightarrow> rec_env \<Rightarrow> nat \<Rightarrow> wm_rec \<Rightarrow> nat \<Rightarrow>
    dispatchItem list \<Rightarrow> sf \<Rightarrow> dispatch_state" where
  "dispatch_record K dec P X recs E i r start ts S0 =
     (let S = run_bg dec P X (re_bg E) S0; j = extractJobID K (r_value r);
          item = (\<lambda>kind slot. \<lparr>it_rec = r, it_job = j, it_kind = kind, it_slot = slot\<rparr>);
          S1 = S\<lparr>sf_inFlight := insert j (sf_inFlight S)\<rparr>;
          drop_job = (\<lambda>S. S\<lparr>sf_inFlight := sf_inFlight S - {j}\<rparr>) in
      if \<not> sf_accepting S then Stopped (drop start recs) (releaseChunkClaims ts S)
      else if j = '''' then push_item K dec P X recs (re_flush E) (item DispatchMalformed False) start ts S
      else if j \<in> sf_inFlight S then push_item K dec P X recs (re_flush E) (item DispatchDuplicate False) start ts S
      else if sf_window S1 < x_window X
      then push_item K dec P X recs (re_flush E) (item DispatchClaim True) start ts (take_slot S1)
      else case flush_pending K dec P X recs (re_flush E) start ts S1 of
        Stopped tail S2 \<Rightarrow> Stopped tail (drop_job S2)
      | Going start' ts' S2 \<Rightarrow>
          (let S3 = run_bg dec P X (re_wait E) S2 in
           if re_done E \<or> x_window X \<le> sf_window S3 then Stopped (drop i recs) (drop_job S3)
           else push_item K dec P X recs (re_flush E) (item DispatchClaim True) start' ts' (take_slot S3)))"

fun sf_dispatch_loop :: "codec \<Rightarrow> (int \<Rightarrow> string) \<Rightarrow> pub_cfg \<Rightarrow> executor \<Rightarrow> wm_rec list \<Rightarrow> (nat \<Rightarrow> rec_env) \<Rightarrow> nat \<Rightarrow> wm_rec list \<Rightarrow> dispatch_state \<Rightarrow>
    dispatch_state" where
  "sf_dispatch_loop K dec P X recs E i rest (Stopped tail S) = Stopped tail S"
| "sf_dispatch_loop K dec P X recs E i [] (Going start ts S) = flush_pending K dec P X recs (re_flush (E i)) start ts S"
| "sf_dispatch_loop K dec P X recs E i (r # rest) (Going start ts S) =
     sf_dispatch_loop K dec P X recs E (Suc i) rest (dispatch_record K dec P X recs (E i) i r start ts S)"

text \<open>The whole call: the executor afterwards and the offsets given to \<open>SetOffsets\<close>, if it is called.\<close>

definition dispatchClaimsAndAcks :: "codec \<Rightarrow> (int \<Rightarrow> string) \<Rightarrow> pub_cfg \<Rightarrow> executor \<Rightarrow> (nat \<Rightarrow> rec_env) \<Rightarrow> wm_rec list \<Rightarrow> sf \<Rightarrow>
    sf \<times> (partitionKey \<rightharpoonup> int) option" where
  "dispatchClaimsAndAcks K dec P X E recs S =
     (if \<not> sf_accepting S then (S, None)
      else case sf_dispatch_loop K dec P X recs E 0 recs (Going 0 [] S) of
        Going _ _ S1 \<Rightarrow> (S1, None)
      | Stopped tail S1 \<Rightarrow> (S1, if tail = [] then None else Some (undispatchedRewindOffsets tail)))"

end
