(* ===== verification/Super_Fetch_Claims.thy ===== *)
theory Super_Fetch_Claims
  imports Super_Fetch Workset_Claims Job_Claims
begin

text \<open>
  Properties of the SuperFetch executor: a record is acknowledged only when it is safe elsewhere, what is not
  acknowledged is fetched again, the claim window is accounted exactly, and a job leaves the working set only
  when its outcome has been published.
\<close>

subsection \<open>Claims leave an entry\<close>

definition held_entry :: "int \<Rightarrow> string \<Rightarrow> workset \<Rightarrow> bool" where
  "held_entry clk j W = (\<exists>e. getEntry clk j W = Some (Stored e))"

lemma fresh_key: "0 < n \<Longrightarrow> purge_key clk (Some (Cell v (Some (clk + n)))) = Some (Cell v (Some (clk + n)))"
  by (simp add: purge_key_def cell_live_def)

lemma held_I: "jobs W j = Some (Cell (Stored e) d) \<Longrightarrow> purge_key clk (jobs W j) \<noteq> None \<Longrightarrow> held_entry clk j W"
  by (simp add: held_entry_def getEntry_def purge_Stored)

lemma held_take: "0 < ttl \<Longrightarrow> held_entry clk j (take_job clk j c raw ttl now hbs W)"
  by (rule held_I [where e = raw and d = "Some (clk + ttl * 1000)"]) (simp_all add: set_key_ex_def fresh_key)

lemma script_holds:
  assumes "0 < ttl"
  shows "held_entry clk j (fst (claim_script clk j c raw ttl now grace hb W))"
proof (cases "purge_key clk (jobs W j)")
  case None
  then show ?thesis using held_take [OF assms] by (simp add: claim_script_def Let_def)
next
  case (Some cc)
  obtain v d where cc: "cc = Cell v d" by (cases cc)
  show ?thesis
  proof (cases v)
    case Garbage
    then show ?thesis using Some cc held_take [OF assms] by (simp add: claim_script_def Let_def)
  next
    case (Stored e)
    have i: "purge_key clk (Some (Cell (Stored e) d)) = Some (Cell (Stored e) d)"
      using purge_key_idem [of clk "jobs W j"] Some cc Stored by simp
    have p: "held_entry clk j (purge_work clk W)"
      by (rule held_I [where e = e and d = d]) (simp_all add: Some cc Stored i)
    show ?thesis
    proof (cases "e_consumer e = c")
      case True
      show ?thesis
        by (rule held_I [OF claim_script_same(1)]) (use Some cc Stored True assms in \<open>simp_all add: claim_script_same(1) fresh_key\<close>)
    next
      case False
      then show ?thesis using Some cc Stored held_take [OF assms] p by (auto simp: claim_script_def Let_def)
    qed
  qed
qed

lemma held_after_claim: "held_entry clk (c_job p) (fst (run_claim K clk now tm f p W))"
  unfolding run_claim_def by (rule script_holds [OF claim_secs_pos])

lemma held_claim: "held_entry clk j W \<Longrightarrow> held_entry clk j (fst (run_claim K clk now tm f p W))"
proof (cases "j = c_job p")
  case False
  then show "held_entry clk j W \<Longrightarrow> ?thesis" by (simp add: held_entry_def run_claim_get)
qed (simp add: held_after_claim)
lemma held_each: "held_entry clk j W \<Longrightarrow> held_entry clk j (fst (claim_each K clk now tm ps W))"
proof (induction ps arbitrary: W)
  case (Cons x ps)
  obtain a p where x: "x = (a, p)" by fastforce
  show ?case using Cons.IH [OF Cons.prems] Cons.IH [OF held_claim [OF Cons.prems]] x by (auto simp: split_beta)
qed simp

lemma length_claim_each [simp]: "length (snd (claim_each K clk now tm ps W)) = length ps"
  by (induction ps arbitrary: W) (auto simp: split_beta)

lemma answered_held:
  "k < length ps \<Longrightarrow> snd (claim_each K clk now tm ps W) ! k = Some n \<Longrightarrow>
   held_entry clk (c_job (snd (ps ! k))) (fst (claim_each K clk now tm ps W))"
proof (induction ps arbitrary: W k)
  case (Cons x ps)
  obtain a p where x: "x = (a, p)" by fastforce
  show ?case
  proof (cases k)
    case 0
    then show ?thesis using Cons.prems x held_each [OF held_after_claim] by (auto simp: split_beta split: if_splits)
  next
    case (Suc m)
    then show ?thesis using Cons.prems Cons.IH [of m] x by (auto simp: split_beta split: if_splits)
  qed
qed simp

lemma reply_held:
  assumes "claim_many K clk now tm ps W = (W1, rs)" and "k < length ps" and "rs ! k \<noteq> ClaimErr"
  shows "held_entry clk (c_job (snd (ps ! k))) W1"
proof -
  let ?q = "claim_each K clk now tm ps W"
  have e: "W1 = fst ?q" "rs ! k = claim_answer clk now tm W1 (ps ! k) (snd ?q ! k)"
    using assms(1,2) by (auto simp: claim_many_def split_beta)
  obtain n where "snd ?q ! k = Some n" using assms(3) e(2) by (cases "snd ?q ! k") (auto simp: claim_answer_def split: prod.splits)
  then show ?thesis using answered_held [OF assms(2)] e(1) by blast
qed

subsection \<open>The accounting invariant\<close>

text \<open>\<open>ts\<close> is the pending chunk; \<open>js\<close> the job (if any) that is registered but has no slot yet.\<close>

definition sf_jobs :: "string list \<Rightarrow> dispatchItem list \<Rightarrow> sf \<Rightarrow> string list" where
  "sf_jobs js ts S = map pf_job (sf_running S) @ map it_job (claim_items ts) @ js"

definition sf_inv :: "executor \<Rightarrow> string list \<Rightarrow> dispatchItem list \<Rightarrow> sf \<Rightarrow> bool" where
  "sf_inv X js ts S =
     (distinct (sf_jobs js ts S) \<and> sf_inFlight S = set (sf_jobs js ts S) \<and>
      sf_window S = length (sf_running S) + length (claim_items ts) \<and> sf_window S \<le> x_window X \<and>
      (\<forall>t \<in> set (claim_items ts). it_slot t))"

lemma claim_items_simps [simp]:
  "claim_items [] = []" "claim_items (t # ts) = (if it_kind t = DispatchClaim then t # claim_items ts else claim_items ts)"
  "claim_items (ts @ us) = claim_items ts @ claim_items us"
  by (simp_all add: claim_items_def)

lemma stopRenew_sel [simp]:
  "sf_accepting (stopRenew j f S) = sf_accepting S" "sf_inFlight (stopRenew j f S) = sf_inFlight S" "sf_window (stopRenew j f S) = sf_window S"
  "sf_running (stopRenew j f S) = sf_running S" "sf_marks (stopRenew j f S) = sf_marks S" "sf_work (stopRenew j f S) = sf_work S"
  "sf_routed (stopRenew j f S) = sf_routed S" "sf_stored (stopRenew j f S) = sf_stored S" "sf_out (stopRenew j f S) = sf_out S"
  by (simp_all add: stopRenew_def)

text \<open>What events beside the dispatcher leave alone.\<close>

definition sf_quiet :: "sf \<Rightarrow> sf \<Rightarrow> bool" where
  "sf_quiet S S' = (sf_marks S' = sf_marks S \<and> sf_routed S' = sf_routed S \<and> sf_stored S' = sf_stored S \<and>
     set (sf_running S') \<subseteq> set (sf_running S))"

lemma tick_fold:
  assumes "S' = fold (\<lambda>((j, f, _), r). if r = Some False then stopRenew j f else id) xs S"
  shows "sf_inFlight S' = sf_inFlight S" "sf_window S' = sf_window S" "sf_running S' = sf_running S"
    "sf_marks S' = sf_marks S" "sf_routed S' = sf_routed S" "sf_stored S' = sf_stored S"
  using assms by (induction xs arbitrary: S) (auto split: prod.splits)

lemma remove_running:
  assumes "n < length ps"
  shows "distinct (map f ps @ ys) \<Longrightarrow> distinct (map f (take n ps @ drop (Suc n) ps) @ ys)"
    and "distinct (map f ps @ ys) \<Longrightarrow> set (map f (take n ps @ drop (Suc n) ps) @ ys) = set (map f ps @ ys) - {f (ps ! n)}"
    and "length (take n ps @ drop (Suc n) ps) = length ps - 1" and "set (take n ps @ drop (Suc n) ps) \<subseteq> set ps"
proof -
  have p: "ps = take n ps @ ps ! n # drop (Suc n) ps" using assms by (rule id_take_nth_drop)
  have m: "map f ps = map f (take n ps) @ f (ps ! n) # map f (drop (Suc n) ps)"
    by (subst p) simp
  show "distinct (map f ps @ ys) \<Longrightarrow> distinct (map f (take n ps @ drop (Suc n) ps) @ ys)"
    unfolding m by auto
  show "distinct (map f ps @ ys) \<Longrightarrow> set (map f (take n ps @ drop (Suc n) ps) @ ys) = set (map f ps @ ys) - {f (ps ! n)}"
    unfolding m by auto
  show "length (take n ps @ drop (Suc n) ps) = length ps - 1" using assms by simp
  show "set (take n ps @ drop (Suc n) ps) \<subseteq> set ps" using set_take_subset [of n ps] set_drop_subset [of "Suc n" ps] by auto
qed

lemma end_perform_inv:
  assumes "sf_inv X js ts S"
  shows "sf_inv X js ts (end_perform dec P X n v S) \<and> sf_quiet S (end_perform dec P X n v S)"
proof (cases "n < length (sf_running S)")
  case True
  note r = remove_running [OF True]
  let ?S' = "end_perform dec P X n v S"
  have run: "sf_running ?S' = take n (sf_running S) @ drop (Suc n) (sf_running S)" and win: "sf_window ?S' = sf_window S - 1"
    and fl: "sf_inFlight ?S' = sf_inFlight S - {pf_job (sf_running S ! n)}"
    and q: "sf_marks ?S' = sf_marks S" "sf_routed ?S' = sf_routed S" "sf_stored ?S' = sf_stored S"
    using True by (simp_all add: end_perform_def split_beta Let_def)
  have "sf_inv X js ts ?S'"
    using assms r(1,2) [of pf_job "map it_job (claim_items ts) @ js"] r(3) True
    by (auto simp: sf_inv_def sf_jobs_def run win fl)
  then show ?thesis using q r(4) by (simp add: sf_quiet_def run)
qed (use assms in \<open>simp add: end_perform_def sf_quiet_def\<close>)

lemma bg_inv:
  assumes "sf_inv X js ts S"
  shows "sf_inv X js ts (bg_step dec P X b S) \<and> sf_quiet S (bg_step dec P X b S)"
proof (cases b)
  case (BgTick clk ord)
  note t = tick_fold [OF refl]
  show ?thesis using assms by (auto simp: BgTick renew_tick_def split_beta Let_def t sf_inv_def sf_jobs_def sf_quiet_def)
next
  case (BgEnd n v)
  show ?thesis unfolding BgEnd bg_step.simps by (rule end_perform_inv [OF assms])
qed (use assms in \<open>auto simp: sf_stopAccepting_def sf_inv_def sf_jobs_def sf_quiet_def\<close>)

lemma run_bg_inv:
  assumes "sf_inv X js ts S"
  shows "sf_inv X js ts (run_bg dec P X bs S) \<and> sf_quiet S (run_bg dec P X bs S)"
  using assms unfolding run_bg_def
proof (induction bs arbitrary: S)
  case (Cons b bs)
  show ?case using bg_inv [OF Cons.prems, of dec P b] Cons.IH [of "bg_step dec P X b S"]
    by (auto simp: sf_quiet_def)
qed (simp add: sf_quiet_def)

subsection \<open>Acknowledged records\<close>

text \<open>\<open>backed\<close>: Redis held an entry for the job when one of its claims was answered.\<close>

definition backed :: "codec \<Rightarrow> string \<Rightarrow> sf \<Rightarrow> bool" where
  "backed K j S = (\<exists>r e. (r, Some (Stored e)) \<in> set (sf_stored S) \<and> extractJobID K (r_value r) = j)"

definition handled :: "codec \<Rightarrow> wm_rec \<Rightarrow> sf \<Rightarrow> bool" where
  "handled K r S = (let j = extractJobID K (r_value r) in if j = '''' then r \<in> set (sf_routed S) else backed K j S)"

text \<open>The history only grows.\<close>

definition grows :: "sf \<Rightarrow> sf \<Rightarrow> bool" where
  "grows S S' = (set (sf_routed S) \<subseteq> set (sf_routed S') \<and> set (sf_stored S) \<subseteq> set (sf_stored S'))"

lemma grows_refl [simp]: "grows S S" by (simp add: grows_def)
lemma grows_trans: "grows S S1 \<Longrightarrow> grows S1 S2 \<Longrightarrow> grows S S2" by (auto simp: grows_def)
lemma grows_backed: "grows S S' \<Longrightarrow> backed K j S \<Longrightarrow> backed K j S'" by (auto simp: grows_def backed_def)
lemma grows_handled: "grows S S' \<Longrightarrow> handled K r S \<Longrightarrow> handled K r S'"
  using grows_backed by (fastforce simp: handled_def grows_def Let_def)
lemma quiet_grows: "sf_quiet S S' \<Longrightarrow> grows S S'" by (simp add: sf_quiet_def grows_def)

text \<open>The state of the dispatcher: the accounting, the running jobs are backed, the items of the chunk are what
  their records say, and every duplicate has its original in Redis or earlier in the chunk.\<close>

definition item_ok :: "codec \<Rightarrow> dispatchItem \<Rightarrow> bool" where
  "item_ok K t = (it_job t = extractJobID K (r_value (it_rec t)) \<and> (it_kind t = DispatchMalformed \<longleftrightarrow> it_job t = ''''))"

definition dup_ok :: "codec \<Rightarrow> string set \<Rightarrow> sf \<Rightarrow> dispatchItem \<Rightarrow> bool" where
  "dup_ok K J S t = (it_kind t = DispatchDuplicate \<longrightarrow> backed K (it_job t) S \<or> it_job t \<in> J)"

fun dups_ok :: "codec \<Rightarrow> sf \<Rightarrow> string set \<Rightarrow> dispatchItem list \<Rightarrow> bool" where
  "dups_ok K S J [] = True"
| "dups_ok K S J (t # ts) = (dup_ok K J S t \<and> dups_ok K S (if it_kind t = DispatchClaim then insert (it_job t) J else J) ts)"

definition sf_ok :: "codec \<Rightarrow> executor \<Rightarrow> string list \<Rightarrow> dispatchItem list \<Rightarrow> sf \<Rightarrow> bool" where
  "sf_ok K X js ts S =
     (sf_inv X js ts S \<and> (\<forall>p \<in> set (sf_running S). backed K (pf_job p) S) \<and> (\<forall>t \<in> set ts. item_ok K t))"

lemma dups_grow: "dups_ok K S J ts \<Longrightarrow> grows S S' \<Longrightarrow> J \<subseteq> J' \<Longrightarrow> dups_ok K S' J' ts"
proof (induction ts arbitrary: J J')
  case (Cons t ts)
  show ?case
    using Cons.prems Cons.IH [of "insert (it_job t) J" "insert (it_job t) J'"] Cons.IH [of J J'] grows_backed
    by (auto simp: dup_ok_def split: if_splits)
qed simp

lemma dups_backed: "dups_ok K S (insert j J) ts \<Longrightarrow> backed K j S \<Longrightarrow> dups_ok K S J ts"
proof (induction ts arbitrary: J)
  case (Cons t ts)
  then show ?case by (auto simp: dup_ok_def insert_commute split: if_splits)
qed simp

lemma run_bg_ok:
  assumes "sf_ok K X js ts S"
  shows "sf_ok K X js ts (run_bg dec P X bs S)" and "grows S (run_bg dec P X bs S)" and "sf_marks (run_bg dec P X bs S) = sf_marks S"
proof -
  let ?S' = "run_bg dec P X bs S"
  have i: "sf_inv X js ts ?S'" "sf_quiet S ?S'" using run_bg_inv [of X js ts S dec P bs] assms by (auto simp: sf_ok_def)
  show "grows S ?S'" by (rule quiet_grows [OF i(2)])
  then show "sf_ok K X js ts ?S'" using i assms grows_backed by (fastforce simp: sf_ok_def sf_quiet_def)
  show "sf_marks ?S' = sf_marks S" using i(2) by (simp add: sf_quiet_def)
qed

text \<open>Replies that match the history.\<close>

definition replies_backed :: "codec \<Rightarrow> sf \<Rightarrow> dispatchItem list \<Rightarrow> claim_reply list \<Rightarrow> bool" where
  "replies_backed K S ts rs =
     (length rs = length (claim_items ts) \<and>
      (\<forall>(t, r) \<in> set (zip (claim_items ts) rs). r \<noteq> ClaimErr \<longrightarrow> backed K (it_job t) S))"

lemma replies_grow: "replies_backed K S ts rs \<Longrightarrow> grows S S' \<Longrightarrow> replies_backed K S' ts rs"
  using grows_backed by (fastforce simp: replies_backed_def)

lemma replies_Cons:
  "replies_backed K S (t # ts) rs \<Longrightarrow> it_kind t = DispatchClaim \<Longrightarrow>
     \<exists>r rs'. rs = r # rs' \<and> (r \<noteq> ClaimErr \<longrightarrow> backed K (it_job t) S) \<and> replies_backed K S ts rs'"
  by (cases rs) (auto simp: replies_backed_def)

lemma replies_skip: "replies_backed K S (t # ts) rs \<Longrightarrow> it_kind t \<noteq> DispatchClaim \<Longrightarrow> replies_backed K S ts rs"
  by (simp add: replies_backed_def)

text \<open>The effects of one item.\<close>

lemma mark_ok [simp]: "sf_ok K X js ts (mark_rec r S) = sf_ok K X js ts S" "grows S (mark_rec r S)" "sf_marks (mark_rec r S) = sf_marks S @ [r]"
  "backed K j (mark_rec r S) = backed K j S"
  by (auto simp: sf_ok_def sf_inv_def sf_jobs_def mark_rec_def grows_def backed_def)

lemma skip_ok: "sf_ok K X js (t # ts) S \<Longrightarrow> it_kind t \<noteq> DispatchClaim \<Longrightarrow> sf_ok K X js ts S"
  by (auto simp: sf_ok_def sf_inv_def sf_jobs_def)

lemma start_ok:
  assumes "sf_ok K X js (t # ts) S" and "it_kind t = DispatchClaim" and "backed K (it_job t) S"
  shows "sf_ok K X js ts (start_perform t f S)" and "grows S (start_perform t f S)" and "sf_marks (start_perform t f S) = sf_marks S"
  using assms by (auto simp: sf_ok_def sf_inv_def sf_jobs_def start_perform_def registerRenew_def Let_def grows_def backed_def)

lemma release_ok:
  assumes "sf_ok K X js (t # ts) S" and "it_kind t = DispatchClaim"
  shows "sf_ok K X js ts (release_claim t S)" and "grows S (release_claim t S)" and "sf_marks (release_claim t S) = sf_marks S"
  using assms by (auto simp: sf_ok_def sf_inv_def sf_jobs_def release_claim_def grows_def backed_def)

lemma route_ok:
  assumes "sf_ok K X js ts S"
  shows "sf_ok K X js ts (S\<lparr>sf_routed := sf_routed S @ [r]\<rparr>)" and "grows S (S\<lparr>sf_routed := sf_routed S @ [r]\<rparr>)"
  using assms by (auto simp: sf_ok_def sf_inv_def sf_jobs_def grows_def backed_def)

text \<open>A flush acknowledges a prefix of its items, and every record of it is handled.\<close>

definition flushed :: "codec \<Rightarrow> executor \<Rightarrow> string list \<Rightarrow> dispatchItem list \<Rightarrow> sf \<Rightarrow> sf \<Rightarrow> nat \<Rightarrow> dispatchItem list \<Rightarrow> bool" where
  "flushed K X js ts S S' n us =
     (n \<le> length ts \<and> sf_ok K X js us S' \<and> grows S S' \<and> sf_marks S' = sf_marks S @ map it_rec (take n ts) \<and>
      (\<forall>t \<in> set (take n ts). handled K (it_rec t) S'))"

lemma flushed_step:
  assumes "flushed K X js ts S1 S' n us" and "grows S S1" and "sf_marks S1 = sf_marks S @ [it_rec t]" and "handled K (it_rec t) S1"
  shows "flushed K X js (t # ts) S S' (Suc n) us"
  using assms grows_handled [of S1 S' K "it_rec t"] grows_trans [of S S1 S'] by (auto simp: flushed_def)

lemma flush_items_ok:
  assumes "flush_items dec P X E k ts rs S = (S', stop)" and "sf_ok K X js ts S" and "replies_backed K S ts rs" and "dups_ok K S {} ts"
  shows "case stop of None \<Rightarrow> flushed K X js ts S S' (length ts) []
     | Some m \<Rightarrow> k \<le> m \<and> m - k < length ts \<and> flushed K X js ts S S' (m - k) (drop (Suc (m - k)) ts)"
  using assms
proof (induction ts arbitrary: k rs S)
  case Nil
  then show ?case by (auto simp: flushed_def)
next
  case (Cons t ts)
  let ?S = "run_bg dec P X (fst (E k)) S"
  note b = run_bg_ok [OF Cons.prems(2), of dec P "fst (E k)"]
  note rep = replies_grow [OF Cons.prems(3) b(2)] and dup = dups_grow [OF Cons.prems(4) b(2) subset_refl]
  have io: "item_ok K t" using Cons.prems(2) by (simp add: sf_ok_def)
  have next1: ?case if S1: "sf_ok K X js ts S1" "grows ?S S1" "sf_marks S1 = sf_marks ?S @ [it_rec t]" "handled K (it_rec t) S1"
      "replies_backed K ?S ts rs'" "dups_ok K S1 {} ts" "flush_items dec P X E (Suc k) ts rs' S1 = (S', stop)" for S1 rs'
  proof -
    note IH = Cons.IH [OF S1(7,1) replies_grow [OF S1(5,2)] S1(6)]
    have g: "grows S S1" "sf_marks S1 = sf_marks S @ [it_rec t]" using grows_trans [OF b(2) S1(2)] S1(3) b(3) by simp_all
    show ?thesis
    proof (cases stop)
      case None
      then show ?thesis using IH flushed_step [OF _ g S1(4), of X js ts S' "length ts" "[]"] by simp
    next
      case (Some m)
      then have m: "Suc k \<le> m" "m - Suc k < length ts" "flushed K X js ts S1 S' (m - Suc k) (drop (Suc (m - Suc k)) ts)"
        using IH by simp_all
      then have e: "m - k = Suc (m - Suc k)" by simp
      show ?thesis using Some m flushed_step [OF m(3) g S1(4)] by (simp add: e)
    qed
  qed
  have stop1: ?case if "sf_ok K X js ts S'" "grows ?S S'" "sf_marks S' = sf_marks ?S" "stop = Some k"
    using that grows_trans [OF b(2) that(2)] b(3) by (simp add: flushed_def)
  show ?case
  proof (cases "it_kind t")
    case DispatchMalformed
    note sk = skip_ok [OF b(1)] and rs' = replies_skip [OF rep]
    show ?thesis
    proof (cases "snd (E k)")
      case True
      let ?S1 = "mark_rec (it_rec t) (?S\<lparr>sf_routed := sf_routed ?S @ [it_rec t]\<rparr>)"
      note r = route_ok [OF sk, of "it_rec t"]
      have nc: "it_kind t \<noteq> DispatchClaim" by (simp add: DispatchMalformed)
      have g: "grows ?S ?S1" by (rule grows_trans [OF r(2) [OF nc] mark_ok(2)])
      have h: "handled K (it_rec t) ?S1" using io DispatchMalformed by (auto simp: handled_def item_ok_def mark_rec_def Let_def)
      have d: "dups_ok K ?S1 {} ts" using dups_grow [OF _ g subset_refl] dup DispatchMalformed by simp
      have f: "flush_items dec P X E (Suc k) ts rs ?S1 = (S', stop)"
        using Cons.prems(1) DispatchMalformed True by (simp add: processMissingJobID_def Let_def)
      have o: "sf_ok K X js ts ?S1" using r(1) DispatchMalformed by simp
      have m: "sf_marks ?S1 = sf_marks ?S @ [it_rec t]" by (simp add: mark_rec_def)
      show ?thesis by (rule next1 [OF o g m h rs' d f]) (simp add: DispatchMalformed)
    next
      case False
      then show ?thesis using stop1 Cons.prems(1) DispatchMalformed sk by (auto simp: processMissingJobID_def Let_def)
    qed
  next
    case DispatchDuplicate
    let ?S1 = "mark_rec (it_rec t) ?S"
    have "backed K (it_job t) ?S" using dup DispatchDuplicate by (simp add: dup_ok_def)
    then have h: "handled K (it_rec t) ?S1" using io DispatchDuplicate by (auto simp: handled_def item_ok_def Let_def)
    have d: "dups_ok K ?S1 {} ts" using dups_grow [OF _ mark_ok(2) subset_refl] dup DispatchDuplicate by simp
    show ?thesis using next1 [of ?S1 rs] skip_ok [OF b(1)] h d replies_skip [OF rep] Cons.prems(1) DispatchDuplicate
      by (simp add: Let_def)
  next
    case DispatchClaim
    obtain r rs' where r: "rs = r # rs'" "r \<noteq> ClaimErr \<longrightarrow> backed K (it_job t) ?S" "replies_backed K ?S ts rs'"
      using replies_Cons [OF rep DispatchClaim] by blast
    show ?thesis
    proof (cases r)
      case ClaimErr
      then show ?thesis using stop1 release_ok [OF b(1) DispatchClaim] Cons.prems(1) DispatchClaim r(1) by (auto simp: Let_def)
    next
      case (ClaimRes c)
      let ?M = "mark_rec (it_rec t) ?S"
      have bk: "backed K (it_job t) ?M" using r(2) ClaimRes by simp
      have Mok: "sf_ok K X js (t # ts) ?M" using b(1) by simp
      have h: "handled K (it_rec t) ?M" using bk io DispatchClaim by (auto simp: handled_def item_ok_def Let_def)
      have d: "dups_ok K ?M {} ts"
        using dups_backed [OF _ bk] dups_grow [OF _ mark_ok(2) subset_refl] dup DispatchClaim by simp
      show ?thesis
      proof (cases "\<exists>f e. c = ClaimWon f e")
        case True
        then obtain f e where c: "c = ClaimWon f e" by blast
        note st = start_ok [OF Mok DispatchClaim bk, of f]
        show ?thesis
          using next1 [of "start_perform t f ?M" rs'] st grows_trans [OF mark_ok(2) st(2)] grows_handled [OF st(2) h] r(3)
            dups_grow [OF d st(2) subset_refl] Cons.prems(1) DispatchClaim r(1) ClaimRes c by (simp add: Let_def)
      next
        case False
        note st = release_ok [OF Mok DispatchClaim]
        have "flush_items dec P X E (Suc k) ts rs' (release_claim t ?M) = (S', stop)"
          using Cons.prems(1) DispatchClaim r(1) ClaimRes False by (cases c) (simp_all add: Let_def)
        then show ?thesis
          using next1 [of "release_claim t ?M" rs'] st grows_trans [OF mark_ok(2) st(2)] grows_handled [OF st(2) h] r(3)
            dups_grow [OF d st(2) subset_refl] by simp
      qed
    qed
  qed
qed

lemma chunk_params_nth:
  "k < length (claim_items ts) \<Longrightarrow> c_job (snd (chunk_params X F ts ! k)) = it_job (claim_items ts ! k)"
  "length (chunk_params X F ts) = length (claim_items ts)"
  by (simp_all add: chunk_params_def item_params_def nth_enumerate_eq)

lemma length_claim_many: "claim_many K clk now tm ps W = (W1, rs) \<Longrightarrow> length rs = length ps"
  by (auto simp: claim_many_def split_beta)

lemma flush_chunk_ok:
  assumes f: "flushDispatchChunk K dec P X F ts S = (S', stop)" and s: "sf_ok K X js ts S" and d: "dups_ok K S {} ts"
  shows "case stop of None \<Rightarrow> flushed K X js ts S S' (length ts) []
     | Some m \<Rightarrow> m < length ts \<and> flushed K X js ts S S' m (drop (Suc m) ts)"
proof -
  let ?clk = "fl_clk F"
  obtain W1 rs where c: "claim_many K ?clk (fl_now F) (fl_stamp F) (chunk_params X F ts) (sf_work S) = (W1, rs)" by fastforce
  let ?S1 = "S\<lparr>sf_work := W1, sf_stored := sf_stored S @ map (\<lambda>t. (it_rec t, getEntry ?clk (it_job t) W1))
    (map fst (filter (\<lambda>(t, r). r \<noteq> ClaimErr) (zip (claim_items ts) rs)))\<rparr>"
  have i: "flush_items dec P X (fl_items F) 0 ts rs ?S1 = (S', stop)" using f c by (simp add: flushDispatchChunk_def Let_def)
  have g: "grows S ?S1" by (simp add: grows_def)
  have ok: "sf_ok K X js ts ?S1"
    using s grows_backed [OF g] by (auto simp: sf_ok_def sf_inv_def sf_jobs_def)
  have l: "length rs = length (claim_items ts)" using length_claim_many [OF c] chunk_params_nth(2) by simp
  have "replies_backed K ?S1 ts rs"
    unfolding replies_backed_def
  proof (intro conjI ballI, simp add: l, clarify)
    fix t r assume m: "(t, r) \<in> set (zip (claim_items ts) rs)" and r: "r \<noteq> ClaimErr"
    then obtain k where k: "k < length (claim_items ts)" "t = claim_items ts ! k" "r = rs ! k" by (auto simp: set_zip)
    have "held_entry ?clk (it_job t) W1"
      using reply_held [OF c, of k] r k chunk_params_nth by metis
    then obtain e where "(it_rec t, Some (Stored e)) \<in> set (sf_stored ?S1)" using m r by (force simp: held_entry_def)
    moreover have "t \<in> set ts" using m by (auto simp: claim_items_def dest: set_zip_leftD)
    then have "extractJobID K (r_value (it_rec t)) = it_job t" using s by (simp add: sf_ok_def item_ok_def)
    ultimately show "backed K (it_job t) ?S1" unfolding backed_def by blast
  qed
  note q = flush_items_ok [OF i ok this dups_grow [OF d g subset_refl]]
  have t: "flushed K X js ts S S' n us" if "flushed K X js ts ?S1 S' n us" for n us
    using that grows_trans [OF g] by (simp add: flushed_def)
  show ?thesis using q t by (auto split: option.splits)
qed

lemma release_chunk_ok:
  assumes "sf_ok K X js ts S"
  shows "sf_ok K X js [] (releaseChunkClaims ts S)" and "grows S (releaseChunkClaims ts S)" and "sf_marks (releaseChunkClaims ts S) = sf_marks S"
proof -
  have "sf_ok K X js [] (releaseChunkClaims ts S) \<and> grows S (releaseChunkClaims ts S) \<and> sf_marks (releaseChunkClaims ts S) = sf_marks S"
    using assms unfolding releaseChunkClaims_def
  proof (induction ts arbitrary: S)
    case (Cons t ts)
    show ?case
    proof (cases "it_kind t = DispatchClaim")
      case True
      note r = release_ok [OF Cons.prems True]
      show ?thesis using Cons.IH [OF r(1)] r True grows_trans [OF r(2)] by auto
    next
      case False
      then show ?thesis using Cons.IH [OF skip_ok [OF Cons.prems False]] by simp
    qed
  qed simp
  then show "sf_ok K X js [] (releaseChunkClaims ts S)" "grows S (releaseChunkClaims ts S)" "sf_marks (releaseChunkClaims ts S) = sf_marks S"
    by simp_all
qed

subsection \<open>The dispatch loop\<close>

text \<open>Acknowledged so far: the first \<open>n\<close> records of the poll, in order, each of them handled.\<close>

definition acked :: "codec \<Rightarrow> wm_rec list \<Rightarrow> sf \<Rightarrow> nat \<Rightarrow> sf \<Rightarrow> bool" where
  "acked K recs M n S = (n \<le> length recs \<and> sf_marks S = sf_marks M @ take n recs \<and> (\<forall>r \<in> set (take n recs). handled K r S) \<and>
     grows M S)"

definition going_ok :: "codec \<Rightarrow> executor \<Rightarrow> wm_rec list \<Rightarrow> sf \<Rightarrow> string list \<Rightarrow> nat \<Rightarrow> nat \<Rightarrow> dispatchItem list \<Rightarrow> sf \<Rightarrow> bool" where
  "going_ok K X recs M js i start ts S =
     (start + length ts = i \<and> i \<le> length recs \<and> map it_rec ts = take (length ts) (drop start recs) \<and>
      sf_ok K X js ts S \<and> dups_ok K S {} ts \<and> acked K recs M start S)"

definition stopped_ok :: "codec \<Rightarrow> executor \<Rightarrow> wm_rec list \<Rightarrow> sf \<Rightarrow> string list \<Rightarrow> wm_rec list \<Rightarrow> sf \<Rightarrow> bool" where
  "stopped_ok K X recs M js tail S = (\<exists>n. tail = drop n recs \<and> sf_ok K X js [] S \<and> acked K recs M n S)"

definition disp_ok :: "codec \<Rightarrow> executor \<Rightarrow> wm_rec list \<Rightarrow> sf \<Rightarrow> string list \<Rightarrow> nat \<Rightarrow> dispatch_state \<Rightarrow> bool" where
  "disp_ok K X recs M js i d =
     (case d of Going start ts S \<Rightarrow> going_ok K X recs M js i start ts S | Stopped tail S \<Rightarrow> stopped_ok K X recs M js tail S)"

lemma acked_flush:
  assumes a: "acked K recs M start S" and f: "flushed K X js ts S S' n us"
    and m: "map it_rec ts = take (length ts) (drop start recs)" and l: "start + length ts \<le> length recs"
  shows "acked K recs M (start + n) S'"
proof -
  have n: "n \<le> length ts" using f by (simp add: flushed_def)
  have "map it_rec (take n ts) = take n (drop start recs)"
    using m n by (metis min.absorb1 take_map take_take)
  moreover have "take (start + n) recs = take start recs @ take n (drop start recs)" by (rule take_add)
  ultimately have t: "take (start + n) recs = take start recs @ map it_rec (take n ts)" by simp
  have "grows M S'" using a f grows_trans by (auto simp: acked_def flushed_def)
  moreover have "sf_marks S' = sf_marks M @ take (start + n) recs" using a f by (simp add: acked_def flushed_def t)
  moreover have "handled K r S'" if "r \<in> set (take (start + n) recs)" for r
    using that a f grows_handled [of S S' K r] unfolding t by (auto simp: acked_def flushed_def)
  ultimately show ?thesis using n l by (simp add: acked_def)
qed

lemma flush_pending_ok:
  assumes "going_ok K X recs M js i start ts S"
  shows "disp_ok K X recs M js i (flush_pending K dec P X recs F start ts S)"
proof (cases "ts = []")
  case True
  then show ?thesis using assms by (simp add: flush_pending_def disp_ok_def)
next
  case False
  obtain S1 stop where f: "flushDispatchChunk K dec P X F ts S = (S1, stop)" by fastforce
  note g = assms [unfolded going_ok_def]
  note q = flush_chunk_ok [OF f] and a = acked_flush [of K recs M start S]
  show ?thesis
  proof (cases stop)
    case None
    then have fl: "flushed K X js ts S S1 (length ts) []" using q g by auto
    then have "acked K recs M (start + length ts) S1" using a g by blast
    then show ?thesis using fl f False None g by (simp add: flush_pending_def disp_ok_def going_ok_def flushed_def)
  next
    case (Some k)
    then have fl: "flushed K X js ts S S1 k (drop (Suc k) ts)" using q g by auto
    have ac: "acked K recs M (start + k) S1" using a g fl by blast
    have r: "sf_ok K X js (drop (Suc k) ts) S1" using fl by (simp add: flushed_def)
    note r' = release_chunk_ok [OF r]
    have "acked K recs M (start + k) (releaseChunkClaims (drop (Suc k) ts) S1)"
      using ac r'(2,3) grows_handled grows_trans by (auto simp: acked_def)
    then show ?thesis using f False Some r'(1) by (auto simp: flush_pending_def disp_ok_def stopped_ok_def)
  qed
qed

lemma acked_bg: "acked K recs M n S \<Longrightarrow> grows S S' \<Longrightarrow> sf_marks S' = sf_marks S \<Longrightarrow> acked K recs M n S'"
  using grows_handled grows_trans by (auto simp: acked_def)

lemma going_bg:
  assumes "going_ok K X recs M js i start ts S"
  shows "going_ok K X recs M js i start ts (run_bg dec P X bs S)"
proof -
  have s: "sf_ok K X js ts S" using assms by (simp add: going_ok_def)
  note b = run_bg_ok [OF s, of dec P bs]
  show ?thesis using assms b acked_bg [OF _ b(2,3)] dups_grow [OF _ b(2) subset_refl] by (auto simp: going_ok_def)
qed

lemma dups_snoc: "dups_ok K S J (ts @ [t]) = (dups_ok K S J ts \<and> dup_ok K (J \<union> it_job ` set (claim_items ts)) S t)"
  by (induction ts arbitrary: J) (auto simp: insert_commute Un_commute)

text \<open>One more record in the chunk.\<close>

lemma push_ok:
  assumes g: "start + length ts = i" "i < length recs" "map it_rec ts = take (length ts) (drop start recs)" "acked K recs M start S"
    and t: "it_rec t = recs ! i" "sf_ok K X [] (ts @ [t]) S" "dups_ok K S {} (ts @ [t])"
  shows "disp_ok K X recs M [] (Suc i) (push_item K dec P X recs F t start ts S)"
proof -
  have "map it_rec (ts @ [t]) = take (length (ts @ [t])) (drop start recs)"
    using g t(1) by (simp add: take_Suc_conv_app_nth)
  then have "going_ok K X recs M [] (Suc i) start (ts @ [t]) S" using g t by (simp add: going_ok_def)
  then show ?thesis using flush_pending_ok by (auto simp: push_item_def disp_ok_def)
qed

lemma mono_item: "sf_ok K X [] ts S \<Longrightarrow> it_kind t \<noteq> DispatchClaim \<Longrightarrow> item_ok K t \<Longrightarrow> sf_ok K X [] (ts @ [t]) S"
  by (auto simp: sf_ok_def sf_inv_def sf_jobs_def)

lemma claim_item:
  assumes "sf_ok K X [j] ts S" and "it_kind t = DispatchClaim" "it_job t = j" "it_slot t" "item_ok K t" and "sf_window S < x_window X"
  shows "sf_ok K X [] (ts @ [t]) (take_slot S)"
  using assms by (auto simp: sf_ok_def sf_inv_def sf_jobs_def take_slot_def backed_def)

lemma slot_sel: "grows S (take_slot S)" "sf_marks (take_slot S) = sf_marks S"
  by (simp_all add: take_slot_def grows_def)

lemma new_job:
  assumes "sf_ok K X [] ts S" and "j \<notin> sf_inFlight S"
  shows "sf_ok K X [j] ts (S\<lparr>sf_inFlight := insert j (sf_inFlight S)\<rparr>)"
  using assms by (auto simp: sf_ok_def sf_inv_def sf_jobs_def backed_def)

lemma drop_job:
  assumes "sf_ok K X [j] ts S"
  shows "sf_ok K X [] ts (S\<lparr>sf_inFlight := sf_inFlight S - {j}\<rparr>)"
  using assms by (auto simp: sf_ok_def sf_inv_def sf_jobs_def backed_def)

lemma flight_upd: "grows S (S\<lparr>sf_inFlight := A\<rparr>)" "sf_marks (S\<lparr>sf_inFlight := A\<rparr>) = sf_marks S"
  by (simp_all add: grows_def)

lemma flight_dup:
  assumes "sf_ok K X [] ts S" and "j \<in> sf_inFlight S" and "it_job t = j"
  shows "dup_ok K (it_job ` set (claim_items ts)) S t"
  using assms by (auto simp: sf_ok_def sf_inv_def sf_jobs_def dup_ok_def)

lemma stopped_drop:
  assumes "stopped_ok K X recs M [j] tail S"
  shows "stopped_ok K X recs M [] tail (S\<lparr>sf_inFlight := sf_inFlight S - {j}\<rparr>)"
  using assms drop_job acked_bg [OF _ flight_upd] unfolding stopped_ok_def by blast

text \<open>The claim of a record once a slot is free.\<close>

lemma push_claim:
  assumes g: "going_ok K X recs M [j] i start ts S" and i: "i < length recs" and w: "sf_window S < x_window X"
    and j: "j = extractJobID K (r_value (recs ! i))" "j \<noteq> ''''"
  shows "disp_ok K X recs M [] (Suc i)
     (push_item K dec P X recs F \<lparr>it_rec = recs ! i, it_job = j, it_kind = DispatchClaim, it_slot = True\<rparr> start ts (take_slot S))"
proof (rule push_ok)
  note g' = g [unfolded going_ok_def]
  show "start + length ts = i" "i < length recs" "map it_rec ts = take (length ts) (drop start recs)" using g' i by simp_all
  show "acked K recs M start (take_slot S)" using g' acked_bg [OF _ slot_sel] by blast
  let ?t = "\<lparr>it_rec = recs ! i, it_job = j, it_kind = DispatchClaim, it_slot = True\<rparr>"
  show "it_rec ?t = recs ! i" by simp
  show "sf_ok K X [] (ts @ [?t]) (take_slot S)" using g' w j by (intro claim_item [where j = j]) (simp_all add: item_ok_def)
  show "dups_ok K (take_slot S) {} (ts @ [?t])"
    using g' dups_grow [OF _ slot_sel(1) subset_refl] by (simp add: dups_snoc dup_ok_def)
qed

lemma record_ok:
  assumes g0: "going_ok K X recs M [] i start ts S0" and i: "i < length recs"
  shows "disp_ok K X recs M [] (Suc i) (dispatch_record K dec P X recs E i (recs ! i) start ts S0)"
proof -
  let ?r = "recs ! i" and ?S = "run_bg dec P X (re_bg E) S0"
  let ?j = "extractJobID K (r_value ?r)"
  let ?S1 = "?S\<lparr>sf_inFlight := insert ?j (sf_inFlight ?S)\<rparr>"
  let ?item = "\<lambda>kind slot. \<lparr>it_rec = ?r, it_job = ?j, it_kind = kind, it_slot = slot\<rparr>"
  note g = going_bg [OF g0, of dec P "re_bg E"]
  note g' = g [unfolded going_ok_def]
  have mono: ?thesis if "\<not> (\<not> sf_accepting ?S)" "kind \<noteq> DispatchClaim" "item_ok K (?item kind False)" "dup_ok K (it_job ` set (claim_items ts)) ?S (?item kind False)"
      "dispatch_record K dec P X recs E i ?r start ts S0 = push_item K dec P X recs (re_flush E) (?item kind False) start ts ?S" for kind
  proof -
    have "disp_ok K X recs M [] (Suc i) (push_item K dec P X recs (re_flush E) (?item kind False) start ts ?S)"
      by (rule push_ok) (use g' i that(2-4) in \<open>simp_all add: mono_item dups_snoc\<close>)
    then show ?thesis by (simp only: that(5))
  qed
  consider "\<not> sf_accepting ?S" | "sf_accepting ?S" "?j = ''''" | "sf_accepting ?S" "?j \<noteq> ''''" "?j \<in> sf_inFlight ?S"
    | "sf_accepting ?S" "?j \<noteq> ''''" "?j \<notin> sf_inFlight ?S" by blast
  then show ?thesis
  proof cases
    case 1
    note r = release_chunk_ok [of K X "[]" ts ?S]
    have "stopped_ok K X recs M [] (drop start recs) (releaseChunkClaims ts ?S)"
      using g' r acked_bg [of K recs M start ?S] by (auto simp: stopped_ok_def)
    then show ?thesis using 1 by (simp add: dispatch_record_def Let_def disp_ok_def)
  next
    case 2
    then show ?thesis by (intro mono [where kind = DispatchMalformed]) (simp_all add: dispatch_record_def Let_def item_ok_def dup_ok_def)
  next
    case 3
    then show ?thesis using g' flight_dup [of K X ts ?S ?j]
      by (intro mono [where kind = DispatchDuplicate]) (simp_all add: dispatch_record_def Let_def item_ok_def)
  next
    case 4
    have g1: "going_ok K X recs M [?j] i start ts ?S1"
      using g' new_job [of K X ts ?S ?j] 4(3) acked_bg [OF _ flight_upd] dups_grow [OF _ flight_upd(1) subset_refl]
      by (simp add: going_ok_def)
    show ?thesis
    proof (cases "sf_window ?S1 < x_window X")
      case True
      then show ?thesis using push_claim [OF g1 i _ refl] 4 by (simp add: dispatch_record_def Let_def)
    next
      case False
      note fp = flush_pending_ok [OF g1, of dec P "re_flush E"]
      show ?thesis
      proof (cases "flush_pending K dec P X recs (re_flush E) start ts ?S1")
        case (Stopped tail S2)
        then have "stopped_ok K X recs M [] tail (S2\<lparr>sf_inFlight := sf_inFlight S2 - {?j}\<rparr>)"
          using fp stopped_drop by (simp add: disp_ok_def)
        then show ?thesis using Stopped False 4 by (simp add: dispatch_record_def Let_def disp_ok_def)
      next
        case (Going start' ts' S2)
        then have "going_ok K X recs M [?j] i start' ts' S2" using fp by (simp add: disp_ok_def)
        note g3 = going_bg [OF this, of dec P "re_wait E"]
        have ts': "ts' = []" using Going by (auto simp: flush_pending_def split: if_splits prod.splits option.splits)
        let ?S3 = "run_bg dec P X (re_wait E) S2"
        show ?thesis
        proof (cases "re_done E \<or> x_window X \<le> sf_window ?S3")
          case True
          have "stopped_ok K X recs M [?j] (drop i recs) ?S3"
            using g3 ts' by (auto simp: going_ok_def stopped_ok_def)
          from stopped_drop [OF this] show ?thesis using Going False 4 True by (simp add: dispatch_record_def Let_def disp_ok_def)
        next
          case nd: False
          then show ?thesis using push_claim [OF g3 i _ refl] Going False 4 by (simp add: dispatch_record_def Let_def)
        qed
      qed
    qed
  qed
qed

lemma loop_ok:
  assumes "disp_ok K X recs M [] i d" and "rest = drop i recs" and "i \<le> length recs"
  shows "disp_ok K X recs M [] (length recs) (sf_dispatch_loop K dec P X recs E i rest d)"
  using assms
proof (induction rest arbitrary: i d)
  case Nil
  then show ?case using flush_pending_ok by (cases d) (auto simp: disp_ok_def stopped_ok_def)
next
  case (Cons r rest)
  have i: "i < length recs" "r = recs ! i" "rest = drop (Suc i) recs"
    using Cons.prems(2) by (metis drop_eq_Nil2 leI list.discI, metis Cons_nth_drop_Suc drop_eq_Nil2 leI list.discI list.inject,
      metis Cons_nth_drop_Suc drop_eq_Nil2 leI list.discI list.inject)
  show ?case
  proof (cases d)
    case (Going start ts S)
    then have "disp_ok K X recs M [] (Suc i) (dispatch_record K dec P X recs (E i) i r start ts S)"
      using record_ok i Cons.prems(1) by (simp add: disp_ok_def)
    then show ?thesis using Cons.IH i Going by simp
  next
    case (Stopped tail S)
    then show ?thesis using Cons.prems(1) by (simp add: disp_ok_def stopped_ok_def)
  qed
qed

subsection \<open>Rewinding\<close>

lemma rewind_snoc:
  "undispatchedRewindOffsets (rs @ [r]) =
     (let m = undispatchedRewindOffsets rs in
      case m (key_of r) of Some d \<Rightarrow> if r_off r < d then m(key_of r \<mapsto> r_off r) else m | None \<Rightarrow> m(key_of r \<mapsto> r_off r))"
  by (simp add: undispatchedRewindOffsets_def Let_def)

lemma rewind_covers: "r \<in> set rs \<Longrightarrow> \<exists>d. undispatchedRewindOffsets rs (key_of r) = Some d \<and> d \<le> r_off r"
proof (induction rs rule: rev_induct)
  case (snoc x rs)
  show ?case
  proof (cases "r \<in> set rs")
    case True
    then show ?thesis using snoc.IH by (auto simp: rewind_snoc Let_def split: option.splits)
  next
    case False
    then have "r = x" using snoc.prems by simp
    then show ?thesis by (auto simp: rewind_snoc Let_def split: option.splits)
  qed
qed simp

lemma rewind_attained: "undispatchedRewindOffsets rs k = Some d \<Longrightarrow> \<exists>r \<in> set rs. key_of r = k \<and> r_off r = d"
proof (induction rs rule: rev_induct)
  case Nil
  then show ?case by (simp add: undispatchedRewindOffsets_def)
next
  case (snoc x rs)
  then show ?case by (auto simp: rewind_snoc Let_def split: option.splits if_splits)
qed

lemma dispatch_acks:
  assumes d: "dispatchClaimsAndAcks K dec P X E recs S = (S', rw)" and s: "sf_ok K X [] [] S" and a: "sf_accepting S"
  shows "\<exists>n. sf_ok K X [] [] S' \<and> acked K recs S n S' \<and>
     rw = (if n = length recs then None else Some (undispatchedRewindOffsets (drop n recs)))"
proof -
  let ?d = "sf_dispatch_loop K dec P X recs E 0 recs (Going 0 [] S)"
  have "disp_ok K X recs S [] 0 (Going 0 [] S)" using s by (simp add: disp_ok_def going_ok_def acked_def)
  from loop_ok [OF this, of recs dec P E] have l: "disp_ok K X recs S [] (length recs) ?d" by simp
  show ?thesis
  proof (cases ?d)
    case (Going start ts S1)
    then have "start + length ts = length recs" "sf_ok K X [] ts S1" "acked K recs S start S1"
      using l by (simp_all add: disp_ok_def going_ok_def)
    moreover have "ts = []"
    proof -
      have "sf_dispatch_loop K dec P X recs E i rest d = Going start ts S1 \<Longrightarrow> ts = []" for i rest d
        by (induction rest arbitrary: i d, (case_tac d, auto simp: flush_pending_def split: if_splits prod.splits option.splits)[1])
          (case_tac d, auto)
      then show ?thesis using Going by blast
    qed
    ultimately show ?thesis using d a Going by (intro exI [of _ "length recs"]) (auto simp: dispatchClaimsAndAcks_def)
  next
    case (Stopped tail S1)
    then obtain n where n: "tail = drop n recs" "sf_ok K X [] [] S1" "acked K recs S n S1"
      using l by (auto simp: disp_ok_def stopped_ok_def)
    then have "n \<le> length recs" by (simp add: acked_def)
    then show ?thesis using d a Stopped n by (intro exI [of _ n]) (auto simp: dispatchClaimsAndAcks_def)
  qed
qed

text \<open>C11. An acknowledged record is safe, and a record that is not acknowledged comes back. Whatever fails in a
  dispatch (claims that did not run or whose reply was lost, a full window, a rebalance, a shutdown, a failed
  dead-letter produce) and whatever other goroutines do meanwhile, exactly the first \<open>n\<close> records of the poll are
  marked, in order; each marked record was routed to the dead-letter topic (no job id) or Redis held an entry
  of its job when a claim was answered; and the consume position is reset, for every partition of the
  remaining records, to the first of them.\<close>

theorem acknowledged_records_are_safe:
  assumes "dispatchClaimsAndAcks K dec P X E recs S = (S', rw)" and "sf_ok K X [] [] S" and "sf_accepting S"
  shows "\<exists>n \<le> length recs. sf_marks S' = sf_marks S @ take n recs \<and> (\<forall>r \<in> set (take n recs). handled K r S') \<and>
     (n < length recs \<longrightarrow> (\<exists>m. rw = Some m \<and>
        (\<forall>r \<in> set (drop n recs). \<exists>d. m (key_of r) = Some d \<and> d \<le> r_off r) \<and>
        (\<forall>k d. m k = Some d \<longrightarrow> (\<exists>r \<in> set (drop n recs). key_of r = k \<and> r_off r = d)))) \<and>
     (n = length recs \<longrightarrow> rw = None)"
proof -
  obtain n where n: "acked K recs S n S'" "rw = (if n = length recs then None else Some (undispatchedRewindOffsets (drop n recs)))"
    using dispatch_acks [OF assms] by blast
  show ?thesis using n rewind_covers rewind_attained by (intro exI [of _ n]) (auto simp: acked_def)
qed

subsection \<open>Runs of the executor\<close>

inductive sf_run :: "codec \<Rightarrow> (int \<Rightarrow> string) \<Rightarrow> pub_cfg \<Rightarrow> executor \<Rightarrow> sf \<Rightarrow> bool" for K dec P X where
  sf_init: "sf_run K dec P X (new_sf W)"
| sf_poll: "sf_run K dec P X S \<Longrightarrow> dispatchClaimsAndAcks K dec P X E recs S = (S', rw) \<Longrightarrow> sf_run K dec P X S'"
| sf_beside: "sf_run K dec P X S \<Longrightarrow> sf_run K dec P X (bg_step dec P X b S)"

lemma sf_run_ok:
  assumes "sf_run K dec P X S"
  shows "sf_ok K X [] [] S \<and> (\<forall>r \<in> set (sf_marks S). handled K r S)"
  using assms
proof (induction rule: sf_run.induct)
  case (sf_init W)
  show ?case by (simp add: new_sf_def sf_ok_def sf_inv_def sf_jobs_def)
next
  case (sf_poll S E recs S' rw)
  show ?case
  proof (cases "sf_accepting S")
    case True
    obtain n where n: "sf_ok K X [] [] S'" "acked K recs S n S'" using dispatch_acks sf_poll True by blast
    then show ?thesis using sf_poll.IH grows_handled by (auto simp: acked_def)
  next
    case False
    then show ?thesis using sf_poll by (simp add: dispatchClaimsAndAcks_def)
  qed
next
  case (sf_beside S b)
  note r = run_bg_ok [of K X "[]" "[]" S dec P "[b]"]
  have "run_bg dec P X [b] S = bg_step dec P X b S" by (simp add: run_bg_def)
  then show ?case using sf_beside.IH r grows_handled by auto
qed

text \<open>C26. The claim window is accounted exactly. In every run of the executor (polls, finished and aborted
  performs, renewals, a stop, changes of Redis by others, in any order) the taken slots are exactly the running
  performs, the jobs in flight are exactly theirs, no job is performed twice at a time, the window is never
  exceeded, and every record acknowledged so far is safe.\<close>

theorem superfetch_slots_exact:
  assumes "sf_run K dec P X S"
  shows "sf_window S = length (sf_running S) \<and> sf_window S \<le> x_window X \<and> sf_inFlight S = pf_job ` set (sf_running S) \<and>
     sf_inFlightCount S = length (sf_running S) \<and> (\<forall>r \<in> set (sf_marks S). handled K r S)"
  using sf_run_ok [OF assms] distinct_card [of "map pf_job (sf_running S)"]
  by (auto simp: sf_ok_def sf_inv_def sf_jobs_def sf_inFlightCount_def)

subsection \<open>Performing a job\<close>

lemma outcome_safe_mono: "outcome_safe dec P q out \<Longrightarrow> set out \<subseteq> set out' \<Longrightarrow> outcome_safe dec P q out'"
  unfolding outcome_safe_def using event_safe_mono by blast



lemma apply_until_safe: "apply_until dec P q as = (out, True) \<Longrightarrow> outcome_safe dec P q out \<and> jo_commit q"
proof (induction as arbitrary: out)
  case (Cons a as)
  obtain cb b fs where a: "a = (cb, b, fs)" by (cases a)
  obtain gs o1 fin where p: "applyJobOutcome dec P cb b q fs = (gs, o1, fin)" by (cases "applyJobOutcome dec P cb b q fs")
  obtain o2 r where q: "apply_until dec P q as = (o2, r)" by fastforce
  show ?case
  proof (cases fin)
    case True
    then show ?thesis using Cons.prems a p published_safe by auto
  next
    case False
    then have "outcome_safe dec P q o2 \<and> jo_commit q" "out = o1 @ o2" using Cons.prems a p q Cons.IH by auto
    then show ?thesis using outcome_safe_mono [of dec P q o2 out] by auto
  qed
qed simp

text \<open>C27. A job leaves the working set only when its outcome is published: if a perform changes the working set
  at all, an attempt at its handler returned an outcome, and the event, retry record and dead-letter record of that
  outcome are on their topics, however many attempts it took and whatever replies were lost.\<close>

theorem job_leaves_after_publish:
  assumes "perform dec P X v p W = (W', out, r)" and "W' \<noteq> W"
  shows "\<exists>q. r = Some q \<and> JobOut q \<in> set (ru_process v) \<and> outcome_safe dec P q out"
proof -
  have m: "process_until rs = Some q \<Longrightarrow> JobOut q \<in> set rs" for rs q by (induction rs rule: process_until.induct) auto
  obtain q where q: "process_until (ru_process v) = Some q" using assms by (cases "process_until (ru_process v)") (auto simp: perform_def)
  obtain o1 fin where a: "apply_until dec P q (ru_apply v) = (o1, fin)" by fastforce
  then have "fin" "r = Some q" "out = o1" using assms q by (auto simp: perform_def split: if_splits)
  then show ?thesis using m [OF q] apply_until_safe [of dec P q] a by simp
qed

text \<open>The job is held by the executor, or its key is gone already.\<close>

definition held_by :: "string \<Rightarrow> string \<Rightarrow> string \<Rightarrow> workset \<Rightarrow> bool" where
  "held_by j c f W = (case jobs W j of None \<Rightarrow> True | Some (Cell (Stored e) d) \<Rightarrow> e_consumer e = c \<and> e_fence e = f | _ \<Rightarrow> False)"

lemma complete_gone: "held_by j c f W \<Longrightarrow> j \<noteq> [] \<Longrightarrow> jobs (complete_job clk j c f W) j = None"
  by (auto simp: held_by_def complete_job_def complete_script_def Let_def purge_key_def split: option.splits cell.splits stored.splits)

lemma tries_gone:
  assumes "held_by j c f W" and "j \<noteq> []" and "\<exists>k < n. k < length xs \<and> snd (xs ! k) \<noteq> NotRun"
  shows "jobs (complete_tries n j c f xs W) j = None"
  using assms
proof (induction n j c f xs W rule: complete_tries.induct)
  case (3 n j c f clk a xs W)
  have g: "jobs (complete_job clk j c f W) j = None" by (rule complete_gone [OF 3(2,3)])
  have keep: "jobs W' j = None \<Longrightarrow> jobs (complete_tries n j c f xs W') j = None" for W'
  proof (induction n j c f xs W' rule: complete_tries.induct)
    case (3 n j c f clk a xs W)
    then show ?case by (cases a) (auto simp: Let_def complete_job_def complete_script_def)
  qed simp_all
  show ?case
  proof (cases a)
    case NotRun
    obtain k where "k < Suc n" "k < Suc (length xs)" "snd (((clk, a) # xs) ! k) \<noteq> NotRun" using 3(4) by auto
    then have "\<exists>k < n. k < length xs \<and> snd (xs ! k) \<noteq> NotRun" using NotRun by (cases k) auto
    then show ?thesis using 3(1) [OF refl] NotRun 3(2,3) by simp
  qed (use g keep in simp_all)
qed auto

text \<open>A performed job is completed: once an attempt at the handler returns an outcome, an attempt at publishing
  it succeeds and one of the next five completion calls reaches Redis, the job is out of the working set.\<close>

theorem performed_job_completes:
  assumes "process_until (ru_process v) = Some q" and "snd (apply_until dec P q (ru_apply v))"
    and "\<exists>k < 5. k < length (ru_complete v) \<and> snd (ru_complete v ! k) \<noteq> NotRun"
    and "held_by (pf_job p) (x_consumer X) (pf_fence p) W" and "pf_job p \<noteq> []"
  shows "jobs (fst (perform dec P X v p W)) (pf_job p) = None"
  using assms(1,2) tries_gone [OF assms(4,5,3)] by (simp add: perform_def split_beta)

subsection \<open>Leases\<close>

lemma seconds_add: "seconds a + seconds b \<le> seconds (a + b)"
proof -
  have "(a div second) * second + (b div second) * second \<le> a + b"
    by (intro add_mono) (simp_all add: second_def minus_mod_eq_div_mult [symmetric])
  then show ?thesis by (simp add: seconds_def second_def)
qed

text \<open>The lease of a claimed job is long enough for a reclaim: whatever the configuration, the time to live of the
  job key exceeds that of the heartbeat by the orphan grace, a full reclaim interval and half a minute, so when
  the consumer dies, its entries are still there when the next sweep may take them.\<close>

theorem lease_covers_reclaim:
  assumes "X = newSuperFetchExecutor C c"
  shows "seconds (claim_hb (item_params X t)) + seconds (resolveGrace (x_grace X)) + seconds (reclaim_every C) + 30
     \<le> seconds (claim_ttl (item_params X t)) \<and> 0 \<le> seconds (claim_hb (item_params X t))"
proof -
  have hb: "claim_hb (item_params X t) = livenessTTLDuration C" "0 < livenessTTLDuration C"
    using assms by (auto simp: claim_hb_def item_params_def newSuperFetchExecutor_def livenessTTLDuration_def Let_def second_def)
  have g: "resolveGrace (x_grace X) = x_grace X" "0 < x_grace X"
    using assms by (auto simp: resolveGrace_def newSuperFetchExecutor_def Let_def DefaultOrphanGrace_def second_def)
  have l: "livenessTTLDuration C + x_grace X + reclaim_every C + 30 * second \<le> x_lease X" "0 < x_lease X"
    using assms g hb by (auto simp: newSuperFetchExecutor_def Let_def reclaim_every_def second_def)
  have "x_lease X \<le> claim_ttl (item_params X t)"
    using l(2) by (simp add: claim_ttl_def item_params_def floorLeaseTTL_def Let_def)
  then have m: "livenessTTLDuration C + x_grace X + reclaim_every C + 30 * second \<le> claim_ttl (item_params X t)" using l by linarith
  have "seconds (livenessTTLDuration C) + seconds (x_grace X) + seconds (reclaim_every C) + seconds (30 * second)
      \<le> seconds (livenessTTLDuration C + x_grace X + reclaim_every C + 30 * second)"
    using seconds_add by (meson add_mono order_refl order_trans)
  also have "\<dots> \<le> seconds (claim_ttl (item_params X t))" using m by (simp add: seconds_def second_def zdiv_mono1)
  finally show ?thesis using hb g by (simp add: seconds_def second_def)
qed

subsection \<open>A concrete dispatch\<close>

text \<open>Four records of one partition: job \<open>a\<close>, a record without a job id, job \<open>a\<close> again, and job \<open>b\<close>, the reply of whose
  claim is lost.\<close>

definition sf_codec :: codec where
  "sf_codec = \<lparr>gzip = Some, gunzip = Some,
     jdec = (\<lambda>s. if s = '''' then None else Some (JObj [(''job_id'', JStr s)])), jenc = (\<lambda>_. '''')\<rparr>"

definition sf_rec :: "int \<Rightarrow> string \<Rightarrow> wm_rec" where
  "sf_rec n v = \<lparr>r_topic = ''jobs'', r_part = 0, r_off = n, r_value = v\<rparr>"

definition sf_recs :: "wm_rec list" where
  "sf_recs = [sf_rec 5 ''a'', sf_rec 6 '''', sf_rec 7 ''a'', sf_rec 8 ''b'']"

definition sf_conf :: sf_cfg where
  "sf_conf = \<lparr>SuperFetchConcurrency = 1, SuperFetchClaimWindow = 2, SuperFetchLeaseTTL = 0, SuperFetchOrphanGrace = 0,
     SuperFetchReclaimEvery = 0, LivenessTTL = 0, LivenessHeartbeatInterval = 0\<rparr>"

definition sf_exec :: executor where "sf_exec = newSuperFetchExecutor sf_conf ''c1''"

definition sf_flush :: flush_env where
  "sf_flush = \<lparr>fl_clk = 1000000, fl_now = 1000, fl_stamp = ''t'',
     fl_claims = (\<lambda>k. \<lparr>cf_fate = (if k = 0 then Replied else ReplyLost), cf_read = True, cf_fence = (if k = 0 then ''f0'' else ''f1'')\<rparr>),
     fl_items = (\<lambda>_. ([], True))\<rparr>"

definition sf_env :: "nat \<Rightarrow> rec_env" where
  "sf_env i = \<lparr>re_bg = [], re_wait = [], re_done = False, re_flush = sf_flush\<rparr>"

definition sf_demo :: "sf \<times> (partitionKey \<rightharpoonup> int) option" where
  "sf_demo = dispatchClaimsAndAcks sf_codec (\<lambda>_. ''0'') demo_pub sf_exec sf_env sf_recs (new_sf empty_workset)"

lemma sf_start: "sf_ok sf_codec sf_exec [] [] (new_sf empty_workset)"
  using sf_run_ok [OF sf_init] by blast

lemma sf_demo_run: "sf_run sf_codec (\<lambda>_. ''0'') demo_pub sf_exec (fst sf_demo)"
  by (rule sf_poll [OF sf_init, where rw = "snd sf_demo"]) (simp add: sf_demo_def)

lemma sf_demo_facts:
  "map r_off (sf_marks (fst sf_demo)) = [5, 6, 7]" "length (sf_running (fst sf_demo)) = 1"
  "the (snd sf_demo) (''jobs'', 0) = Some 8" "length sf_recs = 4" "sf_accepting (new_sf empty_workset)"
  by code_simp+

theorem acknowledged_records_are_safe_witness:
  "map r_off (sf_marks (fst sf_demo)) = [5, 6, 7] \<and> the (snd sf_demo) (''jobs'', 0) = Some 8 \<and>
   list_all (\<lambda>r. handled sf_codec r (fst sf_demo)) (sf_marks (fst sf_demo))"
proof -
  obtain S' rw where d: "sf_demo = (S', rw)" by (cases sf_demo)
  have "dispatchClaimsAndAcks sf_codec (\<lambda>_. ''0'') demo_pub sf_exec sf_env sf_recs (new_sf empty_workset) = (S', rw)"
    using d by (simp add: sf_demo_def)
  from acknowledged_records_are_safe [OF this sf_start sf_demo_facts(5)] obtain n where
    "sf_marks S' = sf_marks (new_sf empty_workset) @ take n sf_recs" "\<forall>r \<in> set (take n sf_recs). handled sf_codec r S'" by blast
  then have "\<forall>r \<in> set (sf_marks (fst sf_demo)). handled sf_codec r (fst sf_demo)" by (simp add: d new_sf_def)
  then have "list_all (\<lambda>r. handled sf_codec r (fst sf_demo)) (sf_marks (fst sf_demo))" unfolding list_all_iff .
  then show ?thesis using sf_demo_facts(1,3) by simp
qed

theorem superfetch_slots_exact_witness:
  "sf_window (fst sf_demo) = 1 \<and> sf_inFlight (fst sf_demo) = {''a''} \<and> sf_inFlightCount (fst sf_demo) = 1"
proof -
  have "map pf_job (sf_running (fst sf_demo)) = [''a'']" by code_simp
  then have "pf_job ` set (sf_running (fst sf_demo)) = {''a''}" by (metis list.set(1) list.simps(15) set_map)
  then show ?thesis using superfetch_slots_exact [OF sf_demo_run] sf_demo_facts(2) by simp
qed

definition sf_perform :: perform_env where
  "sf_perform = \<lparr>ru_process = [JobError, JobOut demo_outcome], ru_apply = [(False, None, [NotRun]), (True, None, [ReplyLost, Replied])],
     ru_complete = [(1001000, NotRun), (1002000, ReplyLost), (1003000, Replied)]\<rparr>"

definition sf_job :: running_job where "sf_job = \<lparr>pf_rec = sf_rec 5 ''a'', pf_job = ''a'', pf_fence = ''f0''\<rparr>"

definition sf_after :: "workset \<times> msg list \<times> job_out option" where
  "sf_after = perform (\<lambda>_. ''0'') demo_pub sf_exec sf_perform sf_job (sf_work (fst sf_demo))"

lemma sf_after_facts:
  "jobs (sf_work (fst sf_demo)) ''a'' \<noteq> None" "held_by ''a'' (x_consumer sf_exec) ''f0'' (sf_work (fst sf_demo))"
  "process_until (ru_process sf_perform) = Some demo_outcome" "snd (apply_until (\<lambda>_. ''0'') demo_pub demo_outcome (ru_apply sf_perform))"
  by code_simp+

theorem performed_job_completes_witness:
  "jobs (sf_work (fst sf_demo)) ''a'' \<noteq> None \<and> jobs (fst sf_after) ''a'' = None"
proof -
  have "\<exists>k < 5. k < length (ru_complete sf_perform) \<and> snd (ru_complete sf_perform ! k) \<noteq> NotRun"
    by (rule exI [of _ 1]) (simp add: sf_perform_def)
  then show ?thesis
    using performed_job_completes [OF sf_after_facts(3,4), of sf_job sf_exec "sf_work (fst sf_demo)"] sf_after_facts(1,2)
    by (simp add: sf_after_def sf_job_def)
qed

theorem job_leaves_after_publish_witness:
  "fst sf_after \<noteq> sf_work (fst sf_demo) \<and> outcome_safe (\<lambda>_. ''0'') demo_pub demo_outcome (fst (snd sf_after))"
proof -
  have "jobs (fst sf_after) ''a'' = None" "jobs (sf_work (fst sf_demo)) ''a'' \<noteq> None" by code_simp+
  then have n: "fst sf_after \<noteq> sf_work (fst sf_demo)" by auto
  obtain W' out r where a: "sf_after = (W', out, r)" by (cases sf_after)
  then have p: "perform (\<lambda>_. ''0'') demo_pub sf_exec sf_perform sf_job (sf_work (fst sf_demo)) = (W', out, r)" by (simp add: sf_after_def)
  have "W' \<noteq> sf_work (fst sf_demo)" using n unfolding a by simp
  from job_leaves_after_publish [OF p this] obtain q where
    "r = Some q" "JobOut q \<in> set (ru_process sf_perform)" "outcome_safe (\<lambda>_. ''0'') demo_pub q out" by blast
  moreover have "q = demo_outcome" using calculation(2) by (simp add: sf_perform_def)
  ultimately have "outcome_safe (\<lambda>_. ''0'') demo_pub demo_outcome (fst (snd sf_after))" unfolding a by simp
  then show ?thesis using n by blast
qed

definition sf_item :: dispatchItem where
  "sf_item = \<lparr>it_rec = sf_rec 5 ''a'', it_job = ''a'', it_kind = DispatchClaim, it_slot = True\<rparr>"

theorem lease_covers_reclaim_witness:
  "seconds (claim_hb (item_params sf_exec sf_item)) = 180 \<and> 280 \<le> seconds (claim_ttl (item_params sf_exec sf_item))"
proof -
  have "seconds (claim_hb (item_params sf_exec sf_item)) = 180" "seconds (resolveGrace (x_grace sf_exec)) = 40" "seconds (reclaim_every sf_conf) = 30"
    by code_simp+
  then show ?thesis using lease_covers_reclaim [OF sf_exec_def, of sf_item] by simp
qed

end
