(* ===== verification/Civil_Calendar.thy ===== *)
theory Civil_Calendar
  imports Main
begin

text \<open>
  The part of Go's \<^verbatim>\<open>time\<close> package that the recurring scheduler uses: the civil calendar, the fields of
  an instant in a location, and \<open>time.Date\<close>.

  An instant is its Unix time in seconds, a location is the function that gives the offset from UTC in
  force at an instant. Days are numbered from 1970-01-01, and the calendar covers the days from there
  on. \<open>time.Date\<close> looks up the offset at the wall-clock time taken as UTC and then at the instant that
  offset gives, as the package does; so in a gap or an overlap of a location it picks one of the two
  offsets.
\<close>

subsection \<open>Years and months\<close>

definition leap :: "int \<Rightarrow> bool" where
  "leap y = (4 dvd y \<and> (\<not> 100 dvd y \<or> 400 dvd y))"

definition year_days :: "int \<Rightarrow> int" where
  "year_days y = (if leap y then 366 else 365)"

definition month_days :: "int \<Rightarrow> int \<Rightarrow> int" where
  "month_days y m = (if m = 2 then (if leap y then 29 else 28) else if m = 4 \<or> m = 6 \<or> m = 9 \<or> m = 11 then 30 else 31)"

lemma month_days_pos [simp]: "0 < month_days y m" "1 \<le> month_days y m" "month_days y m \<le> 31"
  by (auto simp: month_days_def)

lemma year_days_pos [simp]: "0 < year_days y"
  by (simp add: year_days_def)

function days_before_month :: "int \<Rightarrow> int \<Rightarrow> int" where
  "days_before_month y m = (if m \<le> 1 then 0 else days_before_month y (m - 1) + month_days y (m - 1))"
  by auto
termination by (relation "measure (\<lambda>(y, m). nat m)") auto

declare days_before_month.simps [simp del]

lemma days_before_month_1 [simp]: "days_before_month y 1 = 0"
  by (simp add: days_before_month.simps)

lemma days_before_month_Suc: "1 \<le> m \<Longrightarrow> days_before_month y (m + 1) = days_before_month y m + month_days y m"
  by (subst days_before_month.simps) simp

lemma days_before_month_12: "days_before_month y 12 + month_days y 12 = year_days y"
  by (simp add: days_before_month.simps month_days_def year_days_def)

text \<open>The days before a year, from 1970 on.\<close>

function days_before_year :: "int \<Rightarrow> int" where
  "days_before_year y = (if y \<le> 1970 then 0 else days_before_year (y - 1) + year_days (y - 1))"
  by auto
termination by (relation "measure nat") auto

declare days_before_year.simps [simp del]

lemma days_before_1970 [simp]: "days_before_year 1970 = 0"
  by (simp add: days_before_year.simps)

lemma days_before_next_year: "1970 \<le> y \<Longrightarrow> days_before_year (y + 1) = days_before_year y + year_days y"
  by (subst days_before_year.simps) simp

lemma days_before_year_mono: "1970 \<le> a \<Longrightarrow> a \<le> b \<Longrightarrow> days_before_year a \<le> days_before_year b"
proof (induction "nat (b - a)" arbitrary: b)
  case (Suc k)
  have "days_before_year (b - 1 + 1) = days_before_year (b - 1) + year_days (b - 1)"
    using Suc by (intro days_before_next_year) linarith
  moreover have "days_before_year a \<le> days_before_year (b - 1)" using Suc by (intro Suc.hyps(1)) linarith+
  ultimately show ?case using year_days_pos [of "b - 1"] by (simp del: year_days_pos)
qed simp

definition day_number :: "int \<Rightarrow> int \<Rightarrow> int \<Rightarrow> int" where
  "day_number y m d = days_before_year y + days_before_month y m + (d - 1)"

subsection \<open>From day numbers to dates\<close>

function year_loop :: "int \<Rightarrow> int \<Rightarrow> int \<times> int" where
  "year_loop y n = (if n < year_days y then (y, n) else year_loop (y + 1) (n - year_days y))"
  by auto
termination by (relation "measure (\<lambda>(y, n). nat n)") (auto simp: year_days_def split: if_splits)

declare year_loop.simps [simp del]

function month_loop :: "int \<Rightarrow> int \<Rightarrow> int \<Rightarrow> int \<times> int" where
  "month_loop y m n = (if 12 \<le> m \<or> n < month_days y m then (m, n) else month_loop y (m + 1) (n - month_days y m))"
  by auto
termination by (relation "measure (\<lambda>(y, m, n). nat n)") (auto simp: month_days_def split: if_splits)

declare month_loop.simps [simp del]

definition civil :: "int \<Rightarrow> int \<times> int \<times> int" where
  "civil n = (let (y, r) = year_loop 1970 n; (m, d) = month_loop y 1 r in (y, m, d + 1))"

definition valid_date :: "int \<Rightarrow> int \<Rightarrow> int \<Rightarrow> bool" where
  "valid_date y m d = (1970 \<le> y \<and> 1 \<le> m \<and> m \<le> 12 \<and> 1 \<le> d \<and> d \<le> month_days y m)"

lemma year_loop_inv:
  assumes "year_loop y n = (y', r)" and "1970 \<le> y" and "0 \<le> n"
  shows "y \<le> y' \<and> 0 \<le> r \<and> r < year_days y' \<and> days_before_year y' + r = days_before_year y + n"
  using assms
proof (induction y n rule: year_loop.induct)
  case (1 y n)
  show ?case
  proof (cases "n < year_days y")
    case True
    then show ?thesis using "1.prems" by (simp add: year_loop.simps [of y n])
  next
    case False
    then have "year_loop (y + 1) (n - year_days y) = (y', r)" using "1.prems" by (simp add: year_loop.simps [of y n])
    from "1.IH" [OF False this] show ?thesis using days_before_next_year [OF "1.prems"(2)] "1.prems"(2) False by simp
  qed
qed

lemma month_loop_inv:
  assumes "month_loop y m n = (m', r)" and "1 \<le> m" and "m \<le> 12" and "days_before_month y m + n < year_days y" and "0 \<le> n"
  shows "m \<le> m' \<and> m' \<le> 12 \<and> 0 \<le> r \<and> r < month_days y m' \<and> days_before_month y m' + r = days_before_month y m + n"
  using assms
proof (induction y m n rule: month_loop.induct)
  case (1 y m n)
  show ?case
  proof (cases "12 \<le> m \<or> n < month_days y m")
    case True
    have "n < month_days y m" if "m = 12" using that "1.prems"(4) days_before_month_12 [of y] by simp
    then show ?thesis using True "1.prems" by (auto simp: month_loop.simps [of y m n])
  next
    case False
    then have l: "month_loop y (m + 1) (n - month_days y m) = (m', r)" using "1.prems" by (simp add: month_loop.simps [of y m n])
    from "1.IH" [OF False l] show ?thesis using days_before_month_Suc [OF "1.prems"(2), of y] "1.prems"(2-5) False by simp
  qed
qed

lemma civil_valid:
  assumes "civil n = (y, m, d)" and "0 \<le> n"
  shows "valid_date y m d" and "day_number y m d = n"
proof -
  obtain r where y: "year_loop 1970 n = (y, r)" "month_loop y 1 r = (m, d - 1)"
    using assms(1) by (auto simp: civil_def split: prod.splits)
  have a: "1970 \<le> y" "0 \<le> r" "r < year_days y" "days_before_year y + r = n"
    using year_loop_inv [OF y(1) _ assms(2)] by simp_all
  have b: "1 \<le> m" "m \<le> 12" "0 \<le> d - 1" "d - 1 < month_days y m" "days_before_month y m + (d - 1) = r"
    using month_loop_inv [OF y(2)] a by simp_all
  show "valid_date y m d" using a b by (simp add: valid_date_def)
  show "day_number y m d = n" using a b by (simp add: day_number_def)
qed

lemma year_loop_step: "year_days y \<le> n \<Longrightarrow> year_loop y n = year_loop (y + 1) (n - year_days y)"
  by (subst year_loop.simps) simp

lemma month_loop_step: "month_days y m \<le> n \<Longrightarrow> m < 12 \<Longrightarrow> month_loop y m n = month_loop y (m + 1) (n - month_days y m)"
  by (subst month_loop.simps) simp

lemma year_loop_back:
  assumes "1970 \<le> y" and "0 \<le> r" and "r < year_days y"
  shows "year_loop 1970 (days_before_year y + r) = (y, r)"
proof -
  have "year_loop z (days_before_year y - days_before_year z + r) = (y, r)" if "1970 \<le> z" "z \<le> y" for z
    using that
  proof (induction "nat (y - z)" arbitrary: z)
    case 0
    then show ?case using assms by (simp add: year_loop.simps)
  next
    case (Suc k)
    have z: "z + 1 \<le> y" "k = nat (y - (z + 1))" using Suc by linarith+
    have n: "days_before_year (z + 1) = days_before_year z + year_days z" by (rule days_before_next_year [OF Suc.prems(1)])
    have "year_days z \<le> days_before_year y - days_before_year z + r" using days_before_year_mono [OF _ z(1)] Suc.prems(1) n assms(2) by simp
    from year_loop_step [OF this] have "year_loop z (days_before_year y - days_before_year z + r) =
        year_loop (z + 1) (days_before_year y - days_before_year z + r - year_days z)" .
    also have "days_before_year y - days_before_year z + r - year_days z = days_before_year y - days_before_year (z + 1) + r" using n by simp
    finally have "year_loop z (days_before_year y - days_before_year z + r) = year_loop (z + 1) (days_before_year y - days_before_year (z + 1) + r)" .
    then show ?case using Suc.hyps(1) [OF z(2)] Suc.prems z(1) by simp
  qed
  from this [of 1970] show ?thesis using assms(1) by simp
qed

lemma days_before_month_mono: "1 \<le> a \<Longrightarrow> a \<le> b \<Longrightarrow> days_before_month y a \<le> days_before_month y b"
proof (induction "nat (b - a)" arbitrary: b)
  case (Suc k)
  have "days_before_month y (b - 1 + 1) = days_before_month y (b - 1) + month_days y (b - 1)"
    using Suc by (intro days_before_month_Suc) linarith
  moreover have "days_before_month y a \<le> days_before_month y (b - 1)" using Suc by (intro Suc.hyps(1)) linarith+
  ultimately show ?case using month_days_pos(1) [of y "b - 1"] by (simp del: month_days_pos)
qed simp

lemma month_loop_back:
  assumes "1 \<le> m" and "m \<le> 12" and "0 \<le> r" and "r < month_days y m"
  shows "month_loop y 1 (days_before_month y m + r) = (m, r)"
proof -
  have "month_loop y z (days_before_month y m - days_before_month y z + r) = (m, r)" if "1 \<le> z" "z \<le> m" for z
    using that
  proof (induction "nat (m - z)" arbitrary: z)
    case 0
    then show ?case using assms by (simp add: month_loop.simps)
  next
    case (Suc k)
    have z: "z + 1 \<le> m" "k = nat (m - (z + 1))" using Suc by linarith+
    have n: "days_before_month y (z + 1) = days_before_month y z + month_days y z" by (rule days_before_month_Suc [OF Suc.prems(1)])
    have "month_days y z \<le> days_before_month y m - days_before_month y z + r"
      using days_before_month_mono [OF _ z(1), of y] Suc.prems(1) n assms(3) by simp
    from month_loop_step [OF this] have "month_loop y z (days_before_month y m - days_before_month y z + r) =
        month_loop y (z + 1) (days_before_month y m - days_before_month y z + r - month_days y z)" using z(1) assms(2) by simp
    also have "days_before_month y m - days_before_month y z + r - month_days y z = days_before_month y m - days_before_month y (z + 1) + r" using n by simp
    finally have "month_loop y z (days_before_month y m - days_before_month y z + r) = month_loop y (z + 1) (days_before_month y m - days_before_month y (z + 1) + r)" .
    then show ?case using Suc.hyps(1) [OF z(2)] Suc.prems z(1) by simp
  qed
  from this [of 1] show ?thesis using assms(1) by simp
qed

lemma month_fits: "1 \<le> m \<Longrightarrow> m \<le> 12 \<Longrightarrow> days_before_month y m + month_days y m \<le> year_days y"
  using days_before_month_12 [of y] days_before_month_mono [of "m + 1" 12 y] days_before_month_Suc [of m y] month_days_pos(1) [of y 12]
  by (cases "m = 12") (auto simp del: month_days_pos)

lemma day_number_nonneg:
  assumes "valid_date y m d"
  shows "0 \<le> day_number y m d"
proof -
  have "0 \<le> days_before_year y" using days_before_year_mono [of 1970 y] assms by (simp add: valid_date_def)
  moreover have "days_before_month y 1 \<le> days_before_month y m" using assms by (intro days_before_month_mono) (simp_all add: valid_date_def)
  ultimately show ?thesis using assms by (simp add: day_number_def valid_date_def add_nonneg_nonneg)
qed

text \<open>Days and dates correspond one to one.\<close>

lemma civil_day_number:
  assumes "valid_date y m d"
  shows "civil (day_number y m d) = (y, m, d)"
proof -
  have v: "1970 \<le> y" "1 \<le> m" "m \<le> 12" "0 \<le> d - 1" "d - 1 < month_days y m" using assms by (simp_all add: valid_date_def)
  let ?r = "days_before_month y m + (d - 1)"
  have "?r < year_days y" using month_fits [OF v(2,3), of y] v by linarith
  moreover have "0 \<le> ?r" using days_before_month_mono [OF _ v(2), of y] v by simp
  ultimately have "year_loop 1970 (day_number y m d) = (y, ?r)"
    using year_loop_back [OF v(1), of ?r] by (simp add: day_number_def add.assoc)
  then show ?thesis using month_loop_back [OF v(2-5)] by (simp add: civil_def)
qed

text \<open>Stepping to the end of a month, a day at a time.\<close>

lemma civil_add:
  assumes "civil n = (y, m, d)" and "0 \<le> n" and "0 \<le> k" and "d + k \<le> month_days y m"
  shows "civil (n + k) = (y, m, d + k)"
proof -
  have v: "valid_date y m d" "day_number y m d = n" by (rule civil_valid [OF assms(1,2)])+
  then have "day_number y m (d + k) = n + k" by (simp add: day_number_def)
  moreover have "valid_date y m (d + k)" using v(1) assms(3,4) by (simp add: valid_date_def)
  ultimately show ?thesis using civil_day_number by metis
qed

definition next_month :: "int \<times> int \<Rightarrow> int \<times> int" where
  "next_month ym = (if snd ym = 12 then (fst ym + 1, 1) else (fst ym, snd ym + 1))"

lemma civil_next_month:
  assumes "civil n = (y, m, d)" and "0 \<le> n" and "next_month (y, m) = (y', m')"
  shows "day_number y' m' 1 = n + (month_days y m - d) + 1"
proof -
  have v: "valid_date y m d" "day_number y m d = n" by (rule civil_valid [OF assms(1,2)])+
  show ?thesis
  proof (cases "m = 12")
    case True
    then show ?thesis using v assms(3) days_before_month_12 [of y] days_before_next_year [of y]
      by (auto simp: day_number_def next_month_def valid_date_def)
  next
    case False
    then show ?thesis using v assms(3) days_before_month_Suc [of m y] by (auto simp: day_number_def next_month_def valid_date_def)
  qed
qed

lemma civil_year_le:
  assumes "1970 \<le> lim" and "0 \<le> n"
  shows "fst (civil n) \<le> lim \<longleftrightarrow> n < days_before_year (lim + 1)"
proof -
  obtain y r where l: "year_loop 1970 n = (y, r)" by fastforce
  note i = year_loop_inv [OF l _ assms(2)]
  have f: "fst (civil n) = y" by (simp add: civil_def l split: prod.splits)
  note mono = days_before_year_mono
  have y: "n < days_before_year (y + 1)" "days_before_year y \<le> n" "1970 \<le> y"
    using i days_before_next_year [of y] by simp_all
  show ?thesis
  proof
    assume "fst (civil n) \<le> lim"
    then have "y + 1 \<le> lim + 1" using f by simp
    from mono [OF _ this] show "n < days_before_year (lim + 1)" using y by linarith
  next
    assume a: "n < days_before_year (lim + 1)"
    show "fst (civil n) \<le> lim"
    proof (rule ccontr)
      assume "\<not> fst (civil n) \<le> lim"
      then have "lim + 1 \<le> y" using f by simp
      from mono [OF _ this] show False using a y(2) assms(1) by linarith
    qed
  qed
qed

subsection \<open>Instants and locations\<close>

type_synonym zone = "int \<Rightarrow> int"

text \<open>The wall clock of an instant, as if it were UTC, and its fields.\<close>

definition wall :: "zone \<Rightarrow> int \<Rightarrow> int" where
  "wall off t = t + off t"

definition wall_day :: "int \<Rightarrow> int" where "wall_day w = w div 86400"
definition wall_hour :: "int \<Rightarrow> nat" where "wall_hour w = nat ((w mod 86400) div 3600)"
definition wall_minute :: "int \<Rightarrow> nat" where "wall_minute w = nat ((w mod 3600) div 60)"

text \<open>1970-01-01 was a Thursday; Sunday is 0.\<close>

definition weekday :: "int \<Rightarrow> nat" where "weekday n = nat ((n + 4) mod 7)"

definition wall_year :: "int \<Rightarrow> int" where "wall_year w = fst (civil (wall_day w))"

text \<open>\<open>time.Date\<close>, given the wall clock.\<close>

definition zone_date :: "zone \<Rightarrow> int \<Rightarrow> int" where
  "zone_date off w = (if off w = 0 then w else w - off (w - off w))"

text \<open>\<open>AddDate(0, 1, 0)\<close> and \<open>AddDate(0, 0, 1)\<close>: the wall clock moves, days beyond the end of a month run on.\<close>

definition add_month :: "zone \<Rightarrow> int \<Rightarrow> int" where
  "add_month off t =
     (let w = wall off t; (y, m, d) = civil (wall_day w); (y', m') = next_month (y, m)
      in zone_date off (86400 * (day_number y' m' 1 + (d - 1)) + w mod 86400))"

definition add_day :: "zone \<Rightarrow> int \<Rightarrow> int" where
  "add_day off t = (let w = wall off t in zone_date off (86400 * (wall_day w + 1) + w mod 86400))"

end
