(* ===== verification/Decimal_Text.thy ===== *)
theory Decimal_Text
  imports Main
begin

text \<open>
  Decimal numerals as the program prints and reads them (\<open>strconv\<close> and the verb \<open>%d\<close> of \<open>fmt\<close>): the job ids of
  recurring fires, the members of the delayed-job index, cron fields.
\<close>

text \<open>\<open>strconv.Atoi\<close>\<close>

fun digits_val :: "int \<Rightarrow> string \<Rightarrow> int option" where
  "digits_val acc [] = Some acc"
| "digits_val acc (c # cs) =
     (let n = of_char c :: nat in if 48 \<le> n \<and> n \<le> 57 then digits_val (acc * 10 + int (n - 48)) cs else None)"

definition atoi :: "string \<Rightarrow> int option" where
  "atoi s =
     (let (neg, ds) = (case s of c # r \<Rightarrow> if c = CHR ''-'' then (True, r) else if c = CHR ''+'' then (False, r) else (False, s) | [] \<Rightarrow> (False, []))
      in if ds = [] then None
         else case digits_val 0 ds of
           None \<Rightarrow> None
         | Some v \<Rightarrow> (let w = (if neg then - v else v) in if - (2 ^ 63) \<le> w \<and> w < 2 ^ 63 then Some w else None))"

text \<open>\<open>strconv.Itoa\<close>\<close>

text \<open>The decimal digits of a natural number.\<close>

function dec :: "int \<Rightarrow> string" where
  "dec n = (if n < 10 then [char_of (48 + nat n)] else dec (n div 10) @ [char_of (48 + nat (n mod 10))])"
  by auto
termination by (relation "measure nat") auto

declare dec.simps [simp del]

definition itoa :: "int \<Rightarrow> string" where
  "itoa i = (if i < 0 then CHR ''-'' # dec (- i) else dec i)"

lemma digits_val_append: "digits_val acc (xs @ ys) = Option.bind (digits_val acc xs) (\<lambda>v. digits_val v ys)"
  by (induction xs arbitrary: acc) (auto simp: Let_def)

lemma digits_val_digit: "d < 10 \<Longrightarrow> digits_val acc [char_of (48 + d)] = Some (acc * 10 + int d)"
  by simp

lemma digits_dec: "0 \<le> n \<Longrightarrow> digits_val 0 (dec n) = Some n"
proof (induction n rule: dec.induct)
  case (1 n)
  show ?case
  proof (cases "n < 10")
    case True
    then show ?thesis using "1.prems" digits_val_digit [of "nat n" 0] by (subst dec.simps) (simp del: digits_val.simps)
  next
    case False
    have "(n div 10) * 10 + int (nat (n mod 10)) = n" by simp
    then show ?thesis using False "1.IH" digits_val_digit [of "nat (n mod 10)"]
      by (subst dec.simps) (simp add: digits_val_append del: digits_val.simps)
  qed
qed

lemma dec_inj: "0 \<le> n \<Longrightarrow> 0 \<le> m \<Longrightarrow> dec n = dec m \<Longrightarrow> n = m"
  by (metis digits_dec option.inject)

lemma digit_char: "d < 10 \<Longrightarrow> of_char (char_of (48 + d) :: char) = 48 + d" for d :: nat
  by simp

lemma dec_chars: "c \<in> set (dec n) \<Longrightarrow> 48 \<le> (of_char c :: nat) \<and> (of_char c :: nat) \<le> 57"
proof (induction n rule: dec.induct)
  case (1 n)
  have "nat (n mod 10) < 10" "n < 10 \<Longrightarrow> nat n < 10" by simp_all
  then show ?case using "1.prems" "1.IH" digit_char [of "nat (n mod 10)"] digit_char [of "nat n"]
    by (subst (asm) dec.simps) (auto split: if_splits)
qed

lemma dec_digits: "c \<in> set (dec n) \<Longrightarrow> c \<noteq> CHR ''-''"
  using dec_chars [of c n] by auto

lemma dec_no_plus: "c \<in> set (dec n) \<Longrightarrow> c \<noteq> CHR ''+''"
  using dec_chars [of c n] by auto

lemma dec_no_colon: "c \<in> set (dec n) \<Longrightarrow> c \<noteq> CHR '':''"
  using dec_chars [of c n] by auto

lemma dec_nonempty: "dec n \<noteq> []"
  by (subst dec.simps) simp

lemma dec_split: "0 \<le> n \<Longrightarrow> 0 \<le> m \<Longrightarrow> dec n @ CHR ''-'' # s = dec m @ CHR ''-'' # s' \<Longrightarrow> n = m \<and> s = s'"
proof -
  assume p: "0 \<le> n" "0 \<le> m" and e: "dec n @ CHR ''-'' # s = dec m @ CHR ''-'' # s'"
  have t: "takeWhile (\<lambda>c. c \<noteq> CHR ''-'') (dec k @ CHR ''-'' # r) = dec k" for k r
    by (subst takeWhile_append2) (auto dest: dec_digits)
  have "dec n = dec m" using arg_cong [OF e, of "takeWhile (\<lambda>c. c \<noteq> CHR ''-'')"] by (simp add: t)
  then show ?thesis using e dec_inj [OF p] by auto
qed

lemma dec_head: "hd (dec n @ r) \<noteq> CHR ''-''"
  using dec_digits [of "hd (dec n)" n] dec_nonempty [of n] by simp

lemma itoa_sign: "itoa i @ r = itoa j @ r' \<Longrightarrow> i < 0 \<longleftrightarrow> j < 0"
proof -
  assume e: "itoa i @ r = itoa j @ r'"
  have "hd (itoa k @ q) = CHR ''-'' \<longleftrightarrow> k < 0" for k q using dec_head [of k q] by (simp add: itoa_def)
  then show ?thesis using arg_cong [OF e, of hd] by metis
qed

lemma itoa_inj: "itoa i = itoa j \<Longrightarrow> i = j"
proof -
  assume e: "itoa i = itoa j"
  have s: "i < 0 \<longleftrightarrow> j < 0" using itoa_sign [of i "[]" j "[]"] e by simp
  show ?thesis
  proof (cases "i < 0")
    case True
    then have "dec (- i) = dec (- j)" using e s by (simp add: itoa_def)
    then show ?thesis using dec_inj [of "- i" "- j"] True s by linarith
  next
    case False
    then have "dec i = dec j" using e s by (simp add: itoa_def)
    then show ?thesis using dec_inj [of i j] False s by linarith
  qed
qed

lemma itoa_split: "itoa i @ CHR ''-'' # s = itoa j @ CHR ''-'' # s' \<Longrightarrow> i = j \<and> s = s'"
proof -
  assume e: "itoa i @ CHR ''-'' # s = itoa j @ CHR ''-'' # s'"
  have sg: "i < 0 \<longleftrightarrow> j < 0" by (rule itoa_sign [OF e])
  show ?thesis
  proof (cases "i < 0")
    case True
    then have "dec (- i) @ CHR ''-'' # s = dec (- j) @ CHR ''-'' # s'" using e sg by (simp add: itoa_def)
    then show ?thesis using dec_split [of "- i" "- j" s s'] True sg by simp
  next
    case False
    then have "dec i @ CHR ''-'' # s = dec j @ CHR ''-'' # s'" using e sg by (simp add: itoa_def)
    then show ?thesis using dec_split [of i j s s'] False sg by simp
  qed
qed

lemma atoi_itoa: "- (2 ^ 63) \<le> i \<Longrightarrow> i < 2 ^ 63 \<Longrightarrow> atoi (itoa i) = Some i"
proof (cases "i < 0")
  case True
  then show "- (2 ^ 63) \<le> i \<Longrightarrow> i < 2 ^ 63 \<Longrightarrow> atoi (itoa i) = Some i"
    using digits_dec [of "- i"] dec_nonempty [of "- i"] by (simp add: atoi_def itoa_def)
next
  case False
  obtain c r where d: "dec i = c # r" using dec_nonempty [of i] by (cases "dec i") auto
  have "c \<noteq> CHR ''-''" "c \<noteq> CHR ''+''" using dec_digits [of c i] dec_no_plus [of c i] d by simp_all
  then show "- (2 ^ 63) \<le> i \<Longrightarrow> i < 2 ^ 63 \<Longrightarrow> atoi (itoa i) = Some i"
    using False digits_dec [of i] d by (simp add: atoi_def itoa_def del: digits_val.simps)
qed

end
