(* ===== verification/Cron_Expr.thy ===== *)
theory Cron_Expr
  imports Civil_Calendar Decimal_Text "HOL-Library.Word" "HOL-Library.Monad_Syntax"
begin

unbundle bit_operations_syntax

text \<open>
  Cron expressions (\<^verbatim>\<open>pkg/cron/parser.go\<close>) and the planning of fires (\<^verbatim>\<open>pkg/cron/schedule.go\<close>).

  \<^item> \<open>expr\<close> is \<open>Expr\<close>, its masks are 64-bit words. Expressions are ASCII strings; a parse error is \<open>None\<close>.
  \<^item> Go's \<open>int\<close> is 64 bits wide; the only sum that can leave that range is the loop variable of \<open>parseField\<close>,
    where the wrap-around is written out.
  \<^item> \<open>next_fire\<close> is \<open>Next\<close>: \<open>Some (Some t)\<close> is a result, \<open>Some None\<close> the result \<open>ok = false\<close>, and \<open>None\<close> says that
    the call does not return.
\<close>

subsection \<open>Strings\<close>

definition is_space :: "char \<Rightarrow> bool" where
  "is_space c = (of_char c = (32::nat) \<or> 9 \<le> (of_char c :: nat) \<and> (of_char c :: nat) \<le> 13)"

definition toLower :: "string \<Rightarrow> string" where
  "toLower s = map (\<lambda>c. let n = of_char c :: nat in if 65 \<le> n \<and> n \<le> 90 then char_of (n + 32) else c) s"

definition trimSpace :: "string \<Rightarrow> string" where
  "trimSpace s = rev (dropWhile is_space (rev (dropWhile is_space s)))"

function fields_of :: "string \<Rightarrow> string list" where
  "fields_of s =
     (let t = dropWhile is_space s in
      if t = [] then [] else takeWhile (\<lambda>c. \<not> is_space c) t # fields_of (dropWhile (\<lambda>c. \<not> is_space c) t))"
  by auto
termination
proof (relation "measure length")
  fix s t assume t: "t = dropWhile is_space s" "t \<noteq> []"
  then obtain c r where c: "t = c # r" "\<not> is_space c" by (metis hd_dropWhile list.collapse)
  have "length (dropWhile (\<lambda>c. \<not> is_space c) t) < length t"
    using c length_dropWhile_le [of "\<lambda>c. \<not> is_space c" r] by simp
  then show "(dropWhile (\<lambda>c. \<not> is_space c) t, s) \<in> measure length"
    using t(1) length_dropWhile_le [of is_space s] by simp
qed simp

declare fields_of.simps [simp del]

fun split_on :: "char \<Rightarrow> string \<Rightarrow> string list" where
  "split_on c [] = [[]]"
| "split_on c (x # xs) =
     (if x = c then [] # split_on c xs else case split_on c xs of [] \<Rightarrow> [[x]] | w # ws \<Rightarrow> (x # w) # ws)"

definition before :: "char \<Rightarrow> string \<Rightarrow> string" where "before c s = takeWhile (\<lambda>x. x \<noteq> c) s"
definition after_first :: "char \<Rightarrow> string \<Rightarrow> string" where "after_first c s = tl (dropWhile (\<lambda>x. x \<noteq> c) s)"

subsection \<open>Parsing\<close>

record expr =
  minute_m :: "64 word"
  hour_m :: "64 word"
  dom_m :: "64 word"
  month_m :: "64 word"
  dow_m :: "64 word"
  domStar :: bool
  dowStar :: bool
  raw_text :: string

definition monthNames :: "(string \<times> int) list" where
  "monthNames = [(''jan'', 1), (''feb'', 2), (''mar'', 3), (''apr'', 4), (''may'', 5), (''jun'', 6),
     (''jul'', 7), (''aug'', 8), (''sep'', 9), (''oct'', 10), (''nov'', 11), (''dec'', 12)]"

definition dowNames :: "(string \<times> int) list" where
  "dowNames = [(''sun'', 0), (''mon'', 1), (''tue'', 2), (''wed'', 3), (''thu'', 4), (''fri'', 5), (''sat'', 6)]"

definition atoiOrName :: "(string \<times> int) list \<Rightarrow> string \<Rightarrow> int option" where
  "atoiOrName names s = (case map_of names (toLower s) of Some v \<Rightarrow> Some v | None \<Rightarrow> atoi s)"

definition term_step :: "string \<Rightarrow> string \<times> int option" where
  "term_step part =
     (if CHR ''/'' \<in> set part
      then (before (CHR ''/'') part, case atoi (after_first (CHR ''/'') part) of None \<Rightarrow> None | Some s \<Rightarrow> if s < 1 then None else Some s)
      else (part, Some 1))"

definition term_in_range :: "int \<Rightarrow> int \<Rightarrow> int \<Rightarrow> int \<Rightarrow> int \<Rightarrow> (int \<times> int \<times> int) option" where
  "term_in_range mn mx lo hi step = (if lo < mn \<or> mx < hi \<or> hi < lo then None else Some (lo, hi, step))"

definition parseTerm :: "string \<Rightarrow> int \<Rightarrow> int \<Rightarrow> (string \<times> int) list \<Rightarrow> (int \<times> int \<times> int) option" where
  "parseTerm part mn mx names =
     (case term_step part of
        (body, None) \<Rightarrow> None
      | (body, Some step) \<Rightarrow>
          if body = ''*'' \<or> body = ''?'' then Some (mn, mx, step)
          else if CHR ''-'' \<in> set body
          then (case (atoiOrName names (before (CHR ''-'') body), atoiOrName names (after_first (CHR ''-'') body)) of
                  (Some lo, Some hi) \<Rightarrow> term_in_range mn mx lo hi step
                | _ \<Rightarrow> None)
          else (case atoiOrName names body of Some v \<Rightarrow> term_in_range mn mx v v step | None \<Rightarrow> None))"

definition wrap64 :: "int \<Rightarrow> int" where
  "wrap64 x = (x + 2 ^ 63) mod 2 ^ 64 - 2 ^ 63"

lemma wrap64_code [code]: "wrap64 x = (x + 9223372036854775808) mod 18446744073709551616 - 9223372036854775808"
  by (simp add: wrap64_def)

text \<open>\<open>1 << uint(v)\<close>\<close>

definition one_bit :: "int \<Rightarrow> 64 word" where
  "one_bit v = (if 0 \<le> v \<and> v < 64 then push_bit (nat v) 1 else 0)"

partial_function (option) range_bits :: "int \<Rightarrow> int \<Rightarrow> int \<Rightarrow> 64 word \<Rightarrow> 64 word option" where
  "range_bits v hi step acc = (if hi < v then Some acc else range_bits (wrap64 (v + step)) hi step (acc OR one_bit v))"

declare range_bits.simps [code]

fun parse_parts :: "int \<Rightarrow> int \<Rightarrow> (string \<times> int) list \<Rightarrow> string list \<Rightarrow> 64 word \<Rightarrow> 64 word option" where
  "parse_parts mn mx names [] acc = Some acc"
| "parse_parts mn mx names (p # ps) acc =
     (if p = [] then None
      else case parseTerm p mn mx names of
        None \<Rightarrow> None
      | Some (lo, hi, step) \<Rightarrow> (case range_bits lo hi step acc of None \<Rightarrow> None | Some acc' \<Rightarrow> parse_parts mn mx names ps acc'))"

definition parseField :: "string \<Rightarrow> int \<Rightarrow> int \<Rightarrow> (string \<times> int) list \<Rightarrow> (64 word \<times> bool) option" where
  "parseField field mn mx names =
     (case parse_parts mn mx names (split_on (CHR '','') field) 0 of
        None \<Rightarrow> None
      | Some acc \<Rightarrow> if acc = 0 then None else Some (acc, field = ''*'' \<or> field = ''?''))"

definition normal_dow :: "64 word \<Rightarrow> 64 word" where
  "normal_dow w = (if w AND push_bit 7 1 \<noteq> 0 then (w OR push_bit 0 1) AND NOT (push_bit 7 1) else w)"

definition parseFields :: "string \<Rightarrow> expr option" where
  "parseFields raw =
     (case fields_of raw of
        [f0, f1, f2, f3, f4] \<Rightarrow>
          do { (mi, _) \<leftarrow> parseField f0 0 59 [];
               (ho, _) \<leftarrow> parseField f1 0 23 [];
               (dm, ds) \<leftarrow> parseField f2 1 31 [];
               (mo, _) \<leftarrow> parseField f3 1 12 monthNames;
               (dw, ws) \<leftarrow> parseField f4 0 7 dowNames;
               Some \<lparr>minute_m = mi, hour_m = ho, dom_m = dm, month_m = mo, dow_m = normal_dow dw, domStar = ds, dowStar = ws,
                     raw_text = []\<rparr> }
      | _ \<Rightarrow> None)"

definition macros :: "(string \<times> string) list" where
  "macros = [(''@hourly'', ''0 * * * *''), (''@daily'', ''0 0 * * *''), (''@midnight'', ''0 0 * * *''), (''@weekly'', ''0 0 * * 0''),
     (''@monthly'', ''0 0 1 * *''), (''@yearly'', ''0 0 1 1 *''), (''@annually'', ''0 0 1 1 *'')]"

definition parse_cron :: "string \<Rightarrow> expr option" where
  "parse_cron s =
     (let raw = trimSpace s in
      case parseFields (case map_of macros (toLower raw) of Some m \<Rightarrow> m | None \<Rightarrow> raw) of
        None \<Rightarrow> None
      | Some e \<Rightarrow> Some (e\<lparr>raw_text := raw\<rparr>))"

subsection \<open>The next instant\<close>

definition allowed :: "64 word \<Rightarrow> nat \<Rightarrow> bool" where
  "allowed w n = (w AND push_bit n 1 \<noteq> 0)"

definition dayMatches :: "expr \<Rightarrow> int \<Rightarrow> bool" where
  "dayMatches e n =
     (if domStar e \<and> dowStar e then True
      else let dom = allowed (dom_m e) (nat (snd (snd (civil n)))); dow = allowed (dow_m e) (weekday n)
           in if domStar e then dow else if dowStar e then dom else dom \<or> dow)"

text \<open>One iteration of the loop: \<open>None\<close> when the instant matches, otherwise the instant to go on with.\<close>

definition next_step :: "expr \<Rightarrow> zone \<Rightarrow> int \<Rightarrow> int option" where
  "next_step e off t =
     (let w = wall off t; n = wall_day w; (y, m, d) = civil n in
      if \<not> allowed (month_m e) (nat m) then Some (add_month off (zone_date off (86400 * day_number y m 1)))
      else if \<not> dayMatches e n then Some (add_day off (zone_date off (86400 * n)))
      else if \<not> allowed (hour_m e) (wall_hour w) then Some (zone_date off (86400 * n + 3600 * int (wall_hour w)) + 3600)
      else if \<not> allowed (minute_m e) (wall_minute w) then Some (t + 60)
      else None)"

partial_function (option) next_loop :: "expr \<Rightarrow> zone \<Rightarrow> int \<Rightarrow> int \<Rightarrow> int option option" where
  "next_loop e off lim t =
     (if lim < wall_year (wall off t) then Some None
      else case next_step e off t of None \<Rightarrow> Some (Some t) | Some t' \<Rightarrow> next_loop e off lim t')"

declare next_loop.simps [code]

definition first_minute :: "int \<Rightarrow> int" where
  "first_minute t = (t div 60) * 60 + 60"

definition next_fire :: "expr \<Rightarrow> zone \<Rightarrow> int \<Rightarrow> int option option" where
  "next_fire e off t = (let t0 = first_minute t in next_loop e off (wall_year (wall off t0) + 5) t0)"

subsection \<open>Planning\<close>

datatype misfire = MisfireSkip | MisfireFireOnce | MisfireBackfill | MisfireOther string

definition misfire_of :: "string \<Rightarrow> misfire" where
  "misfire_of s = (if s = ''skip'' then MisfireSkip else if s = ''fire_once'' then MisfireFireOnce
     else if s = ''backfill'' then MisfireBackfill else MisfireOther s)"

definition misfire_valid :: "misfire \<Rightarrow> bool" where
  "misfire_valid p = (case p of MisfireOther _ \<Rightarrow> False | _ \<Rightarrow> True)"

record plan =
  p_fires :: "int list"
  p_next :: int

text \<open>\<open>None\<close>: a call of \<open>Next\<close> does not return.\<close>

function advance_loop :: "expr \<Rightarrow> zone \<Rightarrow> int \<Rightarrow> int \<Rightarrow> int \<Rightarrow> int option" where
  "advance_loop e off now i cur =
     (if 1000000 \<le> i then Some (now + 60)
      else case next_fire e off cur of
        None \<Rightarrow> None
      | Some None \<Rightarrow> Some (cur + 60)
      | Some (Some nn) \<Rightarrow> if now < nn then Some nn else advance_loop e off now (i + 1) nn)"
  by auto
termination by (relation "measure (\<lambda>(e, off, now, i, cur). nat (1000000 - i))") auto

declare advance_loop.simps [simp del]

definition advancePast :: "expr \<Rightarrow> zone \<Rightarrow> int \<Rightarrow> int \<Rightarrow> int option" where
  "advancePast e off from now = advance_loop e off now 0 from"

function backfill_loop :: "expr \<Rightarrow> zone \<Rightarrow> int \<Rightarrow> nat \<Rightarrow> int list \<Rightarrow> int \<Rightarrow> plan option" where
  "backfill_loop e off now mx fires cur =
     (if now < cur then Some \<lparr>p_fires = fires, p_next = cur\<rparr>
      else let fires' = fires @ [cur] in
        case next_fire e off cur of
          None \<Rightarrow> None
        | Some None \<Rightarrow> Some \<lparr>p_fires = fires', p_next = cur + 60\<rparr>
        | Some (Some nn) \<Rightarrow>
            if mx \<le> length fires' then Some \<lparr>p_fires = fires', p_next = nn\<rparr> else backfill_loop e off now mx fires' nn)"
  by auto
termination by (relation "measure (\<lambda>(e, off, now, mx, fires, cur). mx - length fires)") auto

declare backfill_loop.simps [simp del]

definition planFires :: "misfire \<Rightarrow> int \<Rightarrow> expr \<Rightarrow> zone \<Rightarrow> int \<Rightarrow> int \<Rightarrow> int \<Rightarrow> plan option" where
  "planFires mis nxt e off now grace maxBackfill =
     (let mx = nat (if maxBackfill < 1 then 1 else maxBackfill) in
      case mis of
        MisfireBackfill \<Rightarrow> backfill_loop e off now mx [] nxt
      | MisfireSkip \<Rightarrow>
          (case advancePast e off nxt now of
             None \<Rightarrow> None
           | Some n \<Rightarrow> Some \<lparr>p_fires = (if now - nxt \<le> grace then [nxt] else []), p_next = n\<rparr>)
      | _ \<Rightarrow> (case advancePast e off nxt now of None \<Rightarrow> None | Some n \<Rightarrow> Some \<lparr>p_fires = [nxt], p_next = n\<rparr>))"

end
