(* ===== verification/Cron_Store.thy ===== *)
theory Cron_Store
  imports Cron_Expr Wire_Json
begin

text \<open>
  The tables of the recurring scheduler (\<^verbatim>\<open>pkg/cron/store.go\<close>).

  \<^item> \<open>cron_db\<close> holds the rows of \<^verbatim>\<open>kafka_batch_recurring_schedules\<close> and of the fire ledger
    \<^verbatim>\<open>kafka_batch_recurring_fires\<close>. Times are whole seconds, the resolution of a \<open>DATETIME\<close> column; the column
    \<open>args_json\<close> holds a JSON document.
  \<^item> \<open>LoadLocation\<close> consults the time zone database: it is the parameter \<open>tzdb\<close>.
  \<^item> A statement or a transaction that fails leaves the tables as they were; one whose reply is lost has been carried
    out and is reported as failed (\<open>fate\<close>).
  \<^item> Names are compared byte by byte, as in a column with a binary collation.
  \<^item> A result \<open>None\<close> says that the call does not return, because \<open>Next\<close> does not.
\<close>

subsection \<open>Rows\<close>

record schedule =
  s_id :: int
  s_name :: string
  s_cron :: string
  s_timezone :: string
  s_job_type :: string
  s_args :: "(string \<times> json) list"
  s_tenant :: string
  s_enabled :: bool
  s_misfire :: misfire
  s_next :: int
  s_last :: "int option"

record sched_row =
  r_id :: int
  r_name :: string
  r_cron :: string
  r_timezone :: string
  r_job_type :: string
  r_args :: "json option"
  r_tenant :: "string option"
  r_enabled :: int
  r_misfire :: string
  r_next :: int
  r_last :: "int option"
  r_created :: int
  r_updated :: int

datatype fire_status = Pending | Dispatched

record fire_row =
  f_sched :: int
  f_at :: int
  f_status :: fire_status
  f_job :: "string option"
  f_created :: int
  f_dispatched :: "int option"

record cron_db =
  rows :: "sched_row list"
  fires :: "fire_row list"
  auto_id :: int

definition empty_db :: cron_db where
  "empty_db = \<lparr>rows = [], fires = [], auto_id = 1\<rparr>"

record claimed_fire =
  c_sched :: int
  c_name :: string
  c_job_type :: string
  c_tenant :: string
  c_args :: "(string \<times> json) list"
  c_at :: int

text \<open>Scanning a row.\<close>

definition decodeArgs :: "json option \<Rightarrow> (string \<times> json) list" where
  "decodeArgs a = (case a of Some (JObj kvs) \<Rightarrow> kvs | _ \<Rightarrow> [])"

definition null_string :: "string option \<Rightarrow> string" where
  "null_string s = (case s of None \<Rightarrow> '''' | Some t \<Rightarrow> t)"

definition scanSchedule :: "sched_row \<Rightarrow> schedule" where
  "scanSchedule r =
     \<lparr>s_id = r_id r, s_name = r_name r, s_cron = r_cron r, s_timezone = r_timezone r, s_job_type = r_job_type r,
      s_args = decodeArgs (r_args r), s_tenant = null_string (r_tenant r), s_enabled = (r_enabled r = 1),
      s_misfire = misfire_of (r_misfire r), s_next = r_next r, s_last = r_last r\<rparr>"

subsection \<open>Schedules\<close>

definition utc :: zone where "utc = (\<lambda>_. 0)"

definition location :: "(string \<Rightarrow> zone option) \<Rightarrow> string \<Rightarrow> zone option" where
  "location tzdb tz = (if tz = '''' \<or> tz = ''UTC'' then Some utc else tzdb tz)"

datatype upsert_error = MissingField | InvalidMisfire string | BadCron | BadTimezone | NeverFires | DbFailed

text \<open>The definition handed to \<open>Upsert\<close>; \<open>u_args = None\<close> is a nil map.\<close>

record upsert_req =
  u_name :: string
  u_cron :: string
  u_timezone :: string
  u_job_type :: string
  u_args :: "(string \<times> json) list option"
  u_tenant :: string
  u_enabled :: bool
  u_misfire :: string

definition upsert_row :: "upsert_req \<Rightarrow> string \<Rightarrow> string \<Rightarrow> int \<Rightarrow> int \<Rightarrow> int \<Rightarrow> sched_row" where
  "upsert_row u mis tz nxt now i =
     \<lparr>r_id = i, r_name = u_name u, r_cron = u_cron u, r_timezone = tz, r_job_type = u_job_type u,
      r_args = Some (JObj (case u_args u of None \<Rightarrow> [] | Some a \<Rightarrow> a)),
      r_tenant = (if u_tenant u \<noteq> '''' then Some (u_tenant u) else None), r_enabled = (if u_enabled u then 1 else 0),
      r_misfire = mis, r_next = nxt, r_last = None, r_created = now, r_updated = now\<rparr>"

text \<open>\<open>INSERT ... ON DUPLICATE KEY UPDATE\<close>: the last fire and the creation time of an existing row stay.\<close>

definition write_row :: "sched_row \<Rightarrow> cron_db \<Rightarrow> cron_db" where
  "write_row n db =
     (if \<exists>r \<in> set (rows db). r_name r = r_name n
      then db\<lparr>rows := map (\<lambda>r. if r_name r = r_name n
             then n\<lparr>r_id := r_id r, r_last := r_last r, r_created := r_created r\<rparr> else r) (rows db)\<rparr>
      else db\<lparr>rows := rows db @ [n\<lparr>r_id := auto_id db\<rparr>], auto_id := auto_id db + 1\<rparr>)"

text \<open>The id \<open>Upsert\<close> returns: the row's own, whether the driver reports it or it is selected by name.\<close>

definition id_of :: "string \<Rightarrow> cron_db \<Rightarrow> int option" where
  "id_of n db = map_option r_id (find (\<lambda>r. r_name r = n) (rows db))"

definition upsert ::
  "(string \<Rightarrow> zone option) \<Rightarrow> int \<Rightarrow> int \<Rightarrow> fate \<Rightarrow> upsert_req \<Rightarrow> cron_db \<Rightarrow> (cron_db \<times> (upsert_error + int)) option" where
  "upsert tzdb t0 now got u db =
     (if u_name u = '''' \<or> u_cron u = '''' \<or> u_job_type u = '''' then Some (db, Inl MissingField)
      else let mis = (if u_misfire u = '''' then ''fire_once'' else u_misfire u) in
      if \<not> misfire_valid (misfire_of mis) then Some (db, Inl (InvalidMisfire mis))
      else let tz = (if u_timezone u = '''' then ''UTC'' else u_timezone u) in
      case parse_cron (u_cron u) of
        None \<Rightarrow> Some (db, Inl BadCron)
      | Some e \<Rightarrow>
          (case location tzdb tz of
             None \<Rightarrow> Some (db, Inl BadTimezone)
           | Some z \<Rightarrow>
               (case next_fire e z t0 of
                  None \<Rightarrow> None
                | Some None \<Rightarrow> Some (db, Inl NeverFires)
                | Some (Some nxt) \<Rightarrow>
                    let db' = when_run got (write_row (upsert_row u mis tz nxt now 0)) db in
                    Some (db', if got \<noteq> Replied then Inl DbFailed
                               else case id_of (u_name u) db' of None \<Rightarrow> Inl DbFailed | Some i \<Rightarrow> Inr i))))"

definition setEnabled :: "string \<Rightarrow> bool \<Rightarrow> int \<Rightarrow> cron_db \<Rightarrow> cron_db" where
  "setEnabled n v now db =
     db\<lparr>rows := map (\<lambda>r. if r_name r = n then r\<lparr>r_enabled := (if v then 1 else 0), r_updated := now\<rparr> else r) (rows db)\<rparr>"

definition delete_sched :: "string \<Rightarrow> cron_db \<Rightarrow> cron_db" where
  "delete_sched n db = db\<lparr>rows := filter (\<lambda>r. r_name r \<noteq> n) (rows db)\<rparr>"

text \<open>\<open>ORDER BY name\<close>: the names are unique, and are compared byte by byte.\<close>

fun name_le :: "string \<Rightarrow> string \<Rightarrow> bool" where
  "name_le [] _ = True"
| "name_le (_ # _) [] = False"
| "name_le (a # as) (b # bs) = (of_char a < (of_char b :: nat) \<or> a = b \<and> name_le as bs)"

fun insert_by_name :: "schedule \<Rightarrow> schedule list \<Rightarrow> schedule list" where
  "insert_by_name x [] = [x]"
| "insert_by_name x (y # ys) = (if name_le (s_name x) (s_name y) then x # y # ys else y # insert_by_name x ys)"

definition list_schedules :: "cron_db \<Rightarrow> schedule list" where
  "list_schedules db = foldr insert_by_name (map scanSchedule (rows db)) []"

subsection \<open>Claiming fires\<close>

text \<open>What the planner of \<open>ClaimAndAdvance\<close> answers; \<open>PlanHangs\<close>: it does not.\<close>

datatype plan_reply = PlanError | Planned plan | PlanHangs

definition set_row :: "int \<Rightarrow> (sched_row \<Rightarrow> sched_row) \<Rightarrow> cron_db \<Rightarrow> cron_db" where
  "set_row i f db = db\<lparr>rows := map (\<lambda>r. if r_id r = i then f r else r) (rows db)\<rparr>"

definition claimed_of :: "schedule \<Rightarrow> int \<Rightarrow> claimed_fire" where
  "claimed_of sc at' =
     \<lparr>c_sched = s_id sc, c_name = s_name sc, c_job_type = s_job_type sc, c_tenant = s_tenant sc, c_args = s_args sc, c_at = at'\<rparr>"

text \<open>\<open>INSERT IGNORE\<close> against the primary key (schedule, instant): whether a row was affected.\<close>

definition insertIgnore :: "int \<Rightarrow> int \<Rightarrow> int \<Rightarrow> cron_db \<Rightarrow> cron_db \<times> bool" where
  "insertIgnore i at' created db =
     (if \<exists>f \<in> set (fires db). f_sched f = i \<and> f_at f = at' then (db, False)
      else (db\<lparr>fires := fires db @
              [\<lparr>f_sched = i, f_at = at', f_status = Pending, f_job = None, f_created = created, f_dispatched = None\<rparr>]\<rparr>, True))"

fun claim_fires :: "schedule \<Rightarrow> int \<Rightarrow> int list \<Rightarrow> cron_db \<Rightarrow> cron_db \<times> claimed_fire list" where
  "claim_fires sc created [] db = (db, [])"
| "claim_fires sc created (a # as) db =
     (let (db1, fresh) = insertIgnore (s_id sc) a created db;
          (db2, cs) = claim_fires sc created as db1
      in (db2, if fresh then claimed_of sc a # cs else cs))"

definition advance_row :: "plan \<Rightarrow> int \<Rightarrow> sched_row \<Rightarrow> sched_row" where
  "advance_row p created r =
     (if p_fires p \<noteq> [] then r\<lparr>r_next := p_next p, r_last := Some (last (p_fires p)), r_updated := created\<rparr>
      else r\<lparr>r_next := p_next p, r_updated := created\<rparr>)"

definition claim_sched :: "(schedule \<Rightarrow> plan_reply) \<Rightarrow> int \<Rightarrow> schedule \<Rightarrow> cron_db \<Rightarrow> (cron_db \<times> claimed_fire list) option" where
  "claim_sched pl created sc db =
     (case pl sc of
        PlanHangs \<Rightarrow> None
      | PlanError \<Rightarrow> Some (set_row (s_id sc) (\<lambda>r. r\<lparr>r_enabled := 0, r_updated := created\<rparr>) db, [])
      | Planned p \<Rightarrow>
          let (db1, cs) = claim_fires sc created (p_fires p) db in Some (set_row (s_id sc) (advance_row p created) db1, cs))"

fun claim_scheds :: "(schedule \<Rightarrow> plan_reply) \<Rightarrow> int \<Rightarrow> schedule list \<Rightarrow> cron_db \<Rightarrow> (cron_db \<times> claimed_fire list) option" where
  "claim_scheds pl created [] db = Some (db, [])"
| "claim_scheds pl created (sc # scs) db =
     (case claim_sched pl created sc db of
        None \<Rightarrow> None
      | Some (db1, cs) \<Rightarrow> map_option (\<lambda>(db2, cs2). (db2, cs @ cs2)) (claim_scheds pl created scs db1))"

text \<open>The due rows, oldest first. \<open>locked\<close>: the rows another transaction holds, which \<open>SKIP LOCKED\<close> leaves out.\<close>

definition due_rows :: "int \<Rightarrow> int \<Rightarrow> (int \<Rightarrow> bool) \<Rightarrow> cron_db \<Rightarrow> schedule list" where
  "due_rows now mx locked db =
     map scanSchedule (take (nat (if mx \<le> 0 then 100 else mx))
       (sort_key r_next (filter (\<lambda>r. r_enabled r = 1 \<and> r_next r \<le> now \<and> \<not> locked (r_id r)) (rows db))))"

text \<open>The transaction: with \<open>NotRun\<close> it is rolled back, with \<open>ReplyLost\<close> it is committed and the caller sees an error.\<close>

definition claimAndAdvance ::
  "(schedule \<Rightarrow> plan_reply) \<Rightarrow> int \<Rightarrow> int \<Rightarrow> int \<Rightarrow> (int \<Rightarrow> bool) \<Rightarrow> fate \<Rightarrow> cron_db \<Rightarrow> (cron_db \<times> claimed_fire list option) option" where
  "claimAndAdvance pl now created mx locked got db =
     (if got = NotRun then Some (db, None)
      else map_option (\<lambda>(db', cs). (db', if got = Replied then Some cs else None))
             (claim_scheds pl created (due_rows now mx locked db) db))"

subsection \<open>The ledger\<close>

definition markDispatched :: "int \<Rightarrow> int \<Rightarrow> string \<Rightarrow> int \<Rightarrow> cron_db \<Rightarrow> cron_db" where
  "markDispatched i at' job now db =
     db\<lparr>fires := map (\<lambda>f. if f_sched f = i \<and> f_at f = at'
         then f\<lparr>f_status := Dispatched, f_job := Some job, f_dispatched := Some now\<rparr> else f) (fires db)\<rparr>"

definition recovered_of :: "cron_db \<Rightarrow> fire_row \<Rightarrow> claimed_fire option" where
  "recovered_of db f =
     map_option (\<lambda>r. \<lparr>c_sched = f_sched f, c_name = r_name r, c_job_type = r_job_type r, c_tenant = null_string (r_tenant r),
        c_args = decodeArgs (r_args r), c_at = f_at f\<rparr>) (find (\<lambda>r. r_id r = f_sched f) (rows db))"

text \<open>The join leaves out the fires of deleted schedules; the limit counts the joined rows.\<close>

definition recoverPending :: "int \<Rightarrow> int \<Rightarrow> cron_db \<Rightarrow> claimed_fire list" where
  "recoverPending olderThan mx db =
     take (nat (if mx \<le> 0 then 100 else mx))
       (List.map_filter (recovered_of db)
         (sort_key f_created (filter (\<lambda>f. f_status f = Pending \<and> f_created f < olderThan) (fires db))))"

definition prune :: "int \<Rightarrow> cron_db \<Rightarrow> cron_db \<times> nat" where
  "prune olderThan db =
     (let old = (\<lambda>f. f_status f = Dispatched \<and> (case f_dispatched f of None \<Rightarrow> False | Some d \<Rightarrow> d < olderThan)) in
      (db\<lparr>fires := filter (\<lambda>f. \<not> old f) (fires db)\<rparr>, length (filter old (fires db))))"

end
