(* ===== verification/Cron_Ticker.thy ===== *)
theory Cron_Ticker
  imports Cron_Store
begin

text \<open>
  The ticker of the recurring scheduler (\<^verbatim>\<open>pkg/cron/ticker.go\<close>) and its leader lock (\<^verbatim>\<open>pkg/cron/lock.go\<close>).

  \<^item> \<open>cron_sys\<close> holds what one ticker reads and writes: the tables, the Redis key of the lock, its own fields, and what
    it has produced: the jobs handed to Kafka and the instrumentation events.
  \<^item> Clocks and durations are whole seconds; the staleness threshold is computed in nanoseconds, as in the code.
  \<^item> The enqueuer is the client of Kafka: a call has a \<open>fate\<close>, and the job is in Kafka unless the call was not carried
    out. \<open>HandlerUniq\<close> is a parameter, absent when the enqueuer does not offer it.
  \<^item> \<open>None\<close>: the pass does not return.
\<close>

subsection \<open>Configuration\<close>

record ticker_cfg =
  window :: int
  batchSize :: int
  misfireGrace :: int
  maxBackfill :: int
  recoverEvery :: int
  recoverGrace :: int
  pruneEvery :: int
  pruneRetention :: int
  heartbeatEvery :: int
  staleFactor :: rat

definition applyDefaults :: "ticker_cfg \<Rightarrow> ticker_cfg" where
  "applyDefaults c =
     (let w = (if window c \<le> 0 then 30 else window c) in
      \<lparr>window = w,
       batchSize = (if batchSize c \<le> 0 then 100 else batchSize c),
       misfireGrace = (if misfireGrace c \<le> 0 then 2 * w else misfireGrace c),
       maxBackfill = (if maxBackfill c \<le> 0 then 1000 else maxBackfill c),
       recoverEvery = (if recoverEvery c \<le> 0 then 300 else recoverEvery c),
       recoverGrace = (if recoverGrace c \<le> 0 then 120 else recoverGrace c),
       pruneEvery = (if pruneEvery c \<le> 0 then 3600 else pruneEvery c),
       pruneRetention = (if pruneRetention c \<le> 0 then 7 * 24 * 3600 else pruneRetention c),
       heartbeatEvery = (if heartbeatEvery c \<le> 0 then 60 else heartbeatEvery c),
       staleFactor = (if staleFactor c \<le> 0 then 2 else staleFactor c)\<rparr>)"

subsection \<open>The leader lock\<close>

definition leader_ttl :: "int \<Rightarrow> int" where
  "leader_ttl ttl = (if ttl \<le> 0 then 60 else ttl)"

text \<open>\<open>SET NX EX\<close>; the random source may fail.\<close>

definition lock_acquire :: "int \<Rightarrow> int \<Rightarrow> string option \<Rightarrow> fate \<Rightarrow> string rkey \<Rightarrow> string rkey \<times> (string \<times> bool) option" where
  "lock_acquire clk ttl token got k0 =
     (case token of
        None \<Rightarrow> (k0, None)
      | Some t \<Rightarrow>
          let k = purge_key clk k0; k' = when_run got (\<lambda>k. if k = None then set_key_ex clk ttl t else k) k in
          (k', if got = Replied then Some (t, k = None) else None))"

definition lock_release :: "int \<Rightarrow> string \<Rightarrow> fate \<Rightarrow> string rkey \<Rightarrow> string rkey" where
  "lock_release clk token got k0 =
     (if token = '''' then k0
      else when_run got (\<lambda>k. if purge_key clk k \<noteq> None \<and> key_val '''' (purge_key clk k) = token then None else k) k0)"

subsection \<open>State\<close>

record cron_job =
  q_type :: string
  q_args :: "(string \<times> json) list"
  q_job :: string
  q_tenant :: string

datatype cron_event =
    CronFired string string string string
  | CronEnqueueFailed string string
  | CronStale string string int int
  | CronHeartbeat nat nat int
  | WarnNonUniq string string

record cron_sys =
  cdb :: cron_db
  leader :: "string rkey"
  lastRecover :: "int option"
  lastPrune :: "int option"
  lastHeartbeat :: "int option"
  warnedNonUniq :: "string list"
  sent :: "cron_job list"
  events :: "cron_event list"

subsection \<open>Job ids\<close>

definition jobIDForFire :: "int \<Rightarrow> int \<Rightarrow> string" where
  "jobIDForFire i at' = ''sched-'' @ itoa i @ ''-'' @ itoa at'"

subsection \<open>Enqueueing a fire\<close>

text \<open>The environment of one \<open>enqueue\<close>: the call of the enqueuer; for each attempt to mark the fire, its fate, its clock
  and whether the context is done after it.\<close>

record fire_env =
  fe_enqueue :: fate
  fe_mark :: "nat \<Rightarrow> fate"
  fe_clock :: "nat \<Rightarrow> int"
  fe_gone :: "nat \<Rightarrow> bool"

definition markDispatchedAttempts :: nat where "markDispatchedAttempts = 3"

fun mark_tries :: "fire_env \<Rightarrow> int \<Rightarrow> int \<Rightarrow> string \<Rightarrow> nat list \<Rightarrow> cron_db \<Rightarrow> cron_db" where
  "mark_tries E i at' job [] db = db"
| "mark_tries E i at' job (k # ks) db =
     (let db' = when_run (fe_mark E k) (markDispatched i at' job (fe_clock E k)) db in
      if fe_mark E k = Replied \<or> fe_gone E k then db' else mark_tries E i at' job ks db')"

definition warnNonUniqHandler :: "(string \<Rightarrow> bool \<times> bool) option \<Rightarrow> claimed_fire \<Rightarrow> cron_sys \<Rightarrow> cron_sys" where
  "warnNonUniqHandler uc cf S =
     (case uc of
        None \<Rightarrow> S
      | Some handlerUniq \<Rightarrow>
          if c_job_type cf \<in> set (warnedNonUniq S) then S
          else let S1 = S\<lparr>warnedNonUniq := c_job_type cf # warnedNonUniq S\<rparr>; (uniq, known) = handlerUniq (c_job_type cf) in
            if known \<and> \<not> uniq then S1\<lparr>events := events S1 @ [WarnNonUniq (c_name cf) (c_job_type cf)]\<rparr> else S1)"

definition enqueue_fire :: "(string \<Rightarrow> bool \<times> bool) option \<Rightarrow> fire_env \<Rightarrow> claimed_fire \<Rightarrow> cron_sys \<Rightarrow> cron_sys" where
  "enqueue_fire uc E cf S0 =
     (let S = warnNonUniqHandler uc cf S0;
          jobID = jobIDForFire (c_sched cf) (c_at cf);
          S1 = when_run (fe_enqueue E) (\<lambda>S. S\<lparr>sent := sent S @
                 [\<lparr>q_type = c_job_type cf, q_args = c_args cf, q_job = jobID, q_tenant = c_tenant cf\<rparr>]\<rparr>) S
      in if fe_enqueue E \<noteq> Replied then S1\<lparr>events := events S1 @ [CronEnqueueFailed (c_name cf) (c_job_type cf)]\<rparr>
         else S1\<lparr>events := events S1 @ [CronFired (c_name cf) (c_job_type cf) jobID (c_tenant cf)],
                 cdb := mark_tries E (c_sched cf) (c_at cf) jobID [1..<Suc markDispatchedAttempts] (cdb S1)\<rparr>)"

fun enqueue_all :: "(string \<Rightarrow> bool \<times> bool) option \<Rightarrow> (claimed_fire \<Rightarrow> fire_env) \<Rightarrow> claimed_fire list \<Rightarrow> cron_sys \<Rightarrow> cron_sys" where
  "enqueue_all uc E [] S = S"
| "enqueue_all uc E (cf # cfs) S = enqueue_all uc E cfs (enqueue_fire uc (E cf) cf S)"

subsection \<open>The parts of a tick\<close>

definition planFor :: "ticker_cfg \<Rightarrow> (string \<Rightarrow> zone option) \<Rightarrow> int \<Rightarrow> schedule \<Rightarrow> plan_reply" where
  "planFor c tzdb now sc =
     (case parse_cron (s_cron sc) of
        None \<Rightarrow> PlanError
      | Some e \<Rightarrow>
          (case location tzdb (s_timezone sc) of
             None \<Rightarrow> PlanError
           | Some z \<Rightarrow>
               (case planFires (s_misfire sc) (s_next sc) e z now (misfireGrace c) (maxBackfill c) of
                  None \<Rightarrow> PlanHangs | Some p \<Rightarrow> Planned p)))"

record tick_env =
  te_lock :: bool
  te_lock_clk :: int
  te_token :: "string option"
  te_acquire :: fate
  te_release :: fate
  te_release_clk :: int
  te_now :: int
  te_created :: int
  te_locked :: "int \<Rightarrow> bool"
  te_claim :: fate
  te_fire :: "claimed_fire \<Rightarrow> fire_env"
  te_recover_ok :: bool
  te_refire :: "claimed_fire \<Rightarrow> fire_env"
  te_prune :: fate
  te_list_ok :: bool

definition dispatchDue :: "ticker_cfg \<Rightarrow> (string \<Rightarrow> zone option) \<Rightarrow> (string \<Rightarrow> bool \<times> bool) option \<Rightarrow> tick_env \<Rightarrow> cron_sys \<Rightarrow> cron_sys option" where
  "dispatchDue c tzdb uc E S =
     (case claimAndAdvance (planFor c tzdb (te_now E)) (te_now E) (te_created E) (batchSize c) (te_locked E) (te_claim E) (cdb S) of
        None \<Rightarrow> None
      | Some (db, None) \<Rightarrow> Some (S\<lparr>cdb := db\<rparr>)
      | Some (db, Some cs) \<Rightarrow> Some (enqueue_all uc (te_fire E) cs (S\<lparr>cdb := db\<rparr>)))"

definition recover_fires :: "ticker_cfg \<Rightarrow> (string \<Rightarrow> bool \<times> bool) option \<Rightarrow> tick_env \<Rightarrow> cron_sys \<Rightarrow> cron_sys" where
  "recover_fires c uc E S =
     (if te_recover_ok E
      then enqueue_all uc (te_refire E) (recoverPending (te_now E - recoverGrace c) (batchSize c) (cdb S)) S else S)"

text \<open>\<open>Some None\<close>: not available; \<open>Some (Some d)\<close>: the threshold in nanoseconds.\<close>

definition staleThreshold :: "ticker_cfg \<Rightarrow> (string \<Rightarrow> zone option) \<Rightarrow> schedule \<Rightarrow> int option option" where
  "staleThreshold c tzdb sc =
     (case parse_cron (s_cron sc) of
        None \<Rightarrow> Some None
      | Some e \<Rightarrow>
          (case location tzdb (s_timezone sc) of
             None \<Rightarrow> Some None
           | Some z \<Rightarrow>
               (case next_fire e z (s_next sc) of
                  None \<Rightarrow> None
                | Some None \<Rightarrow> Some None
                | Some (Some a) \<Rightarrow>
                    (case next_fire e z a of
                       None \<Rightarrow> None
                     | Some None \<Rightarrow> Some None
                     | Some (Some b) \<Rightarrow>
                         if b - a \<le> 0 then Some None
                         else Some (Some \<lfloor>of_int ((b - a) * 1000000000) * staleFactor c\<rfloor>)))))"

text \<open>The sweep's counters: enabled, stale, the greatest staleness in seconds, and the events.\<close>

fun stale_sweep ::
  "ticker_cfg \<Rightarrow> (string \<Rightarrow> zone option) \<Rightarrow> int \<Rightarrow> schedule list \<Rightarrow> nat \<times> nat \<times> int \<times> cron_event list \<Rightarrow> (nat \<times> nat \<times> int \<times> cron_event list) option" where
  "stale_sweep c tzdb now [] acc = Some acc"
| "stale_sweep c tzdb now (sc # scs) (enabled, stale, maxStale, ev) =
     (if \<not> s_enabled sc then stale_sweep c tzdb now scs (enabled, stale, maxStale, ev)
      else case staleThreshold c tzdb sc of
        None \<Rightarrow> None
      | Some None \<Rightarrow> stale_sweep c tzdb now scs (Suc enabled, stale, maxStale, ev)
      | Some (Some threshold) \<Rightarrow>
          let staleness = now - (case s_last sc of None \<Rightarrow> s_next sc | Some t \<Rightarrow> t) in
          if threshold < staleness * 1000000000
          then stale_sweep c tzdb now scs (Suc enabled, Suc stale, max staleness maxStale, ev @ [CronStale (s_name sc) (s_job_type sc) staleness threshold])
          else stale_sweep c tzdb now scs (Suc enabled, stale, maxStale, ev))"

definition heartbeat :: "ticker_cfg \<Rightarrow> (string \<Rightarrow> zone option) \<Rightarrow> tick_env \<Rightarrow> cron_sys \<Rightarrow> cron_sys option" where
  "heartbeat c tzdb E S =
     (if \<not> te_list_ok E then Some S
      else map_option (\<lambda>(enabled, stale, maxStale, ev). S\<lparr>events := events S @ ev @ [CronHeartbeat enabled stale maxStale]\<rparr>)
             (stale_sweep c tzdb (te_now E) (list_schedules (cdb S)) (0, 0, 0, [])))"

text \<open>Whether a periodic part is due; a part that has never run is.\<close>

definition part_due :: "int \<Rightarrow> int \<Rightarrow> int option \<Rightarrow> bool" where
  "part_due now every l = (case l of None \<Rightarrow> True | Some t \<Rightarrow> every \<le> now - t)"

definition recover_part :: "ticker_cfg \<Rightarrow> (string \<Rightarrow> bool \<times> bool) option \<Rightarrow> tick_env \<Rightarrow> cron_sys \<Rightarrow> cron_sys" where
  "recover_part c uc E S =
     (if part_due (te_now E) (recoverEvery c) (lastRecover S) then recover_fires c uc E (S\<lparr>lastRecover := Some (te_now E)\<rparr>) else S)"

definition prune_part :: "ticker_cfg \<Rightarrow> tick_env \<Rightarrow> cron_sys \<Rightarrow> cron_sys" where
  "prune_part c E S =
     (if part_due (te_now E) (pruneEvery c) (lastPrune S)
      then S\<lparr>lastPrune := Some (te_now E), cdb := when_run (te_prune E) (\<lambda>db. fst (prune (te_now E - pruneRetention c) db)) (cdb S)\<rparr>
      else S)"

definition heartbeat_part :: "ticker_cfg \<Rightarrow> (string \<Rightarrow> zone option) \<Rightarrow> tick_env \<Rightarrow> cron_sys \<Rightarrow> cron_sys option" where
  "heartbeat_part c tzdb E S =
     (if part_due (te_now E) (heartbeatEvery c) (lastHeartbeat S) then heartbeat c tzdb E (S\<lparr>lastHeartbeat := Some (te_now E)\<rparr>) else Some S)"

definition tick_body :: "ticker_cfg \<Rightarrow> (string \<Rightarrow> zone option) \<Rightarrow> (string \<Rightarrow> bool \<times> bool) option \<Rightarrow> tick_env \<Rightarrow> cron_sys \<Rightarrow> cron_sys option" where
  "tick_body c tzdb uc E S =
     (case dispatchDue c tzdb uc E S of
        None \<Rightarrow> None
      | Some S1 \<Rightarrow> heartbeat_part c tzdb E (prune_part c E (recover_part c uc E S1)))"

definition tick :: "ticker_cfg \<Rightarrow> int \<Rightarrow> (string \<Rightarrow> zone option) \<Rightarrow> (string \<Rightarrow> bool \<times> bool) option \<Rightarrow> tick_env \<Rightarrow> cron_sys \<Rightarrow> cron_sys option" where
  "tick c ttl tzdb uc E S =
     (if \<not> te_lock E then tick_body c tzdb uc E S
      else let (k, r) = lock_acquire (te_lock_clk E) (leader_ttl ttl) (te_token E) (te_acquire E) (leader S); S1 = S\<lparr>leader := k\<rparr> in
        case r of
          None \<Rightarrow> Some S1
        | Some (token, won) \<Rightarrow>
            if \<not> won then Some S1
            else map_option (\<lambda>S2. S2\<lparr>leader := lock_release (te_release_clk E) token (te_release E) (leader S2)\<rparr>) (tick_body c tzdb uc E S1))"

end
