(* ===== verification/Cron_Claims.thy ===== *)
theory Cron_Claims
  imports Cron_Expr
begin

unbundle bit_operations_syntax

text \<open>
  Properties of cron expressions: parsed masks are well formed and mean what the text says, \<open>Next\<close> is the
  least matching minute in a location with a fixed offset, and it does not return at some changes of the
  offset.
\<close>

subsection \<open>The masks of a field\<close>

lemma allowed_bit: "n < 64 \<Longrightarrow> allowed w n = bit w n" for w :: "64 word"
proof -
  assume n: "n < 64"
  have "(w AND push_bit n 1 = 0) = (\<not> bit w n)"
  proof
    assume "w AND push_bit n 1 = 0"
    then have "\<not> bit (w AND push_bit n 1) n" by simp
    then show "\<not> bit w n" using n by (simp add: bit_and_iff bit_push_bit_iff del: push_bit_of_1)
  next
    assume "\<not> bit w n"
    then show "w AND push_bit n 1 = 0"
      by (intro bit_eqI) (auto simp: bit_and_iff bit_push_bit_iff bit_1_iff simp del: push_bit_of_1)
  qed
  then show ?thesis by (simp add: allowed_def)
qed

lemma bit_one_bit: "bit (one_bit v) n = (0 \<le> v \<and> v < 64 \<and> n = nat v)"
  by (auto simp: one_bit_def bit_push_bit_iff bit_1_iff simp del: push_bit_of_1)

lemma bit_or_one: "bit (acc OR one_bit v) n = (bit acc n \<or> 0 \<le> v \<and> v < 64 \<and> n = nat v)"
  by (simp add: bit_or_iff bit_one_bit)

lemma wrap64_id: "- (2 ^ 63) \<le> x \<Longrightarrow> x < 2 ^ 63 \<Longrightarrow> wrap64 x = x"
  by (simp add: wrap64_def)

lemma wrap64_over: "2 ^ 63 \<le> x \<Longrightarrow> x < 2 ^ 63 + 2 ^ 64 \<Longrightarrow> wrap64 x = x - 2 ^ 64"
proof -
  assume x: "2 ^ 63 \<le> x" "x < 2 ^ 63 + 2 ^ 64"
  have "(x + 2 ^ 63) mod 2 ^ 64 = (x + 2 ^ 63 - 2 ^ 64) mod 2 ^ 64" by (simp only: minus_mod_self2)
  also have "\<dots> = x + 2 ^ 63 - 2 ^ 64" using x by (intro mod_pos_pos_trivial) simp_all
  finally show ?thesis by (simp add: wrap64_def)
qed

text \<open>Without overflow the loop sets exactly the bits \<open>v, v + step, \<dots>\<close> up to \<open>hi\<close>.\<close>

lemma range_bits_exact:
  assumes "0 \<le> v" and "hi < 64" and "1 \<le> step" and "step \<le> 2 ^ 62"
  shows "\<exists>w. range_bits v hi step acc = Some w \<and>
     (\<forall>n. bit w n = (bit acc n \<or> v \<le> int n \<and> int n \<le> hi \<and> step dvd int n - v))"
  using assms
proof (induction "nat (hi - v + 1)" arbitrary: v acc rule: less_induct)
  case less
  show ?case
  proof (cases "hi < v")
    case True
    then show ?thesis by (subst range_bits.simps) auto
  next
    case False
    have wr: "wrap64 (v + step) = v + step" using less.prems False by (intro wrap64_id) auto
    obtain w where w: "range_bits (v + step) hi step (acc OR one_bit v) = Some w"
      "\<forall>n. bit w n = (bit (acc OR one_bit v) n \<or> v + step \<le> int n \<and> int n \<le> hi \<and> step dvd int n - (v + step))"
      using less.hyps [of "v + step" "acc OR one_bit v"] less.prems False by auto
    have "bit w n = (bit acc n \<or> v \<le> int n \<and> int n \<le> hi \<and> step dvd int n - v)" for n
    proof -
      have d: "(step dvd int n - (v + step)) = (step dvd int n - v)"
      proof -
        have "(step dvd int n - (v + step) + step) = (step dvd int n - (v + step))" by (rule dvd_add_triv_right_iff)
        moreover have "int n - (v + step) + step = int n - v" by simp
        ultimately show ?thesis by simp
      qed
      have o: "bit (acc OR one_bit v) n = (bit acc n \<or> int n = v)"
        using less.prems False by (auto simp: bit_or_one)
      have l: "v + step \<le> int n" if "v \<le> int n" "step dvd int n - v" "int n \<noteq> v"
        using that less.prems(3) zdvd_imp_le [of step "int n - v"] by linarith
      show ?thesis
      proof (cases "int n = v")
        case True
        then show ?thesis using w(2) o False by simp
      next
        case ne: False
        then have "bit w n = (bit acc n \<or> v + step \<le> int n \<and> int n \<le> hi \<and> step dvd int n - v)" using w(2) o d by simp
        then show ?thesis using l ne less.prems(3) by force
      qed
    qed
    then show ?thesis using w(1) False wr by (subst range_bits.simps) auto
  qed
qed

text \<open>With any step the loop ends, and it sets no bit above \<open>hi\<close>.\<close>

lemma range_bits_small:
  assumes "0 \<le> v" and "hi < 64" and "1 \<le> step" and "step < 2 ^ 63 - 64"
  shows "\<exists>w. range_bits v hi step acc = Some w \<and> (\<forall>n. bit w n \<longrightarrow> bit acc n \<or> int n \<le> hi) \<and>
     (\<forall>n. bit acc n \<longrightarrow> bit w n)"
  using assms
proof (induction "nat (hi - v + 1)" arbitrary: v acc rule: less_induct)
  case less
  show ?case
  proof (cases "hi < v")
    case True
    then show ?thesis by (subst range_bits.simps) auto
  next
    case False
    have wr: "wrap64 (v + step) = v + step" using less.prems False by (intro wrap64_id) auto
    obtain w where w: "range_bits (v + step) hi step (acc OR one_bit v) = Some w"
      "\<forall>n. bit w n \<longrightarrow> bit (acc OR one_bit v) n \<or> int n \<le> hi" "\<forall>n. bit (acc OR one_bit v) n \<longrightarrow> bit w n"
      using less.hyps [of "v + step" "acc OR one_bit v"] less.prems False by auto
    then show ?thesis using False wr by (subst range_bits.simps) (auto simp: bit_or_one)
  qed
qed

lemma range_bits_big:
  assumes "0 \<le> v" and "0 \<le> hi" and "hi < 64" and "2 ^ 63 - 64 \<le> step" and "step < 2 ^ 63"
  shows "\<exists>w. range_bits v hi step acc = Some w \<and> (\<forall>n. bit w n \<longrightarrow> bit acc n \<or> int n \<le> hi) \<and>
     (\<forall>n. bit acc n \<longrightarrow> bit w n)"
  using assms
proof (induction "nat v" arbitrary: v acc rule: less_induct)
  case less
  show ?case
  proof (cases "hi < v")
    case True
    then show ?thesis by (subst range_bits.simps) auto
  next
    case le: False
    have vh: "int (nat v) \<le> hi" using le less.prems(1) by simp
    let ?a = "acc OR one_bit v"
    show ?thesis
    proof (cases "v + step < 2 ^ 63")
      case True
      then have wr: "wrap64 (v + step) = v + step" using less.prems by (intro wrap64_id) auto
      have "hi < v + step" using less.prems by simp
      then have "range_bits v hi step acc = Some ?a"
        using le wr by (subst range_bits.simps, simp, subst range_bits.simps, simp)
      then show ?thesis using le by (auto simp: bit_or_one)
    next
      case False
      let ?n1 = "v + step - 2 ^ 64" and ?n2 = "v + 2 * step - 2 ^ 64"
      have w1: "wrap64 (v + step) = ?n1" using False less.prems le by (intro wrap64_over) auto
      have w2: "wrap64 (?n1 + step) = ?n2" using less.prems le by (subst wrap64_id) auto
      have o1: "one_bit ?n1 = 0" using less.prems le by (simp add: one_bit_def)
      have two: "range_bits v hi step acc = range_bits ?n2 hi step ?a"
        using le w1 w2 o1 less.prems by (subst range_bits.simps, simp, subst range_bits.simps, simp)
      show ?thesis
      proof (cases "0 \<le> ?n2")
        case True
        have "?n2 < v" using less.prems(5) by simp
        then have "nat ?n2 < nat v" using True less.prems(1) by linarith
        from less.hyps [OF this True less.prems(2-5), of ?a] two show ?thesis
          using vh by (fastforce simp: bit_or_one)
      next
        case neg: False
        have wr: "wrap64 (?n2 + step) = ?n2 + step" using less.prems neg by (intro wrap64_id) auto
        have o2: "one_bit ?n2 = 0" using neg by (simp add: one_bit_def)
        have "hi < ?n2 + step" using less.prems by simp
        then have "range_bits ?n2 hi step ?a = Some ?a"
          using neg less.prems(2) wr o2 by (subst range_bits.simps, simp, subst range_bits.simps, simp)
        then show ?thesis using two le by (auto simp: bit_or_one)
      qed
    qed
  qed
qed

lemma range_bits_ends:
  assumes "0 \<le> v" and "0 \<le> hi" and "hi < 64" and "1 \<le> step" and "step < 2 ^ 63"
  shows "\<exists>w. range_bits v hi step acc = Some w \<and> (\<forall>n. bit w n \<longrightarrow> bit acc n \<or> int n \<le> hi) \<and> (\<forall>n. bit acc n \<longrightarrow> bit w n)"
  using range_bits_small [OF assms(1,3,4)] range_bits_big [OF assms(1-3) _ assms(5)] by (cases "step < 2 ^ 63 - 64") auto

lemma atoi_range: "atoi s = Some v \<Longrightarrow> - (2 ^ 63) \<le> v \<and> v < 2 ^ 63"
  by (auto simp: atoi_def Let_def split: prod.splits list.splits option.splits if_splits)

lemma parseTerm_range:
  assumes "parseTerm p mn mx names = Some (lo, hi, step)" and "mn \<le> mx"
  shows "mn \<le> lo" "lo \<le> hi" "hi \<le> mx" "1 \<le> step" "step < 2 ^ 63"
proof -
  obtain body s where t: "term_step p = (body, Some s)" using assms(1) by (auto simp: parseTerm_def split: prod.splits option.splits)
  have s: "1 \<le> s" "s < 2 ^ 63"
    using t atoi_range by (auto simp: term_step_def split: if_splits option.splits)
  have "step = s \<and> mn \<le> lo \<and> lo \<le> hi \<and> hi \<le> mx"
    using assms t by (auto simp: parseTerm_def term_in_range_def split: if_splits option.splits)
  then show "mn \<le> lo" "lo \<le> hi" "hi \<le> mx" "1 \<le> step" "step < 2 ^ 63" using s by simp_all
qed

lemma parse_parts_range:
  assumes "parse_parts mn mx names ps acc = Some w" and "0 \<le> mn" and "mn \<le> mx" and "mx < 64" and "\<forall>n. bit acc n \<longrightarrow> int n \<le> mx"
  shows "\<forall>n. bit w n \<longrightarrow> int n \<le> mx"
  using assms
proof (induction ps arbitrary: acc)
  case (Cons p ps)
  obtain lo hi step acc' where p: "parseTerm p mn mx names = Some (lo, hi, step)" "range_bits lo hi step acc = Some acc'"
      "parse_parts mn mx names ps acc' = Some w"
    using Cons.prems(1) by (auto split: if_splits option.splits)
  note r = parseTerm_range [OF p(1) Cons.prems(3)]
  have "\<forall>n. bit acc' n \<longrightarrow> int n \<le> mx"
    using range_bits_ends [of lo hi step acc] r p(2) Cons.prems(2-5) by fastforce
  then show ?case using Cons.IH [OF p(3)] Cons.prems by simp
qed simp

lemma parseField_range:
  assumes "parseField f mn mx names = Some (w, star)" and "0 \<le> mn" and "mn \<le> mx" and "mx < 64"
  shows "w \<noteq> 0" and "bit w n \<Longrightarrow> int n \<le> mx"
  using assms parse_parts_range [of mn mx names "split_on (CHR '','') f" 0 w]
  by (auto simp: parseField_def split: option.splits if_splits)

lemma bit_normal_dow: "n < 64 \<Longrightarrow> bit (normal_dow w) n = (if n = 0 then bit w 0 \<or> bit w 7 else n \<noteq> 7 \<and> bit w n)"
proof -
  assume n: "n < 64"
  have "(w AND push_bit 7 1 \<noteq> 0) = bit w 7" using allowed_bit [of 7 w] by (simp add: allowed_def)
  then show ?thesis using n
    by (auto simp: normal_dow_def bit_and_iff bit_or_iff bit_not_iff bit_push_bit_iff bit_1_iff simp del: push_bit_of_1)
qed

lemma word_nonzero: "w \<noteq> 0 \<Longrightarrow> \<exists>n < 64. bit w n" for w :: "64 word"
proof (rule ccontr)
  assume w: "w \<noteq> 0" "\<not> (\<exists>n < 64. bit w n)"
  have "w = 0" using w(2) by (intro bit_word_eqI) simp
  then show False using w(1) by simp
qed

definition mask_within :: "64 word \<Rightarrow> nat \<Rightarrow> bool" where
  "mask_within w mx = (w \<noteq> 0 \<and> (\<forall>n. bit w n \<longrightarrow> n \<le> mx))"

lemma field_within: "parseField f mn mx names = Some (w, star) \<Longrightarrow> 0 \<le> mn \<Longrightarrow> mn \<le> mx \<Longrightarrow> mx < 64 \<Longrightarrow> mask_within w (nat mx)"
  using parseField_range [of f mn mx names w star] by (auto simp: mask_within_def le_nat_iff)

lemma normal_dow_within: "mask_within w 7 \<Longrightarrow> mask_within (normal_dow w) 6"
proof -
  assume w: "mask_within w 7"
  then obtain n where n: "n < 64" "bit w n" using word_nonzero [of w] by (auto simp: mask_within_def)
  have "normal_dow w \<noteq> 0"
  proof (cases "n = 7")
    case True
    then have "bit (normal_dow w) 0" using n by (simp add: bit_normal_dow)
    then show ?thesis by auto
  next
    case False
    then have "bit (normal_dow w) n" using n by (auto simp: bit_normal_dow)
    then show ?thesis by auto
  qed
  moreover have "n \<le> 6" if "bit (normal_dow w) n" for n
  proof -
    have l: "n < 64" using bit_imp_le_length [OF that] by simp
    then show ?thesis using that w by (cases "n = 0") (auto simp: bit_normal_dow mask_within_def dest: le_neq_implies_less)
  qed
  ultimately show ?thesis by (simp add: mask_within_def)
qed

definition expr_ok :: "expr \<Rightarrow> bool" where
  "expr_ok e = (mask_within (minute_m e) 59 \<and> mask_within (hour_m e) 23 \<and> mask_within (dom_m e) 31 \<and> mask_within (month_m e) 12 \<and>
     mask_within (dow_m e) 6)"

lemma parseFields_ok:
  assumes "parseFields raw = Some e"
  shows "expr_ok e"
proof -
  obtain f0 f1 f2 f3 f4 where f: "fields_of raw = [f0, f1, f2, f3, f4]"
    using assms by (simp add: parseFields_def split: list.splits)
  obtain mi a ho b dm ds mo c dw ws where p: "parseField f0 0 59 [] = Some (mi, a)" "parseField f1 0 23 [] = Some (ho, b)"
      "parseField f2 1 31 [] = Some (dm, ds)" "parseField f3 1 12 monthNames = Some (mo, c)" "parseField f4 0 7 dowNames = Some (dw, ws)"
      and e: "e = \<lparr>minute_m = mi, hour_m = ho, dom_m = dm, month_m = mo, dow_m = normal_dow dw, domStar = ds, dowStar = ws, raw_text = []\<rparr>"
    using assms by (auto simp: parseFields_def f bind_eq_Some_conv)
  show ?thesis
    using field_within [OF p(1)] field_within [OF p(2)] field_within [OF p(3)] field_within [OF p(4)]
      normal_dow_within [of dw] field_within [OF p(5)] by (simp add: expr_ok_def e)
qed



text \<open>The meaning of a term.\<close>

definition term_covers :: "int \<Rightarrow> int \<Rightarrow> (string \<times> int) list \<Rightarrow> nat \<Rightarrow> string \<Rightarrow> bool" where
  "term_covers mn mx names n p =
     (case parseTerm p mn mx names of
        None \<Rightarrow> False
      | Some (lo, hi, step) \<Rightarrow> lo \<le> int n \<and> int n \<le> hi \<and> step dvd int n - lo)"

definition modest_step :: "string \<Rightarrow> bool" where
  "modest_step p = (case snd (term_step p) of None \<Rightarrow> True | Some s \<Rightarrow> s \<le> 2 ^ 62)"

lemma parseTerm_step: "parseTerm p mn mx names = Some (lo, hi, step) \<Longrightarrow> snd (term_step p) = Some step"
  by (auto simp: parseTerm_def term_in_range_def split: prod.splits option.splits if_splits)

lemma parse_parts_exact:
  assumes "parse_parts mn mx names ps acc = Some w" and "0 \<le> mn" and "mn \<le> mx" and "mx < 64" and "\<forall>p \<in> set ps. modest_step p"
  shows "bit w n = (bit acc n \<or> (\<exists>p \<in> set ps. term_covers mn mx names n p))"
  using assms
proof (induction ps arbitrary: acc)
  case (Cons p ps)
  obtain lo hi step acc' where p: "parseTerm p mn mx names = Some (lo, hi, step)" "range_bits lo hi step acc = Some acc'"
      "parse_parts mn mx names ps acc' = Some w"
    using Cons.prems(1) by (auto split: if_splits option.splits)
  note r = parseTerm_range [OF p(1) Cons.prems(3)]
  have "step \<le> 2 ^ 62" using Cons.prems(5) parseTerm_step [OF p(1)] by (simp add: modest_step_def)
  then have "bit acc' n = (bit acc n \<or> term_covers mn mx names n p)"
    using range_bits_exact [of lo hi step acc] r p(1,2) Cons.prems(2,4) by (auto simp: term_covers_def)
  then show ?case using Cons.IH [OF p(3)] Cons.prems by auto
qed simp



text \<open>The overflow: a step close to \<open>2 ^ 63\<close> on a single month also allows another one.\<close>

lemma huge_step_wraps: "map_option (\<lambda>e. (allowed (month_m e) 1, allowed (month_m e) 3)) (parse_cron ''0 0 1 3/9223372036854775807 *'') =
    Some (True, True)"
  by code_simp

subsection \<open>\<open>Next\<close> in a location with a fixed offset\<close>

definition matches :: "expr \<Rightarrow> int \<Rightarrow> bool" where
  "matches e w =
     (allowed (month_m e) (nat (fst (snd (civil (wall_day w))))) \<and> dayMatches e (wall_day w) \<and>
      allowed (hour_m e) (wall_hour w) \<and> allowed (minute_m e) (wall_minute w))"

lemma fixed_zone [simp]: "wall (\<lambda>_. c) t = t + c" "zone_date (\<lambda>_. c) w = w - c"
  by (simp_all add: wall_def zone_date_def)

lemma wall_day_bounds: "86400 * wall_day w \<le> w" "w < 86400 * wall_day w + 86400"
proof -
  have "w = 86400 * (w div 86400) + w mod 86400" "0 \<le> w mod 86400" "w mod 86400 < 86400" by simp_all
  then show "86400 * wall_day w \<le> w" "w < 86400 * wall_day w + 86400" unfolding wall_day_def by linarith+
qed

lemma wall_day_eqI:
  assumes "86400 * n \<le> w" and "w < 86400 * n + 86400"
  shows "wall_day w = n"
  unfolding wall_day_def by (rule int_div_pos_eq [where r = "w - 86400 * n"]) (use assms in simp_all)

lemma wall_day_nonneg: "0 \<le> w \<Longrightarrow> 0 \<le> wall_day w"
  by (simp add: wall_day_def)

lemma wall_day_mono: "w \<le> s \<Longrightarrow> wall_day w \<le> wall_day s"
  by (simp add: wall_day_def zdiv_mono1)

lemma hour_bounds:
  assumes "0 \<le> w"
  shows "86400 * wall_day w + 3600 * int (wall_hour w) \<le> w" "w < 86400 * wall_day w + 3600 * int (wall_hour w) + 3600"
proof -
  have d: "wall_day w = w div 86400" "w = 86400 * (w div 86400) + w mod 86400" by (simp_all add: wall_day_def)
  have h: "int (wall_hour w) = (w mod 86400) div 3600" by (simp add: wall_hour_def)
  have "w mod 86400 = 3600 * ((w mod 86400) div 3600) + (w mod 86400) mod 3600" "0 \<le> (w mod 86400) mod 3600" "(w mod 86400) mod 3600 < 3600" by simp_all
  then show "86400 * wall_day w + 3600 * int (wall_hour w) \<le> w" "w < 86400 * wall_day w + 3600 * int (wall_hour w) + 3600"
    using d h by linarith+
qed

lemma same_hour:
  assumes "0 \<le> w" and "w \<le> s" and "s < 86400 * wall_day w + 3600 * int (wall_hour w) + 3600"
  shows "wall_day s = wall_day w" "wall_hour s = wall_hour w"
proof -
  have h24: "int (wall_hour w) < 24"
  proof -
    have "w mod 86400 < 86400" "0 \<le> w mod 86400" by simp_all
    then have "(w mod 86400) div 3600 < 24" by linarith
    then show ?thesis by (simp add: wall_hour_def)
  qed
  show d: "wall_day s = wall_day w"
    using hour_bounds [OF assms(1)] wall_day_bounds [of w] assms h24 by (intro wall_day_eqI) linarith+
  have "wall_day s = s div 86400" by (simp add: wall_day_def)
  then have "s mod 86400 = s - 86400 * wall_day w"
    using d minus_mult_div_eq_mod [of s 86400] by simp
  then have "(s mod 86400) div 3600 = int (wall_hour w)"
    using hour_bounds [OF assms(1)] assms(2,3)
    by (intro int_div_pos_eq [where r = "s - 86400 * wall_day w - 3600 * int (wall_hour w)"]) simp_all
  then show "wall_hour s = wall_hour w" by (simp add: wall_hour_def)
qed

lemma same_day: "0 \<le> w \<Longrightarrow> w \<le> s \<Longrightarrow> s < 86400 * wall_day w + 86400 \<Longrightarrow> wall_day s = wall_day w"
  using wall_day_bounds [of w] by (intro wall_day_eqI) linarith+

lemma same_month:
  assumes c: "civil (wall_day w) = (y, m, d)" and nm: "next_month (y, m) = (y', m')" and w: "0 \<le> w" "w \<le> s"
    and s: "s < 86400 * (day_number y' m' 1)"
  shows "fst (snd (civil (wall_day s))) = m"
proof -
  have p: "0 \<le> wall_day w" by (rule wall_day_nonneg [OF w(1)])
  have n: "day_number y' m' 1 = wall_day w + (month_days y m - d) + 1" by (rule civil_next_month [OF c p nm])
  have v: "d \<le> month_days y m" using civil_valid(1) [OF c p] by (simp add: valid_date_def)
  have k: "0 \<le> wall_day s - wall_day w" using wall_day_mono [OF w(2)] by simp
  have "wall_day s < day_number y' m' 1" using wall_day_bounds(1) [of s] s by linarith
  then have "d + (wall_day s - wall_day w) \<le> month_days y m" using n v k by linarith
  from civil_add [OF c p k this] show ?thesis by simp
qed

text \<open>Each step of the loop skips only minutes that do not match.\<close>

lemma step_sound:
  assumes st: "next_step e (\<lambda>_. c) t = Some t'" and al: "60 dvd t" "60 dvd c" and w: "0 \<le> t + c"
  shows "t < t'" "60 dvd t'" and "t \<le> s \<Longrightarrow> s < t' \<Longrightarrow> 60 dvd s \<Longrightarrow> \<not> matches e (s + c)"
proof -
  let ?w = "t + c" let ?n = "wall_day ?w"
  obtain y m d where cv: "civil ?n = (y, m, d)" by (cases "civil ?n")
  obtain y' m' where nm: "next_month (y, m) = (y', m')" by fastforce
  have p: "0 \<le> ?n" by (rule wall_day_nonneg [OF w])
  have vd: "valid_date y m d" "day_number y m d = ?n" by (rule civil_valid [OF cv p])+
  have cf: "civil (day_number y m 1) = (y, m, 1)"
    by (rule civil_day_number) (use vd(1) in \<open>simp add: valid_date_def\<close>)
  have am: "add_month (\<lambda>_. c) (86400 * (day_number y m 1) - c) = 86400 * (day_number y' m' 1) - c"
  proof -
    have "wall_day (86400 * (day_number y m 1)) = day_number y m 1" by (rule wall_day_eqI) simp_all
    then show ?thesis using cf nm by (simp add: add_month_def Let_def)
  qed
  have ad: "add_day (\<lambda>_. c) (86400 * ?n - c) = 86400 * (?n + 1) - c"
  proof -
    have "wall_day (86400 * ?n) = ?n" by (rule wall_day_eqI) simp_all
    then show ?thesis by (simp add: add_day_def Let_def)
  qed
  note db = wall_day_bounds [of ?w] and hb = hour_bounds [OF w]
  have div60: "60 dvd 86400 * x - c" "60 dvd 86400 * x + 3600 * z - c + 3600" for x z :: int
  proof -
    have "60 dvd 86400 * x" "60 dvd 3600 * z" "60 dvd (3600::int)" by (simp_all add: dvd_mult2)
    then show "60 dvd 86400 * x - c" "60 dvd 86400 * x + 3600 * z - c + 3600" using al(2) by (simp_all add: dvd_add dvd_diff)
  qed
  have "t < t' \<and> 60 dvd t' \<and> (t \<le> s \<longrightarrow> s < t' \<longrightarrow> 60 dvd s \<longrightarrow> \<not> matches e (s + c))"
  proof (cases "allowed (month_m e) (nat m)")
    case False
    then have "t' = add_month (\<lambda>_. c) (86400 * (day_number y m 1) - c)" using st by (simp add: next_step_def Let_def cv)
    then have t': "t' = 86400 * (day_number y' m' 1) - c" using am by simp
    have "?n + 1 \<le> day_number y' m' 1" using civil_next_month [OF cv p nm] vd(1) by (simp add: valid_date_def)
    then have "t < t'" using t' db by linarith
    moreover have "\<not> matches e (s + c)" if "t \<le> s" "s < t'"
      using same_month [OF cv nm w, of "s + c"] that t' False by (simp add: matches_def)
    ultimately show ?thesis using t' div60(1) by blast
  next
    case m: True
    show ?thesis
    proof (cases "dayMatches e ?n")
      case False
      then have "t' = add_day (\<lambda>_. c) (86400 * ?n - c)" using st m by (simp add: next_step_def Let_def cv)
      then have t': "t' = 86400 * (?n + 1) - c" using ad by simp
      have "\<not> matches e (s + c)" if "t \<le> s" "s < t'"
        using same_day [OF w, of "s + c"] that t' False by (simp add: matches_def)
      moreover have "60 dvd t'" unfolding t' by (rule div60(1))
      moreover have "t < t'" using t' db by simp
      ultimately show ?thesis by blast
    next
      case d: True
      show ?thesis
      proof (cases "allowed (hour_m e) (wall_hour ?w)")
        case False
        then have t': "t' = 86400 * ?n + 3600 * int (wall_hour ?w) - c + 3600" using st m d by (simp add: next_step_def Let_def cv)
        have "\<not> matches e (s + c)" if "t \<le> s" "s < t'"
          using same_hour [OF w, of "s + c"] that t' False by (simp add: matches_def)
        then show ?thesis using t' hb div60(2) by auto
      next
        case h: True
        then have mi: "\<not> allowed (minute_m e) (wall_minute ?w)" and t': "t' = t + 60" using st m d by (auto simp: next_step_def Let_def cv split: if_splits)
        have "\<not> matches e (s + c)" if "t \<le> s" "s < t'" "60 dvd s"
        proof -
          have "60 dvd s - t" using that(3) al(1) by (rule dvd_diff)
          then have "s = t" using that(1,2) t' by presburger
          then show ?thesis using mi by (simp add: matches_def)
        qed
        then show ?thesis using t' al(1) by simp
      qed
    qed
  qed
  then show "t < t'" "60 dvd t'" "t \<le> s \<Longrightarrow> s < t' \<Longrightarrow> 60 dvd s \<Longrightarrow> \<not> matches e (s + c)" by blast+
qed

lemma step_None: "next_step e (\<lambda>_. c) t = None \<Longrightarrow> matches e (t + c)"
  by (auto simp: next_step_def matches_def Let_def split: prod.splits if_splits)

lemma year_mono: "0 \<le> w \<Longrightarrow> w \<le> s \<Longrightarrow> lim < wall_year w \<Longrightarrow> 1970 \<le> lim \<Longrightarrow> lim < wall_year s"
proof -
  assume a: "0 \<le> w" "w \<le> s" "lim < wall_year w" "1970 \<le> lim"
  have p: "0 \<le> wall_day w" "0 \<le> wall_day s" using a wall_day_nonneg by simp_all
  show ?thesis using a wall_day_mono [OF a(2)] civil_year_le [OF a(4) p(1)] civil_year_le [OF a(4) p(2)]
    by (simp add: wall_year_def)
qed

text \<open>The reference: the least matching minute from \<open>t\<close> on, up to the end of year \<open>lim\<close>.\<close>

definition least_match :: "expr \<Rightarrow> int \<Rightarrow> int \<Rightarrow> int \<Rightarrow> int option \<Rightarrow> bool" where
  "least_match e c lim t r =
     (case r of
        Some u \<Rightarrow> t \<le> u \<and> 60 dvd u \<and> matches e (u + c) \<and> wall_year (u + c) \<le> lim \<and>
          (\<forall>s. t \<le> s \<and> s < u \<and> 60 dvd s \<longrightarrow> \<not> matches e (s + c))
      | None \<Rightarrow> \<forall>s. t \<le> s \<and> 60 dvd s \<and> wall_year (s + c) \<le> lim \<longrightarrow> \<not> matches e (s + c))"

lemma loop_least:
  assumes "60 dvd t" "60 dvd c" "0 \<le> t + c" "1970 \<le> lim"
  shows "\<exists>r. next_loop e (\<lambda>_. c) lim t = Some r \<and> least_match e c lim t r"
  using assms
proof (induction "nat (86400 * days_before_year (lim + 1) - (t + c))" arbitrary: t rule: less_induct)
  case less
  show ?case
  proof (cases "lim < wall_year (t + c)")
    case True
    have "\<not> wall_year (s + c) \<le> lim" if "t \<le> s" for s using year_mono [OF less.prems(3) _ True less.prems(4), of "s + c"] that by simp
    then show ?thesis using True by (subst next_loop.simps) (auto simp: least_match_def)
  next
    case yr: False
    show ?thesis
    proof (cases "next_step e (\<lambda>_. c) t")
      case None
      then show ?thesis using yr less.prems(1) step_None [OF None]
        by (subst next_loop.simps) (auto simp: least_match_def)
    next
      case (Some t')
      note s = step_sound [OF Some less.prems(1-3)]
      have "wall_day (t + c) < days_before_year (lim + 1)"
        using yr civil_year_le [OF less.prems(4) wall_day_nonneg [OF less.prems(3)]] by (simp add: wall_year_def)
      then have "t + c < 86400 * days_before_year (lim + 1)"
        using wall_day_bounds(2) [of "t + c"] by linarith
      then have m: "nat (86400 * days_before_year (lim + 1) - (t' + c)) < nat (86400 * days_before_year (lim + 1) - (t + c))"
        using s(1) by linarith
      have "0 \<le> t' + c" using s(1) less.prems(3) by linarith
      from less.hyps [OF m s(2) less.prems(2) this less.prems(4)] obtain r where
        r: "next_loop e (\<lambda>_. c) lim t' = Some r" "least_match e c lim t' r" by blast
      have "least_match e c lim t r"
        using r(2) s(1,3) unfolding least_match_def by (cases r) (auto simp: not_less, (meson leI)+)
      then show ?thesis using r(1) yr Some by (subst next_loop.simps) auto
    qed
  qed
qed

lemma first_minute_props: "t < first_minute t" "60 dvd first_minute t" "first_minute t \<le> t + 60"
  "60 dvd s \<Longrightarrow> t < s \<Longrightarrow> first_minute t \<le> s"
  unfolding first_minute_def by presburger+

lemma wall_year_ge: "0 \<le> w \<Longrightarrow> 1970 \<le> wall_year w"
  using civil_valid(1) [OF _ wall_day_nonneg] by (cases "civil (wall_day w)") (auto simp: wall_year_def valid_date_def)

lemma next_fire_least_from:
  assumes "60 dvd c" and "0 \<le> t + c"
  shows "\<exists>r. next_fire e (\<lambda>_. c) t = Some r \<and> least_match e c (wall_year (first_minute t + c) + 5) (first_minute t) r"
proof -
  have p: "0 \<le> first_minute t + c" using first_minute_props(1) [of t] assms(2) by linarith
  moreover have "1970 \<le> wall_year (first_minute t + c) + 5" using wall_year_ge [OF p] by simp
  ultimately show ?thesis using loop_least [OF first_minute_props(2) assms(1)] by (simp add: next_fire_def Let_def)
qed

text \<open>C12. \<open>Next\<close> computes the schedule. In every location with a fixed offset of whole minutes (UTC, the default, among
  them) the call returns, and its result is the first minute strictly after the given instant whose month, day, hour
  and minute are all allowed, the days of month and week combined as cron does; it reports that there is none exactly
  when no minute up to the end of the fifth year ahead matches. The month, day and hour jumps of the loop skip nothing.\<close>

theorem next_is_least_match:
  assumes "60 dvd c" and "0 \<le> t + c"
  shows "\<exists>r. next_fire e (\<lambda>_. c) t = Some r \<and>
     (case r of
        Some u \<Rightarrow> t < u \<and> 60 dvd u \<and> matches e (u + c) \<and> (\<forall>s. t < s \<and> s < u \<and> 60 dvd s \<longrightarrow> \<not> matches e (s + c))
      | None \<Rightarrow> \<forall>s. t < s \<and> 60 dvd s \<and> wall_year (s + c) \<le> wall_year (first_minute t + c) + 5 \<longrightarrow> \<not> matches e (s + c))"
proof -
  obtain r where r: "next_fire e (\<lambda>_. c) t = Some r" "least_match e c (wall_year (first_minute t + c) + 5) (first_minute t) r"
    using next_fire_least_from [OF assms] by blast
  have f: "t < first_minute t" "\<And>s. 60 dvd s \<Longrightarrow> t < s \<Longrightarrow> first_minute t \<le> s" using first_minute_props(1,4) by blast+
  show ?thesis
  proof (cases r)
    case None
    then show ?thesis using r f by (intro exI [of _ r]) (auto simp: least_match_def)
  next
    case (Some u)
    then show ?thesis using r f by (intro exI [of _ r]) (auto simp: least_match_def)
  qed
qed

text \<open>Every quarter of an hour, and 30 February.\<close>

theorem next_is_least_match_witness:
  "next_fire (the (parse_cron ''*/15 * * * *'')) (\<lambda>_. 0) 1000 = Some (Some 1800) \<and>
   matches (the (parse_cron ''*/15 * * * *'')) 1800 \<and> \<not> matches (the (parse_cron ''*/15 * * * *'')) 1740"
proof -
  have n: "next_fire (the (parse_cron ''*/15 * * * *'')) (\<lambda>_. 0) 1000 = Some (Some 1800)" by code_simp
  have "(1000::int) < 1740 \<and> (1740::int) < 1800 \<and> (60::int) dvd 1740" by simp
  then show ?thesis using next_is_least_match [of 0 1000 "the (parse_cron ''*/15 * * * *'')"] n by force
qed

subsection \<open>Changes of the offset\<close>

text \<open>If one iteration of the loop gives back the same instant, the call does not return.\<close>

lemma stuck_loop:
  assumes "next_step e off t = Some t" and "wall_year (wall off t) \<le> lim"
  shows "next_loop e off lim t = None"
proof (rule ccontr)
  assume "next_loop e off lim t \<noteq> None"
  then obtain r where "next_loop e off lim t = Some r" by auto
  then have "\<not> (next_step e off t = Some t \<and> wall_year (wall off t) \<le> lim)"
  proof (rule next_loop.raw_induct [rotated])
    fix f :: "expr \<Rightarrow> zone \<Rightarrow> int \<Rightarrow> int \<Rightarrow> int option option" and e off lim t r
    assume IH: "\<And>e off lim t y. f e off lim t = Some y \<Longrightarrow> \<not> (next_step e off t = Some t \<and> wall_year (wall off t) \<le> lim)"
      and b: "(if lim < wall_year (wall off t) then Some None
               else case next_step e off t of None \<Rightarrow> Some (Some t) | Some t' \<Rightarrow> f e off lim t') = Some r"
    show "\<not> (next_step e off t = Some t \<and> wall_year (wall off t) \<le> lim)"
      using IH [of e off lim t r] b by auto
  qed
  then show False using assms by simp
qed

text \<open>A number of iterations.\<close>

fun walk :: "nat \<Rightarrow> expr \<Rightarrow> zone \<Rightarrow> int \<Rightarrow> int \<Rightarrow> int option" where
  "walk 0 e off lim t = Some t"
| "walk (Suc n) e off lim t =
     (if lim < wall_year (wall off t) then None
      else case next_step e off t of None \<Rightarrow> None | Some t' \<Rightarrow> walk n e off lim t')"

lemma walk_loop: "walk n e off lim t = Some t' \<Longrightarrow> next_loop e off lim t = next_loop e off lim t'"
proof (induction n arbitrary: t)
  case (Suc n)
  then show ?case by (subst next_loop.simps) (auto split: if_splits option.splits)
qed simp

text \<open>The end of summer time in New York in 2026: at 06:00 UTC on the first of November the offset goes from minus four
  to minus five hours, and the hour from one o'clock comes twice.\<close>

definition new_york :: zone where
  "new_york t = (if t < 1793512800 then - 14400 else - 18000)"

text \<open>A job at the end of every day.\<close>

definition end_of_day :: expr where "end_of_day = the (parse_cron ''59 23 * * *'')"

lemma end_of_day_parses: "parse_cron ''59 23 * * *'' \<noteq> None"
  by code_simp

lemma stuck_at_one: "next_step end_of_day new_york 1793512800 = Some 1793512800"
  by code_simp

text \<open>In a location where the clock goes back, \<open>Next\<close> may never return: for a job at 23:59 every day in New York the
  next instant after the run of 31 October 2026 is never found, because truncating the second one o'clock to the hour
  gives the first one, and an hour later the loop is where it was. The guard on the years does not help, as the loop
  does not advance.\<close>

lemma next_hangs_when_clock_goes_back: "next_fire end_of_day new_york 1793505540 = None"
proof -
  have y: "wall_year (wall new_york 1793512800) \<le> 2031" by code_simp
  have l: "wall_year (wall new_york 1793505600) = 2026" by code_simp
  have "next_fire end_of_day new_york 1793505540 = next_loop end_of_day new_york 2031 1793505600"
    using l by (simp add: next_fire_def first_minute_def)
  also have "\<dots> = next_loop end_of_day new_york 2031 1793512800"
    by (rule walk_loop [where n = 2]) code_simp
  also have "\<dots> = None" by (rule stuck_loop [OF stuck_at_one y])
  finally show ?thesis .
qed

end
