(* ===== verification/Cron_Plan.thy ===== *)
theory Cron_Plan
  imports Cron_Claims
begin

text \<open>
  What \<open>PlanFires\<close> plans, in a location with a fixed offset: a reference for the three misfire policies and the order of
  the planned instants.
\<close>

subsection \<open>One step\<close>

lemma next_fire_returns:
  assumes "60 dvd c" "0 \<le> t + c"
  obtains "next_fire e (\<lambda>_. c) t = Some None" | u where "next_fire e (\<lambda>_. c) t = Some (Some u)" "t < u" "60 dvd u"
proof -
  obtain r where r: "next_fire e (\<lambda>_. c) t = Some r" "least_match e c (wall_year (first_minute t + c) + 5) (first_minute t) r"
    using next_fire_least_from [OF assms] by blast
  show thesis
  proof (cases r)
    case None
    then show ?thesis using r(1) that(1) by simp
  next
    case (Some u)
    then have "first_minute t \<le> u" "60 dvd u" using r(2) by (simp_all add: least_match_def)
    then show ?thesis using that(2) r(1) Some first_minute_props(1) [of t] by simp
  qed
qed

lemma next_fire_later: "60 dvd c \<Longrightarrow> 0 \<le> t + c \<Longrightarrow> next_fire e (\<lambda>_. c) t = Some (Some u) \<Longrightarrow> t < u"
  by (metis next_fire_returns option.distinct(1) option.inject)

subsection \<open>The planned instants are in order\<close>

definition plan_ordered :: "int \<Rightarrow> int \<Rightarrow> plan \<Rightarrow> bool" where
  "plan_ordered nxt now p = (sorted_wrt (<) (p_fires p @ [p_next p]) \<and> nxt < p_next p \<and> (\<forall>a \<in> set (p_fires p). nxt \<le> a \<and> a \<le> now))"

lemma advance_later:
  assumes "60 dvd c" "0 \<le> cur + c" "cur \<le> now"
  shows "\<exists>n. advance_loop e (\<lambda>_. c) now i cur = Some n \<and> cur < n"
  using assms
proof (induction e "\<lambda>_::int. c" now i cur rule: advance_loop.induct)
  case (1 e now i cur)
  show ?case
  proof (cases "1000000 \<le> i")
    case True
    then show ?thesis using "1.prems" by (subst advance_loop.simps) simp
  next
    case i: False
    from "1.prems"(1,2) show ?thesis
    proof (cases rule: next_fire_returns [where e = e])
      case 1
      then show ?thesis using i by (subst advance_loop.simps) simp
    next
      case (2 u)
      show ?thesis
      proof (cases "now < u")
        case True
        then show ?thesis using i 2 by (subst advance_loop.simps) simp
      next
        case False
        then obtain n where "advance_loop e (\<lambda>_. c) now (i + 1) u = Some n" "u < n"
          using "1.hyps" [OF i 2(1) refl] "1.prems" 2(2) by (metis add_less_cancel_right le_less_trans less_imp_le not_less)
        then show ?thesis using i 2 False by (subst advance_loop.simps) auto
      qed
    qed
  qed
qed

lemma backfill_ordered:
  assumes "60 dvd c" "0 \<le> cur + c" "sorted_wrt (<) (fs @ [cur])" "nxt \<le> cur" "fs = [] \<longrightarrow> cur \<le> now"
    "fs \<noteq> [] \<longrightarrow> nxt < cur" "\<forall>a \<in> set fs. nxt \<le> a \<and> a \<le> now"
  shows "\<exists>p. backfill_loop e (\<lambda>_. c) now mx fs cur = Some p \<and> plan_ordered nxt now p"
  using assms
proof (induction e "\<lambda>_::int. c" now mx fs cur rule: backfill_loop.induct)
  case (1 e now mx fs cur)
  show ?case
  proof (cases "now < cur")
    case True
    then show ?thesis using "1.prems" by (subst backfill_loop.simps) (auto simp: plan_ordered_def)
  next
    case c: False
    from "1.prems"(1,2) show ?thesis
    proof (cases rule: next_fire_returns [where e = e])
      case 1
      then show ?thesis using c "1.prems" by (subst backfill_loop.simps) (auto simp: plan_ordered_def sorted_wrt_append)
    next
      case (2 u)
      have s: "sorted_wrt (<) ((fs @ [cur]) @ [u])" using "1.prems"(3) 2(2) by (auto simp: sorted_wrt_append)
      show ?thesis
      proof (cases "mx \<le> length (fs @ [cur])")
        case True
        then show ?thesis using c 2 s "1.prems" by (subst backfill_loop.simps) (auto simp: plan_ordered_def)
      next
        case False
        have "\<exists>p. backfill_loop e (\<lambda>_. c) now mx (fs @ [cur]) u = Some p \<and> plan_ordered nxt now p"
          using c "1.prems" 2(2) s by (intro "1.hyps" [OF c refl 2(1) refl False]) auto
        then show ?thesis using c 2 False by (subst backfill_loop.simps) (simp add: Let_def)
      qed
    qed
  qed
qed

text \<open>The plan of a due schedule exists, its instants lie between the due instant and now, each once, and the new due
  instant is later than all of them.\<close>

lemma planFires_ordered:
  assumes "60 dvd c" "0 \<le> nxt + c" "nxt \<le> now"
  shows "\<exists>p. planFires mis nxt e (\<lambda>_. c) now grace mb = Some p \<and> plan_ordered nxt now p"
proof -
  obtain n where n: "advancePast e (\<lambda>_. c) nxt now = Some n" "nxt < n"
    using advance_later [OF assms] by (auto simp: advancePast_def)
  show ?thesis
  proof (cases "mis = MisfireBackfill")
    case True
    then show ?thesis using backfill_ordered [OF assms(1,2), of "[]" nxt now e] assms(3) by (simp add: planFires_def Let_def)
  next
    case False
    then show ?thesis using n assms(3) by (cases mis) (auto simp: planFires_def Let_def plan_ordered_def)
  qed
qed

subsection \<open>The planned instants are the matching ones\<close>

text \<open>The matching minutes from \<open>a\<close> up to, but without, \<open>b\<close>.\<close>

definition matching :: "expr \<Rightarrow> int \<Rightarrow> int \<Rightarrow> int \<Rightarrow> int set" where
  "matching e c a b = {s. a \<le> s \<and> s < b \<and> 60 dvd s \<and> matches e (s + c)}"

text \<open>No minute matches from \<open>t\<close> to the end of the fifth year ahead.\<close>

definition never_again :: "expr \<Rightarrow> int \<Rightarrow> int \<Rightarrow> bool" where
  "never_again e c t = (\<forall>s. t < s \<and> 60 dvd s \<and> wall_year (s + c) \<le> wall_year (first_minute t + c) + 5 \<longrightarrow> \<not> matches e (s + c))"

lemma next_fire_match:
  assumes "60 dvd c" "0 \<le> t + c"
  obtains "next_fire e (\<lambda>_. c) t = Some None" "never_again e c t"
  | u where "next_fire e (\<lambda>_. c) t = Some (Some u)" "t < u" "60 dvd u" "matches e (u + c)" "matching e c (t + 1) u = {}"
proof -
  obtain r where r: "next_fire e (\<lambda>_. c) t = Some r" "least_match e c (wall_year (first_minute t + c) + 5) (first_minute t) r"
    using next_fire_least_from [OF assms] by blast
  note f = first_minute_props(1) [of t] first_minute_props(4) [of _ t]
  show thesis
  proof (cases r)
    case None
    then have "never_again e c t" using r(2) f by (auto simp: least_match_def never_again_def)
    then show ?thesis using r(1) None that(1) by simp
  next
    case (Some u)
    then have u: "first_minute t \<le> u" "60 dvd u" "matches e (u + c)" "\<And>s. first_minute t \<le> s \<Longrightarrow> s < u \<Longrightarrow> 60 dvd s \<Longrightarrow> \<not> matches e (s + c)"
      using r(2) by (simp_all add: least_match_def)
    have "matching e c (t + 1) u = {}" using u(4) f(2) by (auto simp: matching_def)
    then show ?thesis using that(2) [of u] r(1) Some u f(1) by simp
  qed
qed

lemma matching_minute: "60 dvd t \<Longrightarrow> matches e (t + c) \<Longrightarrow> matching e c t (t + 60) = {t}"
proof -
  assume t: "60 dvd t" "matches e (t + c)"
  have "s = t" if "t \<le> s" "s < t + 60" "60 dvd s" for s
  proof -
    have "60 dvd s - t" using that(3) t(1) by (rule dvd_diff)
    then show ?thesis using that(1,2) by presburger
  qed
  then show ?thesis using t by (auto simp: matching_def)
qed

lemma matching_split: "a \<le> b \<Longrightarrow> b \<le> d \<Longrightarrow> matching e c a d = matching e c a b \<union> matching e c b d"
  by (auto simp: matching_def)

lemma matching_next: "60 dvd t \<Longrightarrow> matches e (t + c) \<Longrightarrow> t < u \<Longrightarrow> matching e c (t + 1) u = {} \<Longrightarrow> matching e c t u = {t}"
proof -
  assume t: "60 dvd t" "matches e (t + c)" "t < u" "matching e c (t + 1) u = {}"
  have "matching e c t u = matching e c t (t + 1) \<union> matching e c (t + 1) u" using t(3) by (intro matching_split) simp_all
  moreover have "matching e c t (t + 1) = {t}" using t(1,2) unfolding matching_def by (auto dest: zle_add1_eq_le [THEN iffD1])
  ultimately show ?thesis using t(4) by simp
qed

text \<open>Every matching minute before the new due instant is fired.\<close>

definition backfilled :: "expr \<Rightarrow> int \<Rightarrow> nat \<Rightarrow> int \<Rightarrow> int \<Rightarrow> plan \<Rightarrow> bool" where
  "backfilled e c mx nxt now p =
     (set (p_fires p) = matching e c nxt (p_next p) \<and> p_fires p \<noteq> [] \<and> length (p_fires p) \<le> mx \<and>
      (now < p_next p \<or> length (p_fires p) = mx \<or> never_again e c (last (p_fires p))))"

lemma backfill_exact:
  assumes "60 dvd c" "0 \<le> cur + c" "60 dvd cur" "matches e (cur + c)" "nxt \<le> cur" "length fs < mx" "fs = [] \<longrightarrow> cur \<le> now"
    "set fs = matching e c nxt cur"
  shows "\<exists>p. backfill_loop e (\<lambda>_. c) now mx fs cur = Some p \<and> backfilled e c mx nxt now p"
  using assms
proof (induction e "\<lambda>_::int. c" now mx fs cur rule: backfill_loop.induct)
  case (1 e now mx fs cur)
  show ?case
  proof (cases "now < cur")
    case True
    then show ?thesis using "1.prems" by (subst backfill_loop.simps) (auto simp: backfilled_def)
  next
    case c: False
    from "1.prems"(1,2) show ?thesis
    proof (cases rule: next_fire_match [where e = e])
      case 1
      have "set (fs @ [cur]) = matching e c nxt (cur + 60)"
        using "1.prems" matching_split [of nxt cur "cur + 60" e c] matching_minute [of cur e c] by auto
      then show ?thesis using c 1 "1.prems"(6) by (subst backfill_loop.simps) (auto simp: backfilled_def)
    next
      case (2 u)
      have s: "set (fs @ [cur]) = matching e c nxt u"
        using "1.prems" matching_split [of nxt cur u e c] matching_next [of cur e c u] 2 by auto
      show ?thesis
      proof (cases "mx \<le> length (fs @ [cur])")
        case True
        then show ?thesis using c 2 s "1.prems"(6) by (subst backfill_loop.simps) (auto simp: backfilled_def)
      next
        case False
        have "\<exists>p. backfill_loop e (\<lambda>_. c) now mx (fs @ [cur]) u = Some p \<and> backfilled e c mx nxt now p"
          using "1.prems" 2 s False by (intro "1.hyps" [OF c refl 2(1) refl False]) auto
        then show ?thesis using c 2 False by (subst backfill_loop.simps) (simp add: Let_def)
      qed
    qed
  qed
qed

text \<open>The other policies resume at the first matching minute after now.\<close>

definition resumed :: "expr \<Rightarrow> int \<Rightarrow> int \<Rightarrow> int \<Rightarrow> bool" where
  "resumed e c now n =
     (now < n \<and> 60 dvd n \<and> matches e (n + c) \<and> matching e c (now + 1) n = {} \<or> (\<exists>l \<le> now. never_again e c l \<and> n = l + 60))"

lemma advance_exact:
  assumes "60 dvd c" "0 \<le> cur + c" "60 dvd cur" "cur \<le> now" "0 \<le> i" "now - cur < 60 * (1000000 - i)"
  shows "\<exists>n. advance_loop e (\<lambda>_. c) now i cur = Some n \<and> resumed e c now n"
  using assms
proof (induction e "\<lambda>_::int. c" now i cur rule: advance_loop.induct)
  case (1 e now i cur)
  have i: "\<not> 1000000 \<le> i" using "1.prems"(4,6) by auto
  from "1.prems"(1,2) show ?case
  proof (cases rule: next_fire_match [where e = e])
    case 1
    then show ?thesis using i "1.prems"(4) by (subst advance_loop.simps) (auto simp: resumed_def)
  next
    case (2 u)
    show ?thesis
    proof (cases "now < u")
      case True
      have "matching e c (now + 1) u = {}" using 2(5) "1.prems"(4) by (auto simp: matching_def)
      then show ?thesis using True i 2 by (subst advance_loop.simps) (simp add: resumed_def)
    next
      case False
      have "60 dvd u - cur" using 2(3) "1.prems"(3) by (rule dvd_diff)
      then have "cur + 60 \<le> u" using 2(2) by presburger
      then have "now - u < 60 * (1000000 - (i + 1))" using "1.prems"(6) by (simp add: algebra_simps)
      then have "\<exists>n. advance_loop e (\<lambda>_. c) now (i + 1) u = Some n \<and> resumed e c now n"
        using "1.prems" 2 False by (intro "1.hyps" [OF i 2(1) refl False]) auto
      then show ?thesis using i 2 False by (subst advance_loop.simps) simp
    qed
  qed
qed



end
