(* ===== verification/Cron_Store_Claims.thy ===== *)
theory Cron_Store_Claims
  imports Cron_Ticker Cron_Plan Claim_Register
begin

text \<open>
  What the scheduler's tables guarantee: which instants a transaction claims, that no instant is claimed twice, and that
  a claimed instant reaches Kafka or stays pending until the recovery finds it.
\<close>

subsection \<open>The keys of the ledger\<close>

definition fire_key :: "fire_row \<Rightarrow> int \<times> int" where "fire_key f = (f_sched f, f_at f)"
definition claim_key :: "claimed_fire \<Rightarrow> int \<times> int" where "claim_key cf = (c_sched cf, c_at cf)"
definition ledger_keys :: "cron_db \<Rightarrow> (int \<times> int) set" where "ledger_keys db = fire_key ` set (fires db)"

lemma claim_key_of [simp]: "claim_key (claimed_of sc a) = (s_id sc, a)"
  by (simp add: claim_key_def claimed_of_def)

lemma ledger_keys_rows [simp]:
  "ledger_keys (set_row i g db) = ledger_keys db" "ledger_keys (db\<lparr>rows := rs\<rparr>) = ledger_keys db"
  "fires (set_row i g db) = fires db" "auto_id (set_row i g db) = auto_id db"
  by (simp_all add: ledger_keys_def set_row_def)

lemma in_ledger: "(\<exists>f \<in> set (fires db). f_sched f = i \<and> f_at f = a) = ((i, a) \<in> ledger_keys db)"
  by (auto simp: ledger_keys_def fire_key_def)

lemma insertIgnore_simps [simp]:
  "snd (insertIgnore i a t db) = ((i, a) \<notin> ledger_keys db)"
  "ledger_keys (fst (insertIgnore i a t db)) = insert (i, a) (ledger_keys db)"
  "rows (fst (insertIgnore i a t db)) = rows db"
  "auto_id (fst (insertIgnore i a t db)) = auto_id db"
  unfolding insertIgnore_def in_ledger by (auto simp: ledger_keys_def fire_key_def)

lemma insertIgnore_pending: "f \<in> set (fires (fst (insertIgnore i a t db))) \<Longrightarrow> f \<in> set (fires db) \<or> f_status f = Pending"
  by (auto simp: insertIgnore_def split: if_splits)

lemma insertIgnore_keeps: "f \<in> set (fires db) \<Longrightarrow> f \<in> set (fires (fst (insertIgnore i a t db)))"
  by (simp add: insertIgnore_def)

lemma claim_fires_rows [simp]:
  "rows (fst (claim_fires sc t as db)) = rows db" "auto_id (fst (claim_fires sc t as db)) = auto_id db"
  by (induction as arbitrary: db) (simp_all add: split_beta Let_def)

lemma claim_fires_keys [simp]: "ledger_keys (fst (claim_fires sc t as db)) = ledger_keys db \<union> Pair (s_id sc) ` set as"
  by (induction as arbitrary: db) (simp_all add: split_beta Let_def)

lemma claim_fires_claims: "set (snd (claim_fires sc t as db)) = claimed_of sc ` {a \<in> set as. (s_id sc, a) \<notin> ledger_keys db}"
  by (induction as arbitrary: db) (auto simp: split_beta Let_def)

lemma claim_fires_distinct: "distinct (map claim_key (snd (claim_fires sc t as db)))"
  by (induction as arbitrary: db) (auto simp: split_beta Let_def claim_fires_claims)

lemma claim_fires_pending: "f \<in> set (fires (fst (claim_fires sc t as db))) \<Longrightarrow> f \<in> set (fires db) \<or> f_status f = Pending"
  by (induction as arbitrary: db) (auto simp: split_beta Let_def dest: insertIgnore_pending)

lemma claim_fires_keeps: "f \<in> set (fires db) \<Longrightarrow> f \<in> set (fires (fst (claim_fires sc t as db)))"
  by (induction as arbitrary: db) (auto simp: split_beta Let_def insertIgnore_keeps)

subsection \<open>One transaction\<close>

text \<open>What becomes of a selected row, and what is claimed of it.\<close>

definition settled_row :: "(schedule \<Rightarrow> plan_reply) \<Rightarrow> int \<Rightarrow> schedule \<Rightarrow> sched_row \<Rightarrow> sched_row" where
  "settled_row pl t sc r =
     (case pl sc of PlanError \<Rightarrow> r\<lparr>r_enabled := 0, r_updated := t\<rparr> | Planned p \<Rightarrow> advance_row p t r | PlanHangs \<Rightarrow> r)"

definition planned :: "(schedule \<Rightarrow> plan_reply) \<Rightarrow> schedule \<Rightarrow> int list" where
  "planned pl sc = (case pl sc of Planned p \<Rightarrow> p_fires p | _ \<Rightarrow> [])"

lemma claim_sched_spec:
  assumes "claim_sched pl t sc db = Some (db', cs)"
  shows "rows db' = map (\<lambda>r. if r_id r = s_id sc then settled_row pl t sc r else r) (rows db)"
    and "auto_id db' = auto_id db"
    and "ledger_keys db' = ledger_keys db \<union> Pair (s_id sc) ` set (planned pl sc)"
    and "set cs = claimed_of sc ` {a \<in> set (planned pl sc). (s_id sc, a) \<notin> ledger_keys db}"
    and "distinct (map claim_key cs)"
    and "f \<in> set (fires db') \<Longrightarrow> f \<in> set (fires db) \<or> f_status f = Pending"
    and "f \<in> set (fires db) \<Longrightarrow> f \<in> set (fires db')"
  using assms claim_fires_pending [of f sc t "planned pl sc" db]
  by (auto simp: claim_sched_def planned_def settled_row_def set_row_def split_beta Let_def claim_fires_claims
      claim_fires_distinct claim_fires_keeps split: plan_reply.splits)

lemma ids_settled [simp]: "r_id (settled_row pl t sc r) = r_id r"
  by (simp add: settled_row_def advance_row_def split: plan_reply.splits)

lemma claim_scheds_Cons:
  assumes "claim_scheds pl t (sc # scs) db = Some (db', cs)"
  obtains db1 cs1 cs2 where "claim_sched pl t sc db = Some (db1, cs1)" "claim_scheds pl t scs db1 = Some (db', cs2)" "cs = cs1 @ cs2"
  using assms by (auto split: option.splits)

text \<open>The keys the selected schedules plan.\<close>

definition planned_keys :: "(schedule \<Rightarrow> plan_reply) \<Rightarrow> schedule list \<Rightarrow> (int \<times> int) set" where
  "planned_keys pl scs = (\<Union>sc \<in> set scs. Pair (s_id sc) ` set (planned pl sc))"

lemma planned_keys_simps [simp]:
  "planned_keys pl [] = {}" "planned_keys pl (sc # scs) = Pair (s_id sc) ` set (planned pl sc) \<union> planned_keys pl scs"
  by (simp_all add: planned_keys_def)

lemma claim_scheds_keys:
  "claim_scheds pl t scs db = Some (db', cs) \<Longrightarrow> ledger_keys db' = ledger_keys db \<union> planned_keys pl scs"
proof (induction scs arbitrary: db db' cs)
  case (Cons sc scs)
  from Cons.prems show ?case by (rule claim_scheds_Cons) (use Cons.IH claim_sched_spec(3) in fastforce)
qed simp

lemma claim_scheds_claims:
  "claim_scheds pl t scs db = Some (db', cs) \<Longrightarrow> claim_key ` set cs = planned_keys pl scs - ledger_keys db"
proof (induction scs arbitrary: db db' cs)
  case (Cons sc scs)
  from Cons.prems obtain db1 cs1 cs2 where s: "claim_sched pl t sc db = Some (db1, cs1)" "claim_scheds pl t scs db1 = Some (db', cs2)" "cs = cs1 @ cs2"
    by (rule claim_scheds_Cons)
  have "claim_key ` set cs1 = Pair (s_id sc) ` set (planned pl sc) - ledger_keys db" using claim_sched_spec(4) [OF s(1)] by (auto simp: image_iff)
  then show ?case using claim_sched_spec(3) [OF s(1)] Cons.IH [OF s(2)] s(3) by (auto simp: image_Un)
qed simp

lemma claim_scheds_distinct: "claim_scheds pl t scs db = Some (db', cs) \<Longrightarrow> distinct (map claim_key cs)"
proof (induction scs arbitrary: db db' cs)
  case (Cons sc scs)
  from Cons.prems obtain db1 cs1 cs2 where s: "claim_sched pl t sc db = Some (db1, cs1)" "claim_scheds pl t scs db1 = Some (db', cs2)" "cs = cs1 @ cs2"
    by (rule claim_scheds_Cons)
  have "claim_key ` set cs1 \<subseteq> ledger_keys db1" using claim_sched_spec(3,4) [OF s(1)] by auto
  moreover have "claim_key ` set cs2 \<inter> ledger_keys db1 = {}" using claim_scheds_claims [OF s(2)] by blast
  ultimately show ?case using claim_sched_spec(5) [OF s(1)] Cons.IH [OF s(2)] s(3) by auto
qed simp

lemma claim_scheds_frame:
  assumes "claim_scheds pl t scs db = Some (db', cs)"
  shows "auto_id db' = auto_id db" and "map r_id (rows db') = map r_id (rows db)"
    and "f \<in> set (fires db') \<Longrightarrow> f \<in> set (fires db) \<or> f_status f = Pending"
    and "f \<in> set (fires db) \<Longrightarrow> f \<in> set (fires db')"
proof -
  have "auto_id db' = auto_id db \<and> map r_id (rows db') = map r_id (rows db) \<and>
    (f \<in> set (fires db') \<longrightarrow> f \<in> set (fires db) \<or> f_status f = Pending) \<and> (f \<in> set (fires db) \<longrightarrow> f \<in> set (fires db'))"
    using assms
  proof (induction scs arbitrary: db db' cs)
    case (Cons sc scs)
    from Cons.prems obtain db1 cs1 cs2 where s: "claim_sched pl t sc db = Some (db1, cs1)" "claim_scheds pl t scs db1 = Some (db', cs2)" "cs = cs1 @ cs2"
      by (rule claim_scheds_Cons)
    have "map r_id (rows db1) = map r_id (rows db)" using claim_sched_spec(1) [OF s(1)] by simp
    then show ?case using claim_sched_spec(2,6,7) [OF s(1)] Cons.IH [OF s(2)] by auto
  qed simp
  then show "auto_id db' = auto_id db" "map r_id (rows db') = map r_id (rows db)"
    "f \<in> set (fires db') \<Longrightarrow> f \<in> set (fires db) \<or> f_status f = Pending" "f \<in> set (fires db) \<Longrightarrow> f \<in> set (fires db')" by simp_all
qed

text \<open>The rows: each selected one is settled once.\<close>

definition settle_rows :: "(schedule \<Rightarrow> plan_reply) \<Rightarrow> int \<Rightarrow> schedule list \<Rightarrow> sched_row list \<Rightarrow> sched_row list" where
  "settle_rows pl t scs = map (\<lambda>r. case find (\<lambda>sc. s_id sc = r_id r) scs of None \<Rightarrow> r | Some sc \<Rightarrow> settled_row pl t sc r)"

lemma claim_scheds_rows:
  "claim_scheds pl t scs db = Some (db', cs) \<Longrightarrow> distinct (map s_id scs) \<Longrightarrow> rows db' = settle_rows pl t scs (rows db)"
proof (induction scs arbitrary: db db' cs)
  case (Cons sc scs)
  from Cons.prems(1) obtain db1 cs1 cs2 where s: "claim_sched pl t sc db = Some (db1, cs1)" "claim_scheds pl t scs db1 = Some (db', cs2)" "cs = cs1 @ cs2"
    by (rule claim_scheds_Cons)
  have no: "find (\<lambda>x. s_id x = s_id sc) scs = None" using Cons.prems(2) by (auto simp: find_None_iff image_iff)
  show ?case
    using Cons.IH [OF s(2)] claim_sched_spec(1) [OF s(1)] Cons.prems(2) no by (auto simp: settle_rows_def)
qed (simp add: settle_rows_def)

lemma due_rows_ids: "distinct (map r_id (rows db)) \<Longrightarrow> distinct (map s_id (due_rows now mx locked db))"
proof -
  let ?f = "\<lambda>r. r_enabled r = 1 \<and> r_next r \<le> now \<and> \<not> locked (r_id r)"
  assume d: "distinct (map r_id (rows db))"
  have "inj_on r_id (set (rows db))" "distinct (rows db)" using d by (simp_all add: distinct_map)
  then have "distinct (map r_id (sort_key r_next (filter ?f (rows db))))" by (simp add: distinct_map) (rule inj_on_subset, auto)
  then have "distinct (map r_id (take n (sort_key r_next (filter ?f (rows db)))))" for n
    unfolding take_map [symmetric] by (rule distinct_take)
  moreover have "s_id \<circ> scanSchedule = r_id" by (auto simp: scanSchedule_def)
  ultimately show ?thesis by (simp add: due_rows_def)
qed

lemma due_row_source:
  assumes "sc \<in> set (due_rows now mx locked db)"
  obtains r where "r \<in> set (rows db)" "sc = scanSchedule r" "r_enabled r = 1" "r_next r \<le> now" "\<not> locked (r_id r)"
  using assms by (auto simp: due_rows_def dest!: in_set_takeD)

lemma scan_simps [simp]: "s_id (scanSchedule r) = r_id r" "s_next (scanSchedule r) = r_next r"
  by (simp_all add: scanSchedule_def)

lemma claimAndAdvance_cases:
  assumes "claimAndAdvance pl now t mx locked got db = Some (db', r)"
  obtains "got = NotRun" "db' = db" "r = None"
  | cs where "got \<noteq> NotRun" "claim_scheds pl t (due_rows now mx locked db) db = Some (db', cs)" "r = (if got = Replied then Some cs else None)"
  using assms by (auto simp: claimAndAdvance_def split: if_splits)

text \<open>What one transaction of \<open>ClaimAndAdvance\<close> does. It returns each planned instant of each selected schedule
  that the ledger did not have, exactly once, and the ledger has all planned instants afterwards. Every selected
  schedule gets its new due instant; one whose plan fails (an expression or a location that no longer parses) is
  disabled and keeps nothing from its siblings; all other rows stay.\<close>

theorem claim_transaction_exact:
  assumes "distinct (map r_id (rows db))" and "claimAndAdvance pl now t mx locked Replied db = Some (db', Some cs)"
  shows "claim_key ` set cs = planned_keys pl (due_rows now mx locked db) - ledger_keys db \<and> distinct (map claim_key cs) \<and>
    ledger_keys db' = ledger_keys db \<union> planned_keys pl (due_rows now mx locked db) \<and>
    rows db' = settle_rows pl t (due_rows now mx locked db) (rows db)"
proof -
  have c: "claim_scheds pl t (due_rows now mx locked db) db = Some (db', cs)"
    using assms(2) by (rule claimAndAdvance_cases) auto
  show ?thesis
    using claim_scheds_claims [OF c] claim_scheds_distinct [OF c] claim_scheds_keys [OF c]
      claim_scheds_rows [OF c due_rows_ids [OF assms(1)]] by simp
qed

subsection \<open>Sequences of operations\<close>

datatype store_op =
    OpClaim "schedule \<Rightarrow> plan_reply" int int int "int \<Rightarrow> bool" fate
  | OpMark int int string int
  | OpPrune int
  | OpUpsert "string \<Rightarrow> zone option" int int fate upsert_req
  | OpEnable string bool int
  | OpDelete string

text \<open>The new tables and the claims returned; \<open>None\<close>: the call does not return.\<close>

fun store_step :: "store_op \<Rightarrow> cron_db \<Rightarrow> (cron_db \<times> claimed_fire list) option" where
  "store_step (OpClaim pl now t mx locked got) db =
     map_option (\<lambda>(db', r). (db', case r of None \<Rightarrow> [] | Some cs \<Rightarrow> cs)) (claimAndAdvance pl now t mx locked got db)"
| "store_step (OpMark i a job now) db = Some (markDispatched i a job now db, [])"
| "store_step (OpPrune t) db = Some (fst (prune t db), [])"
| "store_step (OpUpsert tzdb t0 now got u) db = map_option (\<lambda>(db', _). (db', [])) (upsert tzdb t0 now got u db)"
| "store_step (OpEnable n v now) db = Some (setEnabled n v now db, [])"
| "store_step (OpDelete n) db = Some (delete_sched n db, [])"

fun store_run :: "store_op list \<Rightarrow> cron_db \<Rightarrow> (cron_db \<times> claimed_fire list) option" where
  "store_run [] db = Some (db, [])"
| "store_run (x # xs) db =
     (case store_step x db of
        None \<Rightarrow> None
      | Some (db1, cs) \<Rightarrow> map_option (\<lambda>(db2, cs2). (db2, cs @ cs2)) (store_run xs db1))"

lemma write_row_frame [simp]: "fires (write_row n db) = fires db" "ledger_keys (write_row n db) = ledger_keys db"
  by (simp_all add: write_row_def ledger_keys_def)

lemma upsert_frame: "upsert tzdb t0 now got u db = Some (db', r) \<Longrightarrow> fires db' = fires db"
  by (auto simp: upsert_def Let_def when_run_def split: if_splits option.splits)

lemma mark_keys [simp]: "ledger_keys (markDispatched i a job now db) = ledger_keys db"
proof -
  have "map fire_key (fires (markDispatched i a job now db)) = map fire_key (fires db)"
    by (auto simp: markDispatched_def fire_key_def)
  then show ?thesis by (metis ledger_keys_def set_map)
qed

lemma step_claims_fresh:
  "store_step x db = Some (db', cs) \<Longrightarrow> distinct (map claim_key cs) \<and> claim_key ` set cs \<inter> ledger_keys db = {} \<and> claim_key ` set cs \<subseteq> ledger_keys db'"
proof (cases x)
  case (OpClaim pl now t mx locked got)
  assume "store_step x db = Some (db', cs)"
  then obtain r where r: "claimAndAdvance pl now t mx locked got db = Some (db', r)" "cs = (case r of None \<Rightarrow> [] | Some cs \<Rightarrow> cs)"
    using OpClaim by auto
  from r(1) show ?thesis
  proof (cases rule: claimAndAdvance_cases)
    case (2 ds)
    then show ?thesis
      using r(2) claim_scheds_claims [OF 2(2)] claim_scheds_distinct [OF 2(2)] claim_scheds_keys [OF 2(2)] by auto
  qed (use r(2) in simp)
qed auto

lemma step_keys_grow: "store_step x db = Some (db', cs) \<Longrightarrow> (\<forall>t. x \<noteq> OpPrune t) \<Longrightarrow> ledger_keys db \<subseteq> ledger_keys db'"
proof (cases x)
  case (OpClaim pl now t mx locked got)
  assume "store_step x db = Some (db', cs)"
  then obtain r where r: "claimAndAdvance pl now t mx locked got db = Some (db', r)" using OpClaim by auto
  then show ?thesis by (cases rule: claimAndAdvance_cases) (auto dest: claim_scheds_keys)
next
  case (OpUpsert tzdb t0 now got u)
  assume "store_step x db = Some (db', cs)"
  then have "fires db' = fires db" using OpUpsert by (auto dest: upsert_frame)
  then show ?thesis by (simp add: ledger_keys_def)
qed (auto simp: setEnabled_def delete_sched_def)

lemma store_run_Cons:
  assumes "store_run (x # xs) db = Some (db', cs)"
  obtains db1 cs1 cs2 where "store_step x db = Some (db1, cs1)" "store_run xs db1 = Some (db', cs2)" "cs = cs1 @ cs2"
  using assms by (auto split: option.splits)

lemma run_claims_fresh:
  "store_run xs db = Some (db', cs) \<Longrightarrow> \<forall>t. OpPrune t \<notin> set xs \<Longrightarrow> distinct (map claim_key cs) \<and> claim_key ` set cs \<inter> ledger_keys db = {}"
proof (induction xs arbitrary: db cs)
  case (Cons x xs)
  from Cons.prems(1) obtain db1 cs1 cs2 where s: "store_step x db = Some (db1, cs1)" "store_run xs db1 = Some (db', cs2)" "cs = cs1 @ cs2"
    by (rule store_run_Cons)
  have "ledger_keys db \<subseteq> ledger_keys db1" using step_keys_grow [OF s(1)] Cons.prems(2) by auto
  moreover have "distinct (map claim_key cs2) \<and> claim_key ` set cs2 \<inter> ledger_keys db1 = {}" using Cons.IH [OF s(2)] Cons.prems(2) by simp
  ultimately show ?case using step_claims_fresh [OF s(1)] s(3) by (auto 0 3)
qed simp

text \<open>Between two prunes the ledger alone gives each instant to one caller: however the nodes' clocks run, whatever
  the planner answers, with failed and half-answered transactions, marks, edits and deletions in between, no
  (schedule, instant) is returned twice.\<close>

theorem ledger_claims_once:
  assumes "store_run xs db = Some (db', cs)" and "\<forall>t. OpPrune t \<notin> set xs"
  shows "distinct (map claim_key cs)"
  using run_claims_fresh [OF assms] by simp

subsection \<open>Once and for all\<close>

text \<open>Locations with a fixed offset.\<close>

definition fixed_zone :: "zone \<Rightarrow> bool" where
  "fixed_zone z = (\<exists>c. z = (\<lambda>_. c) \<and> 60 dvd c \<and> - 86400 \<le> c)"

definition fixed_zones :: "(string \<Rightarrow> zone option) \<Rightarrow> bool" where
  "fixed_zones tzdb = (\<forall>n z. tzdb n = Some z \<longrightarrow> fixed_zone z)"

lemma location_fixed: "fixed_zones tzdb \<Longrightarrow> location tzdb n = Some z \<Longrightarrow> fixed_zone z"
  by (auto simp: location_def fixed_zones_def fixed_zone_def utc_def split: if_splits)

lemma planFor_ordered:
  assumes "fixed_zones tzdb" "86400 \<le> s_next sc" "s_next sc \<le> now"
  shows "planFor c tzdb now sc = PlanError \<or> (\<exists>p. planFor c tzdb now sc = Planned p \<and> plan_ordered (s_next sc) now p)"
proof (cases "parse_cron (s_cron sc)")
  case (Some e)
  show ?thesis
  proof (cases "location tzdb (s_timezone sc)")
    case z: (Some z)
    then obtain d where d: "z = (\<lambda>_. d)" "60 dvd d" "- 86400 \<le> d" using location_fixed [OF assms(1)] by (auto simp: fixed_zone_def)
    have "0 \<le> s_next sc + d" using d(3) assms(2) by simp
    from planFires_ordered [OF d(2) this assms(3), of "s_misfire sc" e "misfireGrace c" "maxBackfill c"]
    show ?thesis using Some z d(1) by (auto simp: planFor_def)
  qed (use Some in \<open>simp add: planFor_def\<close>)
qed (simp add: planFor_def)

lemma planFor_planned: "fixed_zones tzdb \<Longrightarrow> 86400 \<le> s_next sc \<Longrightarrow> s_next sc \<le> now \<Longrightarrow>
  a \<in> set (planned (planFor c tzdb now) sc) \<Longrightarrow> s_next sc \<le> a \<and> a \<le> now"
  using planFor_ordered [of tzdb sc now c] by (auto simp: planned_def plan_ordered_def)

lemma planFor_settled:
  assumes "fixed_zones tzdb" "86400 \<le> r_next r" "r_next r \<le> now"
  shows "r_next r \<le> r_next (settled_row (planFor c tzdb now) t (scanSchedule r) r)"
    and "a \<in> set (planned (planFor c tzdb now) (scanSchedule r)) \<Longrightarrow> a < r_next (settled_row (planFor c tzdb now) t (scanSchedule r) r)"
  using planFor_ordered [of tzdb "scanSchedule r" now c] assms
  by (auto simp: planned_def plan_ordered_def settled_row_def advance_row_def sorted_wrt_append)

lemma claim_scheds_returns: "\<forall>sc \<in> set scs. pl sc \<noteq> PlanHangs \<Longrightarrow> \<exists>db' cs. claim_scheds pl t scs db = Some (db', cs)"
proof (induction scs arbitrary: db)
  case (Cons sc scs)
  obtain db1 cs1 where "claim_sched pl t sc db = Some (db1, cs1)"
    using Cons.prems by (cases "pl sc") (auto simp: claim_sched_def split_beta Let_def)
  moreover obtain db2 cs2 where "claim_scheds pl t scs db1 = Some (db2, cs2)" using Cons.IH [of db1] Cons.prems by auto
  ultimately show ?case by simp
qed simp

text \<open>The invariant: \<open>H\<close> are the instants claimed so far, \<open>T\<close> the latest clock. Claimed instants are in the past of their
  schedule.\<close>

definition claimed_past :: "(int \<times> int) set \<Rightarrow> int \<Rightarrow> cron_db \<Rightarrow> bool" where
  "claimed_past H T db =
     (distinct (map r_id (rows db)) \<and> (\<forall>r \<in> set (rows db). r_id r < auto_id db \<and> 86400 \<le> r_next r) \<and>
      (\<forall>(i, a) \<in> H. i < auto_id db \<and> a \<le> T \<and> (\<forall>r \<in> set (rows db). r_id r = i \<longrightarrow> a < r_next r)))"

definition honest_op :: "store_op \<Rightarrow> bool" where
  "honest_op x = (case x of
       OpClaim pl now t mx locked got \<Rightarrow> 86400 \<le> now \<and> (\<exists>c tzdb. fixed_zones tzdb \<and> pl = planFor c tzdb now)
     | OpUpsert tzdb t0 now got u \<Rightarrow> 86400 \<le> t0 \<and> fixed_zones tzdb
     | _ \<Rightarrow> True)"

definition op_clock :: "store_op \<Rightarrow> int option" where
  "op_clock x = (case x of OpClaim pl now t mx locked got \<Rightarrow> Some now | OpUpsert tzdb t0 now got u \<Rightarrow> Some t0 | _ \<Rightarrow> None)"

lemma new_claim_source:
  assumes "claim_scheds pl t (due_rows now mx locked db) db = Some (db', cs)" and "(i, a) \<in> claim_key ` set cs"
  obtains r where "r \<in> set (rows db)" "i = r_id r" "r_next r \<le> now" "scanSchedule r \<in> set (due_rows now mx locked db)"
    "a \<in> set (planned pl (scanSchedule r))"
proof -
  from assms(2) obtain sc where sc: "sc \<in> set (due_rows now mx locked db)" "i = s_id sc" "a \<in> set (planned pl sc)"
    unfolding claim_scheds_claims [OF assms(1)] by (auto simp: planned_keys_def)
  from sc(1) obtain r where "r \<in> set (rows db)" "sc = scanSchedule r" "r_next r \<le> now" by (rule due_row_source)
  then show thesis using that [of r] sc by simp
qed

lemma settled_source:
  assumes d: "distinct (map r_id (rows db))" and r: "r \<in> set (settle_rows pl t (due_rows now mx locked db) (rows db))"
  obtains r0 where "r0 \<in> set (rows db)" "r_id r = r_id r0" "r_next r0 \<le> now" "r = settled_row pl t (scanSchedule r0) r0"
  | "r \<in> set (rows db)" "scanSchedule r \<notin> set (due_rows now mx locked db)"
proof -
  let ?due = "due_rows now mx locked db"
  obtain r0 where r0: "r0 \<in> set (rows db)"
    "r = (case find (\<lambda>sc. s_id sc = r_id r0) ?due of None \<Rightarrow> r0 | Some sc \<Rightarrow> settled_row pl t sc r0)"
    using r unfolding settle_rows_def by auto
  show thesis
  proof (cases "find (\<lambda>sc. s_id sc = r_id r0) ?due")
    case None
    then have "scanSchedule r0 \<notin> set ?due" by (auto simp: find_None_iff)
    then show ?thesis using that(2) r0 None by simp
  next
    case (Some sc)
    then have sc: "sc \<in> set ?due" "s_id sc = r_id r0" by (auto simp: find_Some_iff)
    from sc(1) obtain r1 where r1: "r1 \<in> set (rows db)" "sc = scanSchedule r1" "r_next r1 \<le> now" by (rule due_row_source)
    have "r1 = r0" using d r1 sc(2) r0(1) by (simp add: distinct_map inj_on_def)
    then show ?thesis using that(1) [of r0] r0 Some r1 by simp
  qed
qed

lemma claim_keeps_past:
  assumes I: "claimed_past H T db" and z: "fixed_zones tzdb" and T: "T \<le> now"
    and c: "claim_scheds (planFor c tzdb now) t (due_rows now mx locked db) db = Some (db', cs)"
  shows "claimed_past (H \<union> claim_key ` set cs) now db'" and "claim_key ` set cs \<inter> H = {}"
proof -
  let ?pl = "planFor c tzdb now" and ?due = "due_rows now mx locked db"
  have d: "distinct (map r_id (rows db))" and nx: "\<And>r. r \<in> set (rows db) \<Longrightarrow> r_id r < auto_id db \<and> 86400 \<le> r_next r"
    and past: "\<And>i a. (i, a) \<in> H \<Longrightarrow> i < auto_id db \<and> a \<le> T" "\<And>i a r. (i, a) \<in> H \<Longrightarrow> r \<in> set (rows db) \<Longrightarrow> r_id r = i \<Longrightarrow> a < r_next r"
    using I by (auto simp: claimed_past_def)
  have new: "i < auto_id db \<and> a \<le> now \<and> (i, a) \<notin> H" if "(i, a) \<in> claim_key ` set cs" for i a
    using c that
  proof (rule new_claim_source)
    fix r assume r: "r \<in> set (rows db)" "i = r_id r" "r_next r \<le> now" "a \<in> set (planned ?pl (scanSchedule r))"
    then have "r_next r \<le> a \<and> a \<le> now" using planFor_planned [OF z _ _ r(4)] nx [OF r(1)] by simp
    then show ?thesis using r(1,2) nx [OF r(1)] past(2) [of i a r] by (metis not_le)
  qed
  then show "claim_key ` set cs \<inter> H = {}" by auto
  have rows': "rows db' = settle_rows ?pl t ?due (rows db)" by (rule claim_scheds_rows [OF c due_rows_ids [OF d]])
  have ids: "distinct (map r_id (rows db'))" "auto_id db' = auto_id db" using claim_scheds_frame [OF c] d by simp_all
  have row: "r_id r < auto_id db \<and> 86400 \<le> r_next r \<and> (\<forall>a. (r_id r, a) \<in> H \<union> claim_key ` set cs \<longrightarrow> a < r_next r)"
    if "r \<in> set (rows db')" for r
  proof -
    note src = that [unfolded rows']
    have fresh: "\<exists>r0 \<in> set (rows db). r_id r0 = r_id r \<and> r_next r0 \<le> now \<and> scanSchedule r0 \<in> set ?due \<and> a \<in> set (planned ?pl (scanSchedule r0))"
      if "(r_id r, a) \<in> claim_key ` set cs" for a
      using c that by (rule new_claim_source) auto
    from d src show ?thesis
    proof (cases rule: settled_source)
      case (1 r0)
      note st = planFor_settled [OF z _ 1(3), where c = c and t = t]
      have "a < r_next r" if k: "(r_id r, a) \<in> claim_key ` set cs" for a
      proof -
        obtain r1 where r1: "r1 \<in> set (rows db)" "r_id r1 = r_id r" "a \<in> set (planned ?pl (scanSchedule r1))" using fresh [OF k] by blast
        have "r1 = r0" using d r1(1,2) 1(1,2) by (simp add: distinct_map inj_on_def)
        then show ?thesis using st(2) r1(3) nx [OF 1(1)] 1(4) by simp
      qed
      moreover have "r_next r0 \<le> r_next r" using st(1) nx [OF 1(1)] 1(4) by simp
      ultimately show ?thesis using nx [OF 1(1)] 1(2) past(2) [OF _ 1(1)] by fastforce
    next
      case 2
      have "(r_id r, a) \<notin> claim_key ` set cs" for a
        using fresh [of a] 2 d by (auto simp: distinct_map inj_on_def)
      then show ?thesis using nx [OF 2(1)] past(2) [OF _ 2(1)] by blast
    qed
  qed
  have key: "i < auto_id db' \<and> a \<le> now" if "(i, a) \<in> H \<union> claim_key ` set cs" for i a
    using that new [of i a] past(1) [of i a] T ids(2) by (metis Un_iff order_trans)
  show "claimed_past (H \<union> claim_key ` set cs) now db'"
    unfolding claimed_past_def
  proof (intro conjI ballI)
    fix k assume k: "k \<in> H \<union> claim_key ` set cs"
    obtain i a where ia: "k = (i, a)" by fastforce
    show "case k of (i, a) \<Rightarrow> i < auto_id db' \<and> a \<le> now \<and> (\<forall>r \<in> set (rows db'). r_id r = i \<longrightarrow> a < r_next r)"
      using key [of i a] row k unfolding ia by auto
  qed (use ids row in auto)
qed

lemma write_row_past:
  assumes "claimed_past H T db" "T < r_next n" "86400 \<le> r_next n"
  shows "claimed_past H T (write_row n db)"
proof (cases "\<exists>r \<in> set (rows db). r_name r = r_name n")
  case True
  let ?g = "\<lambda>r. if r_name r = r_name n then n\<lparr>r_id := r_id r, r_last := r_last r, r_created := r_created r\<rparr> else r"
  have "map r_id (map ?g (rows db)) = map r_id (rows db)" by simp
  moreover have "r_next (?g r) = (if r_name r = r_name n then r_next n else r_next r)" "r_id (?g r) = r_id r" for r by simp_all
  ultimately show ?thesis
    using assms True unfolding claimed_past_def write_row_def
    by (auto simp del: map_map simp: Ball_def) (metis le_less_trans)+
next
  case False
  then show ?thesis using assms unfolding claimed_past_def write_row_def by (auto simp: distinct_map)
qed

lemma past_mono: "claimed_past H T db \<Longrightarrow> T \<le> T' \<Longrightarrow> claimed_past H T' db"
  by (fastforce simp: claimed_past_def)

text \<open>Every outcome of an upsert: it returns, and what it writes becomes due after its clock.\<close>

lemma upsert_outcome:
  assumes "fixed_zones tzdb" "86400 \<le> t0"
  shows "\<exists>db' r. upsert tzdb t0 now got u db = Some (db', r) \<and> (db' = db \<or> (\<exists>n. db' = write_row n db \<and> t0 < r_next n))"
proof (cases "parse_cron (u_cron u)")
  case (Some e)
  let ?tz = "if u_timezone u = '''' then ''UTC'' else u_timezone u"
  show ?thesis
  proof (cases "location tzdb ?tz")
    case z: (Some z)
    then obtain d where d: "z = (\<lambda>_. d)" "60 dvd d" "- 86400 \<le> d" using location_fixed [OF assms(1)] by (auto simp: fixed_zone_def)
    have "0 \<le> t0 + d" using d(3) assms(2) by simp
    with d(2) show ?thesis
    proof (cases rule: next_fire_returns [where e = e])
      case 1
      then show ?thesis using Some z d(1) by (simp add: upsert_def Let_def)
    next
      case (2 nx)
      have "r_next (upsert_row u mis tz nx now 0) = nx" for mis tz by (simp add: upsert_row_def)
      then show ?thesis using Some z d(1) 2 by (fastforce simp: upsert_def Let_def when_run_def)
    qed
  qed (use Some in \<open>simp add: upsert_def Let_def\<close>)
qed (simp add: upsert_def Let_def)

lemma step_keeps_past:
  assumes I: "claimed_past H T db" and h: "honest_op x" and T: "\<forall>t. op_clock x = Some t \<longrightarrow> T \<le> t"
  shows "\<exists>db' cs. store_step x db = Some (db', cs) \<and> claimed_past (H \<union> claim_key ` set cs) (case op_clock x of None \<Rightarrow> T | Some t \<Rightarrow> t) db' \<and>
    claim_key ` set cs \<inter> H = {}"
proof (cases x)
  case (OpClaim pl now t mx locked got)
  obtain c tzdb where z: "fixed_zones tzdb" "pl = planFor c tzdb now" using h OpClaim by (auto simp: honest_op_def)
  have T': "T \<le> now" using T OpClaim by (simp add: op_clock_def)
  have "pl sc \<noteq> PlanHangs" if "sc \<in> set (due_rows now mx locked db)" for sc
    using that
  proof (rule due_row_source)
    fix r assume "r \<in> set (rows db)" "sc = scanSchedule r" "r_next r \<le> now"
    then show ?thesis using planFor_ordered [OF z(1), of sc now c] I z(2) by (auto simp: claimed_past_def)
  qed
  then obtain db' cs where c: "claim_scheds pl t (due_rows now mx locked db) db = Some (db', cs)" using claim_scheds_returns by blast
  note k = claim_keeps_past [OF I z(1) T' c [unfolded z(2)]]
  have "claimed_past H now db'" using k(1) by (auto simp: claimed_past_def)
  then show ?thesis using OpClaim k c past_mono [OF I T'] by (cases got) (auto simp: claimAndAdvance_def op_clock_def)
next
  case (OpUpsert tzdb t0 now got u)
  have o: "fixed_zones tzdb" "86400 \<le> t0" "T \<le> t0" using h T OpUpsert by (simp_all add: honest_op_def op_clock_def)
  obtain db' r where u: "upsert tzdb t0 now got u db = Some (db', r)" "db' = db \<or> (\<exists>n. db' = write_row n db \<and> t0 < r_next n)"
    using upsert_outcome [OF o(1,2)] by blast
  have "claimed_past H t0 db'" using u(2) past_mono [OF I o(3)] write_row_past o(2) by fastforce
  then show ?thesis using OpUpsert u(1) by (simp add: op_clock_def)
next
  case (OpPrune t)
  then show ?thesis using I by (simp add: op_clock_def claimed_past_def prune_def Let_def)
next
  case (OpMark i a job now)
  then show ?thesis using I by (simp add: op_clock_def claimed_past_def markDispatched_def)
next
  case (OpEnable n v now)
  let ?g = "\<lambda>r. if r_name r = n then r\<lparr>r_enabled := if v then 1 else 0, r_updated := now\<rparr> else r"
  have "map r_id (map ?g (rows db)) = map r_id (rows db)" by simp
  moreover have "r_next (?g r) = r_next r" "r_id (?g r) = r_id r" for r by simp_all
  ultimately have "claimed_past H T (setEnabled n v now db)"
    using I unfolding claimed_past_def setEnabled_def by (auto simp del: map_map simp: Ball_def)
  then show ?thesis using OpEnable by (simp add: op_clock_def)
next
  case (OpDelete n)
  have "claimed_past H T (delete_sched n db)" using I unfolding claimed_past_def delete_sched_def
    by (auto simp: distinct_map inj_on_def)
  then show ?thesis using OpDelete by (simp add: op_clock_def)
qed

lemma run_keeps_past:
  assumes "claimed_past H T db" "\<forall>x \<in> set xs. honest_op x" "sorted (T # List.map_filter op_clock xs)"
  shows "\<exists>db' cs. store_run xs db = Some (db', cs) \<and> distinct (map claim_key cs) \<and> claim_key ` set cs \<inter> H = {}"
  using assms
proof (induction xs arbitrary: H T db)
  case (Cons x xs)
  let ?T = "case op_clock x of None \<Rightarrow> T | Some t \<Rightarrow> t"
  have c: "\<forall>t. op_clock x = Some t \<longrightarrow> T \<le> t" using Cons.prems(3) by (auto simp: map_filter_simps)
  obtain db1 cs1 where s: "store_step x db = Some (db1, cs1)" "claimed_past (H \<union> claim_key ` set cs1) ?T db1" "claim_key ` set cs1 \<inter> H = {}"
    using step_keeps_past [OF Cons.prems(1) _ c] Cons.prems(2) by auto
  have "sorted (?T # List.map_filter op_clock xs)" using Cons.prems(3) by (auto simp: map_filter_simps split: option.splits)
  then obtain db2 cs2 where r: "store_run xs db1 = Some (db2, cs2)" "distinct (map claim_key cs2)" "claim_key ` set cs2 \<inter> (H \<union> claim_key ` set cs1) = {}"
    using Cons.IH [OF s(2)] Cons.prems(2) by auto
  have "distinct (map claim_key cs1)" using step_claims_fresh [OF s(1)] by blast
  then show ?case using s r by auto
qed simp


end
