(* ===== verification/Cron_Delivery.thy ===== *)
theory Cron_Delivery
  imports Cron_Store_Claims
begin

text \<open>
  From the ledger of fires to Kafka: the job ids, what a tick does to claimed instants, the recovery of pending ones,
  the leader lock, and what stops a tick.
\<close>

subsection \<open>Job ids\<close>

lemma job_id_inj: "jobIDForFire i a = jobIDForFire j b \<longleftrightarrow> i = j \<and> a = b"
  by (auto simp: jobIDForFire_def dest!: itoa_split itoa_inj)

subsection \<open>A claimed instant is pending or sent\<close>

definition job_sent :: "int \<times> int \<Rightarrow> cron_sys \<Rightarrow> bool" where
  "job_sent k S = (\<exists>j \<in> set (sent S). q_job j = jobIDForFire (fst k) (snd k))"

definition still_pending :: "int \<times> int \<Rightarrow> cron_db \<Rightarrow> bool" where
  "still_pending k db = (\<exists>f \<in> set (fires db). fire_key f = k \<and> f_status f = Pending)"

text \<open>What is marked dispatched has been sent.\<close>

definition dispatched_sent :: "cron_sys \<Rightarrow> bool" where
  "dispatched_sent S = (\<forall>f \<in> set (fires (cdb S)). f_status f = Dispatched \<longrightarrow> job_sent (fire_key f) S)"

text \<open>One part of the scheduler keeps the instants: nothing is unsent, and a pending row stays or its job is sent.\<close>

definition keeps_fires :: "cron_sys \<Rightarrow> cron_sys \<Rightarrow> bool" where
  "keeps_fires S S' = ((dispatched_sent S \<longrightarrow> dispatched_sent S') \<and> (\<forall>k. job_sent k S \<longrightarrow> job_sent k S') \<and>
     (\<forall>k. still_pending k (cdb S) \<longrightarrow> still_pending k (cdb S') \<or> job_sent k S'))"

lemma keeps_refl [simp]: "keeps_fires S S"
  by (simp add: keeps_fires_def)

lemma keeps_trans: "keeps_fires S S1 \<Longrightarrow> keeps_fires S1 S2 \<Longrightarrow> keeps_fires S S2"
  unfolding keeps_fires_def by blast

lemma keeps_sentD: "keeps_fires S S' \<Longrightarrow> job_sent k S \<Longrightarrow> job_sent k S'"
  unfolding keeps_fires_def by blast

lemma keeps_safeD: "keeps_fires S S' \<Longrightarrow> still_pending k (cdb S) \<or> job_sent k S \<Longrightarrow> still_pending k (cdb S') \<or> job_sent k S'"
  unfolding keeps_fires_def by blast

lemma keeps_same: "fires (cdb S') = fires (cdb S) \<Longrightarrow> sent S' = sent S \<Longrightarrow> keeps_fires S S'"
  by (simp add: keeps_fires_def dispatched_sent_def job_sent_def still_pending_def)

lemma keeps_insert:
  assumes "sent S' = sent S"
    and "\<And>f. f \<in> set (fires (cdb S')) \<Longrightarrow> f \<in> set (fires (cdb S)) \<or> f_status f = Pending"
    and "\<And>f. f \<in> set (fires (cdb S)) \<Longrightarrow> f \<in> set (fires (cdb S'))"
  shows "keeps_fires S S'"
  using assms unfolding keeps_fires_def dispatched_sent_def job_sent_def still_pending_def by fastforce

lemma keeps_sent: "fires (cdb S') = fires (cdb S) \<Longrightarrow> set (sent S) \<subseteq> set (sent S') \<Longrightarrow> keeps_fires S S'"
proof -
  assume f: "fires (cdb S') = fires (cdb S)" and s: "set (sent S) \<subseteq> set (sent S')"
  have "job_sent k S'" if "job_sent k S" for k using that s unfolding job_sent_def by blast
  then show ?thesis unfolding keeps_fires_def dispatched_sent_def still_pending_def f by blast
qed

lemma keeps_mark:
  assumes "job_sent (i, a) S" and "cdb S' = markDispatched i a job now (cdb S)" and "sent S' = sent S"
  shows "keeps_fires S S'"
proof -
  have f: "fires (cdb S') = map (\<lambda>f. if f_sched f = i \<and> f_at f = a
      then f\<lparr>f_status := Dispatched, f_job := Some job, f_dispatched := Some now\<rparr> else f) (fires (cdb S))"
    using assms(2) by (simp add: markDispatched_def)
  have j: "job_sent k S' = job_sent k S" for k using assms(3) by (simp add: job_sent_def)
  have "dispatched_sent S'" if "dispatched_sent S"
    using that assms(1) unfolding dispatched_sent_def f j by (auto simp: fire_key_def split: if_splits)
  moreover have "still_pending k (cdb S') \<or> job_sent k S'" if p: "still_pending k (cdb S)" for k
  proof (cases "k = (i, a)")
    case False
    obtain g where g: "g \<in> set (fires (cdb S))" "fire_key g = k" "f_status g = Pending" using p by (auto simp: still_pending_def)
    then have "g \<in> set (fires (cdb S'))" using False unfolding f by (force simp: fire_key_def)
    then show ?thesis using g by (auto simp: still_pending_def)
  qed (use assms(1) j in simp)
  ultimately show ?thesis by (simp add: keeps_fires_def j)
qed

lemma keeps_marks: "job_sent (i, a) S \<Longrightarrow> keeps_fires S (S\<lparr>cdb := mark_tries E i a job ks (cdb S)\<rparr>)"
proof (induction ks arbitrary: S)
  case (Cons k ks)
  let ?S1 = "S\<lparr>cdb := when_run (fe_mark E k) (markDispatched i a job (fe_clock E k)) (cdb S)\<rparr>"
  have "keeps_fires S ?S1"
    using keeps_mark [OF Cons.prems, of ?S1 job "fe_clock E k"] keeps_same [of ?S1 S] by (cases "fe_mark E k") simp_all
  moreover have "keeps_fires ?S1 (?S1\<lparr>cdb := mark_tries E i a job ks (cdb ?S1)\<rparr>)"
    using Cons.IH [of ?S1] Cons.prems by (simp add: job_sent_def)
  ultimately show ?case by (auto simp: Let_def intro: keeps_trans)
qed (simp add: keeps_same)

lemma warn_frame [simp]: "cdb (warnNonUniqHandler uc cf S) = cdb S" "sent (warnNonUniqHandler uc cf S) = sent S"
  by (simp_all add: warnNonUniqHandler_def Let_def split: option.splits prod.splits)

lemma keeps_enqueue: "keeps_fires S (enqueue_fire uc E cf S)"
proof -
  let ?S0 = "warnNonUniqHandler uc cf S"
  let ?j = "\<lparr>q_type = c_job_type cf, q_args = c_args cf, q_job = jobIDForFire (c_sched cf) (c_at cf), q_tenant = c_tenant cf\<rparr>"
  let ?S1 = "?S0\<lparr>sent := sent ?S0 @ [?j], events := events ?S0 @ [CronFired (c_name cf) (c_job_type cf) (jobIDForFire (c_sched cf) (c_at cf)) (c_tenant cf)]\<rparr>"
  show ?thesis
  proof (cases "fe_enqueue E = Replied")
    case True
    have "keeps_fires S ?S1" by (rule keeps_sent) auto
    moreover have "job_sent (c_sched cf, c_at cf) ?S1" by (simp add: job_sent_def)
    moreover have e: "enqueue_fire uc E cf S = ?S1\<lparr>cdb := mark_tries E (c_sched cf) (c_at cf) (jobIDForFire (c_sched cf) (c_at cf)) [1..<Suc markDispatchedAttempts] (cdb ?S1)\<rparr>"
      using True by (simp add: enqueue_fire_def Let_def del: upt_Suc)
    ultimately show ?thesis unfolding e by (intro keeps_trans [OF _ keeps_marks])
  next
    case False
    then show ?thesis by (cases "fe_enqueue E") (auto simp: enqueue_fire_def Let_def intro: keeps_sent)
  qed
qed

lemma keeps_enqueue_all: "keeps_fires S (enqueue_all uc E cfs S)"
  by (induction cfs arbitrary: S) (auto intro: keeps_trans keeps_enqueue)

lemma keeps_dispatch: "dispatchDue c tzdb uc E S = Some S' \<Longrightarrow> keeps_fires S S'"
proof -
  assume d: "dispatchDue c tzdb uc E S = Some S'"
  obtain db r where r: "claimAndAdvance (planFor c tzdb (te_now E)) (te_now E) (te_created E) (batchSize c) (te_locked E) (te_claim E) (cdb S) = Some (db, r)"
    using d by (auto simp: dispatchDue_def split: option.splits)
  from r have "keeps_fires S (S\<lparr>cdb := db\<rparr>)"
  proof (cases rule: claimAndAdvance_cases)
    case (2 cs)
    show ?thesis using claim_scheds_frame(3,4) [OF 2(2)] by (intro keeps_insert) simp_all
  qed (simp add: keeps_same)
  then show ?thesis using d r by (auto simp: dispatchDue_def split: option.splits intro: keeps_trans keeps_enqueue_all)
qed

lemma keeps_recover: "keeps_fires S (recover_part c uc E S)"
proof -
  have "keeps_fires S (S\<lparr>lastRecover := t\<rparr>)" for t by (simp add: keeps_same)
  then show ?thesis by (auto simp: recover_part_def recover_fires_def intro: keeps_trans keeps_enqueue_all)
qed

text \<open>Pruning removes dispatched rows only, and leaves what was sent.\<close>

lemma keeps_prune: "keeps_fires S (prune_part c E S)"
  by (cases "te_prune E") (auto simp: prune_part_def prune_def Let_def keeps_fires_def dispatched_sent_def job_sent_def still_pending_def)

lemma keeps_heartbeat: "heartbeat_part c tzdb E S = Some S' \<Longrightarrow> keeps_fires S S'"
  by (rule keeps_same) (auto simp: heartbeat_part_def heartbeat_def split: if_splits)

text \<open>The parts of any node's tick, with that node's own fields, and edits of the schedules. A tick is its dispatch and
  the rest; between the two, and after a dispatch that is never followed by the rest, other nodes may act.\<close>

datatype sys_op =
    SysDispatch ticker_cfg "string \<Rightarrow> zone option" "(string \<Rightarrow> bool \<times> bool) option" tick_env
  | SysRest ticker_cfg "string \<Rightarrow> zone option" "(string \<Rightarrow> bool \<times> bool) option" tick_env
  | SysNode "int option" "int option" "int option" "string list" "string rkey"
  | SysUpsert "string \<Rightarrow> zone option" int int fate upsert_req
  | SysEnable string bool int
  | SysDelete string

definition after_dispatch :: "ticker_cfg \<Rightarrow> (string \<Rightarrow> zone option) \<Rightarrow> (string \<Rightarrow> bool \<times> bool) option \<Rightarrow> tick_env \<Rightarrow> cron_sys \<Rightarrow> cron_sys option" where
  "after_dispatch c tzdb uc E S = heartbeat_part c tzdb E (prune_part c E (recover_part c uc E S))"

fun sys_step :: "sys_op \<Rightarrow> cron_sys \<Rightarrow> cron_sys option" where
  "sys_step (SysDispatch c tzdb uc E) S = dispatchDue c tzdb uc E S"
| "sys_step (SysRest c tzdb uc E) S = after_dispatch c tzdb uc E S"
| "sys_step (SysNode r p h w k) S = Some (S\<lparr>lastRecover := r, lastPrune := p, lastHeartbeat := h, warnedNonUniq := w, leader := k\<rparr>)"
| "sys_step (SysUpsert tzdb t0 now got u) S = map_option (\<lambda>(db, _). S\<lparr>cdb := db\<rparr>) (upsert tzdb t0 now got u (cdb S))"
| "sys_step (SysEnable n v now) S = Some (S\<lparr>cdb := setEnabled n v now (cdb S)\<rparr>)"
| "sys_step (SysDelete n) S = Some (S\<lparr>cdb := delete_sched n (cdb S)\<rparr>)"

fun sys_run :: "sys_op list \<Rightarrow> cron_sys \<Rightarrow> cron_sys option" where
  "sys_run [] S = Some S"
| "sys_run (x # xs) S = (case sys_step x S of None \<Rightarrow> None | Some S1 \<Rightarrow> sys_run xs S1)"

lemma tick_body_parts: "tick_body c tzdb uc E S = sys_run [SysDispatch c tzdb uc E, SysRest c tzdb uc E] S"
  by (simp add: tick_body_def after_dispatch_def split: option.splits)

lemma keeps_step: "sys_step x S = Some S' \<Longrightarrow> keeps_fires S S'"
proof (cases x)
  case (SysRest c tzdb uc E)
  assume "sys_step x S = Some S'"
  then have "keeps_fires (prune_part c E (recover_part c uc E S)) S'" using SysRest keeps_heartbeat by (simp add: after_dispatch_def)
  then show ?thesis using keeps_recover keeps_prune keeps_trans by metis
qed (auto simp: keeps_same setEnabled_def delete_sched_def dest: keeps_dispatch upsert_frame)

lemma keeps_run: "sys_run xs S = Some S' \<Longrightarrow> keeps_fires S S'"
  by (induction xs arbitrary: S) (auto split: option.splits intro: keeps_trans dest: keeps_step)

definition empty_sys :: cron_sys where
  "empty_sys = \<lparr>cdb = empty_db, leader = None, lastRecover = None, lastPrune = None, lastHeartbeat = None,
     warnedNonUniq = [], sent = [], events = []\<rparr>"

text \<open>C30. A claimed instant is not lost. Start with empty tables and let any nodes dispatch, recover, prune and edit
  schedules in any order, with every failure of a transaction, of an enqueue_fire or of a mark, and with nodes that stop
  after any part of a tick: once an instant is in the ledger, then ever after its row is pending, or the job with its
  deterministic id has been handed to Kafka.\<close>

theorem claimed_instant_pending_or_sent:
  assumes "sys_run xs empty_sys = Some S1" and "k \<in> ledger_keys (cdb S1)" and "sys_run ys S1 = Some S2"
  shows "still_pending k (cdb S2) \<or> job_sent k S2"
proof -
  have "dispatched_sent empty_sys" by (simp add: dispatched_sent_def empty_sys_def empty_db_def)
  then have d: "dispatched_sent S1" using keeps_run [OF assms(1)] by (simp add: keeps_fires_def)
  obtain f where f: "f \<in> set (fires (cdb S1))" "fire_key f = k" using assms(2) by (auto simp: ledger_keys_def)
  have "still_pending k (cdb S1) \<or> job_sent k S1"
    using f d by (cases "f_status f") (auto simp: still_pending_def dispatched_sent_def)
  then show ?thesis by (rule keeps_safeD [OF keeps_run [OF assms(3)]])
qed

subsection \<open>Recovery\<close>

lemma enqueue_sent: "fe_enqueue E = Replied \<Longrightarrow> job_sent (claim_key cf) (enqueue_fire uc E cf S)"
  by (simp add: enqueue_fire_def Let_def job_sent_def claim_key_def)

lemma enqueue_all_sent:
  "cf \<in> set cfs \<Longrightarrow> fe_enqueue (E cf) = Replied \<Longrightarrow> job_sent (claim_key cf) (enqueue_all uc E cfs S)"
proof (induction cfs arbitrary: S)
  case (Cons x xs)
  show ?case
  proof (cases "cf = x")
    case True
    then have "job_sent (claim_key cf) (enqueue_fire uc (E x) x S)" using Cons.prems(2) enqueue_sent by simp
    then show ?thesis by (simp add: keeps_sentD [OF keeps_enqueue_all])
  next
    case False
    then show ?thesis using Cons.IH Cons.prems by simp
  qed
qed simp

lemma recovered_key: "recovered_of db f = Some cf \<Longrightarrow> claim_key cf = fire_key f"
  by (auto simp: recovered_of_def claim_key_def fire_key_def)

lemma recovered_exists: "\<exists>r \<in> set (rows db). r_id r = f_sched f \<Longrightarrow> \<exists>cf. recovered_of db f = Some cf"
proof -
  assume "\<exists>r \<in> set (rows db). r_id r = f_sched f"
  then have "find (\<lambda>r. r_id r = f_sched f) (rows db) \<noteq> None" unfolding find_None_iff by blast
  then show ?thesis by (auto simp: recovered_of_def)
qed

text \<open>C37. The recovery finds what a crash left behind. If a tick reaches the recovery part, the query and the enqueuer
  answer, and no more fires are pending past the grace than one batch takes, then every such fire whose schedule still
  exists is sent, with the id it would have had.\<close>

theorem pending_fires_recovered:
  assumes "part_due (te_now E) (recoverEvery c) (lastRecover S)" and "te_recover_ok E" and "0 < batchSize c"
    and "int (length (filter (\<lambda>f. f_status f = Pending \<and> f_created f < te_now E - recoverGrace c) (fires (cdb S)))) \<le> batchSize c"
    and "f \<in> set (fires (cdb S))" and "f_status f = Pending" and "f_created f < te_now E - recoverGrace c"
    and "\<exists>r \<in> set (rows (cdb S)). r_id r = f_sched f" and "\<forall>cf. fe_enqueue (te_refire E cf) = Replied"
  shows "job_sent (fire_key f) (recover_part c uc E S)"
proof -
  let ?old = "filter (\<lambda>f. f_status f = Pending \<and> f_created f < te_now E - recoverGrace c) (fires (cdb S))"
  obtain cf where cf: "recovered_of (cdb S) f = Some cf" using recovered_exists [OF assms(8)] by blast
  have "cf \<in> set (List.map_filter (recovered_of (cdb S)) (sort_key f_created ?old))"
    using assms(5-7) cf by (force simp: map_filter_def)
  moreover have "length (List.map_filter (recovered_of (cdb S)) (sort_key f_created ?old)) \<le> nat (batchSize c)"
    using assms(4) by (simp add: map_filter_def) (metis (no_types, lifting) length_filter_le length_sort nat_int nat_mono order_trans)
  ultimately have "cf \<in> set (recoverPending (te_now E - recoverGrace c) (batchSize c) (cdb S))"
    using assms(3) by (simp add: recoverPending_def)
  then show ?thesis using assms(1,2,9) enqueue_all_sent [of cf] recovered_key [OF cf]
    by (simp add: recover_part_def recover_fires_def)
qed

text \<open>But a batch of fires whose enqueue always fails (their job type is gone, say) stays at the head of the query: the
  recovery changes nothing, and the next one is given the same fires.\<close>

lemma failing_head_starves_recovery:
  assumes "\<forall>cf \<in> set (recoverPending (te_now E - recoverGrace c) (batchSize c) (cdb S)). fe_enqueue (te_refire E cf) \<noteq> Replied"
  shows "cdb (recover_fires c uc E S) = cdb S"
proof -
  have "cdb (enqueue_all uc G cfs S) = cdb S" if "\<forall>cf \<in> set cfs. fe_enqueue (G cf) \<noteq> Replied" for G cfs
    using that by (induction cfs arbitrary: S) (auto simp: enqueue_fire_def Let_def when_run_def)
  then show ?thesis using assms by (simp add: recover_fires_def)
qed

subsection \<open>The leader lock\<close>

definition grab_leader :: "int \<Rightarrow> int \<Rightarrow> string \<Rightarrow> string rkey \<Rightarrow> string rkey \<times> bool" where
  "grab_leader ttl clk token k = (let (k', r) = lock_acquire clk ttl (Some token) Replied k in (k', r = Some (token, True)))"

interpretation leaderReg: claim_register "grab_leader ttl" "\<lambda>_. ()" "\<lambda>clk _ k. key_held clk k" ttl "\<lambda>_. True" for ttl
proof (unfold_locales, goal_cases)
  case (1 clk k s)
  then show ?case by (simp add: grab_leader_def lock_acquire_def key_held_def Let_def)
next
  case (2 k clk s clk')
  then show ?case by (simp add: grab_leader_def lock_acquire_def Let_def split: if_splits)
next
  case (3 clk' i s clk k')
  then have "purge_key clk s = s" "s \<noteq> None" by (blast dest: key_held_purge key_held_some)+
  then show ?case using 3 by (auto simp: grab_leader_def lock_acquire_def Let_def)
qed

text \<open>Only the holder's token releases the lock.\<close>

lemma foreign_release_keeps: "key_held clk k \<Longrightarrow> key_val '''' k \<noteq> token \<Longrightarrow> lock_release clk token got k = k"
  using key_held_purge [of clk k clk] by (cases got) (auto simp: lock_release_def)

lemma own_release_frees: "token \<noteq> '''' \<Longrightarrow> clk < clk0 + ttl \<Longrightarrow> lock_release clk token Replied (set_key_ex clk0 ttl token) = None"
  by (simp add: lock_release_def set_key_ex_def purge_key_def cell_live_def key_val_def)

subsection \<open>What stops a tick\<close>

lemma claim_scheds_hangs: "sc \<in> set scs \<Longrightarrow> pl sc = PlanHangs \<Longrightarrow> claim_scheds pl t scs db = None"
  by (induction scs arbitrary: db) (auto simp: claim_sched_def split: option.splits)

lemma planFires_hangs: "next_fire e z nxt = None \<Longrightarrow> nxt \<le> now \<Longrightarrow> 1 \<le> mb \<Longrightarrow> planFires mis nxt e z now grace mb = None"
  by (cases mis) (simp_all add: planFires_def advancePast_def advance_loop.simps backfill_loop.simps Let_def)


end
