(* ===== verification/Cron_Demo.thy ===== *)
theory Cron_Demo
  imports Cron_Delivery
begin

text \<open>
  The scheduler at concrete tables: a report in UTC in the first minutes after ten on some days of January, ticks in January 1970, and the New York
  schedule of 2026. Each theorem about the tables and the ticker is applied here.
\<close>

definition cron_cfg :: ticker_cfg where
  "cron_cfg = \<lparr>window = 30, batchSize = 4, misfireGrace = 60, maxBackfill = 3, recoverEvery = 300, recoverGrace = 120,
     pruneEvery = 3600, pruneRetention = 604800, heartbeatEvery = 60, staleFactor = 2\<rparr>"

definition no_zones :: "string \<Rightarrow> zone option" where "no_zones = (\<lambda>_. None)"

definition report_req :: upsert_req where
  "report_req = \<lparr>u_name = ''report'', u_cron = ''1-5 10 11 1 0'', u_timezone = '''', u_job_type = ''Report'', u_args = None,
     u_tenant = '''', u_enabled = True, u_misfire = ''backfill''\<rparr>"

definition report_db :: cron_db where
  "report_db = \<lparr>rows = [\<lparr>r_id = 1, r_name = ''report'', r_cron = ''1-5 10 11 1 0'', r_timezone = ''UTC'', r_job_type = ''Report'',
     r_args = Some (JObj []), r_tenant = None, r_enabled = 1, r_misfire = ''backfill'', r_next = 900060, r_last = None,
     r_created = 900000, r_updated = 900000\<rparr>], fires = [], auto_id = 2\<rparr>"

lemma report_upserted: "upsert no_zones 900000 900000 Replied report_req empty_db = Some (report_db, Inr 1)"
  by code_simp

definition claim_at :: "int \<Rightarrow> fate \<Rightarrow> store_op" where
  "claim_at now got = OpClaim (planFor cron_cfg no_zones now) now now 4 (\<lambda>_. False) got"

subsection \<open>Claims\<close>

theorem claim_transaction_exact_witness:
  "\<exists>db' cs. claimAndAdvance (planFor cron_cfg no_zones 900150) 900150 900150 4 (\<lambda>_. False) Replied report_db = Some (db', Some cs) \<and>
     map claim_key cs = [(1, 900060), (1, 900120)] \<and>
     claim_key ` set cs = planned_keys (planFor cron_cfg no_zones 900150) (due_rows 900150 4 (\<lambda>_. False) report_db) - ledger_keys report_db"
proof -
  let ?r = "claimAndAdvance (planFor cron_cfg no_zones 900150) 900150 900150 4 (\<lambda>_. False) Replied report_db"
  have "map_option (\<lambda>(db, cs). map_option (map claim_key) cs) ?r = Some (Some [(1, 900060), (1, 900120)])" by code_simp
  then obtain db' cs where r: "?r = Some (db', Some cs)" "map claim_key cs = [(1, 900060), (1, 900120)]" by auto
  have "distinct (map r_id (rows report_db))" by code_simp
  note t = claim_transaction_exact [OF this r(1)]
  show ?thesis by (intro exI [of _ db'] exI [of _ cs] conjI r conjunct1 [OF t])
qed

definition once_ops :: "store_op list" where
  "once_ops = [claim_at 900150 Replied, claim_at 900150 Replied, OpMark 1 900060 ''sched-1-900060'' 900151, claim_at 900210 Replied]"

theorem ledger_claims_once_witness:
  "\<exists>db' cs. store_run once_ops report_db = Some (db', cs) \<and> length cs = 3 \<and> distinct (map claim_key cs)"
proof -
  have "map_option (\<lambda>(db, cs). length cs) (store_run once_ops report_db) = Some 3" by code_simp
  then obtain db' cs where r: "store_run once_ops report_db = Some (db', cs)" "length cs = 3" by auto
  have "\<forall>t. OpPrune t \<notin> set once_ops" by (simp add: once_ops_def claim_at_def)
  from ledger_claims_once [OF r(1) this] r show ?thesis by blast
qed

definition pruned_ops :: "store_op list" where
  "pruned_ops = [OpUpsert no_zones 900000 900000 Replied report_req, claim_at 900090 Replied, OpMark 1 900060 ''sched-1-900060'' 900091,
     OpPrune 999999, claim_at 900150 Replied]"


subsection \<open>Ticks\<close>

definition fire_ok :: fire_env where
  "fire_ok = \<lparr>fe_enqueue = Replied, fe_mark = (\<lambda>_. Replied), fe_clock = (\<lambda>_. 900500), fe_gone = (\<lambda>_. False)\<rparr>"

definition tick_at :: "int \<Rightarrow> fate \<Rightarrow> tick_env" where
  "tick_at now enq = \<lparr>te_lock = False, te_lock_clk = now, te_token = Some ''t'', te_acquire = Replied, te_release = Replied, te_release_clk = now,
     te_now = now, te_created = now, te_locked = (\<lambda>_. False), te_claim = Replied, te_fire = (\<lambda>_. fire_ok\<lparr>fe_enqueue := enq\<rparr>),
     te_recover_ok = True, te_refire = (\<lambda>_. fire_ok), te_prune = Replied, te_list_ok = False\<rparr>"

text \<open>The first tick claims the instant and fails to enqueue it; the next one finds it.\<close>

definition crashed_ops :: "sys_op list" where
  "crashed_ops = [SysUpsert no_zones 900000 900000 Replied report_req, SysDispatch cron_cfg no_zones None (tick_at 900090 NotRun)]"

definition later_ops :: "sys_op list" where
  "later_ops = [SysDispatch cron_cfg no_zones None (tick_at 900480 Replied), SysRest cron_cfg no_zones None (tick_at 900480 Replied)]"

theorem claimed_instant_pending_or_sent_witness:
  "\<exists>S1 S2. sys_run crashed_ops empty_sys = Some S1 \<and> (1, 900060) \<in> ledger_keys (cdb S1) \<and> sent S1 = [] \<and> sys_run later_ops S1 = Some S2 \<and>
     (still_pending (1, 900060) (cdb S2) \<or> job_sent (1, 900060) S2)"
proof -
  have "map_option (\<lambda>S. (map fire_key (fires (cdb S)), sent S)) (sys_run crashed_ops empty_sys) = Some ([(1, 900060)], [])" by code_simp
  then obtain S1 where S1: "sys_run crashed_ops empty_sys = Some S1" "map fire_key (fires (cdb S1)) = [(1, 900060)]" "sent S1 = []" by auto
  have "(1, 900060) \<in> set (map fire_key (fires (cdb S1)))" unfolding S1(2) by simp
  then have k: "(1, 900060) \<in> ledger_keys (cdb S1)" by (simp add: ledger_keys_def)
  have "sys_run later_ops (the (sys_run crashed_ops empty_sys)) \<noteq> None" by code_simp
  then obtain S2 where S2: "sys_run later_ops S1 = Some S2" using S1(1) by auto
  show ?thesis using claimed_instant_pending_or_sent [OF S1(1) k S2] S1 k S2 by blast
qed

definition crashed_sys :: cron_sys where
  "crashed_sys = the (sys_run crashed_ops empty_sys)"

theorem pending_fires_recovered_witness:
  "\<exists>f. fires (cdb crashed_sys) = [f] \<and> fire_key f = (1, 900060) \<and> job_sent (fire_key f) (recover_part cron_cfg None (tick_at 900480 Replied) crashed_sys)"
proof -
  have "map (\<lambda>f. (fire_key f, f_status f, f_created f)) (fires (cdb crashed_sys)) = [((1, 900060), Pending, 900090)]" by code_simp
  then obtain f where f: "fires (cdb crashed_sys) = [f]" "fire_key f = (1, 900060)" "f_status f = Pending" "f_created f = 900090" by auto
  have c: "batchSize cron_cfg = 4" "recoverGrace cron_cfg = 120" by code_simp+
  have d: "part_due 900480 (recoverEvery cron_cfg) (lastRecover crashed_sys)" by code_simp
  have "map r_id (rows (cdb crashed_sys)) = [1]" by code_simp
  then have r: "\<exists>r \<in> set (rows (cdb crashed_sys)). r_id r = f_sched f" using f(2) by (auto simp: fire_key_def)
  show ?thesis
    using pending_fires_recovered [of "tick_at 900480 Replied" cron_cfg crashed_sys f None] f c d r
    by (simp add: tick_at_def fire_ok_def)
qed

text \<open>The New York schedule with a sibling that is due as well.\<close>

definition ny_zones :: "string \<Rightarrow> zone option" where
  "ny_zones n = (if n = ''America/New_York'' then Some new_york else None)"

definition ny_row :: sched_row where
  "ny_row = \<lparr>r_id = 2, r_name = ''close'', r_cron = ''59 23 * * *'', r_timezone = ''America/New_York'', r_job_type = ''Close'',
     r_args = None, r_tenant = None, r_enabled = 1, r_misfire = ''fire_once'', r_next = 1793505540, r_last = None, r_created = 0, r_updated = 0\<rparr>"

definition ny_sys :: cron_sys where
  "ny_sys = empty_sys\<lparr>cdb := report_db\<lparr>rows := rows report_db @ [ny_row]\<rparr>\<rparr>"


end
