(* ===== verification/Schedule_Index.thy ===== *)
theory Schedule_Index
  imports Sorted_Set Wire_Json Decimal_Text
begin

text \<open>
  The index of delayed jobs (\<^verbatim>\<open>pkg/schedule/member.go\<close>, \<^verbatim>\<open>redis.go\<close>, \<^verbatim>\<open>lua.go\<close>, \<^verbatim>\<open>mysql.go\<close>).

  \<^item> A member is the text \<^verbatim>\<open>job_id:partition:offset\<close> of a job's record on the scheduled topic.
  \<^item> The Redis index has two sorted sets, the pending members by due time and the claimed ones by the end of their
    lease. The MySQL index has one row per job.
  \<^item> Times are in nanoseconds; the code's floating point seconds are taken as exact.
  \<^item> \<open>IndexStore\<close> is the Go interface: a record of the operations the poller calls, one for each of the two stores.
\<close>

subsection \<open>Members\<close>

definition buildKey :: "int \<Rightarrow> int \<Rightarrow> string" where
  "buildKey p d = itoa p @ '':'' @ itoa d"

definition buildMember :: "string \<Rightarrow> int \<Rightarrow> int \<Rightarrow> string" where
  "buildMember j p d = j @ '':'' @ itoa p @ '':'' @ itoa d"

text \<open>\<open>strings.LastIndex(s, ":")\<close>, with the text before and after.\<close>

definition cut_last :: "string \<Rightarrow> (string \<times> string) option" where
  "cut_last s =
     (if CHR '':'' \<in> set s
      then Some (rev (tl (dropWhile (\<lambda>c. c \<noteq> CHR '':'') (rev s))), rev (takeWhile (\<lambda>c. c \<noteq> CHR '':'') (rev s)))
      else None)"

text \<open>The conversion of an \<open>int\<close> to \<open>int32\<close>.\<close>

definition int32 :: "int \<Rightarrow> int" where
  "int32 x = (x + 2147483648) mod 4294967296 - 2147483648"

definition parseMember :: "string \<Rightarrow> (string \<times> int \<times> int) option" where
  "parseMember s =
     (case cut_last s of
        None \<Rightarrow> None
      | Some (rest, offsetStr) \<Rightarrow>
          if rest = '''' then None
          else (case cut_last rest of
             None \<Rightarrow> None
           | Some (jobID, partStr) \<Rightarrow>
               if jobID = '''' \<or> partStr = '''' \<or> offsetStr = '''' then None
               else (case atoi partStr of
                  None \<Rightarrow> None
                | Some part \<Rightarrow> (case atoi offsetStr of None \<Rightarrow> None | Some off \<Rightarrow> Some (jobID, int32 part, off)))))"

subsection \<open>The interface\<close>

record 's index_store =
  ix_claim :: "int \<Rightarrow> int \<Rightarrow> nat \<Rightarrow> 's \<Rightarrow> 's \<times> string list"
  ix_ack :: "string list \<Rightarrow> 's \<Rightarrow> 's"
  ix_reclaim :: "int \<Rightarrow> 's \<Rightarrow> 's \<times> nat"
  ix_miss :: "string \<Rightarrow> 's \<Rightarrow> 's \<times> int"
  ix_clear :: "string \<Rightarrow> 's \<Rightarrow> 's"

definition second_ns :: int where "second_ns = 1000000000"

subsection \<open>Redis\<close>

record redis_index =
  pendingKey :: "(string \<times> int) list"
  inflightKey :: "(string \<times> int) list"
  readMissKey :: "string \<Rightarrow> int"

definition reclaim_limit :: "int \<Rightarrow> nat" where
  "reclaim_limit n = nat (if n \<le> 0 then 500 else n)"

definition redis_schedule :: "string \<Rightarrow> int \<Rightarrow> int \<Rightarrow> int \<Rightarrow> redis_index \<Rightarrow> redis_index" where
  "redis_schedule j runAt p d R = R\<lparr>pendingKey := zadd runAt (buildMember j p d) (pendingKey R)\<rparr>"

record schedule_entry =
  se_job :: string
  se_run_at :: int
  se_partition :: int
  se_offset :: int
  se_batch :: string

definition redis_scheduleMany :: "schedule_entry list \<Rightarrow> redis_index \<Rightarrow> redis_index" where
  "redis_scheduleMany es R = fold (\<lambda>e. redis_schedule (se_job e) (se_run_at e) (se_partition e) (se_offset e)) es R"

text \<open>\<open>ZRANGEBYSCORE z -inf mx LIMIT 0 n\<close>.\<close>

definition zdue :: "int \<Rightarrow> nat \<Rightarrow> (string \<times> int) list \<Rightarrow> string list" where
  "zdue mx n z = map fst (take n (filter (\<lambda>(_, s). s \<le> mx) z))"

definition claimDueLua :: "int \<Rightarrow> nat \<Rightarrow> int \<Rightarrow> redis_index \<Rightarrow> redis_index \<times> string list" where
  "claimDueLua now n until R =
     (let due = zdue now n (pendingKey R) in
      (fold (\<lambda>m R. R\<lparr>pendingKey := zrem m (pendingKey R), inflightKey := zadd until m (inflightKey R)\<rparr>) due R, due))"

definition reclaimLua :: "int \<Rightarrow> nat \<Rightarrow> redis_index \<Rightarrow> redis_index \<times> nat" where
  "reclaimLua now n R =
     (let expired = zdue now n (inflightKey R) in
      (fold (\<lambda>m R. R\<lparr>inflightKey := zrem m (inflightKey R), pendingKey := zadd now m (pendingKey R)\<rparr>) expired R, length expired))"

definition redis_ack :: "string list \<Rightarrow> redis_index \<Rightarrow> redis_index" where
  "redis_ack ms R = R\<lparr>inflightKey := filter (\<lambda>(m, _). m \<notin> set ms) (inflightKey R)\<rparr>"

definition redisIndex :: "int \<Rightarrow> redis_index index_store" where
  "redisIndex limit0 =
     \<lparr>ix_claim = (\<lambda>now lease n. claimDueLua now n (now + lease * second_ns)),
      ix_ack = redis_ack,
      ix_reclaim = (\<lambda>now. reclaimLua now (reclaim_limit limit0)),
      ix_miss = (\<lambda>m R. (R\<lparr>readMissKey := (readMissKey R)(m := readMissKey R m + 1)\<rparr>, readMissKey R m + 1)),
      ix_clear = (\<lambda>m R. R\<lparr>readMissKey := (readMissKey R)(m := 0)\<rparr>)\<rparr>"

subsection \<open>MySQL\<close>

record job_row =
  jr_job :: string
  jr_run_at :: int
  jr_partition :: int
  jr_offset :: int
  jr_batch :: "string option"
  jr_lease :: "int option"
  jr_created :: int

record mysql_index =
  job_rows :: "job_row list"
  readMisses :: "string \<Rightarrow> int"

definition mysql_schedule :: "int \<Rightarrow> schedule_entry \<Rightarrow> mysql_index \<Rightarrow> mysql_index" where
  "mysql_schedule now e M =
     (let bid = (if se_batch e \<noteq> '''' then Some (se_batch e) else None) in
      if \<exists>r \<in> set (job_rows M). jr_job r = se_job e
      then M\<lparr>job_rows := map (\<lambda>r. if jr_job r = se_job e
             then r\<lparr>jr_run_at := se_run_at e, jr_partition := se_partition e, jr_offset := se_offset e, jr_batch := bid, jr_lease := None\<rparr>
             else r) (job_rows M)\<rparr>
      else M\<lparr>job_rows := job_rows M @ [\<lparr>jr_job = se_job e, jr_run_at = se_run_at e, jr_partition = se_partition e,
             jr_offset = se_offset e, jr_batch = bid, jr_lease = None, jr_created = now\<rparr>]\<rparr>)"

text \<open>One transaction: the rows of all entries or none.\<close>

definition mysql_scheduleMany :: "int \<Rightarrow> schedule_entry list \<Rightarrow> mysql_index \<Rightarrow> mysql_index" where
  "mysql_scheduleMany now es M = fold (mysql_schedule now) es M"

definition row_member :: "job_row \<Rightarrow> string" where
  "row_member r = buildMember (jr_job r) (jr_partition r) (jr_offset r)"

definition claimable :: "int \<Rightarrow> job_row \<Rightarrow> bool" where
  "claimable now r = (jr_run_at r \<le> now \<and> (case jr_lease r of None \<Rightarrow> True | Some u \<Rightarrow> u \<le> now))"

definition mysql_claimDue :: "(string \<Rightarrow> bool) \<Rightarrow> int \<Rightarrow> int \<Rightarrow> nat \<Rightarrow> mysql_index \<Rightarrow> mysql_index \<times> string list" where
  "mysql_claimDue locked now lease n M =
     (let cs = take n (sort_key jr_run_at (filter (\<lambda>r. claimable now r \<and> \<not> locked (jr_job r)) (job_rows M))) in
      (M\<lparr>job_rows := map (\<lambda>r. if jr_job r \<in> jr_job ` set cs then r\<lparr>jr_lease := Some (now + lease * second_ns)\<rparr> else r) (job_rows M)\<rparr>,
       map row_member cs))"

definition mysql_ack :: "string list \<Rightarrow> mysql_index \<Rightarrow> mysql_index" where
  "mysql_ack ms M =
     M\<lparr>job_rows := filter (\<lambda>r. \<forall>m \<in> set ms. case parseMember m of None \<Rightarrow> True | Some (j, _) \<Rightarrow> j \<noteq> jr_job r) (job_rows M)\<rparr>"

definition mysql_reclaim :: "int \<Rightarrow> mysql_index \<Rightarrow> mysql_index \<times> nat" where
  "mysql_reclaim now M =
     (let old = (\<lambda>r. case jr_lease r of None \<Rightarrow> False | Some u \<Rightarrow> u \<le> now) in
      (M\<lparr>job_rows := map (\<lambda>r. if old r then r\<lparr>jr_lease := None\<rparr> else r) (job_rows M)\<rparr>, length (filter old (job_rows M))))"

definition mysqlIndex :: "(string \<Rightarrow> bool) \<Rightarrow> mysql_index index_store" where
  "mysqlIndex locked =
     \<lparr>ix_claim = mysql_claimDue locked, ix_ack = mysql_ack, ix_reclaim = mysql_reclaim,
      ix_miss = (\<lambda>m M. (M\<lparr>readMisses := (readMisses M)(m := readMisses M m + 1)\<rparr>, readMisses M m + 1)),
      ix_clear = (\<lambda>m M. M\<lparr>readMisses := (readMisses M)(m := 0)\<rparr>)\<rparr>"

end
