(* ===== verification/Schedule_Poller.thy ===== *)
theory Schedule_Poller
  imports Schedule_Index
begin

text \<open>
  The poller of delayed jobs (\<^verbatim>\<open>pkg/schedule/poller.go\<close>) with its reader of payloads (\<^verbatim>\<open>reader.go\<close>) and its router
  (\<^verbatim>\<open>router.go\<close>).

  \<^item> The poller is written over the interface \<open>index_store\<close>, as in the code.
  \<^item> The broker is a parameter of a read: the first and the next offset of each partition, and the records each poll
    returns before the deadline.
  \<^item> A call to Kafka or to the index has a \<open>fate\<close>. Payloads are decoded by the codec \<open>K\<close>.
\<close>

subsection \<open>Reading payloads\<close>

record read_result =
  found :: "(string \<times> string) list"
  lost :: "string list"

record partition_want =
  pw_partition :: int
  pw_want :: "int list"
  pw_max :: int

record log_rec =
  lr_topic :: string
  lr_partition :: int
  lr_offset :: int
  lr_value :: string

datatype poll = PollFails | Polled "log_rec list"

record broker =
  bk_start :: "(int \<Rightarrow> int) option"
  bk_end :: "(int \<Rightarrow> int) option"
  bk_client :: bool
  bk_polls :: "poll list"

text \<open>The wanted offsets of one partition, sorted; those below the first offset are lost, those at the end not there yet.\<close>

definition want_of :: "(int \<Rightarrow> int) \<Rightarrow> (int \<Rightarrow> int) \<Rightarrow> int \<times> int list \<Rightarrow> partition_want option \<times> string list" where
  "want_of low high po =
     (case po of (p, offs) \<Rightarrow>
        let ws = remdups (filter (\<lambda>d. low p \<le> d \<and> d < high p) (sort offs)) in
        (if ws = [] then None else Some \<lparr>pw_partition = p, pw_want = ws, pw_max = last ws\<rparr>,
         map (buildKey p) (filter (\<lambda>d. d < low p) (sort offs))))"

definition scanSlack :: int where "scanSlack = 1000"

text \<open>One record: the first entry of its partition either is given up, or takes the record if it wants it.\<close>

fun take_record :: "log_rec \<Rightarrow> partition_want list \<Rightarrow> (string \<times> string) list \<Rightarrow> partition_want list \<times> (string \<times> string) list" where
  "take_record r [] f = ([], f)"
| "take_record r (w # ws) f =
     (if pw_partition w \<noteq> lr_partition r then (let (ws', f') = take_record r ws f in (w # ws', f'))
      else if pw_want w = [] then (w # ws, f)
      else if lr_offset r > pw_max w + scanSlack then (w\<lparr>pw_want := []\<rparr> # ws, f)
      else if lr_offset r \<in> set (pw_want w)
      then (w\<lparr>pw_want := filter (\<lambda>d. d \<noteq> lr_offset r) (pw_want w)\<rparr> # ws,
            (buildKey (pw_partition w) (lr_offset r), lr_value r) # f)
      else (w # ws, f))"

definition remaining :: "partition_want list \<Rightarrow> nat" where
  "remaining ws = sum_list (map (\<lambda>w. length (pw_want w)) ws)"

fun each_record :: "string \<Rightarrow> log_rec list \<Rightarrow> partition_want list \<Rightarrow> (string \<times> string) list \<Rightarrow> partition_want list \<times> (string \<times> string) list" where
  "each_record topic [] ws f = (ws, f)"
| "each_record topic (r # rs) ws f =
     (if lr_topic r \<noteq> topic then each_record topic rs ws f
      else let (ws', f') = take_record r ws f in each_record topic rs ws' f')"

text \<open>The list of polls ends at the deadline.\<close>

fun read_polls :: "string \<Rightarrow> poll list \<Rightarrow> partition_want list \<Rightarrow> (string \<times> string) list \<Rightarrow> (string \<times> string) list option" where
  "read_polls topic [] ws f = Some f"
| "read_polls topic (q # qs) ws f =
     (if remaining ws = 0 then Some f
      else case q of
        PollFails \<Rightarrow> None
      | Polled rs \<Rightarrow> (let (ws', f') = each_record topic rs ws f in read_polls topic qs ws' f'))"

definition read_payloads :: "string \<Rightarrow> broker \<Rightarrow> (int \<times> int list) list \<Rightarrow> read_result option" where
  "read_payloads topic B byPartition =
     (if byPartition = [] then Some \<lparr>found = [], lost = []\<rparr>
      else case (bk_start B, bk_end B) of
        (Some low, Some high) \<Rightarrow>
          (let wants = map (want_of low high) (filter (\<lambda>(_, offs). offs \<noteq> []) byPartition);
               ws = List.map_filter fst wants; gone = concat (map snd wants) in
           if ws = [] then Some \<lparr>found = [], lost = gone\<rparr>
           else if \<not> bk_client B then None
           else map_option (\<lambda>f. \<lparr>found = f, lost = gone\<rparr>) (read_polls topic (bk_polls B) ws []))
      | _ \<Rightarrow> None)"

subsection \<open>Routing\<close>

record handler_entry =
  he_runtime :: string
  he_topic :: string
  he_fairness :: string

record route =
  rt_topic :: string
  rt_key :: string
  rt_partition :: "int option"

datatype route_error = NoRoute string string | UnknownFairness string

text \<open>\<open>dr_tenants\<close> is what the resolver of tenant partitions answers.\<close>

record daemon_router =
  dr_handlers :: "(string \<times> handler_entry) list"
  dr_time_ingest :: string
  dr_throughput_ingest :: string
  dr_static :: "string \<rightharpoonup> int"
  dr_default :: string
  dr_tenants :: "string \<Rightarrow> string \<Rightarrow> int option"

definition text_field :: "string \<Rightarrow> (string \<times> json) list \<Rightarrow> string" where
  "text_field k m = (case jget k m of Some (JStr s) \<Rightarrow> s | _ \<Rightarrow> '''')"

definition sched_fairRoute :: "daemon_router \<Rightarrow> string \<Rightarrow> string \<Rightarrow> string \<Rightarrow> string \<Rightarrow> route_error + route" where
  "sched_fairRoute D ft jobID tenantID batchID =
     (let key = (if tenantID \<noteq> '''' then tenantID else if batchID \<noteq> '''' then batchID else jobID) in
      if ft \<noteq> ''time'' \<and> ft \<noteq> ''throughput'' then Inl (UnknownFairness ft)
      else let t = (if ft = ''time'' then dr_time_ingest D else dr_throughput_ingest D);
               p = (if tenantID = '''' then None
                    else case dr_static D tenantID of Some p \<Rightarrow> Some p | None \<Rightarrow> dr_tenants D tenantID ft)
           in Inr \<lparr>rt_topic = t, rt_key = (if p = None then key else ''''), rt_partition = p\<rparr>)"

definition sched_handler :: "daemon_router \<Rightarrow> string \<Rightarrow> string \<Rightarrow> handler_entry option" where
  "sched_handler D jobType worker =
     (case (if jobType \<noteq> '''' then map_of (dr_handlers D) jobType else None) of
        Some h \<Rightarrow> Some h
      | None \<Rightarrow>
          if worker = '''' then None
          else map_option snd (find (\<lambda>(jt, h). he_runtime h = ''go'' \<and> ''go:'' @ jt = worker) (dr_handlers D)))"

definition sched_route :: "daemon_router \<Rightarrow> (string \<times> json) list \<Rightarrow> route_error + route" where
  "sched_route D m =
     (let jobType = text_field ''job_type'' m; jobID = text_field ''job_id'' m; worker = text_field ''worker_class'' m in
      case sched_handler D jobType worker of
        Some h \<Rightarrow>
          if he_fairness h \<noteq> '''' then sched_fairRoute D (he_fairness h) jobID (text_field ''tenant_id'' m) (text_field ''batch_id'' m)
          else if he_topic h \<noteq> '''' then Inr \<lparr>rt_topic = he_topic h, rt_key = jobID, rt_partition = None\<rparr>
          else if dr_default D \<noteq> '''' then Inr \<lparr>rt_topic = dr_default D, rt_key = jobID, rt_partition = None\<rparr>
          else Inl (NoRoute jobType worker)
      | None \<Rightarrow>
          if dr_default D \<noteq> '''' then Inr \<lparr>rt_topic = dr_default D, rt_key = jobID, rt_partition = None\<rparr>
          else Inl (NoRoute jobType worker))"

subsection \<open>Dispatching a due job\<close>

record sched_cfg =
  scheduledTopic :: string
  sched_dlt :: string
  scheduleReclaimEvery :: int
  scheduleLeaseSeconds :: int
  scheduleBatchSize :: nat
  skipCancelled :: bool
  partitioned :: bool

text \<open>What a tick hands to Kafka, or drops, for a member. The texts of errors are parameters.\<close>

datatype drop_reason = Retention | BadPayload | CancelledBatch

datatype sched_out =
    SentJob string route string string
  | ParkedRoute string string "(string \<times> json) list"
  | ParkedMiss string string "(string \<times> json) list"
  | DroppedJob string drop_reason

definition out_member :: "sched_out \<Rightarrow> string" where
  "out_member x = (case x of SentJob m _ _ _ \<Rightarrow> m | ParkedRoute m _ _ \<Rightarrow> m | ParkedMiss m _ _ \<Rightarrow> m | DroppedJob m _ \<Rightarrow> m)"

text \<open>The environment of one item: the cancellation look-up (\<open>None\<close>: an error or none configured), the produce call, the
  counting of a read miss and its clearing.\<close>

record item_env =
  ie_cancelled :: "bool option"
  ie_produce :: fate
  ie_miss :: fate
  ie_clear :: fate

definition maxReadMisses :: int where "maxReadMisses = 10"

definition parkRouteError :: "(route_error \<Rightarrow> string) \<Rightarrow> sched_cfg \<Rightarrow> item_env \<Rightarrow> string \<Rightarrow> string \<Rightarrow> string \<Rightarrow> (string \<times> json) list \<Rightarrow> route_error \<Rightarrow> sched_out list \<times> bool" where
  "parkRouteError say C E member jobID raw m err =
     (if sched_dlt C = '''' then ([], False)
      else let wc = text_field ''worker_class'' m;
               body = [(''job_id'', JStr jobID), (''batch_id'', JStr (text_field ''batch_id'' m)),
                       (''worker_class'', JStr (if wc = '''' then text_field ''job_type'' m else wc)),
                       (''dlt_type'', JStr ''schedule_route_error''), (''dlt_error_message'', JStr (say err)), (''dlt_raw_payload'', JStr raw)]
           in (if ie_produce E = NotRun then [] else [ParkedRoute member jobID body], ie_produce E = Replied))"

definition parkReadMiss :: "(int \<Rightarrow> string \<Rightarrow> string) \<Rightarrow> sched_cfg \<Rightarrow> item_env \<Rightarrow> string \<Rightarrow> string \<Rightarrow> string \<Rightarrow> int \<Rightarrow> sched_out list \<times> bool" where
  "parkReadMiss say C E member jobID loc misses =
     (if sched_dlt C = '''' then ([], False)
      else let body = [(''job_id'', JStr jobID), (''dlt_type'', JStr ''schedule_read_miss''), (''dlt_error_message'', JStr (say misses loc)),
                       (''scheduled_topic'', JStr (scheduledTopic C)), (''location'', JStr loc)]
           in (if ie_produce E = NotRun then [] else [ParkedMiss member jobID body], ie_produce E = Replied))"

text \<open>The key of a record whose route has none; a producer that cannot address a partition sends by key.\<close>

definition send_route :: "sched_cfg \<Rightarrow> (string \<times> json) list \<Rightarrow> route \<Rightarrow> route" where
  "send_route C m r =
     (let key = (if rt_key r = '''' then text_field ''job_id'' m else rt_key r) in
      r\<lparr>rt_key := key, rt_partition := (if partitioned C then rt_partition r else None)\<rparr>)"

definition payload_map :: "codec \<Rightarrow> string \<Rightarrow> (string \<times> json) list option" where
  "payload_map K raw = (case jdec K raw of Some (JObj m) \<Rightarrow> Some m | Some JNull \<Rightarrow> Some [] | _ \<Rightarrow> None)"

definition produceDue ::
  "codec \<Rightarrow> (route_error \<Rightarrow> string) \<Rightarrow> sched_cfg \<Rightarrow> daemon_router \<Rightarrow> item_env \<Rightarrow> string \<Rightarrow> string \<Rightarrow> string \<Rightarrow> sched_out list \<times> bool" where
  "produceDue K say C D E member raw jobID =
     (case payload_map K raw of
        None \<Rightarrow> ([DroppedJob member BadPayload], True)
      | Some m \<Rightarrow>
          if skipCancelled C \<and> text_field ''batch_id'' m \<noteq> '''' \<and> ie_cancelled E = Some True then ([DroppedJob member CancelledBatch], True)
          else (case sched_route D m of
             Inl err \<Rightarrow> parkRouteError say C E member jobID raw m err
           | Inr r \<Rightarrow> (if ie_produce E = NotRun then [] else [SentJob member (send_route C m r) raw jobID], ie_produce E = Replied)))"

subsection \<open>A tick\<close>

record tick_in =
  ti_now :: int
  ti_reclaim :: fate
  ti_claim :: fate
  ti_broker :: broker
  ti_item :: "string \<Rightarrow> item_env"
  ti_ack :: nat

record texts =
  tx_route :: "route_error \<Rightarrow> string"
  tx_miss :: "int \<Rightarrow> string \<Rightarrow> string"

definition parsed_members :: "string list \<Rightarrow> (string \<times> string \<times> int \<times> int) list" where
  "parsed_members ms = List.map_filter (\<lambda>m. map_option (\<lambda>p. (m, p)) (parseMember m)) ms"

definition by_partition :: "(string \<times> string \<times> int \<times> int) list \<Rightarrow> (int \<times> int list) list" where
  "by_partition ps =
     map (\<lambda>p. (p, sort (map (\<lambda>(_, _, _, d). d) (filter (\<lambda>(_, _, q, _). q = p) ps)))) (remdups (map (\<lambda>(_, _, p, _). p) ps))"

text \<open>One item: the new index, what was produced or dropped, and whether the member is done and counts as dispatched.\<close>

definition sched_item ::
  "'s index_store \<Rightarrow> codec \<Rightarrow> texts \<Rightarrow> sched_cfg \<Rightarrow> daemon_router \<Rightarrow> read_result \<Rightarrow> item_env \<Rightarrow>
    string \<times> string \<times> int \<times> int \<Rightarrow> 's \<Rightarrow> 's \<times> sched_out list \<times> bool \<times> bool" where
  "sched_item I K X C D rd E it s =
     (case it of (member, jobID, p, d) \<Rightarrow>
        let loc = buildKey p d in
        if loc \<in> set (lost rd) then (s, [DroppedJob member Retention], True, False)
        else case map_of (found rd) loc of
          None \<Rightarrow>
            (let (s1, n) = (if ie_miss E = NotRun then (s, 0) else ix_miss I member s); misses = (if ie_miss E = Replied then n else 0) in
             if misses < maxReadMisses then (s1, [], False, False)
             else let (out, ok) = parkReadMiss (tx_miss X) C E member jobID loc misses in
               if ok then (when_run (ie_clear E) (ix_clear I member) s1, out, True, False) else (s1, out, False, False))
        | Some raw \<Rightarrow>
            (let s1 = when_run (ie_clear E) (ix_clear I member) s; (out, ok) = produceDue K (tx_route X) C D E member raw jobID in
             (s1, out, ok, ok)))"

fun sched_items ::
  "'s index_store \<Rightarrow> codec \<Rightarrow> texts \<Rightarrow> sched_cfg \<Rightarrow> daemon_router \<Rightarrow> read_result \<Rightarrow> (string \<Rightarrow> item_env) \<Rightarrow>
    (string \<times> string \<times> int \<times> int) list \<Rightarrow> 's \<Rightarrow> 's \<times> sched_out list \<times> string list \<times> nat" where
  "sched_items I K X C D rd E [] s = (s, [], [], 0)"
| "sched_items I K X C D rd E (it # its) s =
     (let (s1, out1, fin, hit) = sched_item I K X C D rd (E (fst it)) it s;
          (s2, out2, done2, n) = sched_items I K X C D rd E its s1
      in (s2, out1 @ out2, (if fin then [fst it] else []) @ done2, (if hit then 1 else 0) + n))"

text \<open>\<open>ti_ack\<close>: how many of the finished members are removed before the call ends, all of them when it succeeds.\<close>

definition sched_body ::
  "'s index_store \<Rightarrow> codec \<Rightarrow> texts \<Rightarrow> sched_cfg \<Rightarrow> daemon_router \<Rightarrow> tick_in \<Rightarrow> string list \<Rightarrow> 's \<Rightarrow> 's \<times> sched_out list \<times> nat option" where
  "sched_body I K X C D V members s =
     (let ps = parsed_members members in
      case read_payloads (scheduledTopic C) (ti_broker V) (by_partition ps) of
        None \<Rightarrow> (s, [], None)
      | Some rd \<Rightarrow>
          (let (s1, out, fin, n) = sched_items I K X C D rd (ti_item V) ps s in (ix_ack I (take (ti_ack V) fin) s1, out, Some n)))"

definition reclaim_due :: "sched_cfg \<Rightarrow> int \<Rightarrow> int option \<Rightarrow> bool" where
  "reclaim_due C now l = (0 < scheduleReclaimEvery C \<and> (case l of None \<Rightarrow> True | Some t \<Rightarrow> scheduleReclaimEvery C \<le> now - t))"

text \<open>\<open>None\<close> as the count is an error. The second component of the state is the time of the last reclaim.\<close>

definition sched_tick ::
  "'s index_store \<Rightarrow> codec \<Rightarrow> texts \<Rightarrow> sched_cfg \<Rightarrow> daemon_router \<Rightarrow> tick_in \<Rightarrow> 's \<times> int option \<Rightarrow>
    ('s \<times> int option) \<times> sched_out list \<times> nat option" where
  "sched_tick I K X C D V sl =
     (case sl of (s, l) \<Rightarrow>
        let due = reclaim_due C (ti_now V) l;
            s1 = (if due then when_run (ti_reclaim V) (\<lambda>s. fst (ix_reclaim I (ti_now V) s)) s else s) in
        if due \<and> ti_reclaim V \<noteq> Replied then ((s1, l), [], None)
        else let l1 = (if due then Some (ti_now V) else l);
                 (s2, members) = (if ti_claim V = NotRun then (s1, []) else ix_claim I (ti_now V) (scheduleLeaseSeconds C) (scheduleBatchSize C) s1) in
          if ti_claim V \<noteq> Replied then ((s2, l1), [], None)
          else if members = [] then ((s2, l1), [], Some 0)
          else let (s3, out, n) = sched_body I K X C D V members s2 in ((s3, l1), out, n))"

text \<open>\<open>drainDue\<close> over the environments of the ticks to come (the list ends when the context is done): whether anything was
  dispatched, and whether an error ended it.\<close>

fun drainDue ::
  "'s index_store \<Rightarrow> codec \<Rightarrow> texts \<Rightarrow> sched_cfg \<Rightarrow> daemon_router \<Rightarrow> tick_in list \<Rightarrow> bool \<Rightarrow> 's \<times> int option \<Rightarrow>
    ('s \<times> int option) \<times> sched_out list \<times> bool \<times> bool" where
  "drainDue I K X C D [] drained sl = (sl, [], drained, False)"
| "drainDue I K X C D (V # Vs) drained sl =
     (let (sl1, out, n) = sched_tick I K X C D V sl in
      case n of
        None \<Rightarrow> (sl1, out, drained, True)
      | Some k \<Rightarrow>
          if k = 0 then (sl1, out, drained, False)
          else let (sl2, out2, r) = drainDue I K X C D Vs True sl1 in (sl2, out @ out2, r))"

subsection \<open>The waits of \<open>Run\<close>\<close>

definition poll_interval :: "int \<Rightarrow> int" where
  "poll_interval i = (if i \<le> 0 then 5 * second_ns else i)"

definition poll_cap :: "int \<Rightarrow> int \<Rightarrow> int" where
  "poll_cap i mx = (let m = (if mx \<le> 0 then 60 * second_ns else mx) in if m < poll_interval i then poll_interval i else m)"

text \<open>The wait after a round, and the wait used in that round.\<close>

definition next_wait :: "int \<Rightarrow> int \<Rightarrow> bool \<Rightarrow> bool \<Rightarrow> int \<Rightarrow> int \<times> int" where
  "next_wait i mx drained failed w =
     (let cap = poll_cap i mx in
      if failed then (w, min (w * 2) cap)
      else if drained then (poll_interval i, poll_interval i)
      else (w, min (w * 2) cap))"

definition jittered :: "rat \<Rightarrow> rat \<Rightarrow> int \<Rightarrow> int" where
  "jittered j r d = (if j \<le> 0 then d else let x = of_int d * (1 + (r * 2 - 1) * j) in if x < 0 then \<lceil>x\<rceil> else \<lfloor>x\<rfloor>)"

end
