(* ===== verification/Schedule_Contract.thy ===== *)
theory Schedule_Contract
  imports Schedule_Poller Claim_Register
begin

text \<open>
  What the poller of delayed jobs needs of its index, as a locale over the operations of \<open>IndexStore\<close>, and what follows
  for its ticks: a delayed job stays in the index until it is dispatched, parked or dropped for a reason, and two ticks
  that are given the same member are at least a lease apart.
\<close>

subsection \<open>The texts of members\<close>

lemma cut_last_append: "CHR '':'' \<notin> set y \<Longrightarrow> cut_last (x @ CHR '':'' # y) = Some (x, y)"
proof -
  assume y: "CHR '':'' \<notin> set y"
  have r: "rev (x @ CHR '':'' # y) = rev y @ CHR '':'' # rev x" by simp
  have "takeWhile (\<lambda>c. c \<noteq> CHR '':'') (rev y @ CHR '':'' # rev x) = rev y" using y by (subst takeWhile_append2) auto
  moreover have "dropWhile (\<lambda>c. c \<noteq> CHR '':'') (rev y @ CHR '':'' # rev x) = CHR '':'' # rev x" using y by (subst dropWhile_append2) auto
  ultimately show ?thesis by (simp add: cut_last_def r del: rev_append)
qed

lemma itoa_no_colon: "CHR '':'' \<notin> set (itoa i)"
  using dec_no_colon [of _ i] dec_no_colon [of _ "- i"] by (auto simp: itoa_def)

lemma itoa_nonempty: "itoa i \<noteq> []"
  by (simp add: itoa_def dec_nonempty)

lemma int32_id: "- (2 ^ 31) \<le> x \<Longrightarrow> x < 2 ^ 31 \<Longrightarrow> int32 x = x"
  by (simp add: int32_def)

definition coords_ok :: "int \<Rightarrow> int \<Rightarrow> bool" where
  "coords_ok p d = (- (2 ^ 31) \<le> p \<and> p < 2 ^ 31 \<and> - (2 ^ 63) \<le> d \<and> d < 2 ^ 63)"

lemma parse_build: "coords_ok p d \<Longrightarrow> parseMember (buildMember j p d) = (if j = '''' then None else Some (j, p, d))"
proof -
  assume c: "coords_ok p d"
  have m: "buildMember j p d = (j @ CHR '':'' # itoa p) @ CHR '':'' # itoa d" by (simp add: buildMember_def)
  have "cut_last (buildMember j p d) = Some (j @ CHR '':'' # itoa p, itoa d)" unfolding m by (rule cut_last_append [OF itoa_no_colon])
  moreover have "cut_last (j @ CHR '':'' # itoa p) = Some (j, itoa p)" by (rule cut_last_append [OF itoa_no_colon])
  moreover have "atoi (itoa p) = Some p" "atoi (itoa d) = Some d" "int32 p = p" using c by (auto simp: coords_ok_def intro: atoi_itoa int32_id)
  ultimately show ?thesis by (simp add: parseMember_def itoa_nonempty)
qed

lemma buildKey_inj: "buildKey p d = buildKey p' d' \<longleftrightarrow> p = p' \<and> d = d'"
proof
  assume e: "buildKey p d = buildKey p' d'"
  have "cut_last (buildKey a b) = Some (itoa a, itoa b)" for a b using cut_last_append [OF itoa_no_colon] by (simp add: buildKey_def)
  then show "p = p' \<and> d = d'" using arg_cong [OF e, of cut_last] itoa_inj by simp
qed simp

subsection \<open>What a read returns\<close>

definition polled_recs :: "poll list \<Rightarrow> log_rec list" where
  "polled_recs qs = concat (map (\<lambda>q. case q of PollFails \<Rightarrow> [] | Polled rs \<Rightarrow> rs) qs)"

definition found_right :: "string \<Rightarrow> log_rec list \<Rightarrow> (string \<times> string) list \<Rightarrow> bool" where
  "found_right topic rs f = (\<forall>(k, v) \<in> set f. \<exists>r \<in> set rs. lr_topic r = topic \<and> k = buildKey (lr_partition r) (lr_offset r) \<and> v = lr_value r)"

lemma take_record_found: "set (snd (take_record r ws f)) \<subseteq> insert (buildKey (lr_partition r) (lr_offset r), lr_value r) (set f)"
  by (induction ws) (auto simp: split_beta Let_def)

lemma each_record_found: "found_right topic all f \<Longrightarrow> set rs \<subseteq> set all \<Longrightarrow> found_right topic all (snd (each_record topic rs ws f))"
proof (induction rs arbitrary: ws f)
  case (Cons r rs)
  show ?case
  proof (cases "lr_topic r = topic")
    case True
    have "found_right topic all (snd (take_record r ws f))"
      using Cons.prems True take_record_found [of r ws f] unfolding found_right_def by fastforce
    then show ?thesis using Cons True by (simp add: split_beta Let_def)
  qed (use Cons in simp)
qed simp

lemma read_polls_found:
  "read_polls topic qs ws f = Some g \<Longrightarrow> found_right topic all f \<Longrightarrow> set (polled_recs qs) \<subseteq> set all \<Longrightarrow> found_right topic all g"
proof (induction qs arbitrary: ws f)
  case (Cons q qs)
  show ?case
  proof (cases q)
    case (Polled rs)
    have "found_right topic all (snd (each_record topic rs ws f))"
      using each_record_found [OF Cons.prems(2)] Cons.prems(3) Polled by (simp add: polled_recs_def)
    then show ?thesis using Cons Polled by (auto simp: polled_recs_def split_beta Let_def split: if_splits)
  qed (use Cons in \<open>auto simp: polled_recs_def split: if_splits\<close>)
qed simp

lemma read_found:
  assumes "read_payloads topic B ps = Some rd"
  shows "found_right topic (polled_recs (bk_polls B)) (found rd)"
  using assms read_polls_found [of topic "bk_polls B" _ "[]" _ "polled_recs (bk_polls B)"]
  by (auto simp: read_payloads_def found_right_def [of _ _ "[]"] Let_def split: if_splits option.splits)

lemma read_lost:
  assumes "read_payloads topic B ps = Some rd" and "k \<in> set (lost rd)"
  shows "\<exists>low p d. bk_start B = Some low \<and> k = buildKey p d \<and> d < low p"
proof -
  obtain low high where o: "bk_start B = Some low" "bk_end B = Some high" and
    l: "k \<in> set (concat (map snd (map (want_of low high) (filter (\<lambda>(_, offs). offs \<noteq> []) ps))))"
    using assms by (auto simp: read_payloads_def Let_def split: if_splits option.splits)
  then show ?thesis by (auto simp: want_of_def Let_def)
qed

subsection \<open>Outcomes\<close>

text \<open>The record of the scheduled topic a member points to.\<close>

definition payload_at :: "sched_cfg \<Rightarrow> broker \<Rightarrow> int \<Rightarrow> int \<Rightarrow> string \<Rightarrow> bool" where
  "payload_at C B p d raw = (\<exists>r \<in> set (polled_recs (bk_polls B)). lr_topic r = scheduledTopic C \<and> lr_partition r = p \<and> lr_offset r = d \<and> lr_value r = raw)"

text \<open>An outcome is right: what is sent is the member's own record on the route of its payload, a parked job carries its
  record or its place, and a job is dropped only if its record has gone, cannot be decoded or belongs to a batch.\<close>

definition out_right :: "codec \<Rightarrow> sched_cfg \<Rightarrow> daemon_router \<Rightarrow> broker \<Rightarrow> sched_out \<Rightarrow> bool" where
  "out_right K C D B x =
     (\<exists>j p d. parseMember (out_member x) = Some (j, p, d) \<and>
       (case x of
          SentJob _ r raw j' \<Rightarrow> j' = j \<and> payload_at C B p d raw \<and> (\<exists>m r0. payload_map K raw = Some m \<and> sched_route D m = Inr r0 \<and> r = send_route C m r0)
        | ParkedRoute _ j' body \<Rightarrow> j' = j \<and> (\<exists>raw. payload_at C B p d raw \<and> map_of body ''dlt_raw_payload'' = Some (JStr raw))
        | ParkedMiss _ j' body \<Rightarrow> j' = j \<and> map_of body ''location'' = Some (JStr (buildKey p d))
        | DroppedJob _ Retention \<Rightarrow> (\<exists>low. bk_start B = Some low \<and> d < low p)
        | DroppedJob _ BadPayload \<Rightarrow> (\<exists>raw. payload_at C B p d raw \<and> payload_map K raw = None)
        | DroppedJob _ CancelledBatch \<Rightarrow> (\<exists>raw m. payload_at C B p d raw \<and> payload_map K raw = Some m \<and> text_field ''batch_id'' m \<noteq> '''')))"

lemma found_payload:
  assumes "read_payloads (scheduledTopic C) B ps = Some rd" and "map_of (found rd) (buildKey p d) = Some raw"
  shows "payload_at C B p d raw"
  using read_found [OF assms(1)] map_of_SomeD [OF assms(2)] by (fastforce simp: found_right_def payload_at_def buildKey_inj)

lemma produceDue_right:
  assumes "produceDue K say C D E m raw j = (out, ok)" and "parseMember m = Some (j, p, d)" and "payload_at C B p d raw"
  shows "\<forall>x \<in> set out. out_right K C D B x \<and> out_member x = m" and "ok \<Longrightarrow> out \<noteq> []"
proof -
  show "\<forall>x \<in> set out. out_right K C D B x \<and> out_member x = m"
    using assms by (auto simp: produceDue_def parkRouteError_def Let_def out_right_def out_member_def
        split: option.splits if_splits sum.splits) blast
  show "ok \<Longrightarrow> out \<noteq> []"
    using assms(1) by (auto simp: produceDue_def parkRouteError_def Let_def split: option.splits if_splits sum.splits)
qed

lemma sched_item_right:
  assumes rd: "read_payloads (scheduledTopic C) B ps = Some rd" and m: "parseMember m = Some (j, p, d)"
    and i: "sched_item I K X C D rd E (m, j, p, d) s = (s', out, fin, hit)"
  shows "(\<forall>x \<in> set out. out_right K C D B x \<and> out_member x = m) \<and> (fin \<longrightarrow> out \<noteq> [])"
proof (cases "buildKey p d \<in> set (lost rd)")
  case True
  then obtain low where "bk_start B = Some low" "d < low p" using read_lost [OF rd True] by (auto simp: buildKey_inj)
  then show ?thesis using i m True by (auto simp: sched_item_def out_right_def out_member_def)
next
  case gone: False
  show ?thesis
  proof (cases "map_of (found rd) (buildKey p d)")
    case None
    then show ?thesis using i m gone
      by (auto simp: sched_item_def parkReadMiss_def Let_def out_right_def out_member_def split_beta split: if_splits)
  next
    case (Some raw)
    obtain o2 ok where o: "produceDue K (tx_route X) C D E m raw j = (o2, ok)" by fastforce
    show ?thesis using i Some gone o produceDue_right [OF o m found_payload [OF rd Some]] by (auto simp: sched_item_def Let_def)
  qed
qed

lemma parsed_members_right: "(m, j, p, d) \<in> set (parsed_members ms) \<longleftrightarrow> m \<in> set ms \<and> parseMember m = Some (j, p, d)"
  by (induction ms) (auto simp: parsed_members_def map_filter_simps split: option.splits)

lemma sched_items_right:
  assumes rd: "read_payloads (scheduledTopic C) B ps = Some rd"
  shows "\<forall>(m, q) \<in> set its. parseMember m = Some q \<Longrightarrow> sched_items I K X C D rd E its s = (s', out, fin, n) \<Longrightarrow>
    (\<forall>x \<in> set out. out_right K C D B x) \<and> set fin \<subseteq> out_member ` set out \<and> set fin \<subseteq> fst ` set its"
proof (induction its arbitrary: s s' out fin n)
  case (Cons it its)
  obtain m j p d where it: "it = (m, j, p, d)" by (cases it)
  obtain s1 out1 f1 h1 where one: "sched_item I K X C D rd (E m) it s = (s1, out1, f1, h1)" by (metis prod_cases4)
  obtain s2 out2 f2 n2 where rest: "sched_items I K X C D rd E its s1 = (s2, out2, f2, n2)" by (metis prod_cases4)
  have r1: "(\<forall>x \<in> set out1. out_right K C D B x \<and> out_member x = m) \<and> (f1 \<longrightarrow> out1 \<noteq> [])"
    using sched_item_right [OF rd] Cons.prems(1) one it by fastforce
  have r2: "(\<forall>x \<in> set out2. out_right K C D B x) \<and> set f2 \<subseteq> out_member ` set out2 \<and> set f2 \<subseteq> fst ` set its"
    using Cons.IH [OF _ rest] Cons.prems(1) by simp
  have e: "out = out1 @ out2" "fin = (if f1 then [m] else []) @ f2" using Cons.prems(2) one rest it by auto
  have "set fin \<subseteq> out_member ` set out1 \<union> out_member ` set out2" using r1 r2 e(2) by (cases out1) (auto split: if_splits)
  then show ?case using r1 r2 e it by (auto simp: image_Un)
qed simp

text \<open>The index before the claim of a tick, and what it claims.\<close>

definition before_claim :: "'s index_store \<Rightarrow> sched_cfg \<Rightarrow> tick_in \<Rightarrow> 's \<times> int option \<Rightarrow> 's" where
  "before_claim I C V sl =
     (let due = reclaim_due C (ti_now V) (snd sl) in
      if due then when_run (ti_reclaim V) (\<lambda>s. fst (ix_reclaim I (ti_now V) s)) (fst sl) else fst sl)"

definition tick_claims :: "'s index_store \<Rightarrow> sched_cfg \<Rightarrow> tick_in \<Rightarrow> 's \<times> int option \<Rightarrow> string list" where
  "tick_claims I C V sl =
     (let due = reclaim_due C (ti_now V) (snd sl) in
      if due \<and> ti_reclaim V \<noteq> Replied \<or> ti_claim V = NotRun then []
      else snd (ix_claim I (ti_now V) (scheduleLeaseSeconds C) (scheduleBatchSize C) (before_claim I C V sl)))"

text \<open>The claims of a sequence of ticks.\<close>

fun claims_run :: "'s index_store \<Rightarrow> codec \<Rightarrow> texts \<Rightarrow> sched_cfg \<Rightarrow> daemon_router \<Rightarrow> tick_in list \<Rightarrow> 's \<times> int option \<Rightarrow> string list list" where
  "claims_run I K X C D [] sl = []"
| "claims_run I K X C D (V # Vs) sl = tick_claims I C V sl # claims_run I K X C D Vs (fst (sched_tick I K X C D V sl))"

text \<open>A tick as an attempt at a member.\<close>

definition tick_grab :: "'s index_store \<Rightarrow> ('s \<Rightarrow> bool) \<Rightarrow> codec \<Rightarrow> texts \<Rightarrow> sched_cfg \<Rightarrow> daemon_router \<Rightarrow> int \<Rightarrow> tick_in \<times> string \<Rightarrow> 's \<times> int option \<Rightarrow>
    ('s \<times> int option) \<times> bool" where
  "tick_grab I invar K X C D clk Vm sl =
     (let V = (fst Vm)\<lparr>ti_now := clk\<rparr> in (fst (sched_tick I K X C D V sl), invar (fst sl) \<and> snd Vm \<in> set (tick_claims I C V sl)))"

subsection \<open>The contract of an index\<close>

text \<open>\<open>holds\<close>: the index has the member; \<open>lease_of\<close>: until when it is claimed; \<open>kid\<close>: what an acknowledgement goes by.\<close>

locale delayed_index =
  fixes I :: "'s index_store"
    and invar :: "'s \<Rightarrow> bool"
    and holds :: "'s \<Rightarrow> string \<Rightarrow> bool"
    and kid :: "string \<Rightarrow> string"
    and lease_of :: "'s \<Rightarrow> string \<Rightarrow> int option"
  assumes claim_invar: "invar s \<Longrightarrow> invar (fst (ix_claim I now l n s))"
    and ack_invar: "invar s \<Longrightarrow> invar (ix_ack I ms s)"
    and reclaim_invar: "invar s \<Longrightarrow> invar (fst (ix_reclaim I now s))"
    and miss_invar: "invar s \<Longrightarrow> invar (fst (ix_miss I m s))"
    and clear_invar: "invar s \<Longrightarrow> invar (ix_clear I m s)"
    and claim_holds: "invar s \<Longrightarrow> holds (fst (ix_claim I now l n s)) m = holds s m"
    and reclaim_holds: "invar s \<Longrightarrow> holds (fst (ix_reclaim I now s)) m = holds s m"
    and miss_holds: "holds (fst (ix_miss I m' s)) m = holds s m"
    and clear_holds: "holds (ix_clear I m' s) m = holds s m"
    and ack_holds: "holds (ix_ack I ms s) m \<Longrightarrow> holds s m"
    and ack_keeps: "invar s \<Longrightarrow> holds s m \<Longrightarrow> kid m \<notin> kid ` set ms \<Longrightarrow> holds (ix_ack I ms s) m"
    and claimed_holds: "invar s \<Longrightarrow> m \<in> set (snd (ix_claim I now l n s)) \<Longrightarrow> holds s m"
    and held_once: "invar s \<Longrightarrow> holds s m \<Longrightarrow> holds s m' \<Longrightarrow> kid m = kid m' \<Longrightarrow> m = m'"
    and claim_free: "invar s \<Longrightarrow> m \<in> set (snd (ix_claim I now l n s)) \<Longrightarrow> lease_of s m = Some u \<Longrightarrow> u \<le> now"
    and claim_lease: "invar s \<Longrightarrow> m \<in> set (snd (ix_claim I now l n s)) \<Longrightarrow> lease_of (fst (ix_claim I now l n s)) m = Some (now + l * second_ns)"
    and claim_other: "invar s \<Longrightarrow> holds s m \<Longrightarrow> m \<notin> set (snd (ix_claim I now l n s)) \<Longrightarrow> lease_of (fst (ix_claim I now l n s)) m = lease_of s m"
    and reclaim_lease: "invar s \<Longrightarrow> holds s m \<Longrightarrow> lease_of s m = Some u \<Longrightarrow> now < u \<Longrightarrow> lease_of (fst (ix_reclaim I now s)) m = Some u"
    and miss_lease: "lease_of (fst (ix_miss I m' s)) m = lease_of s m"
    and clear_lease: "lease_of (ix_clear I m' s) m = lease_of s m"
    and ack_lease: "invar s \<Longrightarrow> holds (ix_ack I ms s) m \<Longrightarrow> lease_of (ix_ack I ms s) m = lease_of s m"
begin

text \<open>The items of a tick change nothing but the counters of read misses.\<close>

definition same_index :: "'s \<Rightarrow> 's \<Rightarrow> bool" where
  "same_index s s' = ((invar s \<longrightarrow> invar s') \<and> (\<forall>m. holds s' m = holds s m) \<and> (\<forall>m. lease_of s' m = lease_of s m))"

lemma same_refl [simp]: "same_index s s"
  by (simp add: same_index_def)

lemma same_trans: "same_index s s1 \<Longrightarrow> same_index s1 s2 \<Longrightarrow> same_index s s2"
  by (simp add: same_index_def)

lemma same_miss: "same_index s (fst (ix_miss I m s))"
  by (simp add: same_index_def miss_invar miss_holds miss_lease)

lemma same_clear: "same_index s (when_run f (ix_clear I m) s)"
  by (cases f) (simp_all add: same_index_def clear_invar clear_holds clear_lease)

lemma item_same: "same_index s (fst (sched_item I K X C D rd E it s))"
proof -
  obtain member jobID p d where it: "it = (member, jobID, p, d)" by (cases it)
  let ?s1 = "if ie_miss E = NotRun then s else fst (ix_miss I member s)"
  have m: "same_index s ?s1" by (simp add: same_miss)
  have c: "same_index ?s1 (when_run (ie_clear E) (ix_clear I member) ?s1)" by (rule same_clear)
  show ?thesis
    using m same_trans [OF m c] same_clear [of s "ie_clear E" member]
    by (auto simp: it sched_item_def Let_def split_beta split: option.splits)
qed

lemma items_same: "same_index s (fst (sched_items I K X C D rd E its s))"
proof (induction its arbitrary: s)
  case (Cons it its)
  let ?s1 = "fst (sched_item I K X C D rd (E (fst it)) it s)"
  show ?case using same_trans [OF item_same Cons.IH [of ?s1]] by (simp add: split_beta Let_def)
qed simp

end

context delayed_index
begin

lemma body_keeps:
  assumes i: "invar s" and c: "\<And>m. m \<in> set ms \<Longrightarrow> holds s m" and b: "sched_body I K X C D V ms s = (s', out, n)"
  shows "invar s'" and "holds s m \<Longrightarrow> holds s' m \<or> m \<in> out_member ` set out" and "\<forall>x \<in> set out. out_right K C D (ti_broker V) x"
    and "holds s' m \<Longrightarrow> holds s m \<and> lease_of s' m = lease_of s m"
proof -
  let ?ps = "parsed_members ms"
  have "invar s' \<and> (holds s m \<longrightarrow> holds s' m \<or> m \<in> out_member ` set out) \<and> (\<forall>x \<in> set out. out_right K C D (ti_broker V) x) \<and>
    (holds s' m \<longrightarrow> holds s m \<and> lease_of s' m = lease_of s m)"
  proof (cases "read_payloads (scheduledTopic C) (ti_broker V) (by_partition ?ps)")
    case None
    then show ?thesis using b i by (simp add: sched_body_def Let_def)
  next
    case (Some rd)
    obtain s1 o1 f k where it: "sched_items I K X C D rd (ti_item V) ?ps s = (s1, o1, f, k)" by (metis prod_cases4)
    have e: "s' = ix_ack I (take (ti_ack V) f) s1" "out = o1" using b Some it by (auto simp: sched_body_def Let_def)
    have sm: "same_index s s1" using items_same [of s K X C D rd "ti_item V" ?ps] it by simp
    then have s1: "invar s1" "\<And>m. holds s1 m = holds s m" "lease_of s1 m = lease_of s m" using i by (simp_all add: same_index_def)
    have p: "\<forall>(m, q) \<in> set ?ps. parseMember m = Some q" by (auto simp: parsed_members_right)
    note r = sched_items_right [OF Some p it]
    have "holds s' m \<or> m \<in> out_member ` set out" if h: "holds s m"
    proof (cases "kid m \<in> kid ` set (take (ti_ack V) f)")
      case True
      then obtain m' where m': "m' \<in> set f" "kid m' = kid m" by (auto dest: in_set_takeD)
      then have "m' \<in> set ms" using r by (fastforce simp: parsed_members_right)
      then have "m' = m" using held_once [OF i c h] m'(2) by simp
      then show ?thesis using r m'(1) e(2) by auto
    next
      case False
      then show ?thesis using ack_keeps [OF s1(1)] h s1(2) e(1) by simp
    qed
    moreover have "holds s m \<and> lease_of s' m = lease_of s m" if "holds s' m"
      using that ack_holds [of "take (ti_ack V) f" s1 m] ack_lease [OF s1(1), of "take (ti_ack V) f" m] s1(2,3) e(1) by simp
    ultimately show ?thesis using ack_invar [OF s1(1)] e r by simp
  qed
  then show "invar s'" "holds s m \<Longrightarrow> holds s' m \<or> m \<in> out_member ` set out" "\<forall>x \<in> set out. out_right K C D (ti_broker V) x"
    "holds s' m \<Longrightarrow> holds s m \<and> lease_of s' m = lease_of s m" by blast+
qed

lemma before_claim_keeps:
  assumes "invar (fst sl)"
  shows "invar (before_claim I C V sl)" "holds (before_claim I C V sl) m = holds (fst sl) m"
    "holds (fst sl) m \<Longrightarrow> lease_of (fst sl) m = Some u \<Longrightarrow> ti_now V < u \<Longrightarrow> lease_of (before_claim I C V sl) m = Some u"
  using assms by (cases "ti_reclaim V"; simp add: before_claim_def Let_def reclaim_invar reclaim_holds reclaim_lease)+

text \<open>A tick ends before its claim, after a claim it does not follow up, or with the body.\<close>

lemma tick_cases:
  assumes t: "sched_tick I K X C D V sl = (sl', out, n)"
  obtains "fst sl' = before_claim I C V sl" "out = []" "tick_claims I C V sl = []"
  | "fst sl' = fst (ix_claim I (ti_now V) (scheduleLeaseSeconds C) (scheduleBatchSize C) (before_claim I C V sl))" "out = []"
    "tick_claims I C V sl = snd (ix_claim I (ti_now V) (scheduleLeaseSeconds C) (scheduleBatchSize C) (before_claim I C V sl))"
  | "sched_body I K X C D V (tick_claims I C V sl)
       (fst (ix_claim I (ti_now V) (scheduleLeaseSeconds C) (scheduleBatchSize C) (before_claim I C V sl))) = (fst sl', out, n)"
    "tick_claims I C V sl = snd (ix_claim I (ti_now V) (scheduleLeaseSeconds C) (scheduleBatchSize C) (before_claim I C V sl))"
proof -
  obtain s l where sl: "sl = (s, l)" by fastforce
  let ?due = "reclaim_due C (ti_now V) l"
  let ?s1 = "before_claim I C V sl"
  obtain s2 ms where c: "ix_claim I (ti_now V) (scheduleLeaseSeconds C) (scheduleBatchSize C) ?s1 = (s2, ms)" by fastforce
  have b: "(if ?due then when_run (ti_reclaim V) (\<lambda>s. fst (ix_reclaim I (ti_now V) s)) s else s) = ?s1"
    by (simp add: before_claim_def sl Let_def)
  consider (early) "?due \<and> ti_reclaim V \<noteq> Replied \<or> ti_claim V = NotRun" | (claim) "\<not> (?due \<and> ti_reclaim V \<noteq> Replied)" "ti_claim V \<noteq> NotRun" by blast
  then show thesis
  proof cases
    case early
    then show ?thesis using that(1) t unfolding sl sched_tick_def prod.case Let_def b [unfolded sl]
      by (auto simp: tick_claims_def split: if_splits)
  next
    case claim
    then have tc: "tick_claims I C V sl = ms" using c by (auto simp: tick_claims_def sl)
    have "(if ti_claim V \<noteq> Replied then ((s2, if ?due then Some (ti_now V) else l), [], None)
       else if ms = [] then ((s2, if ?due then Some (ti_now V) else l), [], Some 0)
       else let (s3, out, n) = sched_body I K X C D V ms s2 in ((s3, if ?due then Some (ti_now V) else l), out, n)) = (sl', out, n)"
      using t claim c unfolding sl sched_tick_def prod.case Let_def b [unfolded sl] by simp
    then show ?thesis using that(2,3) c tc by (auto split: if_splits prod.splits)
  qed
qed

lemma tick_keeps:
  assumes i: "invar (fst sl)" and t: "sched_tick I K X C D V sl = (sl', out, n)"
  shows "invar (fst sl')" and "holds (fst sl) m \<Longrightarrow> holds (fst sl') m \<or> m \<in> out_member ` set out"
    and "\<forall>x \<in> set out. out_right K C D (ti_broker V) x" and "holds (fst sl') m \<Longrightarrow> holds (fst sl) m"
proof -
  note bc = before_claim_keeps(1,2) [OF i, of C V]
  let ?s2 = "fst (ix_claim I (ti_now V) (scheduleLeaseSeconds C) (scheduleBatchSize C) (before_claim I C V sl))"
  have s2: "invar ?s2" "\<And>m. holds ?s2 m = holds (fst sl) m" using claim_invar [OF bc(1)] claim_holds [OF bc(1)] bc(2) by simp_all
  from t have "invar (fst sl') \<and> (holds (fst sl) m \<longrightarrow> holds (fst sl') m \<or> m \<in> out_member ` set out) \<and>
    (\<forall>x \<in> set out. out_right K C D (ti_broker V) x) \<and> (holds (fst sl') m \<longrightarrow> holds (fst sl) m)"
  proof (cases rule: tick_cases)
    case 3
    have c: "holds ?s2 m" if "m \<in> set (tick_claims I C V sl)" for m
      using that claimed_holds [OF bc(1)] bc(2) s2(2) 3(2) by simp
    show ?thesis using body_keeps [OF s2(1) c 3(1)] s2(2) by blast
  qed (use bc s2 in simp_all)
  then show "invar (fst sl')" "holds (fst sl) m \<Longrightarrow> holds (fst sl') m \<or> m \<in> out_member ` set out"
    "\<forall>x \<in> set out. out_right K C D (ti_broker V) x" "holds (fst sl') m \<Longrightarrow> holds (fst sl) m" by blast+
qed

text \<open>A member is blocked while its lease runs, and for good once it has left the index.\<close>

definition blocked :: "int \<Rightarrow> string \<Rightarrow> 's \<Rightarrow> bool" where
  "blocked clk m s = (invar s \<and> (holds s m \<longrightarrow> (\<exists>u. lease_of s m = Some u \<and> clk < u)))"

lemma blocked_not_claimed:
  assumes "blocked (ti_now V) m (fst sl)"
  shows "m \<notin> set (tick_claims I C V sl)"
proof
  assume "m \<in> set (tick_claims I C V sl)"
  then have c: "m \<in> set (snd (ix_claim I (ti_now V) (scheduleLeaseSeconds C) (scheduleBatchSize C) (before_claim I C V sl)))"
    by (auto simp: tick_claims_def Let_def split: if_splits)
  have i: "invar (fst sl)" using assms by (simp add: blocked_def)
  note bc = before_claim_keeps [OF i, where C = C and V = V]
  have h: "holds (fst sl) m" using claimed_holds [OF bc(1) c] bc(2) by simp
  then obtain u where u: "lease_of (fst sl) m = Some u" "ti_now V < u" using assms by (auto simp: blocked_def)
  show False using claim_free [OF bc(1) c bc(3) [OF h u]] u(2) by simp
qed

lemma tick_keeps_lease:
  assumes t: "sched_tick I K X C D V sl = (sl', out, n)" and i: "invar (fst sl)" and h: "holds (fst sl') m"
  shows "m \<in> set (tick_claims I C V sl) \<Longrightarrow> lease_of (fst sl') m = Some (ti_now V + scheduleLeaseSeconds C * second_ns)"
    and "m \<notin> set (tick_claims I C V sl) \<Longrightarrow> lease_of (fst sl) m = Some u \<Longrightarrow> ti_now V < u \<Longrightarrow> lease_of (fst sl') m = Some u"
proof -
  note bc = before_claim_keeps [OF i, where C = C and V = V]
  let ?s1 = "before_claim I C V sl"
  let ?c = "ix_claim I (ti_now V) (scheduleLeaseSeconds C) (scheduleBatchSize C) ?s1"
  have h0: "holds (fst sl) m" by (rule tick_keeps(4) [OF i t h])
  then have h1: "holds ?s1 m" using bc(2) by simp
  have L: "(m \<in> set (snd ?c) \<longrightarrow> lease_of (fst ?c) m = Some (ti_now V + scheduleLeaseSeconds C * second_ns)) \<and>
    (m \<notin> set (snd ?c) \<longrightarrow> lease_of (fst ?c) m = lease_of ?s1 m)"
    using claim_lease [OF bc(1)] claim_other [OF bc(1) h1] by blast
  have k: "lease_of (fst sl) m = Some u \<Longrightarrow> ti_now V < u \<Longrightarrow> lease_of ?s1 m = Some u" for u using bc(3) h0 by blast
  from t have "(m \<in> set (tick_claims I C V sl) \<longrightarrow> lease_of (fst sl') m = Some (ti_now V + scheduleLeaseSeconds C * second_ns)) \<and>
    (m \<notin> set (tick_claims I C V sl) \<longrightarrow> (\<forall>u. lease_of (fst sl) m = Some u \<and> ti_now V < u \<longrightarrow> lease_of (fst sl') m = Some u))"
  proof (cases rule: tick_cases)
    case 1
    then show ?thesis using k by simp
  next
    case 2
    then show ?thesis using k L by simp
  next
    case 3
    have "lease_of (fst sl') m = lease_of (fst ?c) m"
    proof -
      have c: "holds (fst ?c) m'" if "m' \<in> set (tick_claims I C V sl)" for m'
        using that claimed_holds [OF bc(1)] claim_holds [OF bc(1)] 3(2) by simp
      show ?thesis using body_keeps(4) [OF claim_invar [OF bc(1)] c 3(1) h] by blast
    qed
    then show ?thesis using k L 3(2) by simp
  qed
  then show "m \<in> set (tick_claims I C V sl) \<Longrightarrow> lease_of (fst sl') m = Some (ti_now V + scheduleLeaseSeconds C * second_ns)"
    "m \<notin> set (tick_claims I C V sl) \<Longrightarrow> lease_of (fst sl) m = Some u \<Longrightarrow> ti_now V < u \<Longrightarrow> lease_of (fst sl') m = Some u" by blast+
qed

sublocale tickReg: claim_register "tick_grab I invar K X C D" snd "\<lambda>clk m sl. blocked clk m (fst sl)" "scheduleLeaseSeconds C * second_ns" "\<lambda>_. True"
  for K X C D
proof (unfold_locales, goal_cases)
  case (1 clk k sl)
  then show ?case using blocked_not_claimed [of "(fst k)\<lparr>ti_now := clk\<rparr>" "snd k" sl C] by (simp add: tick_grab_def Let_def)
next
  case (2 k clk sl clk')
  let ?V = "(fst k)\<lparr>ti_now := clk\<rparr>"
  obtain sl' out n where t: "sched_tick I K X C D ?V sl = (sl', out, n)" by (metis prod_cases3)
  have i: "invar (fst sl)" and c: "snd k \<in> set (tick_claims I C ?V sl)" using 2(2) by (simp_all add: tick_grab_def Let_def)
  show ?case using tick_keeps(1) [OF i t] tick_keeps_lease(1) [OF t i _ c] 2(4) t by (auto simp: blocked_def tick_grab_def Let_def)
next
  case (3 clk' m sl clk k)
  let ?V = "(fst k)\<lparr>ti_now := clk\<rparr>"
  obtain sl' out n where t: "sched_tick I K X C D ?V sl = (sl', out, n)" by (metis prod_cases3)
  have i: "invar (fst sl)" using 3(1) by (simp add: blocked_def)
  have "\<exists>u. lease_of (fst sl') m = Some u \<and> clk' < u" if h: "holds (fst sl') m"
  proof -
    obtain u where u: "lease_of (fst sl) m = Some u" "clk' < u" using 3(1) tick_keeps(4) [OF i t h] by (auto simp: blocked_def)
    have "blocked clk m (fst sl)" using 3 by (auto simp: blocked_def intro: le_less_trans)
    then have "m \<notin> set (tick_claims I C ?V sl)" by (intro blocked_not_claimed) simp
    then show ?thesis using tick_keeps_lease(2) [OF t i h _ u(1)] u(2) 3(2) by auto
  qed
  then show ?case using tick_keeps(1) [OF i t] t by (simp add: blocked_def tick_grab_def Let_def)
qed

lemma attempts_claims:
  "invar (fst sl) \<Longrightarrow> snd (attempts (tick_grab I invar K X C D) (map (\<lambda>V. (ti_now V, V, m)) Vs) sl) = map (\<lambda>ms. m \<in> set ms) (claims_run I K X C D Vs sl)"
proof (induction Vs arbitrary: sl)
  case (Cons V Vs)
  obtain sl' out n where t: "sched_tick I K X C D V sl = (sl', out, n)" by (metis prod_cases3)
  show ?case using Cons.IH [of sl'] tick_keeps(1) [OF Cons.prems t] Cons.prems t by (simp add: tick_grab_def Let_def split_beta)
qed simp

lemma claims_apart:
  assumes i: "invar (fst sl)" and s: "sorted (map ti_now Vs)" and ij: "a < b" "b < length Vs"
    and m: "m \<in> set (claims_run I K X C D Vs sl ! a)" "m \<in> set (claims_run I K X C D Vs sl ! b)"
  shows "ti_now (Vs ! a) + scheduleLeaseSeconds C * second_ns \<le> ti_now (Vs ! b)"
proof -
  let ?xs = "map (\<lambda>V. (ti_now V, V, m)) Vs"
  have l: "length (claims_run I K X C D Vs sl) = length Vs" by (induction Vs arbitrary: sl) simp_all
  have w: "snd (attempts (tick_grab I invar K X C D) ?xs sl) ! k" if "k < length Vs" "m \<in> set (claims_run I K X C D Vs sl ! k)" for k
    using that l unfolding attempts_claims [OF i] by simp
  show ?thesis using tickReg.winners_apart [of ?xs a b K X C D sl] s ij w m by (simp add: comp_def)
qed

end

end
