(* ===== verification/Schedule_Claims.thy ===== *)
theory Schedule_Claims
  imports Schedule_Contract
begin

text \<open>
  The two indexes of delayed jobs keep the contract, and what the poller guarantees on each of them.
\<close>

subsection \<open>The Redis index\<close>

text \<open>Both scripts move members from one sorted set to the other.\<close>

definition zmove :: "int \<Rightarrow> string list \<Rightarrow> (string \<times> int) list \<times> (string \<times> int) list \<Rightarrow> (string \<times> int) list \<times> (string \<times> int) list" where
  "zmove sc ms ab = fold (\<lambda>m (a, b). (zrem m a, zadd sc m b)) ms ab"

lemma zmove_simps [simp]: "zmove sc [] ab = ab" "zmove sc (m # ms) (a, b) = zmove sc ms (zrem m a, zadd sc m b)"
  by (simp_all add: zmove_def)

lemma zmove_members:
  "fst ` set (fst (zmove sc ms (a, b))) = fst ` set a - set ms" "fst ` set (snd (zmove sc ms (a, b))) = fst ` set b \<union> set ms"
  by (induction ms arbitrary: a b) (auto simp del: set_zadd set_zrem)

lemma zmove_ok: "zset_ok a \<Longrightarrow> zset_ok b \<Longrightarrow> zset_ok (fst (zmove sc ms (a, b))) \<and> zset_ok (snd (zmove sc ms (a, b)))"
  by (induction ms arbitrary: a b) auto



lemma zmove_entries:
  "set (snd (zmove sc ms (a, b))) = {(m, sc) | m. m \<in> set ms} \<union> {x \<in> set b. fst x \<notin> set ms}"
  "set (fst (zmove sc ms (a, b))) = {x \<in> set a. fst x \<notin> set ms}"
  by (induction ms arbitrary: a b) auto

lemma claimDue_move:
  "fst (claimDueLua now n u R) = R\<lparr>pendingKey := fst (zmove u (zdue now n (pendingKey R)) (pendingKey R, inflightKey R)),
     inflightKey := snd (zmove u (zdue now n (pendingKey R)) (pendingKey R, inflightKey R))\<rparr>"
proof -
  have "fold (\<lambda>m R. R\<lparr>pendingKey := zrem m (pendingKey R), inflightKey := zadd u m (inflightKey R)\<rparr>) ms R =
    R\<lparr>pendingKey := fst (zmove u ms (pendingKey R, inflightKey R)), inflightKey := snd (zmove u ms (pendingKey R, inflightKey R))\<rparr>" for ms
    by (induction ms arbitrary: R) simp_all
  then show ?thesis by (simp add: claimDueLua_def Let_def)
qed

lemma reclaim_move:
  "fst (reclaimLua now n R) = R\<lparr>inflightKey := fst (zmove now (zdue now n (inflightKey R)) (inflightKey R, pendingKey R)),
     pendingKey := snd (zmove now (zdue now n (inflightKey R)) (inflightKey R, pendingKey R))\<rparr>"
proof -
  have "fold (\<lambda>m R. R\<lparr>inflightKey := zrem m (inflightKey R), pendingKey := zadd now m (pendingKey R)\<rparr>) ms R =
    R\<lparr>inflightKey := fst (zmove now ms (inflightKey R, pendingKey R)), pendingKey := snd (zmove now ms (inflightKey R, pendingKey R))\<rparr>" for ms
    by (induction ms arbitrary: R) simp_all
  then show ?thesis by (simp add: reclaimLua_def Let_def)
qed

lemma zdue_due: "m \<in> set (zdue mx n z) \<Longrightarrow> \<exists>s \<le> mx. (m, s) \<in> set z"
  by (auto simp: zdue_def dest!: in_set_takeD)

definition redis_ok :: "redis_index \<Rightarrow> bool" where
  "redis_ok R = (zset_ok (pendingKey R) \<and> zset_ok (inflightKey R) \<and> fst ` set (pendingKey R) \<inter> fst ` set (inflightKey R) = {})"

definition redis_holds :: "redis_index \<Rightarrow> string \<Rightarrow> bool" where
  "redis_holds R m = (m \<in> fst ` set (pendingKey R) \<or> m \<in> fst ` set (inflightKey R))"

definition redis_lease :: "redis_index \<Rightarrow> string \<Rightarrow> int option" where
  "redis_lease R m = zscore m (inflightKey R)"

lemma zdue_members: "set (zdue mx n z) \<subseteq> fst ` set z"
  by (force dest: zdue_due)

lemma redis_claim_ok: "redis_ok R \<Longrightarrow> redis_ok (fst (claimDueLua now n u R))"
  using zmove_ok [of "pendingKey R" "inflightKey R" u "zdue now n (pendingKey R)"]
  by (auto simp: redis_ok_def claimDue_move zmove_members simp del: set_zadd set_zrem)

lemma redis_reclaim_ok: "redis_ok R \<Longrightarrow> redis_ok (fst (reclaimLua now n R))"
  using zmove_ok [of "inflightKey R" "pendingKey R" now "zdue now n (inflightKey R)"]
  by (auto simp: redis_ok_def reclaim_move zmove_members simp del: set_zadd set_zrem)

lemma zscore_same: "zset_ok z \<Longrightarrow> zset_ok z' \<Longrightarrow> (\<And>u. (m, u) \<in> set z' \<longleftrightarrow> (m, u) \<in> set z) \<Longrightarrow> zscore m z' = zscore m z"
  by (metis not_Some_eq zscore_iff)

interpretation redisIdx: delayed_index "redisIndex n0" redis_ok redis_holds "\<lambda>m. m" redis_lease for n0
proof (unfold_locales, goal_cases)
  case (1 s now l n) then show ?case by (simp add: redisIndex_def redis_claim_ok)
next
  case (2 s ms)
  then show ?case by (auto simp: redisIndex_def redis_ack_def redis_ok_def zset_ok_filter)
next
  case (3 s now) then show ?case by (simp add: redisIndex_def redis_reclaim_ok)
next
  case (6 s now l n m)
  then show ?case using zdue_members by (fastforce simp: redisIndex_def redis_holds_def claimDue_move zmove_members)
next
  case (7 s now m)
  then show ?case using zdue_members by (fastforce simp: redisIndex_def redis_holds_def reclaim_move zmove_members)
next
  case (12 s m now l n)
  then show ?case using zdue_members by (force simp: redisIndex_def redis_holds_def claimDueLua_def Let_def)
next
  case (14 s m now l n u)
  have "m \<in> fst ` set (pendingKey s)" using 14(2) zdue_members by (force simp: redisIndex_def claimDueLua_def Let_def)
  then show ?case using 14 by (force simp: redis_lease_def zscore_iff redis_ok_def)
next
  case (15 s m now l n)
  let ?s = "fst (claimDueLua now n (now + l * second_ns) s)"
  have "m \<in> set (zdue now n (pendingKey s))" using 15(2) by (simp add: redisIndex_def claimDueLua_def Let_def)
  then have "(m, now + l * second_ns) \<in> set (inflightKey ?s)" by (simp add: claimDue_move zmove_entries)
  then show ?case using redis_claim_ok [OF 15(1)] by (simp add: redisIndex_def redis_lease_def zscore_iff redis_ok_def)
next
  case (16 s m now l n)
  let ?s = "fst (claimDueLua now n (now + l * second_ns) s)"
  have "m \<notin> set (zdue now n (pendingKey s))" using 16(3) by (simp add: redisIndex_def claimDueLua_def Let_def)
  then have "zscore m (inflightKey ?s) = zscore m (inflightKey s)"
    using 16(1) redis_claim_ok [OF 16(1)] by (intro zscore_same) (auto simp: redis_ok_def claimDue_move zmove_entries)
  then show ?case by (simp add: redisIndex_def redis_lease_def)
next
  case (17 s m u now)
  let ?s = "fst (reclaimLua now (reclaim_limit n0) s)"
  have z: "zset_ok (inflightKey s)" and e: "(m, u) \<in> set (inflightKey s)" using 17 by (simp_all add: redis_ok_def redis_lease_def zscore_iff)
  have "m \<notin> set (zdue now (reclaim_limit n0) (inflightKey s))"
  proof
    assume "m \<in> set (zdue now (reclaim_limit n0) (inflightKey s))"
    then obtain v where "v \<le> now" "(m, v) \<in> set (inflightKey s)" by (blast dest: zdue_due)
    then show False using z e 17(4) by (metis not_le option.inject zscore_iff)
  qed
  then have "(m, u) \<in> set (inflightKey ?s)" using e by (simp add: reclaim_move zmove_entries)
  then show ?case using redis_reclaim_ok [OF 17(1)] by (simp add: redisIndex_def redis_lease_def zscore_iff redis_ok_def)
next
  case (20 s ms m)
  have "m \<notin> set ms \<or> m \<notin> fst ` set (inflightKey s)"
    using 20 by (force simp: redisIndex_def redis_ack_def redis_holds_def redis_ok_def)
  then have "zscore m (filter (\<lambda>(m, _). m \<notin> set ms) (inflightKey s)) = zscore m (inflightKey s)"
    using 20(1) by (intro zscore_same) (auto simp: redis_ok_def zset_ok_filter image_iff)
  then show ?case by (simp add: redisIndex_def redis_lease_def redis_ack_def)
qed (auto simp: redisIndex_def redis_holds_def redis_lease_def redis_ok_def redis_ack_def)

subsection \<open>The MySQL index\<close>

definition mysql_ok :: "mysql_index \<Rightarrow> bool" where
  "mysql_ok M = (distinct (map jr_job (job_rows M)) \<and> (\<forall>r \<in> set (job_rows M). jr_job r \<noteq> '''' \<and> coords_ok (jr_partition r) (jr_offset r)))"

definition mysql_holds :: "mysql_index \<Rightarrow> string \<Rightarrow> bool" where
  "mysql_holds M m = (\<exists>r \<in> set (job_rows M). row_member r = m)"

definition member_job :: "string \<Rightarrow> string" where
  "member_job m = (case parseMember m of None \<Rightarrow> m | Some (j, _) \<Rightarrow> j)"

definition mysql_lease :: "mysql_index \<Rightarrow> string \<Rightarrow> int option" where
  "mysql_lease M m = (case find (\<lambda>r. row_member r = m) (job_rows M) of None \<Rightarrow> None | Some r \<Rightarrow> jr_lease r)"

lemma row_parse: "mysql_ok M \<Longrightarrow> r \<in> set (job_rows M) \<Longrightarrow> parseMember (row_member r) = Some (jr_job r, jr_partition r, jr_offset r)"
  by (simp add: mysql_ok_def row_member_def parse_build)

lemma row_job: "mysql_ok M \<Longrightarrow> r \<in> set (job_rows M) \<Longrightarrow> member_job (row_member r) = jr_job r"
  by (simp add: member_job_def row_parse)

lemma row_unique: "mysql_ok M \<Longrightarrow> r \<in> set (job_rows M) \<Longrightarrow> r' \<in> set (job_rows M) \<Longrightarrow> jr_job r = jr_job r' \<Longrightarrow> r = r'"
  by (auto simp: mysql_ok_def distinct_map inj_on_def)

lemma row_member_unique: "mysql_ok M \<Longrightarrow> r \<in> set (job_rows M) \<Longrightarrow> r' \<in> set (job_rows M) \<Longrightarrow> row_member r = row_member r' \<Longrightarrow> r = r'"
  by (metis row_job row_unique)

lemma mysql_lease_row:
  assumes "mysql_ok M" "r \<in> set (job_rows M)"
  shows "mysql_lease M (row_member r) = jr_lease r"
proof (cases "find (\<lambda>x. row_member x = row_member r) (job_rows M)")
  case None
  then show ?thesis using assms(2) by (auto simp: find_None_iff)
next
  case (Some x)
  then have x: "x \<in> set (job_rows M)" "row_member x = row_member r" by (auto simp: find_Some_iff)
  then have "x = r" by (rule row_member_unique [OF assms(1) _ assms(2)])
  then show ?thesis using Some by (simp add: mysql_lease_def)
qed

text \<open>Changes of the leases alone.\<close>

definition relabel :: "(job_row \<Rightarrow> int option) \<Rightarrow> mysql_index \<Rightarrow> mysql_index" where
  "relabel g M = M\<lparr>job_rows := map (\<lambda>r. r\<lparr>jr_lease := g r\<rparr>) (job_rows M)\<rparr>"

lemma relabel_member [simp]: "row_member (r\<lparr>jr_lease := u\<rparr>) = row_member r"
  by (simp add: row_member_def)

lemma relabel_ok: "mysql_ok M \<Longrightarrow> mysql_ok (relabel g M)"
  by (auto simp: mysql_ok_def comp_def relabel_def)

lemma relabel_holds: "mysql_holds (relabel g M) m = mysql_holds M m"
  by (auto simp: mysql_holds_def relabel_def)

lemma relabel_lease: "mysql_ok M \<Longrightarrow> r \<in> set (job_rows M) \<Longrightarrow> mysql_lease (relabel g M) (row_member r) = g r"
  using mysql_lease_row [OF relabel_ok, of M "r\<lparr>jr_lease := g r\<rparr>" g] by (simp add: relabel_def)

definition mysql_due :: "(string \<Rightarrow> bool) \<Rightarrow> int \<Rightarrow> nat \<Rightarrow> mysql_index \<Rightarrow> job_row list" where
  "mysql_due locked now n M = take n (sort_key jr_run_at (filter (\<lambda>r. claimable now r \<and> \<not> locked (jr_job r)) (job_rows M)))"

lemma mysql_due_rows: "r \<in> set (mysql_due locked now n M) \<Longrightarrow> r \<in> set (job_rows M) \<and> claimable now r"
  by (auto simp: mysql_due_def dest!: in_set_takeD)

lemma due_by_job:
  assumes "mysql_ok M" "r \<in> set (job_rows M)"
  shows "jr_job r \<in> jr_job ` set (mysql_due locked now n M) \<longleftrightarrow> r \<in> set (mysql_due locked now n M)"
proof
  assume "jr_job r \<in> jr_job ` set (mysql_due locked now n M)"
  then obtain x where x: "x \<in> set (mysql_due locked now n M)" "jr_job x = jr_job r" by auto
  then have "x = r" using mysql_due_rows [OF x(1)] row_unique [OF assms(1) _ assms(2)] by blast
  then show "r \<in> set (mysql_due locked now n M)" using x(1) by simp
qed simp

lemma mysql_claim_relabel:
  assumes "mysql_ok M"
  shows "fst (mysql_claimDue locked now l n M) =
      relabel (\<lambda>r. if r \<in> set (mysql_due locked now n M) then Some (now + l * second_ns) else jr_lease r) M"
    and "snd (mysql_claimDue locked now l n M) = map row_member (mysql_due locked now n M)"
  using due_by_job [OF assms, of _ locked now n]
  by (auto simp: mysql_claimDue_def mysql_due_def [symmetric] Let_def relabel_def)

lemma mysql_reclaim_relabel:
  "fst (mysql_reclaim now M) = relabel (\<lambda>r. case jr_lease r of None \<Rightarrow> None | Some u \<Rightarrow> if u \<le> now then None else Some u) M"
  by (auto simp: mysql_reclaim_def Let_def relabel_def split: option.splits)

lemma claimed_row:
  assumes "mysql_ok M" "r \<in> set (job_rows M)"
  shows "row_member r \<in> set (snd (mysql_claimDue locked now l n M)) \<longleftrightarrow> r \<in> set (mysql_due locked now n M)"
proof
  assume "row_member r \<in> set (snd (mysql_claimDue locked now l n M))"
  then obtain x where x: "x \<in> set (mysql_due locked now n M)" "row_member x = row_member r" by (auto simp: mysql_claim_relabel [OF assms(1)])
  then have "x = r" using mysql_due_rows [OF x(1)] row_member_unique [OF assms(1) _ assms(2)] by blast
  then show "r \<in> set (mysql_due locked now n M)" using x(1) by simp
qed (simp add: mysql_claim_relabel [OF assms(1)])

lemma mysql_ack_rows:
  "r \<in> set (job_rows (mysql_ack ms M)) \<longleftrightarrow> r \<in> set (job_rows M) \<and> (\<forall>m \<in> set ms. \<forall>j q. parseMember m = Some (j, q) \<longrightarrow> j \<noteq> jr_job r)"
  by (auto simp: mysql_ack_def split: option.splits)

lemma mysql_ack_ok: "mysql_ok M \<Longrightarrow> mysql_ok (mysql_ack ms M)"
  by (auto simp: mysql_ok_def mysql_ack_def distinct_map_filter)

interpretation mysqlIdx: delayed_index "mysqlIndex locked" mysql_ok mysql_holds member_job mysql_lease for locked
proof (unfold_locales, goal_cases)
  case (1 s now l n) then show ?case by (simp add: mysqlIndex_def mysql_claim_relabel relabel_ok)
next
  case (2 s ms) then show ?case by (simp add: mysqlIndex_def mysql_ack_ok)
next
  case (3 s now) then show ?case by (simp add: mysqlIndex_def mysql_reclaim_relabel relabel_ok)
next
  case (6 s now l n m) then show ?case by (simp add: mysqlIndex_def mysql_claim_relabel relabel_holds)
next
  case (7 s now m) then show ?case by (simp add: mysqlIndex_def mysql_reclaim_relabel relabel_holds)
next
  case (10 ms s m) then show ?case by (auto simp: mysqlIndex_def mysql_holds_def mysql_ack_rows)
next
  case (11 s m ms)
  then obtain r where r: "r \<in> set (job_rows s)" "m = row_member r" by (auto simp: mysql_holds_def)
  have "j \<noteq> jr_job r" if "m' \<in> set ms" "parseMember m' = Some (j, q)" for m' j q
  proof
    assume "j = jr_job r"
    then have "member_job m' = member_job m" using that(2) row_job [OF 11(1) r(1)] r(2) by (simp add: member_job_def)
    then show False using 11(3) that(1) by (metis image_eqI)
  qed
  then have "r \<in> set (job_rows (mysql_ack ms s))" using r(1) unfolding mysql_ack_rows by blast
  then show ?case using r(2) by (auto simp: mysqlIndex_def mysql_holds_def)
next
  case (12 s m now l n) then show ?case using mysql_due_rows by (force simp: mysqlIndex_def mysql_claim_relabel mysql_holds_def)
next
  case (13 s m m')
  then obtain r r' where r: "r \<in> set (job_rows s)" "m = row_member r" "r' \<in> set (job_rows s)" "m' = row_member r'" by (auto simp: mysql_holds_def)
  then have "jr_job r = jr_job r'" using 13(4) row_job [OF 13(1) r(1)] row_job [OF 13(1) r(3)] by simp
  then show ?case using row_unique [OF 13(1) r(1,3)] r(2,4) by simp
next
  case (14 s m now l n u)
  then obtain r where r: "r \<in> set (mysql_due locked now n s)" "m = row_member r" by (auto simp: mysqlIndex_def mysql_claim_relabel)
  then show ?case using 14 mysql_due_rows [OF r(1)] mysql_lease_row [OF 14(1), of r] by (simp add: claimable_def)
next
  case (15 s m now l n)
  then obtain r where r: "r \<in> set (mysql_due locked now n s)" "m = row_member r" by (auto simp: mysqlIndex_def mysql_claim_relabel)
  then show ?case using 15(1) mysql_due_rows [OF r(1)] by (simp add: mysqlIndex_def mysql_claim_relabel relabel_lease)
next
  case (16 s m now l n)
  then obtain r where r: "r \<in> set (job_rows s)" "m = row_member r" by (auto simp: mysql_holds_def)
  have "r \<notin> set (mysql_due locked now n s)" using 16(3) claimed_row [OF 16(1) r(1)] r(2) by (simp add: mysqlIndex_def)
  then show ?case using r 16(1) by (simp add: mysqlIndex_def mysql_claim_relabel relabel_lease mysql_lease_row)
next
  case (17 s m u now)
  then obtain r where r: "r \<in> set (job_rows s)" "m = row_member r" by (auto simp: mysql_holds_def)
  then show ?case using 17(1,3,4) by (simp add: mysqlIndex_def mysql_reclaim_relabel relabel_lease mysql_lease_row)
next
  case (20 s ms m)
  then obtain r where r: "r \<in> set (job_rows (mysql_ack ms s))" "m = row_member r" by (auto simp: mysqlIndex_def mysql_holds_def)
  then show ?case using mysql_lease_row [OF mysql_ack_ok [OF 20(1)] r(1)] mysql_lease_row [OF 20(1)]
    by (auto simp: mysqlIndex_def mysql_ack_rows)
qed (auto simp: mysqlIndex_def mysql_holds_def mysql_lease_def mysql_ok_def)

subsection \<open>Guarantees\<close>

text \<open>C31. A member of the index can be read back: for every job id that is not empty, also one with colons in it, and all
  coordinates a record can have, \<open>ParseMember\<close> inverts \<open>BuildMember\<close>; a member of the empty id is not accepted.\<close>

theorem member_roundtrip:
  assumes "coords_ok p d"
  shows "parseMember (buildMember j p d) = (if j = '''' then None else Some (j, p, d))"
  using assms by (rule parse_build)

theorem member_roundtrip_witness: "parseMember (buildMember ''a:7'' 3 (- 12)) = Some (''a:7'', 3, - 12)"
  using member_roundtrip [of 3 "- 12" "''a:7''"] by (simp add: coords_ok_def)


text \<open>The same holds for the MySQL index.\<close>

theorem mysql_delayed_job_kept:
  assumes "mysql_ok M" and "sched_tick (mysqlIndex locked) K X C D V (M, l) = ((M', l'), out, n)"
  shows "mysql_ok M' \<and> {m. mysql_holds M m} \<subseteq> {m. mysql_holds M' m} \<union> out_member ` set out \<and> list_all (out_right K C D (ti_broker V)) out"
  using mysqlIdx.tick_keeps [of "(M, l)" locked K X C D V "(M', l')" out n] assms by (auto simp: list_all_iff)

text \<open>C32. Two ticks that claim the same member are at least a lease apart: in every sequence of ticks of the pollers of one
  index, ordered by their clocks and whatever fails in them, a member claimed twice is claimed again only after its
  lease has ended.\<close>

theorem delayed_claims_apart:
  assumes "redis_ok R" and "sorted (map ti_now Vs)" and "a < b" and "b < length Vs"
    and "m \<in> set (claims_run (redisIndex n0) K X C D Vs (R, l) ! a)" and "m \<in> set (claims_run (redisIndex n0) K X C D Vs (R, l) ! b)"
  shows "ti_now (Vs ! a) + scheduleLeaseSeconds C * second_ns \<le> ti_now (Vs ! b)"
  using redisIdx.claims_apart [of "(R, l)" Vs a b m n0 K X C D] assms by simp

text \<open>The acknowledgement of the MySQL index goes by the job id alone: a job that is scheduled again while its old record is
  being dispatched is removed with it. The new record is due later and will never be sent.\<close>

definition resched_entry :: "int \<Rightarrow> int \<Rightarrow> schedule_entry" where
  "resched_entry t d = \<lparr>se_job = ''j'', se_run_at = t, se_partition = 0, se_offset = d, se_batch = ''''\<rparr>"

lemma ack_drops_rescheduled_job:
  "let M0 = mysql_schedule 0 (resched_entry 10 1) \<lparr>job_rows = [], readMisses = (\<lambda>_. 0)\<rparr>;
       (M1, ms) = mysql_claimDue (\<lambda>_. False) 20 30 5 M0;
       M2 = mysql_schedule 21 (resched_entry 5000 2) M1
   in ms = [''j:0:1''] \<and> map row_member (job_rows M2) = [''j:0:2''] \<and> job_rows (mysql_ack ms M2) = []"
  by code_simp

text \<open>The Redis index keeps it, because its members name the record.\<close>

lemma redis_ack_keeps_rescheduled_job:
  "let R0 = redis_schedule ''j'' 10 0 1 \<lparr>pendingKey = [], inflightKey = [], readMissKey = (\<lambda>_. 0)\<rparr>;
       (R1, ms) = claimDueLua 20 5 30 R0;
       R2 = redis_schedule ''j'' 5000 0 2 R1
   in ms = [''j:0:1''] \<and> map fst (pendingKey (redis_ack ms R2)) = [''j:0:2'']"
  by code_simp

subsection \<open>Dispatch\<close>

lemma items_dispatch:
  assumes "(m, j, p, d) \<in> set its" and "buildKey p d \<notin> set (lost rd)" and "map_of (found rd) (buildKey p d) = Some raw"
    and "produceDue K (tx_route X) C D (E m) m raw j = (out1, ok)" and "sched_items I K X C D rd E its s = (s', out, fin, n)"
  shows "set out1 \<subseteq> set out"
  using assms(1,5)
proof (induction its arbitrary: s out fin n)
  case (Cons it its)
  obtain s1 o1 f1 h1 where one: "sched_item I K X C D rd (E (fst it)) it s = (s1, o1, f1, h1)" by (metis prod_cases4)
  obtain s2 o2 f2 n2 where rest: "sched_items I K X C D rd E its s1 = (s2, o2, f2, n2)" by (metis prod_cases4)
  have out: "out = o1 @ o2" "s' = s2" using Cons.prems(2) one rest by auto
  show ?case
  proof (cases "it = (m, j, p, d)")
    case True
    then have "o1 = out1" using one assms(2-4) by (simp add: sched_item_def Let_def)
    then show ?thesis using out by simp
  next
    case False
    then show ?thesis using Cons.IH [of s1 o2 f2 n2] Cons.prems(1) rest out by auto
  qed
qed simp


subsection \<open>A concrete index\<close>

definition sched_K :: codec where
  "sched_K = \<lparr>gzip = Some, gunzip = Some, jdec = (\<lambda>s. if s = ''p'' then Some (JObj [(''job_id'', JStr ''j'')]) else None), jenc = (\<lambda>_. '''')\<rparr>"

definition sched_texts :: texts where "sched_texts = \<lparr>tx_route = (\<lambda>_. ''no route''), tx_miss = (\<lambda>_ _. ''unread'')\<rparr>"

definition sched_conf :: sched_cfg where
  "sched_conf = \<lparr>scheduledTopic = ''sched'', sched_dlt = ''dlt'', scheduleReclaimEvery = 1000000000, scheduleLeaseSeconds = 60, scheduleBatchSize = 3,
     skipCancelled = True, partitioned = True\<rparr>"

definition sched_router :: daemon_router where
  "sched_router = \<lparr>dr_handlers = [], dr_time_ingest = ''time'', dr_throughput_ingest = ''count'', dr_static = (\<lambda>_. None), dr_default = ''jobs'', dr_tenants = (\<lambda>_ _. None)\<rparr>"

definition sched_broker :: broker where
  "sched_broker = \<lparr>bk_start = Some (\<lambda>_. 1), bk_end = Some (\<lambda>_. 3), bk_client = True,
     bk_polls = [Polled [\<lparr>lr_topic = ''sched'', lr_partition = 0, lr_offset = 1, lr_value = ''p''\<rparr>]]\<rparr>"

text \<open>Ticks whose acknowledgement fails.\<close>

definition sched_in :: "int \<Rightarrow> tick_in" where
  "sched_in now = \<lparr>ti_now = now, ti_reclaim = Replied, ti_claim = Replied, ti_broker = sched_broker,
     ti_item = (\<lambda>_. \<lparr>ie_cancelled = Some False, ie_produce = Replied, ie_miss = Replied, ie_clear = Replied\<rparr>), ti_ack = 0\<rparr>"

definition sched_redis :: redis_index where
  "sched_redis = \<lparr>pendingKey = [(''j:0:1'', 10)], inflightKey = [], readMissKey = (\<lambda>_. 0)\<rparr>"

definition sched_mysql :: mysql_index where
  "sched_mysql = mysql_schedule 0 (resched_entry 10 1) \<lparr>job_rows = [], readMisses = (\<lambda>_. 0)\<rparr>"

lemma sched_redis_ok: "redis_ok sched_redis"
  by (simp add: redis_ok_def sched_redis_def zset_ok_def)


theorem mysql_delayed_job_kept_witness:
  "\<exists>M' l' out n. sched_tick (mysqlIndex (\<lambda>_. False)) sched_K sched_texts sched_conf sched_router (sched_in 20) (sched_mysql, None) = ((M', l'), out, n) \<and>
     length out = 1 \<and> mysql_ok M' \<and> {m. mysql_holds sched_mysql m} \<subseteq> {m. mysql_holds M' m} \<union> out_member ` set out"
proof -
  let ?t = "sched_tick (mysqlIndex (\<lambda>_. False)) sched_K sched_texts sched_conf sched_router (sched_in 20) (sched_mysql, None)"
  obtain sl' out n where t0: "?t = (sl', out, n)" by (metis prod_cases3)
  obtain M' l' where sl: "sl' = (M', l')" by (metis surj_pair)
  have t: "?t = ((M', l'), out, n)" using t0 unfolding sl .
  have ok: "mysql_ok sched_mysql" by (simp add: mysql_ok_def sched_mysql_def mysql_schedule_def resched_entry_def coords_ok_def)
  have len: "length (fst (snd ?t)) = 1" by code_simp
  have "length out = 1" using len unfolding t fst_conv snd_conv .
  with mysql_delayed_job_kept [OF ok t] t show ?thesis by (elim conjE) (intro exI conjI)
qed

theorem delayed_claims_apart_witness:
  "map (map length) (claims_run (redisIndex 0) sched_K sched_texts sched_conf sched_router [sched_in 20, sched_in 2000000020, sched_in 60000000020] (sched_redis, None)) = [[5], [], [5]] \<and>
   (20::int) + 60 * second_ns \<le> 60000000020"
proof -
  let ?Vs = "[sched_in 20, sched_in 2000000020, sched_in 60000000020]"
  let ?c = "claims_run (redisIndex 0) sched_K sched_texts sched_conf sched_router ?Vs (sched_redis, None)"
  have c: "?c = [[''j:0:1''], [], [''j:0:1'']]" by code_simp
  have s: "sorted (map ti_now ?Vs)" by (simp add: sched_in_def)
  have m: "''j:0:1'' \<in> set (?c ! 0)" "''j:0:1'' \<in> set (?c ! 2)" unfolding c by simp_all
  have "ti_now (?Vs ! 0) + scheduleLeaseSeconds sched_conf * second_ns \<le> ti_now (?Vs ! 2)"
    by (rule delayed_claims_apart [OF sched_redis_ok s _ _ m]) simp_all
  then have "(20::int) + 60 * second_ns \<le> 60000000020" by (simp add: sched_in_def sched_conf_def)
  then show ?thesis unfolding c by simp
qed


end
