(* ===== verification/Group_Consumer.thy ===== *)
theory Group_Consumer
  imports Super_Fetch Decimal_Text
begin

text \<open>
  The consumers of the daemon: the pause bookkeeping of a group client (\<^verbatim>\<open>group_consumer.go\<close>, \<^verbatim>\<open>consumption_fetch_pause.go\<close>,
  \<^verbatim>\<open>retry_fetch_pause.go\<close>), the handling of one poll by the serial consumers (\<^verbatim>\<open>consumers.go\<close>, \<^verbatim>\<open>retry_consumer.go\<close>), the kill switch
  (\<^verbatim>\<open>consumption/control.go\<close>, \<^verbatim>\<open>hybrid.go\<close>) and the priority gate (\<^verbatim>\<open>priority/gate.go\<close>, \<^verbatim>\<open>priority/config.go\<close>).

  \<^item> The Kafka client is a package of its own. The model records the calls it gets, in order (\<open>kcall\<close>); what a call does is
    documented behaviour of that package and appears as hypotheses of the properties.
  \<^item> \<open>cclient\<close> is \<open>consumerClient\<close>. The nested maps from topics to partitions are association lists over \<open>partitionKey\<close>;
    the order in which Go visits a map is the order of the list. A timer of a deferred pause is an element of \<open>cc_timers\<close>.
  \<^item> Durations are nanoseconds.
\<close>

subsection \<open>The calls of the Kafka client\<close>

datatype kcall =
    MarkCommitRecords "wm_rec list"
  | SetOffsets "partitionKey \<rightharpoonup> int"
  | PauseFetchPartitions partitionKey
  | ResumeFetchPartitions partitionKey
  | PauseFetchTopics string
  | ResumeFetchTopics string
  | CommitMarkedOffsets

record cclient =
  cc_topics :: "string list"
  topicPaused :: "string \<Rightarrow> bool"
  partPaused :: "(string \<times> int list) list"
  deferredPaused :: "(partitionKey \<times> int) list"
  enginePaused :: "partitionKey list"
  killswitchWant :: "string \<Rightarrow> bool"
  priorityWant :: "string \<Rightarrow> bool"
  deferGen :: nat
  deferLife :: bool
  cc_timers :: "(nat \<times> partitionKey) list"
  cc_calls :: "kcall list"

definition kcall_emit :: "kcall \<Rightarrow> cclient \<Rightarrow> cclient" where
  "kcall_emit x c = c\<lparr>cc_calls := cc_calls c @ [x]\<rparr>"

text \<open>\<open>newGroupConsumerClient\<close>, with the first generation of \<open>initDeferLifecycle\<close>.\<close>

definition newGroupConsumerClient :: "string list \<Rightarrow> cclient" where
  "newGroupConsumerClient ts = \<lparr>cc_topics = ts, topicPaused = (\<lambda>_. False), partPaused = [], deferredPaused = [], enginePaused = [],
     killswitchWant = (\<lambda>_. False), priorityWant = (\<lambda>_. False), deferGen = 1, deferLife = True, cc_timers = [], cc_calls = []\<rparr>"

subsection \<open>Topic pauses\<close>

definition applyTopicPauseLocked :: "string \<Rightarrow> cclient \<Rightarrow> cclient" where
  "applyTopicPauseLocked t c =
     (let want = (killswitchWant c t \<or> priorityWant c t) in
      if want = topicPaused c t then c
      else (kcall_emit (if want then PauseFetchTopics t else ResumeFetchTopics t) c)\<lparr>topicPaused := (topicPaused c)(t := want)\<rparr>)"

definition setPriorityTopicPause :: "string \<Rightarrow> bool \<Rightarrow> cclient \<Rightarrow> cclient \<times> bool" where
  "setPriorityTopicPause t want c =
     (let c' = applyTopicPauseLocked t (c\<lparr>priorityWant := (priorityWant c)(t := want)\<rparr>) in (c', topicPaused c' t \<noteq> topicPaused c t))"

text \<open>\<open>paused t p\<close> is the answer of \<open>pauseCtl.Paused\<close>; the consumers without a kill switch have \<open>pauseCtl = nil\<close>.\<close>

definition sync_topic :: "(string \<Rightarrow> int \<Rightarrow> bool) \<Rightarrow> string \<Rightarrow> cclient \<Rightarrow> cclient" where
  "sync_topic paused t c = applyTopicPauseLocked t (c\<lparr>killswitchWant := (killswitchWant c)(t := paused t 0)\<rparr>)"

definition sync_parts :: "(string \<Rightarrow> int \<Rightarrow> bool) \<Rightarrow> string \<times> int list \<Rightarrow> cclient \<Rightarrow> cclient" where
  "sync_parts paused tp c =
     (let t = fst tp; still = filter (paused t) (snd tp);
          c1 = fold (\<lambda>p. kcall_emit (ResumeFetchPartitions (t, p))) (filter (\<lambda>p. \<not> paused t p) (snd tp)) c
      in if still = [] then c1 else c1\<lparr>partPaused := partPaused c1 @ [(t, still)]\<rparr>)"

definition syncConsumptionFetchPause :: "(string \<Rightarrow> int \<Rightarrow> bool) option \<Rightarrow> cclient \<Rightarrow> cclient" where
  "syncConsumptionFetchPause ctl c =
     (case ctl of None \<Rightarrow> c
      | Some paused \<Rightarrow> let c1 = fold (sync_topic paused) (cc_topics c) c
                     in fold (sync_parts paused) (partPaused c1) (c1\<lparr>partPaused := []\<rparr>))"

definition anyTopicPaused :: "cclient \<Rightarrow> bool" where
  "anyTopicPaused c = (list_ex (topicPaused c) (cc_topics c) \<or> partPaused c \<noteq> [] \<or> deferredPaused c \<noteq> [] \<or> enginePaused c \<noteq> [])"

definition pausedPollWait :: int where "pausedPollWait = 500 * 1000000"

definition idlePollWait :: int where "idlePollWait = 5 * 1000000000"

definition pollWait :: "cclient \<Rightarrow> int" where
  "pollWait c = (if \<not> anyTopicPaused c then idlePollWait else pausedPollWait)"

subsection \<open>Partition pauses\<close>

definition part_list :: "string \<Rightarrow> cclient \<Rightarrow> int list" where
  "part_list t c = (case map_of (partPaused c) t of None \<Rightarrow> [] | Some ps \<Rightarrow> ps)"

definition pauseConsumptionPartition :: "string \<Rightarrow> int \<Rightarrow> cclient \<Rightarrow> cclient" where
  "pauseConsumptionPartition t p c =
     (if p \<in> set (part_list t c) then c
      else kcall_emit (PauseFetchPartitions (t, p)) (c\<lparr>partPaused := AList.update t (part_list t c @ [p]) (partPaused c)\<rparr>))"

definition pauseDeferredPartition :: "partitionKey \<Rightarrow> int \<Rightarrow> cclient \<Rightarrow> cclient" where
  "pauseDeferredPartition k d c =
     (let rewind = (case map_of (deferredPaused c) k of None \<Rightarrow> True | Some e \<Rightarrow> d < e);
          c1 = (if rewind then c\<lparr>deferredPaused := AList.update k d (deferredPaused c)\<rparr> else c);
          c2 = kcall_emit (PauseFetchPartitions k) c1
      in if rewind then kcall_emit (SetOffsets [k \<mapsto> d]) c2 else c2)"

definition clearDeferredPartitionPause :: "partitionKey \<Rightarrow> cclient \<Rightarrow> cclient" where
  "clearDeferredPartitionPause k c =
     (if map_of (deferredPaused c) k = None then c
      else kcall_emit (ResumeFetchPartitions k) (c\<lparr>deferredPaused := AList.delete k (deferredPaused c)\<rparr>))"

definition deferLifecycle :: "cclient \<Rightarrow> cclient" where
  "deferLifecycle c = (if deferLife c then c else c\<lparr>deferGen := deferGen c + 1, deferLife := True\<rparr>)"

definition deferClientPartitionPause :: "wm_rec \<Rightarrow> int \<Rightarrow> cclient \<Rightarrow> cclient" where
  "deferClientPartitionPause r wait c =
     (if wait \<le> 0 then c
      else let c1 = deferLifecycle (pauseDeferredPartition (key_of r) (r_off r) c)
           in c1\<lparr>cc_timers := cc_timers c1 @ [(deferGen c1, key_of r)]\<rparr>)"

text \<open>The goroutine behind the timer: when it fires, it clears the pause unless the generation has changed.\<close>

definition timer_fires :: "nat \<Rightarrow> cclient \<Rightarrow> cclient" where
  "timer_fires i c =
     (if i < length (cc_timers c)
      then let (g, k) = cc_timers c ! i; c1 = c\<lparr>cc_timers := take i (cc_timers c) @ drop (Suc i) (cc_timers c)\<rparr>
           in if deferGen c = g \<and> deferLife c then clearDeferredPartitionPause k c1 else c1
      else c)"

definition invalidateDeferredPauses :: "cclient \<Rightarrow> cclient" where
  "invalidateDeferredPauses c = c\<lparr>deferLife := False, deferGen := deferGen c + 1, deferredPaused := []\<rparr>"

definition dropDeferredForRevoked :: "partitionKey list \<Rightarrow> cclient \<Rightarrow> cclient" where
  "dropDeferredForRevoked ks c = c\<lparr>deferredPaused := filter (\<lambda>(k, _). k \<notin> set ks) (deferredPaused c)\<rparr>"

text \<open>The revoke callback.\<close>

definition onPartitionsRevoked :: "partitionKey list \<Rightarrow> cclient \<Rightarrow> cclient" where
  "onPartitionsRevoked ks c = kcall_emit CommitMarkedOffsets (dropDeferredForRevoked ks c)"

definition pauseEnginePartition :: "partitionKey \<Rightarrow> cclient \<Rightarrow> cclient" where
  "pauseEnginePartition k c =
     (if k \<in> set (enginePaused c) then c else kcall_emit (PauseFetchPartitions k) (c\<lparr>enginePaused := enginePaused c @ [k]\<rparr>))"

definition resumeEnginePartition :: "partitionKey \<Rightarrow> cclient \<Rightarrow> cclient" where
  "resumeEnginePartition k c = kcall_emit (ResumeFetchPartitions k) (c\<lparr>enginePaused := removeAll k (enginePaused c)\<rparr>)"

subsection \<open>One poll\<close>

definition rewindUndispatched :: "wm_rec list \<Rightarrow> cclient \<Rightarrow> cclient" where
  "rewindUndispatched recs c = (if recs = [] then c else kcall_emit (SetOffsets (undispatchedRewindOffsets recs)) c)"

text \<open>\<open>pa r\<close> and \<open>pt r\<close> are the answers of the kill switch for the record's partition and for partition 0 of its topic: the
  two calls \<open>collectPollRecords\<close> makes for that record.\<close>

definition skip_record :: "(wm_rec \<Rightarrow> bool) \<Rightarrow> wm_rec \<Rightarrow> cclient \<Rightarrow> cclient" where
  "skip_record pt r c = (if pt r then c else pauseConsumptionPartition (r_topic r) (r_part r) c)"

definition collectPollRecords :: "((wm_rec \<Rightarrow> bool) \<times> (wm_rec \<Rightarrow> bool)) option \<Rightarrow> wm_rec list \<Rightarrow> cclient \<Rightarrow> cclient \<times> wm_rec list" where
  "collectPollRecords ctl recs c =
     (case ctl of None \<Rightarrow> (c, recs)
      | Some (pa, pt) \<Rightarrow>
          let skipped = filter pa recs
          in (rewindUndispatched skipped (fold (skip_record pt) skipped c), filter (\<lambda>r. \<not> pa r) recs))"

text \<open>What a handler returns: nil, \<open>retryPausedError\<close>, \<open>fairBackpressureError\<close>, or another error (a panic becomes one).\<close>

datatype handler_result = HandlerOk | RetryPaused int | FairBackpressure int | HandlerError

definition retryHandlerErrorBackoff :: int where "retryHandlerErrorBackoff = 1000000000"

text \<open>The poll callback of \<open>runConsumerLoop\<close>.\<close>

fun dispatch_records :: "(wm_rec \<Rightarrow> handler_result) \<Rightarrow> partitionKey set \<Rightarrow> wm_rec list \<Rightarrow> cclient \<Rightarrow> cclient" where
  "dispatch_records h stopped [] c = c"
| "dispatch_records h stopped (r # rs) c =
     (if key_of r \<in> stopped then dispatch_records h stopped rs c
      else case h r of
        HandlerOk \<Rightarrow> dispatch_records h stopped rs (kcall_emit (MarkCommitRecords [r]) c)
      | FairBackpressure d \<Rightarrow> dispatch_records h (insert (key_of r) stopped) rs (deferClientPartitionPause r d c)
      | _ \<Rightarrow> dispatch_records h (insert (key_of r) stopped) rs (deferClientPartitionPause r retryHandlerErrorBackoff c))"

definition processOneRetryRecord :: "(wm_rec \<Rightarrow> handler_result) \<Rightarrow> wm_rec \<Rightarrow> cclient \<Rightarrow> cclient \<times> bool" where
  "processOneRetryRecord h r c =
     (case h r of
        HandlerOk \<Rightarrow> (kcall_emit (MarkCommitRecords [r]) c, True)
      | RetryPaused d \<Rightarrow> (deferClientPartitionPause r (if 0 < d then d else retryHandlerErrorBackoff) c, False)
      | _ \<Rightarrow> (deferClientPartitionPause r retryHandlerErrorBackoff c, False))"

fun processRetryRecords :: "(wm_rec \<Rightarrow> handler_result) \<Rightarrow> partitionKey set \<Rightarrow> wm_rec list \<Rightarrow> cclient \<Rightarrow> cclient" where
  "processRetryRecords h stopped [] c = c"
| "processRetryRecords h stopped (r # rs) c =
     (if key_of r \<in> stopped then processRetryRecords h stopped rs c
      else let (c1, ok) = processOneRetryRecord h r c
           in processRetryRecords h (if ok then stopped else insert (key_of r) stopped) rs c1)"

text \<open>The pause before a consumer that failed is started again (\<open>runConsumerSupervised\<close> and its siblings).\<close>

definition consumerRestartInitial :: int where "consumerRestartInitial = 1000000000"

definition consumerRestartMax :: int where "consumerRestartMax = 30 * 1000000000"

definition next_backoff :: "int \<Rightarrow> int" where
  "next_backoff b = (if b < consumerRestartMax then min (2 * b) consumerRestartMax else b)"

subsection \<open>The kill switch\<close>

record snapshot =
  sn_topics :: "string list"
  sn_partitions :: "string list"

record control =
  ctl_lastLoad :: "int option"
  ctl_snap :: snapshot

definition no_pauses :: snapshot where "no_pauses = \<lparr>sn_topics = [], sn_partitions = []\<rparr>"

definition sep :: string where "sep = [CHR 0x1F]"

definition topicKey :: "string \<Rightarrow> string \<Rightarrow> string" where "topicKey g t = g @ sep @ t"

definition partKey :: "string \<Rightarrow> string \<Rightarrow> int \<Rightarrow> string" where "partKey g t p = g @ sep @ t @ sep @ itoa p"

text \<open>\<open>Control.snapshot\<close> and \<open>HybridControl.snapshot\<close>: \<open>answer\<close> is what the backends return (the members of the two sets, as
  \<open>toSet\<close> leaves them), \<open>None\<close> when they fail.\<close>

definition ctl_snapshot :: "int \<Rightarrow> int \<Rightarrow> snapshot option \<Rightarrow> control \<Rightarrow> control \<times> snapshot" where
  "ctl_snapshot interval now answer C =
     (case ctl_lastLoad C of
        Some t \<Rightarrow> if now - t < interval then (C, ctl_snap C)
                 else (case answer of Some s \<Rightarrow> (\<lparr>ctl_lastLoad = Some now, ctl_snap = s\<rparr>, s) | None \<Rightarrow> (C, ctl_snap C))
      | None \<Rightarrow> (case answer of Some s \<Rightarrow> (\<lparr>ctl_lastLoad = Some now, ctl_snap = s\<rparr>, s) | None \<Rightarrow> (C, no_pauses)))"

text \<open>\<open>HybridControl.loadSnapshot\<close>: Redis if it answers the ping and both reads, else MySQL.\<close>

definition loadSnapshot :: "(bool \<times> string list option \<times> string list option) option \<Rightarrow> snapshot option option \<Rightarrow> snapshot option" where
  "loadSnapshot redis mysql =
     (case redis of
        Some (True, Some ts, Some ps) \<Rightarrow> Some \<lparr>sn_topics = ts, sn_partitions = ps\<rparr>
      | _ \<Rightarrow> (case mysql of Some (Some s) \<Rightarrow> Some s | _ \<Rightarrow> None))"

definition sn_paused :: "snapshot \<Rightarrow> string \<Rightarrow> string \<Rightarrow> int \<Rightarrow> bool" where
  "sn_paused s g t p = (topicKey g t \<in> set (sn_topics s) \<or> partKey g t p \<in> set (sn_partitions s))"

definition topicLevelPaused :: "snapshot \<Rightarrow> string \<Rightarrow> string \<Rightarrow> bool" where
  "topicLevelPaused s g t = (topicKey g t \<in> set (sn_topics s))"

definition activeHigherTopics :: "snapshot \<Rightarrow> string \<Rightarrow> string list \<Rightarrow> string list" where
  "activeHigherTopics s g higher = filter (\<lambda>t. t \<noteq> '''' \<and> \<not> topicLevelPaused s g t) higher"

subsection \<open>Priorities\<close>

datatype prio_mode = ModeStrict | ModeWeighted

record topic_spec =
  ts_topic :: string
  ts_rank :: nat
  ts_mode :: prio_mode
  ts_higher :: "string list"
  ts_interleave :: int

record gate =
  g_lastCheck :: "int option"
  g_lastResult :: bool

definition topicSpecs :: "prio_mode \<Rightarrow> int \<Rightarrow> string list \<Rightarrow> topic_spec list" where
  "topicSpecs md every ts = map (\<lambda>i. \<lparr>ts_topic = ts ! i, ts_rank = i, ts_mode = md, ts_higher = take i ts, ts_interleave = every\<rparr>) [0..<length ts]"

text \<open>\<open>lag\<close> is the answer of the lag reader for a list of topics, \<open>active\<close> the filter of the kill switch.\<close>

definition higherTopicsHaveLag ::
    "int \<Rightarrow> int \<Rightarrow> (string list \<Rightarrow> bool option) \<Rightarrow> (string list \<Rightarrow> string list) \<Rightarrow> string list \<Rightarrow> gate \<Rightarrow> gate \<times> bool" where
  "higherTopicsHaveLag interval now lag active topics G =
     (let ts = active topics in
      if ts = [] then (G, False)
      else case g_lastCheck G of
          Some t \<Rightarrow> if now - t < interval then (G, g_lastResult G)
                   else (case lag ts of Some b \<Rightarrow> (\<lparr>g_lastCheck = Some now, g_lastResult = b\<rparr>, b) | None \<Rightarrow> (G, g_lastResult G))
        | None \<Rightarrow> (case lag ts of Some b \<Rightarrow> (\<lparr>g_lastCheck = Some now, g_lastResult = b\<rparr>, b) | None \<Rightarrow> (G, False)))"

definition interleave_every :: "topic_spec \<Rightarrow> int" where
  "interleave_every s = (if ts_interleave s < 1 then 4 else ts_interleave s)"

type_synonym prio_state = "cclient \<times> gate \<times> (string \<Rightarrow> int)"

definition prepoll_spec :: "int \<Rightarrow> int \<Rightarrow> (string list \<Rightarrow> bool option) \<Rightarrow> (string list \<Rightarrow> string list) \<Rightarrow> topic_spec \<Rightarrow> prio_state \<Rightarrow> prio_state" where
  "prepoll_spec interval now lag active s st =
     (let (c, G, ticks) = st in
      if ts_rank s = 0 \<or> ts_higher s = [] then st
      else let (G1, want) = higherTopicsHaveLag interval now lag active (ts_higher s) G in
           if want \<and> ts_mode s = ModeWeighted
           then let n = ticks (ts_topic s) + 1
                in (fst (setPriorityTopicPause (ts_topic s) (n mod interleave_every s \<noteq> 0) c), G1, ticks(ts_topic s := n))
           else (fst (setPriorityTopicPause (ts_topic s) want c), G1, ticks))"

text \<open>\<open>specs\<close> are the values of \<open>specByTopic\<close> in the order in which Go visits that map.\<close>

definition priorityPrePollHook :: "int \<Rightarrow> int \<Rightarrow> (string list \<Rightarrow> bool option) \<Rightarrow> (string list \<Rightarrow> string list) \<Rightarrow> topic_spec list \<Rightarrow> prio_state \<Rightarrow> prio_state" where
  "priorityPrePollHook interval now lag active specs st = fold (prepoll_spec interval now lag active) specs st"

definition filterPriorityRecords ::
    "string set \<Rightarrow> ((wm_rec \<Rightarrow> bool) \<times> (wm_rec \<Rightarrow> bool)) option \<Rightarrow> wm_rec list \<Rightarrow> cclient \<Rightarrow> cclient \<times> wm_rec list" where
  "filterPriorityRecords known ctl recs c = collectPollRecords ctl (filter (\<lambda>r. r_topic r \<in> known) recs) c"

definition shouldYield :: "topic_spec \<Rightarrow> int \<Rightarrow> int \<Rightarrow> (string list \<Rightarrow> bool option) \<Rightarrow> (string list \<Rightarrow> string list) \<Rightarrow> gate \<Rightarrow> int \<Rightarrow> gate \<times> int \<times> bool" where
  "shouldYield s interval now lag active G tick =
     (if ts_rank s = 0 \<or> ts_higher s = [] then (G, tick, False)
      else let (G1, want) = higherTopicsHaveLag interval now lag active (ts_higher s) G in
           if \<not> want then (G1, tick, False)
           else case ts_mode s of
               ModeStrict \<Rightarrow> (G1, tick, True)
             | ModeWeighted \<Rightarrow> (G1, tick + 1, (tick + 1) mod interleave_every s \<noteq> 0))"

end
