(* ===== verification/Group_Consumer_Claims.thy ===== *)
theory Group_Consumer_Claims
  imports Group_Consumer Super_Fetch_Claims
begin

text \<open>
  What the serial consumers guarantee: no offset is committed past a record whose handler has not succeeded, as long as
  the kill switch is used for whole topics; how a partition pause can strand a record; and the priority gate.
\<close>

subsection \<open>The Kafka client\<close>

text \<open>
  Documented behaviour of the client. \<open>pos k p\<close> is the offset the next poll of partition \<open>p\<close> starts at, \<open>mk k p\<close> the offset that
  would be committed for it, \<open>held k p\<close> says that fetching \<open>p\<close> is paused. A mark raises the offset to commit to the record
  after the marked one and never lowers it; \<open>SetOffsets\<close> moves the position and may reset the offset to commit; resuming
  a partition moves nothing.
\<close>

definition kgo_laws :: "(kcall \<Rightarrow> 'k \<Rightarrow> 'k) \<Rightarrow> ('k \<Rightarrow> partitionKey \<Rightarrow> int) \<Rightarrow> ('k \<Rightarrow> partitionKey \<Rightarrow> int) \<Rightarrow> ('k \<Rightarrow> partitionKey \<Rightarrow> bool) \<Rightarrow> bool" where
  "kgo_laws A pos mk held \<longleftrightarrow>
     (\<forall>rs k. pos (A (MarkCommitRecords rs) k) = pos k \<and> held (A (MarkCommitRecords rs) k) = held k \<and>
        (\<forall>p. mk (A (MarkCommitRecords rs) k) p = Max (insert (mk k p) {r_off r + 1 | r. r \<in> set rs \<and> key_of r = p}))) \<and>
     (\<forall>m k. held (A (SetOffsets m) k) = held k \<and>
        (\<forall>p. pos (A (SetOffsets m) k) p = (case m p of None \<Rightarrow> pos k p | Some d \<Rightarrow> d) \<and>
             (mk (A (SetOffsets m) k) p = mk k p \<or> m p = Some (mk (A (SetOffsets m) k) p)))) \<and>
     (\<forall>q k. pos (A (PauseFetchPartitions q) k) = pos k \<and> mk (A (PauseFetchPartitions q) k) = mk k \<and> held (A (PauseFetchPartitions q) k) = (held k)(q := True)) \<and>
     (\<forall>q k. pos (A (ResumeFetchPartitions q) k) = pos k \<and> mk (A (ResumeFetchPartitions q) k) = mk k \<and> held (A (ResumeFetchPartitions q) k) = (held k)(q := False)) \<and>
     (\<forall>x k. x \<in> {CommitMarkedOffsets} \<union> range PauseFetchTopics \<union> range ResumeFetchTopics \<longrightarrow> pos (A x k) = pos k \<and> mk (A x k) = mk k \<and> held (A x k) = held k)"

lemma kgo_mark: "kgo_laws A pos mk held \<Longrightarrow> pos (A (MarkCommitRecords [r]) k) = pos k \<and> held (A (MarkCommitRecords [r]) k) = held k \<and>
    mk (A (MarkCommitRecords [r]) k) p = (if key_of r = p then max (mk k p) (r_off r + 1) else mk k p)"
proof -
  assume L: "kgo_laws A pos mk held"
  have *: "pos (A (MarkCommitRecords [r]) k) = pos k \<and> held (A (MarkCommitRecords [r]) k) = held k \<and>
    mk (A (MarkCommitRecords [r]) k) p = Max (insert (mk k p) {r_off q + 1 | q. q \<in> set [r] \<and> key_of q = p})"
    using conjunct1 [OF L [unfolded kgo_laws_def], THEN spec [of _ "[r]"], THEN spec [of _ k]] by (elim conjE allE [of _ p]) simp
  have s: "{r_off q + 1 | q. q \<in> set [r] \<and> key_of q = p} = (if key_of r = p then {r_off r + 1} else {})" by auto
  have "Max (insert (mk k p) (if key_of r = p then {r_off r + 1} else {})) = (if key_of r = p then max (mk k p) (r_off r + 1) else mk k p)" by simp
  then show ?thesis using * unfolding s by simp
qed

lemma kgo_seek: "kgo_laws A pos mk held \<Longrightarrow> held (A (SetOffsets m) k) = held k"
  "kgo_laws A pos mk held \<Longrightarrow> pos (A (SetOffsets m) k) p = (case m p of None \<Rightarrow> pos k p | Some d \<Rightarrow> d)"
  "kgo_laws A pos mk held \<Longrightarrow> mk (A (SetOffsets m) k) p = mk k p \<or> m p = Some (mk (A (SetOffsets m) k) p)"
  unfolding kgo_laws_def by blast+

lemma kgo_pause: "kgo_laws A pos mk held \<Longrightarrow> pos (A (PauseFetchPartitions q) k) = pos k"
  "kgo_laws A pos mk held \<Longrightarrow> mk (A (PauseFetchPartitions q) k) = mk k"
  "kgo_laws A pos mk held \<Longrightarrow> held (A (PauseFetchPartitions q) k) = (held k)(q := True)"
  "kgo_laws A pos mk held \<Longrightarrow> pos (A (ResumeFetchPartitions q) k) = pos k"
  "kgo_laws A pos mk held \<Longrightarrow> mk (A (ResumeFetchPartitions q) k) = mk k"
  "kgo_laws A pos mk held \<Longrightarrow> held (A (ResumeFetchPartitions q) k) = (held k)(q := False)"
  unfolding kgo_laws_def by blast+

lemma kgo_topic: "kgo_laws A pos mk held \<Longrightarrow> x \<in> {CommitMarkedOffsets} \<union> range PauseFetchTopics \<union> range ResumeFetchTopics \<Longrightarrow>
    pos (A x k) = pos k \<and> mk (A x k) = mk k \<and> held (A x k) = held k"
  unfolding kgo_laws_def by blast

text \<open>What a poll returns: the records of the log from the position on, none of a paused partition, in the order of their
  offsets, and the position is behind them afterwards.\<close>

definition polled :: "('k \<Rightarrow> partitionKey \<Rightarrow> int) \<Rightarrow> ('k \<Rightarrow> partitionKey \<Rightarrow> int) \<Rightarrow> ('k \<Rightarrow> partitionKey \<Rightarrow> bool) \<Rightarrow> (partitionKey \<Rightarrow> int set) \<Rightarrow> 'k \<Rightarrow> wm_rec list \<Rightarrow> 'k \<Rightarrow> bool" where
  "polled pos mk held lg k recs k' \<longleftrightarrow> mk k' = mk k \<and> held k' = held k \<and> (\<forall>p. pos k p \<le> pos k' p) \<and>
     (\<forall>r \<in> set recs. r_off r \<in> lg (key_of r) \<and> pos k (key_of r) \<le> r_off r \<and> r_off r < pos k' (key_of r) \<and> \<not> held k (key_of r)) \<and>
     (\<forall>p. \<forall>d \<in> lg p. pos k p \<le> d \<and> d < pos k' p \<longrightarrow> (\<exists>r \<in> set recs. key_of r = p \<and> r_off r = d)) \<and>
     sorted_wrt (\<lambda>a b. key_of a = key_of b \<longrightarrow> r_off a < r_off b) recs"

subsection \<open>The handler loop\<close>

text \<open>The retry consumer runs the same loop, with the outcomes read differently.\<close>

definition as_dispatch :: "handler_result \<Rightarrow> handler_result" where
  "as_dispatch x = (case x of RetryPaused d \<Rightarrow> FairBackpressure (if 0 < d then d else retryHandlerErrorBackoff)
     | FairBackpressure d \<Rightarrow> HandlerError | _ \<Rightarrow> x)"

lemma retry_loop_eq: "processRetryRecords h st rs c = dispatch_records (as_dispatch \<circ> h) st rs c"
  by (induction rs arbitrary: st c) (auto simp: processOneRetryRecord_def as_dispatch_def split: handler_result.splits)

text \<open>The records the loop hands to the handler with success.\<close>

fun ok_records :: "(wm_rec \<Rightarrow> handler_result) \<Rightarrow> partitionKey set \<Rightarrow> wm_rec list \<Rightarrow> wm_rec list" where
  "ok_records h stopped [] = []"
| "ok_records h stopped (r # rs) =
     (if key_of r \<in> stopped then ok_records h stopped rs
      else if h r = HandlerOk then r # ok_records h stopped rs else ok_records h (insert (key_of r) stopped) rs)"

lemma ok_records_right: "r \<in> set (ok_records h st rs) \<Longrightarrow> r \<in> set rs \<and> h r = HandlerOk"
  by (induction rs arbitrary: st) (auto split: if_splits)

definition new_calls :: "cclient \<Rightarrow> cclient \<Rightarrow> kcall list" where
  "new_calls c c' = drop (length (cc_calls c)) (cc_calls c')"

definition add_done :: "wm_rec list \<Rightarrow> (partitionKey \<Rightarrow> int set) \<Rightarrow> partitionKey \<Rightarrow> int set" where
  "add_done rs dn p = dn p \<union> {r_off r | r. r \<in> set rs \<and> key_of r = p}"

text \<open>A pause always lasts some time.\<close>

definition waits :: "(wm_rec \<Rightarrow> handler_result) \<Rightarrow> bool" where
  "waits h \<longleftrightarrow> (\<forall>r d. h r = FairBackpressure d \<longrightarrow> 0 < d)"

definition extends_by :: "cclient \<Rightarrow> kcall list \<Rightarrow> cclient \<Rightarrow> bool" where
  "extends_by c cs c' \<longleftrightarrow> cc_calls c' = cc_calls c @ cs"

lemma extends_new_calls: "extends_by c cs c' \<Longrightarrow> new_calls c c' = cs"
  by (simp add: extends_by_def new_calls_def)

lemma extends_refl: "extends_by c [] c"
  by (simp add: extends_by_def)

lemma extends_trans: "extends_by c cs c' \<Longrightarrow> extends_by c' cs' c'' \<Longrightarrow> extends_by c (cs @ cs') c''"
  by (simp add: extends_by_def)

lemma emit_extends: "extends_by c [x] (kcall_emit x c)"
  by (simp add: extends_by_def kcall_emit_def)

lemma emit_fields [simp]: "deferredPaused (kcall_emit x c) = deferredPaused c" "partPaused (kcall_emit x c) = partPaused c"
  "cc_timers (kcall_emit x c) = cc_timers c" "deferGen (kcall_emit x c) = deferGen c" "deferLife (kcall_emit x c) = deferLife c"
  "cc_topics (kcall_emit x c) = cc_topics c" "cc_calls (kcall_emit x c) = cc_calls c @ [x]"
  by (simp_all add: kcall_emit_def)

lemma defer_fresh:
  assumes "0 < w" and "map_of (deferredPaused c) (key_of r) = None"
  shows "extends_by c [PauseFetchPartitions (key_of r), SetOffsets [key_of r \<mapsto> r_off r]] (deferClientPartitionPause r w c)"
    and "map_of (deferredPaused (deferClientPartitionPause r w c)) = (map_of (deferredPaused c))(key_of r \<mapsto> r_off r)"
    and "partPaused (deferClientPartitionPause r w c) = partPaused c"
  using assms by (auto simp: deferClientPartitionPause_def pauseDeferredPartition_def deferLifecycle_def Let_def extends_by_def update_conv')

subsection \<open>The loop keeps every unhandled record ahead\<close>

text \<open>Below the position of a partition, and below the offset to commit, every record is handled, except the records
  \<open>rs\<close> still to come.\<close>

definition covered :: "(partitionKey \<Rightarrow> int set) \<Rightarrow> (partitionKey \<Rightarrow> int) \<Rightarrow> (partitionKey \<Rightarrow> int) \<Rightarrow> (partitionKey \<Rightarrow> int set) \<Rightarrow> (partitionKey \<times> int) set \<Rightarrow> bool" where
  "covered lg ps hs dn todo \<longleftrightarrow> (\<forall>p. \<forall>d \<in> lg p. (d < hs p \<longrightarrow> d \<in> dn p) \<and> (d < ps p \<longrightarrow> d \<in> dn p \<or> (p, d) \<in> todo))"

lemma coveredD:
  assumes "covered lg ps hs dn todo" and "d \<in> lg p"
  shows "d < hs p \<Longrightarrow> d \<in> dn p" and "d < ps p \<Longrightarrow> d \<in> dn p \<or> (p, d) \<in> todo"
  using assms unfolding covered_def by blast+

definition coords :: "partitionKey set \<Rightarrow> wm_rec list \<Rightarrow> (partitionKey \<times> int) set" where
  "coords st rs = {(key_of r, r_off r) | r. r \<in> set rs \<and> key_of r \<notin> st}"

definition loop_ok :: "('k \<Rightarrow> partitionKey \<Rightarrow> int) \<Rightarrow> ('k \<Rightarrow> partitionKey \<Rightarrow> int) \<Rightarrow> ('k \<Rightarrow> partitionKey \<Rightarrow> bool) \<Rightarrow> (partitionKey \<Rightarrow> int set) \<Rightarrow>
    partitionKey set \<Rightarrow> wm_rec list \<Rightarrow> cclient \<Rightarrow> 'k \<Rightarrow> (partitionKey \<Rightarrow> int set) \<Rightarrow> bool" where
  "loop_ok pos mk held lg st rs c k dn \<longleftrightarrow> covered lg (pos k) (mk k) dn (coords st rs) \<and>
     sorted_wrt (\<lambda>a b. key_of a = key_of b \<longrightarrow> r_off a < r_off b) rs \<and>
     (\<forall>r \<in> set rs. key_of r \<notin> st \<longrightarrow> r_off r < pos k (key_of r) \<and> map_of (deferredPaused c) (key_of r) = None) \<and>
     (\<forall>p. map_of (deferredPaused c) p \<noteq> None \<longrightarrow> held k p) \<and> partPaused c = []"

lemma loop_okD:
  assumes "loop_ok pos mk held lg st rs c k dn"
  shows "covered lg (pos k) (mk k) dn (coords st rs)" and "sorted_wrt (\<lambda>a b. key_of a = key_of b \<longrightarrow> r_off a < r_off b) rs"
    and "r \<in> set rs \<Longrightarrow> key_of r \<notin> st \<Longrightarrow> r_off r < pos k (key_of r) \<and> map_of (deferredPaused c) (key_of r) = None"
    and "map_of (deferredPaused c) p \<noteq> None \<Longrightarrow> held k p" and "partPaused c = []"
  using assms unfolding loop_ok_def by blast+

lemma first_below:
  assumes "loop_ok pos mk held lg st (r # rs) c k dn" and "key_of r \<notin> st" and "d \<in> lg (key_of r)" and "d < r_off r"
  shows "d \<in> dn (key_of r)"
proof -
  note L = loop_okD [OF assms(1)]
  have "d < pos k (key_of r)" using L(3) [of r] assms(2,4) by simp
  then have "d \<in> dn (key_of r) \<or> (key_of r, d) \<in> coords st (r # rs)" using coveredD(2) [OF L(1) assms(3)] by blast
  moreover have "(key_of r, d) \<notin> coords st (r # rs)" using L(2) assms(4) by (auto simp: coords_def)
  ultimately show ?thesis by blast
qed

lemma loop_mark:
  assumes "kgo_laws A pos mk held" and "loop_ok pos mk held lg st (r # rs) c k dn" and "key_of r \<notin> st"
  shows "loop_ok pos mk held lg st rs (kcall_emit (MarkCommitRecords [r]) c) (A (MarkCommitRecords [r]) k) (add_done [r] dn)"
proof -
  let ?k = "A (MarkCommitRecords [r]) k"
  note L = loop_okD [OF assms(2)]
  have m: "pos ?k = pos k" "held ?k = held k" "mk ?k p = (if key_of r = p then max (mk k p) (r_off r + 1) else mk k p)" for p
    using kgo_mark [OF assms(1), of r k] by blast+
  have "covered lg (pos ?k) (mk ?k) (add_done [r] dn) (coords st rs)"
    unfolding covered_def
  proof (intro allI ballI conjI impI)
    fix p d assume d: "d \<in> lg p" "d < mk ?k p"
    show "d \<in> add_done [r] dn p"
    proof (cases "key_of r = p \<and> mk k p \<le> d")
      case True
      then have "d < mk k p \<or> d < r_off r + 1" using d(2) by (simp add: m(3) less_max_iff_disj)
      then have "d \<le> r_off r" using True by linarith
      then show ?thesis using first_below [OF assms(2,3), of d] d(1) True by (cases "d = r_off r") (auto simp: add_done_def)
    next
      case False
      then have "d < mk k p" using d(2) by (auto simp: m(3) split: if_splits)
      then show ?thesis using coveredD(1) [OF L(1) d(1)] by (simp add: add_done_def)
    qed
  next
    fix p d assume d: "d \<in> lg p" "d < pos ?k p"
    show "d \<in> add_done [r] dn p \<or> (p, d) \<in> coords st rs"
      using coveredD(2) [OF L(1) d(1)] d(2) by (auto simp: m(1) add_done_def coords_def)
  qed
  then show ?thesis using assms(2) by (simp add: loop_ok_def m(1,2))
qed

lemma loop_fail:
  assumes "kgo_laws A pos mk held" and "loop_ok pos mk held lg st (r # rs) c k dn" and "key_of r \<notin> st" and "0 < w"
  shows "loop_ok pos mk held lg (insert (key_of r) st) rs (deferClientPartitionPause r w c)
     (A (SetOffsets [key_of r \<mapsto> r_off r]) (A (PauseFetchPartitions (key_of r)) k)) dn"
proof -
  let ?p = "key_of r" and ?k1 = "A (PauseFetchPartitions (key_of r)) k" and ?m = "[key_of r \<mapsto> r_off r]"
  let ?k = "A (SetOffsets ?m) ?k1"
  note l = kgo_seek [OF assms(1), where m = ?m and k = ?k1] kgo_pause [OF assms(1), where q = ?p and k = k]
  note L = loop_okD [OF assms(2)]
  have none: "map_of (deferredPaused c) ?p = None" using L(3) [of r] assms(3) by simp
  note df = defer_fresh(2,3) [OF assms(4) none]
  have ps: "pos ?k p = (if p = ?p then r_off r else pos k p)" for p using l by simp
  have hs: "mk ?k p = mk k p \<or> p = ?p \<and> mk ?k p = r_off r" for p using l(3) [of p] l(5) by (auto split: if_splits)
  have "covered lg (pos ?k) (mk ?k) dn (coords (insert ?p st) rs)"
    unfolding covered_def
  proof (intro allI ballI conjI impI)
    fix p d assume d: "d \<in> lg p" "d < mk ?k p"
    show "d \<in> dn p"
    proof (cases "mk ?k p = mk k p")
      case True
      then show ?thesis using coveredD(1) [OF L(1) d(1)] d(2) by simp
    next
      case False
      then show ?thesis using hs [of p] first_below [OF assms(2,3), of d] d by simp
    qed
  next
    fix p d assume d: "d \<in> lg p" "d < pos ?k p"
    show "d \<in> dn p \<or> (p, d) \<in> coords (insert ?p st) rs"
    proof (cases "p = ?p")
      case True
      then show ?thesis using d ps first_below [OF assms(2,3), of d] by simp
    next
      case False
      then have "d \<in> dn p \<or> (p, d) \<in> coords st (r # rs)" using coveredD(2) [OF L(1) d(1)] d(2) ps by simp
      then show ?thesis using False by (auto simp: coords_def)
    qed
  qed
  moreover have "sorted_wrt (\<lambda>a b. key_of a = key_of b \<longrightarrow> r_off a < r_off b) rs" using L(2) by simp
  moreover have "\<forall>q \<in> set rs. key_of q \<notin> insert ?p st \<longrightarrow> r_off q < pos ?k (key_of q) \<and> map_of (deferredPaused (deferClientPartitionPause r w c)) (key_of q) = None"
    using L(3) df ps by simp
  moreover have "\<forall>p. map_of (deferredPaused (deferClientPartitionPause r w c)) p \<noteq> None \<longrightarrow> held ?k p"
    using L(4) unfolding df(1) l(1,6) by simp
  ultimately show ?thesis using L(5) df(2) unfolding loop_ok_def by simp
qed

lemma dispatch_keeps:
  assumes "kgo_laws A pos mk held" and "waits h" and "loop_ok pos mk held lg st rs c k dn"
  shows "\<exists>cs. extends_by c cs (dispatch_records h st rs c) \<and>
     loop_ok pos mk held lg {} [] (dispatch_records h st rs c) (fold A cs k) (add_done (ok_records h st rs) dn)"
  using assms(3)
proof (induction rs arbitrary: st c k dn)
  case Nil
  then have "loop_ok pos mk held lg {} [] c k dn" by (simp add: loop_ok_def coords_def)
  moreover have "add_done [] dn = dn" by (simp add: add_done_def fun_eq_iff)
  ultimately have "loop_ok pos mk held lg {} [] c k (add_done [] dn)" by simp
  then show ?case using extends_refl by (auto intro!: exI [of _ "[]"])
next
  case (Cons r rs)
  note L = loop_okD [OF Cons.prems]
  have fail: ?case if w: "0 < w" and st: "key_of r \<notin> st" and
      step: "dispatch_records h st (r # rs) c = dispatch_records h (insert (key_of r) st) rs (deferClientPartitionPause r w c)"
      "ok_records h st (r # rs) = ok_records h (insert (key_of r) st) rs" for w
  proof -
    have none: "map_of (deferredPaused c) (key_of r) = None" using L(3) [of r] st by simp
    note e = defer_fresh(1) [OF w none]
    obtain cs where "extends_by (deferClientPartitionPause r w c) cs (dispatch_records h st (r # rs) c)"
      "loop_ok pos mk held lg {} [] (dispatch_records h st (r # rs) c)
         (fold A cs (A (SetOffsets [key_of r \<mapsto> r_off r]) (A (PauseFetchPartitions (key_of r)) k))) (add_done (ok_records h st (r # rs)) dn)"
      using Cons.IH [OF loop_fail [OF assms(1) Cons.prems st w]] unfolding step by blast
    then show ?thesis using extends_trans [OF e] by (intro exI [of _ "[PauseFetchPartitions (key_of r), SetOffsets [key_of r \<mapsto> r_off r]] @ cs"]) simp
  qed
  show ?case
  proof (cases "key_of r \<in> st")
    case True
    then have "coords st (r # rs) = coords st rs" by (auto simp: coords_def)
    then have "loop_ok pos mk held lg st rs c k dn" using Cons.prems by (simp add: loop_ok_def)
    then show ?thesis using Cons.IH [of st c k dn] True by simp
  next
    case out: False
    show ?thesis
    proof (cases "h r")
      case HandlerOk
      let ?c = "kcall_emit (MarkCommitRecords [r]) c" and ?k = "A (MarkCommitRecords [r]) k"
      have dn: "add_done rs' (add_done [r] dn) = add_done (r # rs') dn" for rs' by (auto simp: add_done_def fun_eq_iff)
      obtain cs where "extends_by ?c cs (dispatch_records h st rs ?c)"
        "loop_ok pos mk held lg {} [] (dispatch_records h st rs ?c) (fold A cs ?k) (add_done (r # ok_records h st rs) dn)"
        using Cons.IH [OF loop_mark [OF assms(1) Cons.prems out]] unfolding dn by blast
      then show ?thesis using extends_trans [OF emit_extends, of "MarkCommitRecords [r]" c] HandlerOk out
        by (intro exI [of _ "[MarkCommitRecords [r]] @ cs"]) simp
    next
      case (RetryPaused d)
      then show ?thesis using fail [of retryHandlerErrorBackoff] out by (simp add: retryHandlerErrorBackoff_def)
    next
      case (FairBackpressure d)
      then have "0 < d" using assms(2) by (simp add: waits_def)
      then show ?thesis using fail [of d] FairBackpressure out by simp
    next
      case HandlerError
      then show ?thesis using fail [of retryHandlerErrorBackoff] out by (simp add: retryHandlerErrorBackoff_def)
    qed
  qed
qed

subsection \<open>Polls\<close>

definition loop_inv :: "('k \<Rightarrow> partitionKey \<Rightarrow> int) \<Rightarrow> ('k \<Rightarrow> partitionKey \<Rightarrow> int) \<Rightarrow> ('k \<Rightarrow> partitionKey \<Rightarrow> bool) \<Rightarrow> (partitionKey \<Rightarrow> int set) \<Rightarrow>
    cclient \<Rightarrow> 'k \<Rightarrow> (partitionKey \<Rightarrow> int set) \<Rightarrow> bool" where
  "loop_inv pos mk held lg c k dn = loop_ok pos mk held lg {} [] c k dn"

lemma loop_inv_iff: "loop_inv pos mk held lg c k dn \<longleftrightarrow>
    covered lg (pos k) (mk k) dn {} \<and> (\<forall>p. map_of (deferredPaused c) p \<noteq> None \<longrightarrow> held k p) \<and> partPaused c = []"
  by (simp add: loop_inv_def loop_ok_def coords_def)

lemma loop_invD:
  assumes "loop_inv pos mk held lg c k dn"
  shows "covered lg (pos k) (mk k) dn {}" and "map_of (deferredPaused c) p \<noteq> None \<Longrightarrow> held k p" and "partPaused c = []"
  using assms unfolding loop_inv_iff by blast+

text \<open>The kill switch at the level of topics: \<open>q\<close> are the paused ones.\<close>

definition topic_switch :: "(string \<Rightarrow> bool) option \<Rightarrow> (string \<Rightarrow> int \<Rightarrow> bool) option" where
  "topic_switch q = map_option (\<lambda>q t _. q t) q"

definition record_switch :: "(string \<Rightarrow> bool) option \<Rightarrow> ((wm_rec \<Rightarrow> bool) \<times> (wm_rec \<Rightarrow> bool)) option" where
  "record_switch q = map_option (\<lambda>q. (\<lambda>r. q (r_topic r), \<lambda>r. q (r_topic r))) q"

definition topic_call :: "kcall \<Rightarrow> bool" where
  "topic_call x \<longleftrightarrow> x \<in> {CommitMarkedOffsets} \<union> range PauseFetchTopics \<union> range ResumeFetchTopics"

lemma topic_calls_move_nothing:
  assumes "kgo_laws A pos mk held" and "list_all topic_call cs"
  shows "pos (fold A cs k) = pos k \<and> mk (fold A cs k) = mk k \<and> held (fold A cs k) = held k"
  using assms(2)
proof (induction cs arbitrary: k)
  case (Cons x cs)
  then have "pos (A x k) = pos k \<and> mk (A x k) = mk k \<and> held (A x k) = held k"
    using kgo_topic [OF assms(1), of x k] by (simp add: topic_call_def)
  then show ?case using Cons by simp
qed simp

lemma apply_topic_pause: "\<exists>cs. extends_by c cs (applyTopicPauseLocked t c) \<and> list_all topic_call cs \<and>
    deferredPaused (applyTopicPauseLocked t c) = deferredPaused c \<and> partPaused (applyTopicPauseLocked t c) = partPaused c"
proof (cases "(killswitchWant c t \<or> priorityWant c t) = topicPaused c t")
  case True
  then show ?thesis by (intro exI [of _ "[]"]) (simp add: applyTopicPauseLocked_def Let_def extends_by_def)
next
  case False
  then show ?thesis
    by (intro exI [of _ "[if killswitchWant c t \<or> priorityWant c t then PauseFetchTopics t else ResumeFetchTopics t]"])
      (simp add: applyTopicPauseLocked_def Let_def extends_by_def topic_call_def)
qed

lemma sync_topics: "\<exists>cs. extends_by c cs (fold (sync_topic q) ts c) \<and> list_all topic_call cs \<and>
    deferredPaused (fold (sync_topic q) ts c) = deferredPaused c \<and> partPaused (fold (sync_topic q) ts c) = partPaused c"
proof (induction ts arbitrary: c)
  case Nil
  show ?case by (intro exI [of _ "[]"]) (simp add: extends_by_def)
next
  case (Cons t ts)
  let ?c = "sync_topic q t c"
  obtain cs1 where 1: "extends_by c cs1 ?c" "list_all topic_call cs1" "deferredPaused ?c = deferredPaused c" "partPaused ?c = partPaused c"
    using apply_topic_pause [of "c\<lparr>killswitchWant := (killswitchWant c)(t := q t 0)\<rparr>" t] by (auto simp: sync_topic_def extends_by_def)
  obtain cs2 where "extends_by ?c cs2 (fold (sync_topic q) ts ?c)" "list_all topic_call cs2"
    "deferredPaused (fold (sync_topic q) ts ?c) = deferredPaused ?c" "partPaused (fold (sync_topic q) ts ?c) = partPaused ?c"
    using Cons.IH [of ?c] by blast
  then show ?case using 1 extends_trans by (intro exI [of _ "cs1 @ cs2"]) auto
qed

lemma sync_keeps:
  assumes "kgo_laws A pos mk held" and "loop_inv pos mk held lg c k dn"
  shows "loop_inv pos mk held lg (syncConsumptionFetchPause (topic_switch q) c) (fold A (new_calls c (syncConsumptionFetchPause (topic_switch q) c)) k) dn"
proof (cases q)
  case None
  then show ?thesis using assms(2) by (simp add: syncConsumptionFetchPause_def topic_switch_def new_calls_def)
next
  case (Some f)
  let ?q = "\<lambda>t _. f t"
  obtain cs where cs: "extends_by c cs (fold (sync_topic ?q) (cc_topics c) c)" "list_all topic_call cs"
    "deferredPaused (fold (sync_topic ?q) (cc_topics c) c) = deferredPaused c" "partPaused (fold (sync_topic ?q) (cc_topics c) c) = partPaused c"
    using sync_topics [of c ?q "cc_topics c"] by blast
  have none: "partPaused c = []" using assms(2) by (simp add: loop_inv_iff)
  have s: "syncConsumptionFetchPause (topic_switch q) c = (fold (sync_topic ?q) (cc_topics c) c)\<lparr>partPaused := []\<rparr>"
    using cs(4) none Some by (simp add: syncConsumptionFetchPause_def topic_switch_def Let_def)
  have n: "new_calls c (syncConsumptionFetchPause (topic_switch q) c) = cs"
    using extends_new_calls [OF cs(1)] unfolding s by (simp add: new_calls_def)
  show ?thesis using assms(2) topic_calls_move_nothing [OF assms(1) cs(2), of k] cs(3) unfolding n unfolding s by (simp add: loop_inv_iff)
qed

lemma skip_topic: "pt r \<Longrightarrow> skip_record pt r c = c"
  by (simp add: skip_record_def)

lemma fold_skip: "list_all pt rs \<Longrightarrow> fold (skip_record pt) rs c = c"
  by (induction rs) (simp_all add: skip_topic)

lemma collect_keeps:
  assumes "kgo_laws A pos mk held" and "loop_inv pos mk held lg c k0 dn" and "polled pos mk held lg k0 recs k"
    and "collectPollRecords (record_switch q) recs c = (c', rdy)"
  shows "loop_ok pos mk held lg {} rdy c' (fold A (new_calls c c') k) dn"
proof -
  have I: "covered lg (pos k0) (mk k0) dn {}" "\<And>p. map_of (deferredPaused c) p \<noteq> None \<Longrightarrow> held k0 p" "partPaused c = []"
    using assms(2) unfolding loop_inv_iff by blast+
  have P: "mk k = mk k0" "held k = held k0" "\<And>r. r \<in> set recs \<Longrightarrow> r_off r < pos k (key_of r) \<and> \<not> held k0 (key_of r)"
    "\<And>p d. d \<in> lg p \<Longrightarrow> pos k0 p \<le> d \<Longrightarrow> d < pos k p \<Longrightarrow> \<exists>r \<in> set recs. key_of r = p \<and> r_off r = d"
    "sorted_wrt (\<lambda>a b. key_of a = key_of b \<longrightarrow> r_off a < r_off b) recs"
    using assms(3) unfolding polled_def by blast+
  define f where "f = (case q of None \<Rightarrow> (\<lambda>_. False) | Some g \<Rightarrow> g)"
  let ?sk = "filter (\<lambda>r. f (r_topic r)) recs" and ?rd = "filter (\<lambda>r. \<not> f (r_topic r)) recs"
  have c': "c' = rewindUndispatched ?sk c" "rdy = ?rd"
    using assms(4) by (auto simp: collectPollRecords_def record_switch_def f_def rewindUndispatched_def Let_def fold_skip list_all_iff split: option.splits)
  have all: "d \<in> dn p \<or> (\<exists>r \<in> set recs. key_of r = p \<and> r_off r = d)" if "d \<in> lg p" "d < pos k p" for p d
    using coveredD(2) [OF I(1) that(1)] P(4) [OF that(1)] that(2) by force
  have srt: "sorted_wrt (\<lambda>a b. key_of a = key_of b \<longrightarrow> r_off a < r_off b) ?rd" using P(5) by (simp add: sorted_wrt_filter)
  have fresh: "map_of (deferredPaused c) (key_of r) = None" if "r \<in> set recs" for r using I(2) [of "key_of r"] P(3) [OF that] by blast
  let ?k = "fold A (new_calls c c') k" and ?m = "undispatchedRewindOffsets ?sk"
  have m: "?m p = Some d \<Longrightarrow> \<exists>r \<in> set ?sk. key_of r = p \<and> r_off r = d" "r \<in> set ?sk \<Longrightarrow> \<exists>d. ?m (key_of r) = Some d \<and> d \<le> r_off r" for p d r
    using rewind_attained rewind_covers by blast+
  have k: "pos ?k p = (case ?m p of None \<Rightarrow> pos k p | Some d \<Rightarrow> d)" "held ?k = held k" "mk ?k p = mk k p \<or> ?m p = Some (mk ?k p)" for p
  proof -
    have "?m p = None" if "?sk = []" using that by (simp add: undispatchedRewindOffsets_def)
    then show "pos ?k p = (case ?m p of None \<Rightarrow> pos k p | Some d \<Rightarrow> d)" "held ?k = held k" "mk ?k p = mk k p \<or> ?m p = Some (mk ?k p)"
      using kgo_seek [OF assms(1), of ?m k] unfolding c'(1) rewindUndispatched_def by (auto simp: new_calls_def)
  qed
  have below: "d' \<in> dn p" if b: "d' \<in> lg p" "?m p = Some d" "d' < d" for p d d'
  proof -
    obtain r where r: "r \<in> set ?sk" "key_of r = p" "r_off r = d" using m(1) [OF b(2)] by blast
    then have "d' < pos k p" using P(3) [of r] b(3) by force
    then consider "d' \<in> dn p" | x where "x \<in> set recs" "key_of x = p" "r_off x = d'" using all [OF b(1)] by blast
    then show ?thesis
    proof cases
      case 2
      then have "x \<in> set ?sk" using r by (auto simp: key_of_def)
      then show ?thesis using m(2) [of x] 2 b by auto
    qed
  qed
  have "covered lg (pos ?k) (mk ?k) dn (coords {} rdy)"
    unfolding covered_def
  proof (intro allI ballI conjI impI)
    fix p d assume d: "d \<in> lg p" "d < mk ?k p"
    then show "d \<in> dn p" using k(3) [of p] below [OF d(1)] coveredD(1) [OF I(1) d(1)] P(1) by auto
  next
    fix p d assume d: "d \<in> lg p" "d < pos ?k p"
    show "d \<in> dn p \<or> (p, d) \<in> coords {} rdy"
    proof (cases "?m p")
      case None
      then consider "d \<in> dn p" | x where "x \<in> set recs" "key_of x = p" "r_off x = d" using all [OF d(1)] d(2) k(1) [of p] by auto
      then show ?thesis
      proof cases
        case 2
        then have "x \<notin> set ?sk" using m(2) [of x] None by auto
        then show ?thesis using 2 by (auto simp: coords_def c'(2))
      qed simp
    next
      case (Some e)
      then show ?thesis using below [OF d(1) Some] d(2) k(1) [of p] by simp
    qed
  qed
  moreover have "\<forall>r \<in> set rdy. key_of r \<notin> {} \<longrightarrow> r_off r < pos ?k (key_of r) \<and> map_of (deferredPaused c') (key_of r) = None"
  proof (intro ballI impI conjI)
    fix r assume r: "r \<in> set rdy"
    then have rr: "r \<in> set recs" "\<not> f (r_topic r)" by (auto simp: c'(2))
    have "?m (key_of r) = None" using m(1) [of "key_of r"] rr(2) by (cases "?m (key_of r)") (auto simp: key_of_def)
    then show "r_off r < pos ?k (key_of r)" using P(3) [OF rr(1)] k(1) by simp
    show "map_of (deferredPaused c') (key_of r) = None" using fresh [OF rr(1)] by (simp add: c'(1) rewindUndispatched_def)
  qed
  moreover have "\<forall>p. map_of (deferredPaused c') p \<noteq> None \<longrightarrow> held ?k p" using I(2) k(2) P(2) by (simp add: c'(1) rewindUndispatched_def)
  moreover have "partPaused c' = []" using I(3) by (simp add: c'(1) rewindUndispatched_def)
  ultimately show ?thesis using srt unfolding loop_ok_def c'(2) by blast
qed

subsection \<open>Runs of a consumer\<close>

datatype consumer_kind = DispatchConsumer | RetryConsumer

definition process_poll :: "consumer_kind \<Rightarrow> (wm_rec \<Rightarrow> handler_result) \<Rightarrow> wm_rec list \<Rightarrow> cclient \<Rightarrow> cclient" where
  "process_poll n h rs c = (case n of DispatchConsumer \<Rightarrow> dispatch_records h {} rs c | RetryConsumer \<Rightarrow> processRetryRecords h {} rs c)"

text \<open>The delays of the two consumers' own pauses are positive (\<open>fairBackpressurePause\<close>; the retry loop tests it).\<close>

definition kind_waits :: "consumer_kind \<Rightarrow> (wm_rec \<Rightarrow> handler_result) \<Rightarrow> bool" where
  "kind_waits n h = (case n of DispatchConsumer \<Rightarrow> waits h | RetryConsumer \<Rightarrow> True)"

definition kind_ok :: "consumer_kind \<Rightarrow> (wm_rec \<Rightarrow> handler_result) \<Rightarrow> wm_rec list \<Rightarrow> wm_rec list" where
  "kind_ok n h rs = ok_records h {} rs"

text \<open>
  A run: polls (with the synchronisation of the kill switch before and the handlers after them), timers, revocations
  with a later assignment at the committed offset, and restarts from the committed offsets. \<open>dn p\<close> holds the offsets of
  \<open>p\<close> whose handler has returned without an error.
\<close>

inductive group_run :: "(kcall \<Rightarrow> 'k \<Rightarrow> 'k) \<Rightarrow> ('k \<Rightarrow> partitionKey \<Rightarrow> int) \<Rightarrow> ('k \<Rightarrow> partitionKey \<Rightarrow> int) \<Rightarrow> ('k \<Rightarrow> partitionKey \<Rightarrow> bool) \<Rightarrow> (partitionKey \<Rightarrow> int set) \<Rightarrow>
    consumer_kind \<Rightarrow> cclient \<Rightarrow> 'k \<Rightarrow> (partitionKey \<Rightarrow> int set) \<Rightarrow> bool" for A pos mk held lg n where
  gr_start: "\<forall>p. pos k p = mk k p \<and> (\<forall>d \<in> lg p. mk k p \<le> d) \<Longrightarrow> group_run A pos mk held lg n (newGroupConsumerClient ts) k (\<lambda>_. {})"
| gr_poll: "group_run A pos mk held lg n c k dn \<Longrightarrow> c1 = syncConsumptionFetchPause (topic_switch q) c \<Longrightarrow> k1 = fold A (new_calls c c1) k \<Longrightarrow>
     polled pos mk held lg k1 recs k2 \<Longrightarrow> collectPollRecords (record_switch q') recs c1 = (c2, rdy) \<Longrightarrow> kind_waits n h \<Longrightarrow>
     c3 = process_poll n h rdy c2 \<Longrightarrow> k3 = fold A (new_calls c1 c3) k2 \<Longrightarrow>
     group_run A pos mk held lg n c3 k3 (add_done (kind_ok n h rdy) dn)"
| gr_timer: "group_run A pos mk held lg n c k dn \<Longrightarrow> c' = timer_fires i c \<Longrightarrow> group_run A pos mk held lg n c' (fold A (new_calls c c') k) dn"
| gr_revoke: "group_run A pos mk held lg n c k dn \<Longrightarrow> c' = onPartitionsRevoked ks c \<Longrightarrow>
     \<forall>p. if p \<in> set ks then pos k' p = mk k' p \<and> mk k' p \<le> mk k p else pos k' p = pos k p \<and> mk k' p = mk k p \<and> held k' p = held k p \<Longrightarrow>
     group_run A pos mk held lg n c' k' dn"
| gr_restart: "group_run A pos mk held lg n c k dn \<Longrightarrow> \<forall>p. pos k' p = mk k' p \<and> mk k' p \<le> mk k p \<Longrightarrow>
     group_run A pos mk held lg n (newGroupConsumerClient ts) k' dn"

lemma process_keeps:
  assumes "kgo_laws A pos mk held" and "kind_waits n h" and "loop_ok pos mk held lg {} rs c k dn"
  shows "\<exists>cs. extends_by c cs (process_poll n h rs c) \<and> loop_inv pos mk held lg (process_poll n h rs c) (fold A cs k) (add_done (kind_ok n h rs) dn)"
proof (cases n)
  case DispatchConsumer
  then show ?thesis using dispatch_keeps [OF assms(1) _ assms(3), of h] assms(2)
    by (simp add: process_poll_def kind_waits_def kind_ok_def loop_inv_def)
next
  case RetryConsumer
  have w: "waits (as_dispatch \<circ> h)"
    by (auto simp: waits_def as_dispatch_def retryHandlerErrorBackoff_def split: handler_result.splits if_splits)
  have same: "(as_dispatch \<circ> h) r = HandlerOk \<longleftrightarrow> h r = HandlerOk" for r by (auto simp: as_dispatch_def split: handler_result.splits)
  have "ok_records (as_dispatch \<circ> h) st rs = ok_records h st rs" for st using same by (induction rs arbitrary: st) auto
  then show ?thesis using dispatch_keeps [OF assms(1) w assms(3)] RetryConsumer
    by (simp add: process_poll_def kind_ok_def loop_inv_def retry_loop_eq)
qed

lemma new_calls_trans: "extends_by c cs c' \<Longrightarrow> extends_by c' cs' c'' \<Longrightarrow> new_calls c c'' = cs @ cs'"
  by (rule extends_new_calls) (rule extends_trans)

lemma collect_extends:
  assumes "collectPollRecords (record_switch q) recs c = (c', rdy)"
  shows "extends_by c (new_calls c c') c'"
  using assms by (auto simp: collectPollRecords_def record_switch_def rewindUndispatched_def Let_def fold_skip list_all_iff extends_by_def new_calls_def
      split: option.splits if_splits)

lemma timer_keeps:
  assumes "kgo_laws A pos mk held" and "loop_inv pos mk held lg c k dn"
  shows "loop_inv pos mk held lg (timer_fires i c) (fold A (new_calls c (timer_fires i c)) k) dn"
proof -
  note I = loop_invD [OF assms(2)]
  have del: "map_of (AList.delete q (deferredPaused c)) p \<noteq> None \<Longrightarrow> p \<noteq> q \<and> map_of (deferredPaused c) p \<noteq> None" for p q
    by (auto simp: delete_conv' split: if_splits)
  obtain g q where gq: "cc_timers c ! i = (g, q)" by (metis surj_pair)
  let ?ts = "take i (cc_timers c) @ drop (Suc i) (cc_timers c)"
  have t: "timer_fires i c = (if i < length (cc_timers c)
      then if deferGen c = g \<and> deferLife c \<and> map_of (deferredPaused c) q \<noteq> None
           then kcall_emit (ResumeFetchPartitions q) (c\<lparr>cc_timers := ?ts, deferredPaused := AList.delete q (deferredPaused c)\<rparr>) else c\<lparr>cc_timers := ?ts\<rparr>
      else c)"
    by (simp add: timer_fires_def clearDeferredPartitionPause_def Let_def gq)
  show ?thesis
  proof (cases "i < length (cc_timers c) \<and> deferGen c = g \<and> deferLife c \<and> map_of (deferredPaused c) q \<noteq> None")
    case True
    have n: "new_calls c (timer_fires i c) = [ResumeFetchPartitions q]" using True by (simp add: t new_calls_def)
    have "held (A (ResumeFetchPartitions q) k) p" if "map_of (AList.delete q (deferredPaused c)) p \<noteq> None" for p
      using del [OF that] I(2) [of p] kgo_pause(6) [OF assms(1), of q k] by simp
    then show ?thesis using I(1,3) True kgo_pause(4,5) [OF assms(1), of q k] unfolding n loop_inv_iff by (simp add: t)
  next
    case False
    then have f: "deferredPaused (timer_fires i c) = deferredPaused c" "partPaused (timer_fires i c) = partPaused c" "new_calls c (timer_fires i c) = []"
      by (auto simp: t new_calls_def)
    show ?thesis using assms(2) unfolding loop_inv_iff f by simp
  qed
qed

lemma revoke_keeps:
  assumes "loop_inv pos mk held lg c k dn"
    and "\<And>p. if p \<in> set ks then pos k' p = mk k' p \<and> mk k' p \<le> mk k p else pos k' p = pos k p \<and> mk k' p = mk k p \<and> held k' p = held k p"
  shows "loop_inv pos mk held lg (onPartitionsRevoked ks c) k' dn"
proof -
  note I = loop_invD [OF assms(1)]
  have "covered lg (pos k') (mk k') dn {}"
    unfolding covered_def
  proof (intro allI ballI conjI impI)
    fix p d assume d: "d \<in> lg p" "d < mk k' p"
    then show "d \<in> dn p" using coveredD(1) [OF I(1) d(1)] assms(2) [of p] by (auto split: if_splits)
  next
    fix p d assume d: "d \<in> lg p" "d < pos k' p"
    then show "d \<in> dn p \<or> (p, d) \<in> {}" using coveredD [OF I(1) d(1)] assms(2) [of p] by (auto split: if_splits)
  qed
  moreover have "held k' p" if "map_of (deferredPaused (onPartitionsRevoked ks c)) p \<noteq> None" for p
  proof -
    have "p \<notin> set ks \<and> map_of (deferredPaused c) p \<noteq> None"
      using that by (auto simp: onPartitionsRevoked_def dropDeferredForRevoked_def map_of_eq_None_iff)
    then show ?thesis using I(2) [of p] assms(2) [of p] by simp
  qed
  ultimately show ?thesis using I(3) unfolding loop_inv_iff by (simp add: onPartitionsRevoked_def dropDeferredForRevoked_def)
qed

lemma group_run_inv:
  assumes "group_run A pos mk held lg n c k dn" and "kgo_laws A pos mk held"
  shows "loop_inv pos mk held lg c k dn"
  using assms(1)
proof (induction rule: group_run.induct)
  case (gr_start k ts)
  then show ?case by (force simp: loop_inv_iff covered_def newGroupConsumerClient_def)
next
  case (gr_poll c k dn c1 q k1 recs k2 q' c2 rdy h c3 k3)
  have 1: "loop_inv pos mk held lg c1 k1 dn" using sync_keeps [OF assms(2) gr_poll.IH] gr_poll(2,3) by simp
  note 2 = collect_keeps [OF assms(2) 1 gr_poll(4,5)]
  obtain cs where cs: "extends_by c2 cs c3" "loop_inv pos mk held lg c3 (fold A cs (fold A (new_calls c1 c2) k2)) (add_done (kind_ok n h rdy) dn)"
    using process_keeps [OF assms(2) gr_poll(6) 2] gr_poll(7) by blast
  have "new_calls c1 c3 = new_calls c1 c2 @ cs" using new_calls_trans [OF collect_extends [OF gr_poll(5)] cs(1)] .
  then show ?case using cs(2) gr_poll(8) by simp
next
  case (gr_timer c k dn c' i)
  then show ?case using timer_keeps [OF assms(2)] by simp
next
  case (gr_revoke c k dn c' ks k')
  have r: "if p \<in> set ks then pos k' p = mk k' p \<and> mk k' p \<le> mk k p else pos k' p = pos k p \<and> mk k' p = mk k p \<and> held k' p = held k p" for p
    using gr_revoke(3) by (rule spec)
  show ?case unfolding gr_revoke(2) by (rule revoke_keeps [OF gr_revoke.IH r])
next
  case (gr_restart c k dn k' ts)
  then have I: "covered lg (pos k) (mk k) dn {}" by (simp add: loop_inv_iff)
  have "covered lg (pos k') (mk k') dn {}"
    unfolding covered_def
  proof (intro allI ballI conjI impI)
    fix p d assume d: "d \<in> lg p" "d < mk k' p"
    have "mk k' p \<le> mk k p" using gr_restart(2) by blast
    then show "d \<in> dn p" using coveredD(1) [OF I d(1)] d(2) by simp
  next
    fix p d assume d: "d \<in> lg p" "d < pos k' p"
    have "pos k' p \<le> mk k p" using gr_restart(2) by metis
    then show "d \<in> dn p \<or> (p, d) \<in> {}" using coveredD(1) [OF I d(1)] d(2) by simp
  qed
  then show ?case by (simp add: loop_inv_iff newGroupConsumerClient_def)
qed


subsection \<open>A client that keeps the laws\<close>

record ref_client =
  rc_pos :: "partitionKey \<Rightarrow> int"
  rc_mk :: "partitionKey \<Rightarrow> int"
  rc_held :: "partitionKey \<Rightarrow> bool"

definition raise_mark :: "wm_rec \<Rightarrow> (partitionKey \<Rightarrow> int) \<Rightarrow> partitionKey \<Rightarrow> int" where
  "raise_mark r m = m(key_of r := max (m (key_of r)) (r_off r + 1))"

fun ref_apply :: "kcall \<Rightarrow> ref_client \<Rightarrow> ref_client" where
  "ref_apply (MarkCommitRecords rs) k = k\<lparr>rc_mk := fold raise_mark rs (rc_mk k)\<rparr>"
| "ref_apply (SetOffsets m) k = k\<lparr>rc_pos := (\<lambda>p. case m p of None \<Rightarrow> rc_pos k p | Some d \<Rightarrow> d), rc_mk := (\<lambda>p. case m p of None \<Rightarrow> rc_mk k p | Some d \<Rightarrow> d)\<rparr>"
| "ref_apply (PauseFetchPartitions p) k = k\<lparr>rc_held := (rc_held k)(p := True)\<rparr>"
| "ref_apply (ResumeFetchPartitions p) k = k\<lparr>rc_held := (rc_held k)(p := False)\<rparr>"
| "ref_apply _ k = k"

lemma Max_insert_max: "finite S \<Longrightarrow> Max (insert (max a b) S) = Max (insert (a::int) (insert b S))"
  by (cases "S = {}") (simp_all add: max.assoc)

lemma marks_max: "fold raise_mark rs m p = Max (insert (m p) {r_off r + 1 | r. r \<in> set rs \<and> key_of r = p})"
proof (induction rs arbitrary: m)
  case (Cons r rs)
  let ?S = "{r_off q + 1 | q. q \<in> set rs \<and> key_of q = p}"
  have fin: "finite ?S" by (rule finite_subset [of _ "(\<lambda>q. r_off q + 1) ` set rs"]) auto
  have "{r_off q + 1 | q. q \<in> set (r # rs) \<and> key_of q = p} = (if key_of r = p then insert (r_off r + 1) ?S else ?S)" by auto
  then show ?case using Cons.IH [of "raise_mark r m"] Max_insert_max [OF fin] by (simp add: raise_mark_def)
qed simp

lemma ref_laws: "kgo_laws ref_apply rc_pos rc_mk rc_held"
  unfolding kgo_laws_def
proof (intro conjI allI impI)
  fix rs k p show "rc_mk (ref_apply (MarkCommitRecords rs) k) p = Max (insert (rc_mk k p) {r_off r + 1 | r. r \<in> set rs \<and> key_of r = p})"
    by (simp add: marks_max)
next
  fix m k p show "rc_mk (ref_apply (SetOffsets m) k) p = rc_mk k p \<or> m p = Some (rc_mk (ref_apply (SetOffsets m) k) p)"
    by (cases "m p") simp_all
qed (auto simp del: split_paired_All)

definition in_rec :: "int \<Rightarrow> wm_rec" where
  "in_rec d = \<lparr>r_topic = ''in'', r_part = 0, r_off = d, r_value = ''v''\<rparr>"

definition in_key :: partitionKey where "in_key = (''in'', 0)"

definition in_log :: "partitionKey \<Rightarrow> int set" where "in_log p = (if p = in_key then {0, 1} else {})"

definition second_fails :: "wm_rec \<Rightarrow> handler_result" where
  "second_fails r = (if r_off r = 1 then HandlerError else HandlerOk)"

definition ref_start :: ref_client where "ref_start = \<lparr>rc_pos = (\<lambda>_. 0), rc_mk = (\<lambda>_. 0), rc_held = (\<lambda>_. False)\<rparr>"

lemma in_key_of [simp]: "key_of (in_rec d) = in_key" "r_off (in_rec d) = d"
  by (simp_all add: key_of_def in_rec_def in_key_def)


subsection \<open>Where records are passed over\<close>

text \<open>
  A kill switch on single partitions breaks the guarantee. Its resume and the resume of a deferred pause act on the same
  flag of the client. Here the switch for partition 0 goes on between two records of a poll and off again; the handler of
  record 1 meets backpressure in both polls. The second pause finds an entry for offset 1 and does not rewind, so that
  records 1 and 2 are behind the position, and marking record 3 commits past them.
\<close>

definition backpressure :: "wm_rec \<Rightarrow> handler_result" where "backpressure r = FairBackpressure 250000000"

definition strand1 :: cclient where
  "strand1 = (let (c, rs) = collectPollRecords (Some (\<lambda>r. r_off r = 2, \<lambda>_. False)) [in_rec 1, in_rec 2] (newGroupConsumerClient [''in''])
    in dispatch_records backpressure {} rs c)"

definition strand2 :: cclient where
  "strand2 = (let (c, rs) = collectPollRecords (Some (\<lambda>_. False, \<lambda>_. False)) [in_rec 1, in_rec 2] (syncConsumptionFetchPause (Some (\<lambda>_ _. False)) strand1)
    in dispatch_records backpressure {} rs c)"

definition strand3 :: cclient where "strand3 = dispatch_records (\<lambda>_. HandlerOk) {} [in_rec 3] (timer_fires 0 strand2)"

lemma partition_switch_strands_record:
  "cc_calls strand3 = [PauseFetchPartitions in_key, SetOffsets [in_key \<mapsto> 2], PauseFetchPartitions in_key, SetOffsets [in_key \<mapsto> 1],
     ResumeFetchPartitions in_key, PauseFetchPartitions in_key, ResumeFetchPartitions in_key, MarkCommitRecords [in_rec 3]]"
  by (simp add: strand1_def strand2_def strand3_def collectPollRecords_def skip_record_def pauseConsumptionPartition_def part_list_def rewindUndispatched_def
      undispatchedRewindOffsets_def backpressure_def deferClientPartitionPause_def pauseDeferredPartition_def deferLifecycle_def newGroupConsumerClient_def
      syncConsumptionFetchPause_def sync_topic_def sync_parts_def applyTopicPauseLocked_def timer_fires_def clearDeferredPartitionPause_def kcall_emit_def Let_def
      in_rec_def in_key_def key_of_def)

subsection \<open>Topic pauses\<close>

text \<open>The two reasons to pause a topic do not overwrite each other: the applied pause is their disjunction.\<close>

definition pauses_agree :: "cclient \<Rightarrow> bool" where
  "pauses_agree c \<longleftrightarrow> (\<forall>t. topicPaused c t = (killswitchWant c t \<or> priorityWant c t))"

lemma apply_agrees:
  assumes "\<And>u. u \<noteq> t \<Longrightarrow> topicPaused c u = (killswitchWant c u \<or> priorityWant c u)"
  shows "pauses_agree (applyTopicPauseLocked t c)" and "killswitchWant (applyTopicPauseLocked t c) = killswitchWant c"
    and "priorityWant (applyTopicPauseLocked t c) = priorityWant c"
proof -
  let ?c = "applyTopicPauseLocked t c"
  show w: "killswitchWant ?c = killswitchWant c" "priorityWant ?c = priorityWant c"
    by (simp_all add: applyTopicPauseLocked_def Let_def kcall_emit_def)
  have "topicPaused ?c u = (killswitchWant c u \<or> priorityWant c u)" for u
    using assms [of u] by (cases "u = t") (auto simp: applyTopicPauseLocked_def Let_def kcall_emit_def)
  then show "pauses_agree ?c" by (simp add: pauses_agree_def w)
qed

lemma sync_topics_agree: "pauses_agree c \<Longrightarrow> pauses_agree (fold (sync_topic q) ts c)"
proof (induction ts arbitrary: c)
  case (Cons t ts)
  have "pauses_agree (sync_topic q t c)" unfolding sync_topic_def using Cons.prems by (intro apply_agrees(1)) (simp add: pauses_agree_def)
  then show ?case using Cons.IH by simp
qed simp

lemma resumes_agree: "pauses_agree c \<Longrightarrow> pauses_agree (fold (\<lambda>p. kcall_emit (ResumeFetchPartitions (t, p))) ps c)"
  by (induction ps arbitrary: c) (simp_all add: kcall_emit_def pauses_agree_def)

lemma sync_parts_agree: "pauses_agree c \<Longrightarrow> pauses_agree (fold (sync_parts q) tps c)"
proof (induction tps arbitrary: c)
  case (Cons tp tps)
  then have "pauses_agree (sync_parts q tp c)" using resumes_agree [OF Cons.prems] by (simp add: sync_parts_def Let_def pauses_agree_def)
  then show ?case using Cons.IH by simp
qed simp

lemma topic_pause_is_or:
  assumes "pauses_agree c"
  shows "pauses_agree (syncConsumptionFetchPause ctl c) \<and> pauses_agree (fst (setPriorityTopicPause t want c)) \<and>
    (snd (setPriorityTopicPause t want c) \<longleftrightarrow> topicPaused c t \<noteq> (killswitchWant c t \<or> want))"
proof -
  have s: "pauses_agree (syncConsumptionFetchPause ctl c)"
  proof (cases ctl)
    case (Some q)
    let ?c = "fold (sync_topic q) (cc_topics c) c"
    have "pauses_agree (?c\<lparr>partPaused := []\<rparr>)" using sync_topics_agree [OF assms] by (simp add: pauses_agree_def)
    then show ?thesis using Some by (simp add: syncConsumptionFetchPause_def Let_def sync_parts_agree)
  qed (use assms in \<open>simp add: syncConsumptionFetchPause_def\<close>)
  have a: "pauses_agree (applyTopicPauseLocked t (c\<lparr>priorityWant := (priorityWant c)(t := want)\<rparr>))"
    using assms by (intro apply_agrees(1)) (simp add: pauses_agree_def)
  have "topicPaused (applyTopicPauseLocked t (c\<lparr>priorityWant := (priorityWant c)(t := want)\<rparr>)) t = (killswitchWant c t \<or> want)"
    by (auto simp: applyTopicPauseLocked_def Let_def kcall_emit_def)
  then show ?thesis using s a by (auto simp: setPriorityTopicPause_def Let_def)
qed

text \<open>
  The gate keeps one answer for all ranks. If only the middle topic has a backlog and the pre-poll hook visits the lowest
  rank first, the answer for its higher topics is reused for the middle topic, which is then paused because of its own
  backlog, although no topic above it has any.
\<close>

lemma gate_reuses_answer_of_other_rank:
  "let specs = topicSpecs ModeStrict 4 [''p0'', ''p1'', ''p2'']; lag = (\<lambda>ts. Some (''p1'' \<in> set ts));
       start = (newGroupConsumerClient [''p0'', ''p1'', ''p2''], \<lparr>g_lastCheck = None, g_lastResult = False\<rparr>, \<lambda>_. 0)
   in topicPaused (fst (priorityPrePollHook 2000000000 0 lag (\<lambda>ts. ts) [specs ! 2, specs ! 1, specs ! 0] start)) ''p1'' \<and>
      \<not> topicPaused (fst (priorityPrePollHook 2000000000 0 lag (\<lambda>ts. ts) [specs ! 0, specs ! 1, specs ! 2] start)) ''p2''"
  by code_simp

text \<open>A failing read of the kill switch never lifts a pause that was loaded.\<close>

lemma failed_read_keeps_pauses:
  assumes "ctl_lastLoad C = Some t"
  shows "ctl_snapshot interval now None C = (C, ctl_snap C)" and "sn_paused (snd (ctl_snapshot interval now None C)) g u p = sn_paused (ctl_snap C) g u p"
  using assms by (simp_all add: ctl_snapshot_def)

lemma restart_backoff_bounded: "consumerRestartInitial \<le> b \<Longrightarrow> b \<le> consumerRestartMax \<Longrightarrow>
    consumerRestartInitial \<le> next_backoff b \<and> next_backoff b \<le> consumerRestartMax \<and> (b < consumerRestartMax \<longrightarrow> b < next_backoff b)"
  by (auto simp: next_backoff_def consumerRestartInitial_def consumerRestartMax_def)

end
