(* ===== verification/Partition_Engine.thy ===== *)
theory Partition_Engine
  imports Group_Consumer_Claims
begin

text \<open>
  The goroutine-per-partition consumer (\<^verbatim>\<open>daemon/partition_engine.go\<close>), which runs the events and the callbacks topics: its
  operations, its interleavings, the order and the bounds of what it buffers, and what it commits.

  \<^item> A worker has the channel of batches (\<open>pw_queue\<close>), the batch its handler runs on (\<open>pw_busy\<close>), the batches of goroutines that
    wait for room in the channel (\<open>pw_pending\<close>), and the closed \<open>quit\<close> channel (\<open>pw_quit\<close>; the worker is then out of the map).
  \<^item> The scheduler of Go chooses the next operation: the operations below are atomic, a run is any sequence of them.
    When \<open>quit\<close> is closed a worker may still take a batch from its channel or return.
  \<^item> \<open>en_seen\<close>, \<open>en_handled\<close> and \<open>en_failed\<close> record, for the properties, the batches routed to a worker, the batches its handler
    was called on, and whether a call failed.
\<close>

subsection \<open>State and operations\<close>

record pworker =
  pw_queue :: "wm_rec list list"
  pw_busy :: "wm_rec list option"
  pw_pending :: "wm_rec list list"
  pw_quit :: bool

record engine =
  en_client :: cclient
  en_workers :: "partitionKey \<rightharpoonup> pworker"
  en_seen :: "partitionKey \<Rightarrow> wm_rec list list"
  en_handled :: "partitionKey \<Rightarrow> wm_rec list list"
  en_failed :: "partitionKey \<Rightarrow> bool"

definition defaultPartitionPollRecords :: int where "defaultPartitionPollRecords = 500"

definition effectivePartitionPoll :: "int \<Rightarrow> int" where
  "effectivePartitionPoll n = (if 0 < n then n else defaultPartitionPollRecords)"

definition chan_buffer :: "int \<Rightarrow> nat" where
  "chan_buffer b = (if b < 1 then 2 else nat b)"

definition new_worker :: pworker where
  "new_worker = \<lparr>pw_queue = [], pw_busy = None, pw_pending = [], pw_quit = False\<rparr>"

definition assign_one :: "partitionKey \<Rightarrow> engine \<Rightarrow> engine" where
  "assign_one p E = (if en_workers E p \<noteq> None then E
     else E\<lparr>en_workers := (en_workers E)(p \<mapsto> new_worker), en_seen := (en_seen E)(p := []), en_handled := (en_handled E)(p := [])\<rparr>)"

definition en_assigned :: "partitionKey list \<Rightarrow> engine \<Rightarrow> engine" where
  "en_assigned ks E = fold assign_one ks E"

definition stop_one :: "partitionKey \<Rightarrow> engine \<Rightarrow> engine" where
  "stop_one p E = (case en_workers E p of None \<Rightarrow> E | Some w \<Rightarrow> E\<lparr>en_workers := (en_workers E)(p \<mapsto> w\<lparr>pw_quit := True\<rparr>)\<rparr>)"

definition stopPartitions :: "partitionKey list \<Rightarrow> engine \<Rightarrow> engine" where
  "stopPartitions ks E = fold stop_one ks E"

text \<open>The end of \<open>revoked\<close> and of \<open>drainAllWorkers\<close>: the marks are committed once the workers are gone.\<close>

definition commit_marks :: "engine \<Rightarrow> engine" where
  "commit_marks E = E\<lparr>en_client := kcall_emit CommitMarkedOffsets (en_client E)\<rparr>"

definition workerFor :: "partitionKey \<Rightarrow> engine \<Rightarrow> pworker option" where
  "workerFor p E = (case en_workers E p of Some w \<Rightarrow> if pw_quit w then None else Some w | None \<Rightarrow> None)"

definition set_worker :: "partitionKey \<Rightarrow> pworker \<Rightarrow> engine \<Rightarrow> engine" where
  "set_worker p w E = E\<lparr>en_workers := (en_workers E)(p \<mapsto> w)\<rparr>"

definition deliver :: "nat \<Rightarrow> partitionKey \<Rightarrow> pworker \<Rightarrow> wm_rec list \<Rightarrow> engine \<Rightarrow> engine" where
  "deliver cap p w b E =
     (if length (pw_queue w) < cap then set_worker p (w\<lparr>pw_queue := pw_queue w @ [b]\<rparr>) E
      else (set_worker p (w\<lparr>pw_pending := pw_pending w @ [b]\<rparr>) E)\<lparr>en_client := pauseEnginePartition p (en_client E)\<rparr>)"

definition route_one :: "nat \<Rightarrow> partitionKey \<times> wm_rec list \<Rightarrow> engine \<Rightarrow> engine" where
  "route_one cap f E =
     (if snd f = [] then E
      else case workerFor (fst f) E of
        None \<Rightarrow> E
      | Some w \<Rightarrow> (deliver cap (fst f) w (snd f) E)\<lparr>en_seen := (en_seen E)(fst f := en_seen E (fst f) @ [snd f])\<rparr>)"

definition en_route :: "nat \<Rightarrow> (partitionKey \<times> wm_rec list) list \<Rightarrow> engine \<Rightarrow> engine" where
  "en_route cap fs E = fold (route_one cap) fs E"

text \<open>The goroutine of a full channel: it hands its batch over and resumes the partition, or gives up when the worker quits
  (the end of the poll loop, its third case, closes \<open>quit\<close> as well).\<close>

definition deliver_accept :: "nat \<Rightarrow> partitionKey \<Rightarrow> engine \<Rightarrow> engine" where
  "deliver_accept cap p E =
     (case en_workers E p of
        Some w \<Rightarrow> (case pw_pending w of
            b # bs \<Rightarrow> if length (pw_queue w) < cap
                then (set_worker p (w\<lparr>pw_queue := pw_queue w @ [b], pw_pending := bs\<rparr>) E)\<lparr>en_client := resumeEnginePartition p (en_client E)\<rparr> else E
          | [] \<Rightarrow> E)
      | None \<Rightarrow> E)"

definition clearDeliverPauseTracking :: "partitionKey \<Rightarrow> cclient \<Rightarrow> cclient" where
  "clearDeliverPauseTracking p c = c\<lparr>enginePaused := removeAll p (enginePaused c)\<rparr>"

definition deliver_quit :: "partitionKey \<Rightarrow> engine \<Rightarrow> engine" where
  "deliver_quit p E =
     (case en_workers E p of
        Some w \<Rightarrow> if pw_quit w \<and> pw_pending w \<noteq> []
                 then (set_worker p (w\<lparr>pw_pending := butlast (pw_pending w)\<rparr>) E)\<lparr>en_client := clearDeliverPauseTracking p (en_client E)\<rparr> else E
      | None \<Rightarrow> E)"

text \<open>The worker's loop: it takes a batch and runs the handler; it marks the batch if the handler succeeds; it returns.\<close>

definition worker_take :: "partitionKey \<Rightarrow> engine \<Rightarrow> engine" where
  "worker_take p E =
     (case en_workers E p of
        Some w \<Rightarrow> (case (pw_busy w, pw_queue w) of
            (None, b # bs) \<Rightarrow> (set_worker p (w\<lparr>pw_busy := Some b, pw_queue := bs\<rparr>) E)\<lparr>en_handled := (en_handled E)(p := en_handled E p @ [b])\<rparr>
          | _ \<Rightarrow> E)
      | None \<Rightarrow> E)"

definition worker_finish :: "bool \<Rightarrow> partitionKey \<Rightarrow> engine \<Rightarrow> engine" where
  "worker_finish ok p E =
     (case en_workers E p of
        Some w \<Rightarrow> (case pw_busy w of
            Some b \<Rightarrow> let E1 = set_worker p (w\<lparr>pw_busy := None\<rparr>) E
                     in if ok then E1\<lparr>en_client := kcall_emit (MarkCommitRecords b) (en_client E)\<rparr> else E1\<lparr>en_failed := (en_failed E)(p := True)\<rparr>
          | None \<Rightarrow> E)
      | None \<Rightarrow> E)"

definition worker_return :: "partitionKey \<Rightarrow> engine \<Rightarrow> engine" where
  "worker_return p E =
     (case en_workers E p of
        Some w \<Rightarrow> if pw_quit w \<and> pw_busy w = None \<and> pw_pending w = [] then E\<lparr>en_workers := (en_workers E)(p := None)\<rparr> else E
      | None \<Rightarrow> E)"

text \<open>\<open>drainAllWorkers\<close> at the end of the poll loop, \<open>ks\<close> being the keys of the map; it ends with \<open>commit_marks\<close>.\<close>

definition drainAllWorkers :: "partitionKey list \<Rightarrow> engine \<Rightarrow> engine" where
  "drainAllWorkers ks E = stopPartitions (filter (\<lambda>p. workerFor p E \<noteq> None) ks) E"

subsection \<open>A failed batch is not redelivered\<close>

text \<open>
  The comment of \<open>runWorker\<close> says that a batch whose handler fails is delivered again, because it is not marked. It is not:
  the client does not return polled records again, the worker goes on with the next batch of the partition, and marking that
  one commits past the failed batch. A cancelled context counts as a failure as well, and a blocked rebalance cancels the
  context of every partition, also of those that stay assigned.
\<close>

definition empty_engine :: engine where
  "empty_engine = \<lparr>en_client = newGroupConsumerClient [''in''], en_workers = Map.empty, en_seen = (\<lambda>_. []), en_handled = (\<lambda>_. []), en_failed = (\<lambda>_. False)\<rparr>"

definition lost_batch_run :: engine where
  "lost_batch_run = worker_finish True in_key (worker_take in_key (worker_finish False in_key (worker_take in_key
     (en_route 2 [(in_key, [in_rec 1])] (en_route 2 [(in_key, [in_rec 0])] (en_assigned [in_key] empty_engine))))))"

lemma failed_batch_committed_away:
  "cc_calls (en_client lost_batch_run) = [MarkCommitRecords [in_rec 1]] \<and> en_handled lost_batch_run in_key = [[in_rec 0], [in_rec 1]] \<and> en_failed lost_batch_run in_key \<and>
   rc_mk (fold ref_apply (cc_calls (en_client lost_batch_run)) ref_start) in_key = 2"
  by (simp add: lost_batch_run_def worker_finish_def worker_take_def en_route_def route_one_def workerFor_def deliver_def set_worker_def en_assigned_def assign_one_def
      empty_engine_def new_worker_def newGroupConsumerClient_def kcall_emit_def raise_mark_def ref_start_def Let_def)

end
