(* ===== verification/Partition_Engine_Claims.thy ===== *)
theory Partition_Engine_Claims
  imports Partition_Engine "HOL-Library.Sublist"
begin

text \<open>
  What the partition engine guarantees over all interleavings: the channels stay bounded, the batches of a partition are
  handled in the order they were fetched, and as long as no handler call of a partition fails nothing is committed past
  an unhandled record.
\<close>

subsection \<open>The invariant of one partition\<close>

definition rem_of :: "pworker \<Rightarrow> wm_rec list" where
  "rem_of w = concat ((case pw_busy w of None \<Rightarrow> [] | Some b \<Rightarrow> [b]) @ pw_queue w @ pw_pending w)"

definition pause_inv :: "nat \<Rightarrow> pworker option \<Rightarrow> bool \<Rightarrow> bool \<Rightarrow> bool" where
  "pause_inv cap wo ep hold = (case wo of None \<Rightarrow> \<not> ep
     | Some w \<Rightarrow> length (pw_queue w) \<le> cap \<and> (pw_pending w = [] \<and> \<not> ep \<or> (\<exists>b. pw_pending w = [b] \<and> ep \<and> (pw_quit w \<or> hold))))"

definition order_inv :: "pworker option \<Rightarrow> wm_rec list list \<Rightarrow> wm_rec list list \<Rightarrow> bool" where
  "order_inv wo seen hs = (case wo of None \<Rightarrow> prefix hs seen
     | Some w \<Rightarrow> prefix (hs @ pw_queue w @ pw_pending w) seen \<and> (pw_quit w \<or> hs @ pw_queue w @ pw_pending w = seen))"

definition keys_inv :: "partitionKey \<Rightarrow> pworker option \<Rightarrow> wm_rec list list \<Rightarrow> wm_rec list list \<Rightarrow> bool" where
  "keys_inv p wo seen hs \<longleftrightarrow> (\<forall>b \<in> set seen. \<forall>r \<in> set b. key_of r = p) \<and> (\<forall>w b. wo = Some w \<longrightarrow> pw_busy w = Some b \<longrightarrow> b \<in> set hs)"

definition rem_inv :: "partitionKey \<Rightarrow> int set \<Rightarrow> int \<Rightarrow> int set \<Rightarrow> pworker \<Rightarrow> bool" where
  "rem_inv p L ps dn w \<longleftrightarrow> sorted_wrt (\<lambda>a b. r_off a < r_off b) (rem_of w) \<and> (\<forall>r \<in> set (rem_of w). key_of r = p) \<and>
     (\<forall>r \<in> set (rem_of w). \<forall>d \<in> L. d < r_off r \<longrightarrow> d \<in> dn \<union> r_off ` set (rem_of w)) \<and>
     (pw_quit w \<or> (\<forall>d \<in> L. d < ps \<longrightarrow> d \<in> dn \<union> r_off ` set (rem_of w)) \<and> (\<forall>r \<in> set (rem_of w). r_off r < ps))"

definition cover_inv :: "partitionKey \<Rightarrow> int set \<Rightarrow> pworker option \<Rightarrow> bool \<Rightarrow> int \<Rightarrow> int \<Rightarrow> int set \<Rightarrow> bool" where
  "cover_inv p L wo failed ps ms dn \<longleftrightarrow> failed \<or> (\<forall>d \<in> L. d < ms \<longrightarrow> d \<in> dn) \<and> (case wo of None \<Rightarrow> True | Some w \<Rightarrow> rem_inv p L ps dn w)"

definition pinv :: "('k \<Rightarrow> partitionKey \<Rightarrow> int) \<Rightarrow> ('k \<Rightarrow> partitionKey \<Rightarrow> int) \<Rightarrow> ('k \<Rightarrow> partitionKey \<Rightarrow> bool) \<Rightarrow> (partitionKey \<Rightarrow> int set) \<Rightarrow> nat \<Rightarrow>
    engine \<Rightarrow> 'k \<Rightarrow> (partitionKey \<Rightarrow> int set) \<Rightarrow> partitionKey \<Rightarrow> bool" where
  "pinv pos mk held lg cap E k dn p \<longleftrightarrow> pause_inv cap (en_workers E p) (p \<in> set (enginePaused (en_client E))) (held k p) \<and>
     order_inv (en_workers E p) (en_seen E p) (en_handled E p) \<and> keys_inv p (en_workers E p) (en_seen E p) (en_handled E p) \<and>
     cover_inv p (lg p) (en_workers E p) (en_failed E p) (pos k p) (mk k p) (dn p)"

text \<open>What an operation on one partition leaves of another.\<close>

definition same_view :: "('k \<Rightarrow> partitionKey \<Rightarrow> int) \<Rightarrow> ('k \<Rightarrow> partitionKey \<Rightarrow> int) \<Rightarrow> ('k \<Rightarrow> partitionKey \<Rightarrow> bool) \<Rightarrow> partitionKey \<Rightarrow> engine \<Rightarrow> 'k \<Rightarrow> engine \<Rightarrow> 'k \<Rightarrow> bool" where
  "same_view pos mk held p E k E' k' \<longleftrightarrow> en_workers E' p = en_workers E p \<and> en_seen E' p = en_seen E p \<and> en_handled E' p = en_handled E p \<and>
     en_failed E' p = en_failed E p \<and> (p \<in> set (enginePaused (en_client E')) \<longleftrightarrow> p \<in> set (enginePaused (en_client E))) \<and>
     pos k' p = pos k p \<and> mk k' p = mk k p \<and> held k' p = held k p"

lemma pinv_same_view: "pinv pos mk held lg cap E k dn p \<Longrightarrow> same_view pos mk held p E k E' k' \<Longrightarrow> dn' p = dn p \<Longrightarrow> pinv pos mk held lg cap E' k' dn' p"
  by (simp add: pinv_def same_view_def)

subsection \<open>The worker's steps\<close>

lemma rem_take: "pw_busy w = None \<Longrightarrow> pw_queue w = b # bs \<Longrightarrow> rem_of (w\<lparr>pw_busy := Some b, pw_queue := bs\<rparr>) = rem_of w"
  by (simp add: rem_of_def)

lemma rem_accept: "pw_pending w = [b] \<Longrightarrow> rem_of (w\<lparr>pw_queue := pw_queue w @ [b], pw_pending := []\<rparr>) = rem_of w"
  by (simp add: rem_of_def)

lemma rem_quit: "rem_of (w\<lparr>pw_quit := q\<rparr>) = rem_of w"
  by (simp add: rem_of_def)

lemma rem_drop: "pw_pending w = [b] \<Longrightarrow> rem_of w = rem_of (w\<lparr>pw_pending := []\<rparr>) @ b"
  by (simp add: rem_of_def)

lemma rem_finish: "pw_busy w = Some b \<Longrightarrow> rem_of w = b @ rem_of (w\<lparr>pw_busy := None\<rparr>)"
  by (simp add: rem_of_def)

lemma sorted_mem_before:
  assumes "sorted_wrt (\<lambda>a b. r_off a < r_off b) (xs @ ys)" and "r \<in> set xs" and "d \<in> r_off ` set (xs @ ys)" and "d < r_off r"
  shows "d \<in> r_off ` set xs"
  using assms by (force simp: sorted_wrt_append)

lemma rem_inv_drop:
  assumes "rem_inv p L ps dn w" and "pw_pending w = [b]" and "pw_quit w"
  shows "rem_inv p L ps dn (w\<lparr>pw_pending := []\<rparr>)"
proof -
  let ?x = "rem_of (w\<lparr>pw_pending := []\<rparr>)"
  have R: "sorted_wrt (\<lambda>a b. r_off a < r_off b) (?x @ b)" "\<forall>r \<in> set (?x @ b). key_of r = p"
    "\<And>r d. r \<in> set (?x @ b) \<Longrightarrow> d \<in> L \<Longrightarrow> d < r_off r \<Longrightarrow> d \<in> dn \<union> r_off ` set (?x @ b)"
    using assms(1) unfolding rem_inv_def rem_drop [OF assms(2)] by blast+
  have "d \<in> dn \<union> r_off ` set ?x" if "r \<in> set ?x" "d \<in> L" "d < r_off r" for r d
    using R(3) [of r d] sorted_mem_before [OF R(1) that(1) _ that(3)] that by auto
  then show ?thesis using R(1,2) assms(3) by (auto simp: rem_inv_def sorted_wrt_append)
qed

lemma rem_inv_finish:
  assumes "rem_inv p L ps dn w" and "pw_busy w = Some b"
  shows "rem_inv p L ps (dn \<union> r_off ` set b) (w\<lparr>pw_busy := None\<rparr>)" and "r \<in> set b \<Longrightarrow> d \<in> L \<Longrightarrow> d \<le> r_off r \<Longrightarrow> d \<in> dn \<union> r_off ` set b"
    and "r \<in> set b \<Longrightarrow> key_of r = p"
proof -
  let ?x = "rem_of (w\<lparr>pw_busy := None\<rparr>)"
  have R: "sorted_wrt (\<lambda>a b. r_off a < r_off b) (b @ ?x)" "\<forall>r \<in> set (b @ ?x). key_of r = p"
    "\<And>r d. r \<in> set (b @ ?x) \<Longrightarrow> d \<in> L \<Longrightarrow> d < r_off r \<Longrightarrow> d \<in> dn \<union> r_off ` set (b @ ?x)"
    "pw_quit w \<or> (\<forall>d \<in> L. d < ps \<longrightarrow> d \<in> dn \<union> r_off ` set (b @ ?x)) \<and> (\<forall>r \<in> set (b @ ?x). r_off r < ps)"
    using assms(1) unfolding rem_inv_def rem_finish [OF assms(2)] by blast+
  show "rem_inv p L ps (dn \<union> r_off ` set b) (w\<lparr>pw_busy := None\<rparr>)"
    unfolding rem_inv_def using R by (auto simp: sorted_wrt_append Un_assoc image_Un)
  show "r \<in> set b \<Longrightarrow> key_of r = p" using R(2) by simp
  show "d \<in> dn \<union> r_off ` set b" if "r \<in> set b" "d \<in> L" "d \<le> r_off r"
  proof (cases "d = r_off r")
    case False
    then show ?thesis using R(3) [of r d] sorted_mem_before [OF R(1) that(1), of d] that by auto
  qed (use that in auto)
qed

text \<open>A fresh batch from a poll.\<close>

lemma rem_inv_deliver:
  assumes "rem_inv p L ps dn w" and "\<not> pw_quit w" and "rem_of w' = rem_of w @ b" and "pw_quit w' = pw_quit w" and "ps \<le> ps'"
    and "sorted_wrt (\<lambda>a b. r_off a < r_off b) b" and "\<And>r. r \<in> set b \<Longrightarrow> key_of r = p \<and> ps \<le> r_off r \<and> r_off r < ps'"
    and "\<And>d. d \<in> L \<Longrightarrow> ps \<le> d \<Longrightarrow> d < ps' \<Longrightarrow> d \<in> r_off ` set b"
  shows "rem_inv p L ps' dn w'"
proof -
  let ?x = "rem_of w"
  have R: "sorted_wrt (\<lambda>a b. r_off a < r_off b) ?x" "\<forall>r \<in> set ?x. key_of r = p"
    "\<And>d. d \<in> L \<Longrightarrow> d < ps \<Longrightarrow> d \<in> dn \<union> r_off ` set ?x" "\<And>r. r \<in> set ?x \<Longrightarrow> r_off r < ps"
    using assms(1,2) unfolding rem_inv_def by blast+
  have all: "d \<in> dn \<union> r_off ` set (?x @ b)" if "d \<in> L" "d < ps'" for d using R(3) [OF that(1)] assms(8) [OF that(1)] that(2) by (cases "d < ps") auto
  have lt: "r_off r < ps'" if "r \<in> set (?x @ b)" for r using that R(4) [of r] assms(5,7) by force
  have "r_off a < r_off c" if "a \<in> set ?x" "c \<in> set b" for a c using R(4) [OF that(1)] assms(7) [OF that(2)] by simp
  then have "sorted_wrt (\<lambda>a b. r_off a < r_off b) (?x @ b)" using R(1) assms(6) by (simp add: sorted_wrt_append)
  moreover have "\<forall>r \<in> set (?x @ b). \<forall>d \<in> L. d < r_off r \<longrightarrow> d \<in> dn \<union> r_off ` set (?x @ b)" using all lt by force
  ultimately show ?thesis unfolding rem_inv_def assms(3) using R(2) assms(7) all lt by auto
qed

subsection \<open>The operations keep it\<close>

lemma kgo_marks:
  assumes "kgo_laws A pos mk held"
  shows "pos (A (MarkCommitRecords rs) k) = pos k" and "held (A (MarkCommitRecords rs) k) = held k"
    and "mk (A (MarkCommitRecords rs) k) p = Max (insert (mk k p) {r_off r + 1 | r. r \<in> set rs \<and> key_of r = p})"
  using conjunct1 [OF assms [unfolded kgo_laws_def], THEN spec [of _ rs], THEN spec [of _ k]] by blast+

lemma mark_cases:
  assumes "kgo_laws A pos mk held" and "d < mk (A (MarkCommitRecords rs) k) p"
  obtains "d < mk k p" | r where "r \<in> set rs" "key_of r = p" "d \<le> r_off r"
proof -
  let ?S = "{r_off r + 1 | r. r \<in> set rs \<and> key_of r = p}"
  have fin: "finite ?S" by (rule finite_subset [of _ "(\<lambda>q. r_off q + 1) ` set rs"]) auto
  have "mk (A (MarkCommitRecords rs) k) p \<in> insert (mk k p) ?S" unfolding kgo_marks(3) [OF assms(1)] by (rule Max_in) (use fin in auto)
  then consider "mk (A (MarkCommitRecords rs) k) p = mk k p" | r where "r \<in> set rs" "key_of r = p" "mk (A (MarkCommitRecords rs) k) p = r_off r + 1" by blast
  then show thesis
  proof cases
    case (2 r)
    then show ?thesis using that(2) [of r] assms(2) by simp
  qed (use that(1) assms(2) in simp)
qed

lemma mark_elsewhere:
  assumes "kgo_laws A pos mk held" and "\<And>r. r \<in> set rs \<Longrightarrow> key_of r \<noteq> p"
  shows "mk (A (MarkCommitRecords rs) k) p = mk k p"
proof -
  have e: "{r_off r + 1 | r. r \<in> set rs \<and> key_of r = p} = {}" using assms(2) by blast
  show ?thesis unfolding kgo_marks(3) [OF assms(1)] e by simp
qed

definition en_calls :: "engine \<Rightarrow> engine \<Rightarrow> kcall list" where
  "en_calls E E' = new_calls (en_client E) (en_client E')"

text \<open>An operation on the worker of \<open>p\<close>: enough to look at \<open>p\<close> itself.\<close>

lemma pinv_local:
  assumes "\<And>q. pinv pos mk held lg cap E k dn q" and "\<And>q. q \<noteq> p \<Longrightarrow> same_view pos mk held q E k E' k' \<and> dn' q = dn q"
    and "pinv pos mk held lg cap E' k' dn' p"
  shows "pinv pos mk held lg cap E' k' dn' q"
  using assms(3) pinv_same_view [OF assms(1), of q E' k' dn'] assms(2) [of q] by (cases "q = p") auto

lemma pinv_unchanged: "pinv pos mk held lg cap E k dn q \<Longrightarrow> pinv pos mk held lg cap E (fold A (en_calls E E) k) dn q"
  by (simp add: en_calls_def new_calls_def)

lemma take_keeps:
  assumes "\<And>q. pinv pos mk held lg cap E k dn q"
  shows "pinv pos mk held lg cap (worker_take p E) (fold A (en_calls E (worker_take p E)) k) dn q"
proof (cases "\<exists>w b bs. en_workers E p = Some w \<and> pw_busy w = None \<and> pw_queue w = b # bs")
  case True
  then obtain w b bs where w: "en_workers E p = Some w" "pw_busy w = None" "pw_queue w = b # bs" by blast
  let ?w = "w\<lparr>pw_busy := Some b, pw_queue := bs\<rparr>"
  have E': "worker_take p E = E\<lparr>en_workers := (en_workers E)(p \<mapsto> ?w), en_handled := (en_handled E)(p := en_handled E p @ [b])\<rparr>"
    using w by (simp add: worker_take_def set_worker_def)
  have calls: "en_calls E (worker_take p E) = []" by (simp add: E' en_calls_def new_calls_def)
  have loc: "pinv pos mk held lg cap (worker_take p E) k dn p"
    using assms [of p] w rem_take [OF w(2,3)] unfolding pinv_def E'
    by (auto simp: pause_inv_def order_inv_def keys_inv_def cover_inv_def rem_inv_def)
  show ?thesis unfolding calls fold_simps by (rule pinv_local [OF assms _ loc]) (simp_all add: same_view_def E')
next
  case False
  then have "worker_take p E = E" by (auto simp: worker_take_def split: option.splits list.splits)
  then show ?thesis using pinv_unchanged [OF assms] by simp
qed

lemma finish_cases:
  obtains "worker_finish ok p E = E" "\<And>w. en_workers E p = Some w \<Longrightarrow> pw_busy w = None"
  | w b where "en_workers E p = Some w" "pw_busy w = Some b"
  by (cases "en_workers E p") (auto simp: worker_finish_def split: option.splits)

lemma fail_keeps:
  assumes "\<And>q. pinv pos mk held lg cap E k dn q"
  shows "pinv pos mk held lg cap (worker_finish False p E) (fold A (en_calls E (worker_finish False p E)) k) dn q"
proof (cases rule: finish_cases [of False p E])
  case 1
  then show ?thesis using pinv_unchanged [OF assms] by simp
next
  case (2 w b)
  have E': "worker_finish False p E = E\<lparr>en_workers := (en_workers E)(p \<mapsto> w\<lparr>pw_busy := None\<rparr>), en_failed := (en_failed E)(p := True)\<rparr>"
    using 2 by (simp add: worker_finish_def set_worker_def)
  have calls: "en_calls E (worker_finish False p E) = []" by (simp add: E' en_calls_def new_calls_def)
  have loc: "pinv pos mk held lg cap (worker_finish False p E) k dn p"
    using assms [of p] 2 unfolding pinv_def E' by (simp add: pause_inv_def order_inv_def keys_inv_def cover_inv_def)
  show ?thesis unfolding calls fold_simps by (rule pinv_local [OF assms _ loc]) (simp_all add: same_view_def E')
qed

definition busy_batch :: "partitionKey \<Rightarrow> engine \<Rightarrow> wm_rec list" where
  "busy_batch p E = (case en_workers E p of None \<Rightarrow> [] | Some w \<Rightarrow> (case pw_busy w of None \<Rightarrow> [] | Some b \<Rightarrow> b))"

definition done_batch :: "partitionKey \<Rightarrow> engine \<Rightarrow> (partitionKey \<Rightarrow> int set) \<Rightarrow> partitionKey \<Rightarrow> int set" where
  "done_batch p E dn = dn(p := dn p \<union> r_off ` set (busy_batch p E))"

lemma busy_keys:
  assumes "pinv pos mk held lg cap E k dn p" and "r \<in> set (busy_batch p E)"
  shows "key_of r = p"
proof -
  obtain w where w: "en_workers E p = Some w" using assms(2) by (cases "en_workers E p") (simp_all add: busy_batch_def)
  obtain b where b: "pw_busy w = Some b" "r \<in> set b" using assms(2) w by (cases "pw_busy w") (simp_all add: busy_batch_def)
  have "b \<in> set (en_handled E p)" "prefix (en_handled E p @ pw_queue w @ pw_pending w) (en_seen E p)"
    using assms(1) w b by (auto simp: pinv_def keys_inv_def order_inv_def)
  then have "b \<in> set (en_seen E p)" by (auto dest: append_prefixD set_mono_prefix)
  then show ?thesis using assms(1) b(2) by (auto simp: pinv_def keys_inv_def)
qed

lemma finish_keeps:
  assumes "kgo_laws A pos mk held" and "\<And>q. pinv pos mk held lg cap E k dn q"
  shows "pinv pos mk held lg cap (worker_finish True p E) (fold A (en_calls E (worker_finish True p E)) k) (done_batch p E dn) q"
proof (cases rule: finish_cases [of True p E])
  case 1
  have "busy_batch p E = []" using 1(2) by (auto simp: busy_batch_def split: option.splits)
  then have "done_batch p E dn = dn" by (simp add: done_batch_def)
  then show ?thesis using 1 pinv_unchanged [OF assms(2)] by simp
next
  case (2 w b)
  let ?k = "A (MarkCommitRecords b) k" and ?w = "w\<lparr>pw_busy := None\<rparr>"
  have b: "busy_batch p E = b" using 2 by (simp add: busy_batch_def)
  have E': "worker_finish True p E = E\<lparr>en_workers := (en_workers E)(p \<mapsto> ?w), en_client := kcall_emit (MarkCommitRecords b) (en_client E)\<rparr>"
    using 2 by (simp add: worker_finish_def set_worker_def)
  have calls: "en_calls E (worker_finish True p E) = [MarkCommitRecords b]" by (simp add: E' en_calls_def new_calls_def)
  note K = kgo_marks [OF assms(1), of b k]
  have ep: "enginePaused (kcall_emit x c) = enginePaused c" for x c by (simp add: kcall_emit_def)
  have else: "mk ?k q = mk k q" if "q \<noteq> p" for q using busy_keys [OF assms(2), of _ p] that by (intro mark_elsewhere [OF assms(1)]) (auto simp: b)
  have cov: "cover_inv p (lg p) (Some ?w) (en_failed E p) (pos k p) (mk ?k p) (dn p \<union> r_off ` set b)"
  proof (cases "en_failed E p")
    case False
    then have R: "rem_inv p (lg p) (pos k p) (dn p) w" and m: "\<forall>d \<in> lg p. d < mk k p \<longrightarrow> d \<in> dn p"
      using assms(2) [of p] 2 by (auto simp: pinv_def cover_inv_def)
    note F = rem_inv_finish [OF R 2(2)]
    have "d \<in> dn p \<union> r_off ` set b" if d: "d \<in> lg p" "d < mk ?k p" for d
      using d(2) by (cases rule: mark_cases [OF assms(1)]) (use m d(1) F(2) in auto)
    then show ?thesis using F(1) by (simp add: cover_inv_def)
  qed (simp add: cover_inv_def)
  have loc: "pinv pos mk held lg cap (worker_finish True p E) ?k (done_batch p E dn) p"
    using assms(2) [of p] 2 cov unfolding pinv_def E' by (simp add: pause_inv_def order_inv_def keys_inv_def ep K(1,2) done_batch_def b)
  show ?thesis unfolding calls fold_simps by (rule pinv_local [OF assms(2) _ loc]) (simp_all add: same_view_def E' ep K(1,2) else done_batch_def)
qed

lemma return_keeps:
  assumes "\<And>q. pinv pos mk held lg cap E k dn q"
  shows "pinv pos mk held lg cap (worker_return p E) (fold A (en_calls E (worker_return p E)) k) dn q"
proof (cases "\<exists>w. en_workers E p = Some w \<and> pw_quit w \<and> pw_busy w = None \<and> pw_pending w = []")
  case True
  then obtain w where w: "en_workers E p = Some w" "pw_quit w" "pw_busy w = None" "pw_pending w = []" by blast
  have E': "worker_return p E = E\<lparr>en_workers := (en_workers E)(p := None)\<rparr>" using w by (simp add: worker_return_def)
  have calls: "en_calls E (worker_return p E) = []" by (simp add: E' en_calls_def new_calls_def)
  have loc: "pinv pos mk held lg cap (worker_return p E) k dn p"
    using assms [of p] w unfolding pinv_def E' by (auto simp: pause_inv_def order_inv_def keys_inv_def cover_inv_def dest: append_prefixD)
  show ?thesis unfolding calls fold_simps by (rule pinv_local [OF assms _ loc]) (simp_all add: same_view_def E')
next
  case False
  then have "worker_return p E = E" by (auto simp: worker_return_def split: option.splits)
  then show ?thesis using pinv_unchanged [OF assms] by simp
qed

lemma stop_one_keeps:
  assumes "\<And>q. pinv pos mk held lg cap E k dn q"
  shows "pinv pos mk held lg cap (stop_one p E) k dn q"
proof (cases "en_workers E p")
  case (Some w)
  have E': "stop_one p E = E\<lparr>en_workers := (en_workers E)(p \<mapsto> w\<lparr>pw_quit := True\<rparr>)\<rparr>" using Some by (simp add: stop_one_def)
  have loc: "pinv pos mk held lg cap (stop_one p E) k dn p"
    using assms [of p] Some rem_quit [where w = w and q = True] unfolding pinv_def E' by (auto simp: pause_inv_def order_inv_def keys_inv_def cover_inv_def rem_inv_def)
  show ?thesis by (rule pinv_local [OF assms _ loc]) (simp_all add: same_view_def E')
qed (use assms in \<open>simp add: stop_one_def\<close>)

lemma stop_one_client: "en_client (stop_one p E) = en_client E"
  by (simp add: stop_one_def split: option.split)

lemma stop_keeps:
  assumes "\<And>q. pinv pos mk held lg cap E k dn q"
  shows "pinv pos mk held lg cap (stopPartitions ks E) (fold A (en_calls E (stopPartitions ks E)) k) dn q"
proof -
  have c: "en_client (fold stop_one ks E) = en_client E" by (induction ks arbitrary: E) (simp_all add: stop_one_client)
  have "pinv pos mk held lg cap (fold stop_one ks E) k dn q" using assms
  proof (induction ks arbitrary: E)
    case (Cons p ks)
    show ?case using Cons.IH [OF stop_one_keeps [OF Cons.prems]] by simp
  qed simp
  then show ?thesis by (simp add: stopPartitions_def en_calls_def new_calls_def c)
qed

lemma accept_keeps:
  assumes "kgo_laws A pos mk held" and "\<And>q. pinv pos mk held lg cap E k dn q"
  shows "pinv pos mk held lg cap (deliver_accept cap p E) (fold A (en_calls E (deliver_accept cap p E)) k) dn q"
proof (cases "\<exists>w b bs. en_workers E p = Some w \<and> pw_pending w = b # bs \<and> length (pw_queue w) < cap")
  case True
  then obtain w b bs where w: "en_workers E p = Some w" "pw_pending w = b # bs" "length (pw_queue w) < cap" by blast
  have P: "bs = []" using assms(2) [of p] w by (auto simp: pinv_def pause_inv_def)
  let ?w = "w\<lparr>pw_queue := pw_queue w @ [b], pw_pending := []\<rparr>" and ?k = "A (ResumeFetchPartitions p) k"
  have E': "deliver_accept cap p E = E\<lparr>en_workers := (en_workers E)(p \<mapsto> ?w), en_client := resumeEnginePartition p (en_client E)\<rparr>"
    using w P by (simp add: deliver_accept_def set_worker_def)
  have calls: "en_calls E (deliver_accept cap p E) = [ResumeFetchPartitions p]"
    by (simp add: E' en_calls_def new_calls_def resumeEnginePartition_def)
  have ep: "enginePaused (resumeEnginePartition p c) = removeAll p (enginePaused c)" for c by (simp add: resumeEnginePartition_def kcall_emit_def)
  note K = kgo_pause(4-6) [OF assms(1), of p k]
  have loc: "pinv pos mk held lg cap (deliver_accept cap p E) ?k dn p"
    using assms(2) [of p] w P rem_accept [of w b] unfolding pinv_def E' by (auto simp: pause_inv_def order_inv_def keys_inv_def cover_inv_def rem_inv_def ep K)
  show ?thesis unfolding calls fold_simps by (rule pinv_local [OF assms(2) _ loc]) (simp_all add: same_view_def E' ep K)
next
  case False
  then have "deliver_accept cap p E = E" by (auto simp: deliver_accept_def split: option.splits list.splits)
  then show ?thesis using pinv_unchanged [OF assms(2)] by simp
qed

lemma deliver_quit_keeps:
  assumes "\<And>q. pinv pos mk held lg cap E k dn q"
  shows "pinv pos mk held lg cap (deliver_quit p E) (fold A (en_calls E (deliver_quit p E)) k) dn q"
proof (cases "\<exists>w. en_workers E p = Some w \<and> pw_quit w \<and> pw_pending w \<noteq> []")
  case True
  then obtain w where w: "en_workers E p = Some w" "pw_quit w" "pw_pending w \<noteq> []" by blast
  then obtain b where b: "pw_pending w = [b]" using assms [of p] by (auto simp: pinv_def pause_inv_def)
  let ?w = "w\<lparr>pw_pending := []\<rparr>"
  have E': "deliver_quit p E = E\<lparr>en_workers := (en_workers E)(p \<mapsto> ?w), en_client := clearDeliverPauseTracking p (en_client E)\<rparr>"
    using w b by (simp add: deliver_quit_def set_worker_def)
  have calls: "en_calls E (deliver_quit p E) = []" by (simp add: E' en_calls_def new_calls_def clearDeliverPauseTracking_def)
  have pre: "prefix (en_handled E p @ pw_queue w) (en_seen E p)"
    using assms [of p] w b append_prefixD [of "en_handled E p @ pw_queue w" "[b]" "en_seen E p"] by (auto simp: pinv_def order_inv_def)
  have loc: "pinv pos mk held lg cap (deliver_quit p E) k dn p"
    using assms [of p] w b pre rem_inv_drop [OF _ b w(2), of p "lg p" "pos k p" "dn p"] unfolding pinv_def E'
    by (auto simp: pause_inv_def order_inv_def keys_inv_def cover_inv_def clearDeliverPauseTracking_def)
  show ?thesis unfolding calls fold_simps by (rule pinv_local [OF assms _ loc]) (simp_all add: same_view_def E' clearDeliverPauseTracking_def)
next
  case False
  then have "deliver_quit p E = E" by (auto simp: deliver_quit_def split: option.splits)
  then show ?thesis using pinv_unchanged [OF assms] by simp
qed

lemma commit_keeps:
  assumes "kgo_laws A pos mk held" and "pinv pos mk held lg cap E k dn q"
  shows "pinv pos mk held lg cap (commit_marks E) (fold A (en_calls E (commit_marks E)) k) dn q"
proof -
  have c: "en_calls E (commit_marks E) = [CommitMarkedOffsets]" by (simp add: en_calls_def new_calls_def commit_marks_def)
  have "same_view pos mk held q E k (commit_marks E) (A CommitMarkedOffsets k)"
    using kgo_topic [OF assms(1), of CommitMarkedOffsets k] by (simp add: same_view_def commit_marks_def kcall_emit_def)
  then show ?thesis using pinv_same_view [OF assms(2)] by (simp add: c)
qed

subsection \<open>Polls and assignments\<close>

text \<open>What one fetched batch has to be for the partition \<open>p\<close> between two positions of the client.\<close>

definition fetched :: "int set \<Rightarrow> int \<Rightarrow> int \<Rightarrow> partitionKey \<Rightarrow> wm_rec list \<Rightarrow> bool" where
  "fetched L ps ps' p b \<longleftrightarrow> ps \<le> ps' \<and> sorted_wrt (\<lambda>a b. r_off a < r_off b) b \<and> (\<forall>r \<in> set b. key_of r = p \<and> ps \<le> r_off r \<and> r_off r < ps') \<and>
     (\<forall>d \<in> L. ps \<le> d \<and> d < ps' \<longrightarrow> d \<in> r_off ` set b)"

lemma deliver_keeps:
  assumes "en_workers E p = Some w" and "\<not> pw_quit w" and "pw_pending w = []" and "0 < cap" and "fetched L ps ps' p b"
    and "pause_inv cap (Some w) (p \<in> set (enginePaused (en_client E))) hold" and "order_inv (Some w) (en_seen E p) (en_handled E p)"
    and "keys_inv p (Some w) (en_seen E p) (en_handled E p)" and "cover_inv p L (Some w) (en_failed E p) ps ms dn"
  shows "\<exists>w' c'. deliver cap p w b E = E\<lparr>en_workers := (en_workers E)(p \<mapsto> w'), en_client := c'\<rparr> \<and>
     (extends_by (en_client E) [] c' \<and> pause_inv cap (Some w') (p \<in> set (enginePaused c')) hold \<or>
      extends_by (en_client E) [PauseFetchPartitions p] c' \<and> pause_inv cap (Some w') (p \<in> set (enginePaused c')) True) \<and>
     (\<forall>q. q \<noteq> p \<longrightarrow> (q \<in> set (enginePaused c') \<longleftrightarrow> q \<in> set (enginePaused (en_client E)))) \<and>
     order_inv (Some w') (en_seen E p @ [b]) (en_handled E p) \<and> keys_inv p (Some w') (en_seen E p @ [b]) (en_handled E p) \<and>
     cover_inv p L (Some w') (en_failed E p) ps' ms dn"
proof -
  have F: "ps \<le> ps'" "sorted_wrt (\<lambda>a b. r_off a < r_off b) b" "\<And>r. r \<in> set b \<Longrightarrow> key_of r = p \<and> ps \<le> r_off r \<and> r_off r < ps'"
    "\<And>d. d \<in> L \<Longrightarrow> ps \<le> d \<Longrightarrow> d < ps' \<Longrightarrow> d \<in> r_off ` set b"
    using assms(5) unfolding fetched_def by blast+
  have cov: "cover_inv p L (Some w') (en_failed E p) ps' ms dn" if "rem_of w' = rem_of w @ b" "pw_quit w' = pw_quit w" for w'
    using assms(9) rem_inv_deliver [OF _ assms(2) that F, of L dn] by (auto simp: cover_inv_def)
  have ep: "p \<notin> set (enginePaused (en_client E))" using assms(3,6) by (simp add: pause_inv_def)
  show ?thesis
  proof (cases "length (pw_queue w) < cap")
    case True
    let ?w = "w\<lparr>pw_queue := pw_queue w @ [b]\<rparr>"
    have "rem_of ?w = rem_of w @ b" using assms(3) by (simp add: rem_of_def)
    then show ?thesis using cov [of ?w] True assms(2,3,6-8) F(3)
      by (intro exI [of _ ?w] exI [of _ "en_client E"]) (auto simp: deliver_def set_worker_def extends_by_def pause_inv_def order_inv_def keys_inv_def)
  next
    case False
    let ?w = "w\<lparr>pw_pending := pw_pending w @ [b]\<rparr>" and ?c = "pauseEnginePartition p (en_client E)"
    have c: "extends_by (en_client E) [PauseFetchPartitions p] ?c" "enginePaused ?c = enginePaused (en_client E) @ [p]"
      using ep by (simp_all add: pauseEnginePartition_def extends_by_def kcall_emit_def)
    have "rem_of ?w = rem_of w @ b" using assms(3) by (simp add: rem_of_def)
    then show ?thesis using cov [of ?w] False assms(2,3,6-8) F(3) c
      by (intro exI [of _ ?w] exI [of _ ?c]) (auto simp: deliver_def set_worker_def pause_inv_def order_inv_def keys_inv_def)
  qed
qed

text \<open>Routing a batch: before it the invariant holds for the position \<open>pos0\<close> the poll started from, afterwards for the new one.\<close>

lemma route_one_keeps:
  assumes "kgo_laws A pos mk held" and "0 < cap" and "b \<noteq> []" and "\<not> held k p"
    and "pinv (\<lambda>_. pos0) mk held lg cap E k dn p" and "fetched (lg p) (pos0 p) (pos k p) p b"
  shows "pinv pos mk held lg cap (route_one cap (p, b) E) (fold A (en_calls E (route_one cap (p, b) E)) k) dn p"
    and "q \<noteq> p \<Longrightarrow> same_view pos mk held q E k (route_one cap (p, b) E) (fold A (en_calls E (route_one cap (p, b) E)) k)"
    and "extends_by (en_client E) (en_calls E (route_one cap (p, b) E)) (en_client (route_one cap (p, b) E))"
    and "\<exists>cs. en_calls E (route_one cap (p, b) E) = cs \<and> set cs \<subseteq> {PauseFetchPartitions p}"
proof -
  let ?E = "route_one cap (p, b) E"
  have "pinv pos mk held lg cap ?E (fold A (en_calls E ?E) k) dn p \<and> (\<forall>q. q \<noteq> p \<longrightarrow> same_view pos mk held q E k ?E (fold A (en_calls E ?E) k)) \<and>
    extends_by (en_client E) (en_calls E ?E) (en_client ?E) \<and> set (en_calls E ?E) \<subseteq> {PauseFetchPartitions p}"
  proof (cases "\<exists>w. en_workers E p = Some w \<and> \<not> pw_quit w")
    case False
    then have "?E = E" by (auto simp: route_one_def workerFor_def split: option.splits)
    moreover have "pinv pos mk held lg cap E k dn p"
      using assms(5) False unfolding pinv_def by (cases "en_workers E p") (auto simp: cover_inv_def rem_inv_def)
    ultimately show ?thesis by (simp add: en_calls_def new_calls_def same_view_def extends_by_def)
  next
    case True
    then obtain w where w: "en_workers E p = Some w" "\<not> pw_quit w" by blast
    have I: "pause_inv cap (Some w) (p \<in> set (enginePaused (en_client E))) (held k p)" "order_inv (Some w) (en_seen E p) (en_handled E p)"
      "keys_inv p (Some w) (en_seen E p) (en_handled E p)" "cover_inv p (lg p) (Some w) (en_failed E p) (pos0 p) (mk k p) (dn p)"
      using assms(5) w(1) by (simp_all add: pinv_def)
    have np: "pw_pending w = []" using I(1) w(2) assms(4) by (auto simp: pause_inv_def)
    obtain w' c' where d: "deliver cap p w b E = E\<lparr>en_workers := (en_workers E)(p \<mapsto> w'), en_client := c'\<rparr>"
      and x: "extends_by (en_client E) [] c' \<and> pause_inv cap (Some w') (p \<in> set (enginePaused c')) (held k p) \<or>
        extends_by (en_client E) [PauseFetchPartitions p] c' \<and> pause_inv cap (Some w') (p \<in> set (enginePaused c')) True"
      and e: "\<And>q. q \<noteq> p \<Longrightarrow> (q \<in> set (enginePaused c') \<longleftrightarrow> q \<in> set (enginePaused (en_client E)))"
      and o: "order_inv (Some w') (en_seen E p @ [b]) (en_handled E p)" "keys_inv p (Some w') (en_seen E p @ [b]) (en_handled E p)"
        "cover_inv p (lg p) (Some w') (en_failed E p) (pos k p) (mk k p) (dn p)"
      using deliver_keeps [OF w np assms(2,6) I] by blast
    have E': "?E = E\<lparr>en_workers := (en_workers E)(p \<mapsto> w'), en_client := c', en_seen := (en_seen E)(p := en_seen E p @ [b])\<rparr>"
      using w assms(3) d by (simp add: route_one_def workerFor_def)
    note K = kgo_pause(1-3) [OF assms(1), of p k]
    show ?thesis
    proof (cases "extends_by (en_client E) [] c' \<and> pause_inv cap (Some w') (p \<in> set (enginePaused c')) (held k p)")
      case True
      then have calls: "en_calls E ?E = []" using extends_new_calls [of "en_client E" "[]" c'] by (simp add: en_calls_def E')
      show ?thesis using True o e unfolding calls by (simp add: E' pinv_def same_view_def del: split_paired_All)
    next
      case False
      then have calls: "en_calls E ?E = [PauseFetchPartitions p]" and p: "pause_inv cap (Some w') (p \<in> set (enginePaused c')) True"
        and xt: "extends_by (en_client E) [PauseFetchPartitions p] c'"
        using x extends_new_calls [of "en_client E" "[PauseFetchPartitions p]" c'] by (auto simp: en_calls_def E')
      show ?thesis using p o e xt unfolding calls by (simp add: E' pinv_def same_view_def K del: split_paired_All)
    qed
  qed
  then show "pinv pos mk held lg cap ?E (fold A (en_calls E ?E) k) dn p" "extends_by (en_client E) (en_calls E ?E) (en_client ?E)"
    "\<exists>cs. en_calls E ?E = cs \<and> set cs \<subseteq> {PauseFetchPartitions p}"
    "q \<noteq> p \<Longrightarrow> same_view pos mk held q E k ?E (fold A (en_calls E ?E) k)" by blast+
qed

lemma pinv_no_records:
  assumes "pinv (\<lambda>_. pos0) mk held lg cap E k dn p" and "fetched (lg p) (pos0 p) (pos k p) p []"
  shows "pinv pos mk held lg cap E k dn p"
proof -
  have n: "pos0 p \<le> pos k p" "\<And>d. d \<in> lg p \<Longrightarrow> d < pos k p \<Longrightarrow> d < pos0 p" using assms(2) by (force simp: fetched_def)+
  have "rem_inv p (lg p) (pos0 p) (dn p) w \<Longrightarrow> rem_inv p (lg p) (pos k p) (dn p) w" for w
    using n unfolding rem_inv_def by force
  then show ?thesis using assms(1) by (auto simp: pinv_def cover_inv_def split: option.splits)
qed

lemma route_keeps:
  assumes "kgo_laws A pos mk held" and "0 < cap" and "distinct (map fst fs)"
    and "\<And>p b. (p, b) \<in> set fs \<Longrightarrow> b \<noteq> [] \<and> \<not> held k p \<and> pinv (\<lambda>_. pos0) mk held lg cap E k dn p \<and> fetched (lg p) (pos0 p) (pos k p) p b"
    and "\<And>p. p \<notin> fst ` set fs \<Longrightarrow> pinv pos mk held lg cap E k dn p"
  shows "extends_by (en_client E) (en_calls E (en_route cap fs E)) (en_client (en_route cap fs E)) \<and>
     pinv pos mk held lg cap (en_route cap fs E) (fold A (en_calls E (en_route cap fs E)) k) dn q"
  using assms(3-5)
proof (induction fs arbitrary: E k)
  case Nil
  then show ?case by (simp add: en_route_def en_calls_def new_calls_def extends_by_def)
next
  case (Cons f fs)
  obtain p b where f: "f = (p, b)" by (metis surj_pair)
  let ?E = "route_one cap (p, b) E" and ?F = "en_route cap fs (route_one cap (p, b) E)"
  let ?k = "fold A (en_calls E ?E) k"
  have h: "b \<noteq> []" "\<not> held k p" "pinv (\<lambda>_. pos0) mk held lg cap E k dn p" "fetched (lg p) (pos0 p) (pos k p) p b" using Cons.prems(2) [of p b] by (simp_all add: f)
  note R = route_one_keeps [OF assms(1,2) h(1,2,3,4)]
  have nf: "p \<notin> fst ` set fs" "distinct (map fst fs)" using Cons.prems(1) f by auto
  have later: "c \<noteq> [] \<and> \<not> held ?k q \<and> pinv (\<lambda>_. pos0) mk held lg cap ?E ?k dn q \<and> fetched (lg q) (pos0 q) (pos ?k q) q c" if "(q, c) \<in> set fs" for q c
  proof -
    have q: "q \<noteq> p" using nf(1) that by force
    have v: "same_view pos mk held q E k ?E ?k" using R(2) [OF q] .
    then have "same_view (\<lambda>_. pos0) mk held q E k ?E ?k" by (simp add: same_view_def)
    then show ?thesis using Cons.prems(2) [of q c] that v pinv_same_view [of "\<lambda>_. pos0" mk held lg cap E k dn q ?E ?k dn] by (simp add: same_view_def)
  qed
  have others: "pinv pos mk held lg cap ?E ?k dn q" if "q \<notin> fst ` set fs" for q
  proof (cases "q = p")
    case True
    then show ?thesis using R(1) by simp
  next
    case False
    then have "q \<notin> fst ` set (f # fs)" using that by (simp add: f)
    then show ?thesis using pinv_same_view [OF Cons.prems(3) R(2) [OF False]] by blast
  qed
  have IH: "extends_by (en_client ?E) (en_calls ?E ?F) (en_client ?F) \<and> pinv pos mk held lg cap ?F (fold A (en_calls ?E ?F) ?k) dn q"
    by (rule Cons.IH [OF nf(2) later others])
  have r: "en_route cap (f # fs) E = ?F" by (simp add: en_route_def f)
  have x: "extends_by (en_client E) (en_calls E ?E @ en_calls ?E ?F) (en_client ?F)" using extends_trans R(3) IH by blast
  then have "en_calls E ?F = en_calls E ?E @ en_calls ?E ?F" using extends_new_calls by (simp add: en_calls_def)
  then show ?case using IH x unfolding r by simp
qed

lemma assign_one_keeps:
  assumes "pinv pos mk held lg cap E k dn p" and "en_workers E p = None" and "pos k p = mk k p"
  shows "pinv pos mk held lg cap (assign_one p E) k dn p"
  using assms unfolding pinv_def
  by (auto simp: assign_one_def new_worker_def pause_inv_def order_inv_def keys_inv_def cover_inv_def rem_inv_def rem_of_def)

lemma assign_other: "q \<noteq> p \<Longrightarrow> same_view pos mk held q E k (assign_one p E) k"
  by (simp add: assign_one_def same_view_def)

lemma assigned_keeps:
  assumes "\<And>q. pinv pos mk held lg cap E k dn q" and "\<And>p. p \<in> set ks \<Longrightarrow> pos k p = mk k p \<and> (en_workers E p = None \<or> pinv pos mk held lg cap E k dn p)"
  shows "pinv pos mk held lg cap (en_assigned ks E) k dn q"
  using assms
proof (induction ks arbitrary: E)
  case Nil
  then show ?case by (simp add: en_assigned_def)
next
  case (Cons p ks)
  have p: "pinv pos mk held lg cap (assign_one p E) k dn p"
  proof (cases "en_workers E p = None")
    case True
    then show ?thesis using assign_one_keeps [OF Cons.prems(1) True] Cons.prems(2) [of p] by simp
  next
    case False
    then show ?thesis using Cons.prems(1) [of p] by (simp add: assign_one_def)
  qed
  have all: "pinv pos mk held lg cap (assign_one p E) k dn q" for q
    using p pinv_same_view [OF Cons.prems(1) [of q] assign_other [of q p], of dn] by (cases "q = p") simp_all
  show ?case using Cons.IH [OF all] Cons.prems(2) all by (simp add: en_assigned_def)
qed

lemma assigned_client: "en_client (en_assigned ks E) = en_client E"
  unfolding en_assigned_def by (induction ks arbitrary: E) (simp_all add: assign_one_def)

subsection \<open>Runs\<close>

datatype engine_op = WorkerTake partitionKey | WorkerFails partitionKey | WorkerReturns partitionKey | Stop "partitionKey list"
  | Accept partitionKey | GiveUp partitionKey | Commit

fun run_op :: "nat \<Rightarrow> engine_op \<Rightarrow> engine \<Rightarrow> engine" where
  "run_op cap (WorkerTake p) E = worker_take p E"
| "run_op cap (WorkerFails p) E = worker_finish False p E"
| "run_op cap (WorkerReturns p) E = worker_return p E"
| "run_op cap (Stop ks) E = stopPartitions ks E"
| "run_op cap (Accept p) E = deliver_accept cap p E"
| "run_op cap (GiveUp p) E = deliver_quit p E"
| "run_op cap Commit E = commit_marks E"

text \<open>
  Any interleaving of assignments, polls and the operations of the workers and of the waiting goroutines. A partition is
  assigned only when its former worker has returned, as \<open>stopPartitions\<close> waits for it, and from the committed offset, which
  is at most the offset this member would commit. \<open>dn p\<close> holds the offsets of \<open>p\<close> whose handler has succeeded.
\<close>

inductive engine_run :: "(kcall \<Rightarrow> 'k \<Rightarrow> 'k) \<Rightarrow> ('k \<Rightarrow> partitionKey \<Rightarrow> int) \<Rightarrow> ('k \<Rightarrow> partitionKey \<Rightarrow> int) \<Rightarrow> ('k \<Rightarrow> partitionKey \<Rightarrow> bool) \<Rightarrow> (partitionKey \<Rightarrow> int set) \<Rightarrow>
    nat \<Rightarrow> engine \<Rightarrow> 'k \<Rightarrow> (partitionKey \<Rightarrow> int set) \<Rightarrow> bool" for A pos mk held lg cap where
  er_start: "\<forall>p. \<forall>d \<in> lg p. mk k p \<le> d \<Longrightarrow> engine_run A pos mk held lg cap empty_engine k (\<lambda>_. {})"
| er_assign: "engine_run A pos mk held lg cap E k dn \<Longrightarrow> \<forall>p \<in> set ks. en_workers E p = None \<Longrightarrow>
     \<forall>p. if p \<in> set ks then pos k' p = mk k' p \<and> mk k' p \<le> mk k p \<and> \<not> held k' p else pos k' p = pos k p \<and> mk k' p = mk k p \<and> held k' p = held k p \<Longrightarrow>
     engine_run A pos mk held lg cap (en_assigned ks E) k' dn"
| er_poll: "engine_run A pos mk held lg cap E k dn \<Longrightarrow> polled pos mk held lg k (concat (map snd fs)) k' \<Longrightarrow> distinct (map fst fs) \<Longrightarrow>
     \<forall>(p, b) \<in> set fs. b \<noteq> [] \<and> (\<forall>r \<in> set b. key_of r = p) \<Longrightarrow> E' = en_route cap fs E \<Longrightarrow>
     engine_run A pos mk held lg cap E' (fold A (en_calls E E') k') dn"
| er_op: "engine_run A pos mk held lg cap E k dn \<Longrightarrow> E' = run_op cap x E \<Longrightarrow> engine_run A pos mk held lg cap E' (fold A (en_calls E E') k) dn"
| er_done: "engine_run A pos mk held lg cap E k dn \<Longrightarrow> E' = worker_finish True p E \<Longrightarrow>
     engine_run A pos mk held lg cap E' (fold A (en_calls E E') k) (done_batch p E dn)"

lemma polled_fetched:
  assumes "polled pos mk held lg k (concat (map snd fs)) k'" and "distinct (map fst fs)" and "\<forall>(p, b) \<in> set fs. b \<noteq> [] \<and> (\<forall>r \<in> set b. key_of r = p)"
  shows "(p, b) \<in> set fs \<Longrightarrow> fetched (lg p) (pos k p) (pos k' p) p b \<and> \<not> held k' p" and "p \<notin> fst ` set fs \<Longrightarrow> fetched (lg p) (pos k p) (pos k' p) p []"
proof -
  let ?rs = "concat (map snd fs)"
  have P: "held k' = held k" "\<And>p. pos k p \<le> pos k' p" "\<And>r. r \<in> set ?rs \<Longrightarrow> pos k (key_of r) \<le> r_off r \<and> r_off r < pos k' (key_of r) \<and> \<not> held k (key_of r)"
    "\<And>p d. d \<in> lg p \<Longrightarrow> pos k p \<le> d \<Longrightarrow> d < pos k' p \<Longrightarrow> \<exists>r \<in> set ?rs. key_of r = p \<and> r_off r = d"
    "sorted_wrt (\<lambda>a b. key_of a = key_of b \<longrightarrow> r_off a < r_off b) ?rs"
    using assms(1) unfolding polled_def by blast+
  have mem: "r \<in> set ?rs" if "(p, b) \<in> set fs" "r \<in> set b" for r p b using that unfolding set_concat set_map by (metis UN_I image_eqI snd_conv)
  have own: "\<exists>b. (p, b) \<in> set fs \<and> r \<in> set b" if rp: "r \<in> set ?rs" "key_of r = p" for r p
  proof -
    obtain f where f: "f \<in> set fs" "r \<in> set (snd f)" using rp(1) unfolding set_concat set_map by blast
    obtain q b where "f = (q, b)" by (metis surj_pair)
    then have qb: "(q, b) \<in> set fs" "r \<in> set b" using f by simp_all
    have "\<forall>r \<in> set b. key_of r = q" using bspec [OF assms(3) qb(1)] by simp
    then have "q = p" using qb(2) rp(2) by simp
    then show ?thesis using qb by blast
  qed
  show "fetched (lg p) (pos k p) (pos k' p) p b \<and> \<not> held k' p" if pb: "(p, b) \<in> set fs"
  proof -
    have keys: "b \<noteq> []" "\<And>r. r \<in> set b \<Longrightarrow> key_of r = p" using assms(3) pb by blast+
    have sub: "r \<in> set ?rs" if "r \<in> set b" for r using mem [OF pb that] .
    have only: "c = b" if "(p, c) \<in> set fs" for c using that pb assms(2) by (meson eq_key_imp_eq_value)
    obtain us vs where "fs = us @ (p, b) # vs" using pb by (meson split_list)
    then have "sorted_wrt (\<lambda>a b. key_of a = key_of b \<longrightarrow> r_off a < r_off b) b" using P(5) by (simp add: sorted_wrt_append)
    then have srt: "sorted_wrt (\<lambda>a b. r_off a < r_off b) b" using keys(2) by (auto elim!: sorted_wrt_mono_rel [rotated])
    have nh: "\<not> held k' p" using P(1,3) sub keys by (metis list.set_intros(1) neq_Nil_conv)
    have "d \<in> r_off ` set b" if "d \<in> lg p" "pos k p \<le> d" "d < pos k' p" for d
      using P(4) [OF that] own only by blast
    then show ?thesis using srt nh P(2,3) sub keys(2) unfolding fetched_def by blast
  qed
  show "fetched (lg p) (pos k p) (pos k' p) p []" if np: "p \<notin> fst ` set fs"
  proof -
    have "False" if d: "d \<in> lg p" "pos k p \<le> d" "d < pos k' p" for d
    proof -
      obtain r where "r \<in> set ?rs" "key_of r = p" using P(4) [OF d] by blast
      then obtain b where "(p, b) \<in> set fs" using own by blast
      then show ?thesis using np by (metis fst_conv image_eqI)
    qed
    then show ?thesis using P(2) by (auto simp: fetched_def)
  qed
qed

lemma run_op_keeps:
  assumes "kgo_laws A pos mk held" and "\<And>q. pinv pos mk held lg cap E k dn q"
  shows "pinv pos mk held lg cap (run_op cap x E) (fold A (en_calls E (run_op cap x E)) k) dn q"
proof (cases x)
  case Commit
  then show ?thesis using commit_keeps [OF assms(1) assms(2) [of q]] by simp
qed (use take_keeps [OF assms(2)] fail_keeps [OF assms(2)] return_keeps [OF assms(2)] stop_keeps [OF assms(2)]
    accept_keeps [OF assms] deliver_quit_keeps [OF assms(2)] in simp_all)

lemma engine_run_inv:
  assumes "engine_run A pos mk held lg cap E k dn" and "kgo_laws A pos mk held" and "0 < cap"
  shows "pinv pos mk held lg cap E k dn q"
  using assms(1)
proof (induction arbitrary: q rule: engine_run.induct)
  case (er_start k)
  have "\<And>d. d \<in> lg q \<Longrightarrow> mk k q \<le> d" using er_start by blast
  then show ?case by (force simp: pinv_def pause_inv_def order_inv_def keys_inv_def cover_inv_def empty_engine_def newGroupConsumerClient_def)
next
  case (er_assign E k dn ks k')
  have v: "if p \<in> set ks then pos k' p = mk k' p \<and> mk k' p \<le> mk k p \<and> \<not> held k' p else pos k' p = pos k p \<and> mk k' p = mk k p \<and> held k' p = held k p" for p
    using er_assign(3) by (rule spec)
  have "pinv pos mk held lg cap E k' dn p" for p
  proof (cases "p \<in> set ks")
    case True
    then have "en_workers E p = None" using er_assign(2) by blast
    then show ?thesis using er_assign.IH [of p] v [of p] True by (auto simp: pinv_def pause_inv_def cover_inv_def)
  next
    case False
    then show ?thesis using er_assign.IH [of p] v [of p] by (simp add: pinv_def)
  qed
  then show ?case using v by (intro assigned_keeps) auto
next
  case (er_poll E k dn fs k' E')
  have same: "mk k' = mk k" "held k' = held k" using er_poll(2) by (simp_all add: polled_def)
  note F = polled_fetched [OF er_poll(2,3,4)]
  have old: "pinv (\<lambda>_. pos k) mk held lg cap E k' dn p" for p using er_poll.IH [of p] same by (simp add: pinv_def)
  have "pinv pos mk held lg cap (en_route cap fs E) (fold A (en_calls E (en_route cap fs E)) k') dn q"
  proof (rule route_keeps [OF assms(2,3) er_poll(3), THEN conjunct2])
    fix p b assume "(p, b) \<in> set fs"
    then show "b \<noteq> [] \<and> \<not> held k' p \<and> pinv (\<lambda>_. pos k) mk held lg cap E k' dn p \<and> fetched (lg p) (pos k p) (pos k' p) p b"
      using F(1) er_poll(4) old by blast
  next
    fix p assume "p \<notin> fst ` set fs"
    then have "fetched (lg p) (pos k p) (pos k' p) p []" by (rule F(2))
    then show "pinv pos mk held lg cap E k' dn p" by (rule pinv_no_records [OF old])
  qed
  then show ?case using er_poll(5) by simp
next
  case (er_op E k dn E' x)
  then show ?case using run_op_keeps [OF assms(2)] by simp
next
  case (er_done E k dn E' p)
  then show ?case using finish_keeps [OF assms(2)] by simp
qed

text \<open>C39. The engine keeps the order of a partition and its bounds. In every interleaving the batches of a partition are
  handed to the handler in the order they were fetched, none skipped; the channel never holds more batches than its
  capacity; at most one batch waits beside it, and then the partition is paused.\<close>

theorem partition_batches_in_order:
  assumes "engine_run A pos mk held lg cap E k dn" and "kgo_laws A pos mk held" and "0 < cap"
  shows "prefix (en_handled E p) (en_seen E p) \<and>
     (\<forall>w. en_workers E p = Some w \<longrightarrow> length (pw_queue w) \<le> cap \<and> length (pw_pending w) \<le> 1 \<and>
        (\<not> pw_quit w \<longrightarrow> en_seen E p = en_handled E p @ pw_queue w @ pw_pending w \<and> (pw_pending w \<noteq> [] \<longrightarrow> held k p)))"
proof -
  note I = engine_run_inv [OF assms, of p]
  have "prefix (en_handled E p) (en_seen E p)"
    using I by (auto simp: pinv_def order_inv_def split: option.splits dest: append_prefixD)
  then show ?thesis using I by (auto simp: pinv_def order_inv_def pause_inv_def)
qed

text \<open>C33. As long as no handler call of a partition has failed, nothing is committed past an unhandled record: every record
  of the partition below the offset that would be committed was handled with success, in every interleaving of polls,
  workers, full channels, revocations and new assignments.\<close>

theorem engine_commits_only_handled:
  assumes "engine_run A pos mk held lg cap E k dn" and "kgo_laws A pos mk held" and "0 < cap"
    and "\<not> en_failed E p" and "d \<in> lg p" and "d < mk k p"
  shows "d \<in> dn p"
  using engine_run_inv [OF assms(1-3), of p] assms(4-6) by (auto simp: pinv_def cover_inv_def)

subsection \<open>A run\<close>

text \<open>Two batches of a channel with one place; the first is handled, the second waits.\<close>

definition two_batches :: "nat \<Rightarrow> engine" where
  "two_batches n = (let E1 = en_assigned [in_key] empty_engine; E2 = en_route 1 [(in_key, [in_rec 0])] E1; E3 = worker_take in_key E2;
       E4 = worker_finish True in_key E3; E5 = en_route 1 [(in_key, [in_rec 1])] E4
   in [empty_engine, E1, E2, E3, E4, E5] ! n)"

lemmas engine_ops = worker_finish_def worker_take_def en_route_def route_one_def workerFor_def deliver_def set_worker_def en_assigned_def assign_one_def
  empty_engine_def new_worker_def newGroupConsumerClient_def kcall_emit_def Let_def

definition at_pos :: "int \<Rightarrow> int \<Rightarrow> ref_client" where
  "at_pos d m = ref_start\<lparr>rc_pos := (rc_pos ref_start)(in_key := d), rc_mk := (rc_mk ref_start)(in_key := m)\<rparr>"

lemma two_batches_run:
  "engine_run ref_apply rc_pos rc_mk rc_held in_log 1 (two_batches 5) (at_pos 2 1) (done_batch in_key (two_batches 3) (\<lambda>_. {}))"
proof -
  let ?run = "engine_run ref_apply rc_pos rc_mk rc_held in_log 1"
  have start: "at_pos 0 0 = ref_start" by (simp add: at_pos_def ref_start_def fun_eq_iff)
  have 0: "?run empty_engine (at_pos 0 0) (\<lambda>_. {})" by (rule er_start) (simp add: start ref_start_def in_log_def)
  have 1: "?run (en_assigned [in_key] empty_engine) (at_pos 0 0) (\<lambda>_. {})"
    by (rule er_assign [OF 0]) (simp_all add: empty_engine_def start ref_start_def)
  have poll: "polled rc_pos rc_mk rc_held in_log (at_pos d m) (concat (map snd [(in_key, [in_rec d])])) (at_pos (d + 1) m)" if "d \<in> {0, 1}" for d m
    using that unfolding polled_def by (auto simp: at_pos_def ref_start_def in_log_def)
  have c: "en_calls (two_batches 1) (two_batches 2) = []" "en_calls (two_batches 2) (two_batches 3) = []"
    "en_calls (two_batches 3) (two_batches 4) = [MarkCommitRecords [in_rec 0]]" "en_calls (two_batches 4) (two_batches 5) = []"
    by (simp_all add: two_batches_def engine_ops en_calls_def new_calls_def)
  have t: "two_batches 1 = en_assigned [in_key] empty_engine" "two_batches 2 = en_route 1 [(in_key, [in_rec 0])] (two_batches 1)"
    "two_batches 3 = worker_take in_key (two_batches 2)" "two_batches 4 = worker_finish True in_key (two_batches 3)"
    "two_batches 5 = en_route 1 [(in_key, [in_rec 1])] (two_batches 4)"
    by (simp_all add: two_batches_def Let_def)
  have 2: "?run (two_batches 2) (at_pos 1 0) (\<lambda>_. {})"
    using er_poll [OF 1 [folded t(1)], of "[(in_key, [in_rec 0])]" "at_pos 1 0" "two_batches 2"] poll [of 0 0] c(1) t(2) by simp
  have 3: "?run (two_batches 3) (at_pos 1 0) (\<lambda>_. {})" using er_op [OF 2, of "two_batches 3" "WorkerTake in_key"] c(2) t(3) by simp
  have m: "ref_apply (MarkCommitRecords [in_rec 0]) (at_pos 1 0) = at_pos 1 1" by (simp add: at_pos_def raise_mark_def ref_start_def fun_eq_iff)
  have 4: "?run (two_batches 4) (at_pos 1 1) (done_batch in_key (two_batches 3) (\<lambda>_. {}))"
    using er_done [OF 3 t(4)] c(3) m by simp
  show ?thesis using er_poll [OF 4, of "[(in_key, [in_rec 1])]" "at_pos 2 1" "two_batches 5"] poll [of 1 1] c(4) t(5) by simp
qed

lemma two_batches_state: "en_handled (two_batches 5) in_key = [[in_rec 0]]" "en_seen (two_batches 5) in_key = [[in_rec 0], [in_rec 1]]"
  "map_option (\<lambda>w. length (pw_queue w)) (en_workers (two_batches 5) in_key) = Some 1" "\<not> en_failed (two_batches 5) in_key"
  "busy_batch in_key (two_batches 3) = [in_rec 0]"
  by (simp_all add: two_batches_def engine_ops busy_batch_def)

theorem partition_batches_in_order_witness:
  "prefix (en_handled (two_batches 5) in_key) (en_seen (two_batches 5) in_key) \<and> length (en_handled (two_batches 5) in_key) = 1 \<and>
   length (en_seen (two_batches 5) in_key) = 2"
  using partition_batches_in_order [OF two_batches_run ref_laws, of in_key] two_batches_state by simp

theorem engine_commits_only_handled_witness:
  "(0::int) \<in> done_batch in_key (two_batches 3) (\<lambda>_. {}) in_key \<and> rc_mk (at_pos 2 1) in_key = 1"
proof -
  have m: "rc_mk (at_pos 2 1) in_key = 1" by (simp add: at_pos_def ref_start_def)
  have "(0::int) \<in> done_batch in_key (two_batches 3) (\<lambda>_. {}) in_key"
    by (rule engine_commits_only_handled [OF two_batches_run ref_laws _ two_batches_state(4)]) (use m in \<open>simp_all add: in_log_def\<close>)
  then show ?thesis using m by simp
qed

end
