(* ===== verification/Spec2Isabelle.thy ===== *)
theory Spec2Isabelle
  imports Ledger_Claims Workset_Claims Watermark_Claims Fair_Handover Tenant_Partitions Job_Claims Delivery_Demo Super_Fetch_Claims Cron_Demo Schedule_Claims Partition_Engine_Claims
begin

text \<open>
  Verification of kafka-batch-go, a background-job system on Kafka and Redis (Go, \<^verbatim>\<open>src/pkg\<close>).

  \<^bold>\<open>The program.\<close> A client creates a batch in the Redis \<^emph>\<open>ledger\<close> and produces its jobs to Kafka topics. A daemon
  consumes the jobs: directly, through the \<^emph>\<open>fairness lanes\<close> (a dispatcher moves the ingest records into per-tenant
  lists, a forwarder checks them out in weighted fair order), through the \<^emph>\<open>retry topics\<close>, through the index of
  \<^emph>\<open>delayed jobs\<close>, or as the fires of \<^emph>\<open>recurring schedules\<close>. The records of a poll are run by one of two executors: the
  \<^emph>\<open>watermark executor\<close>, which commits the offsets of contiguous finished prefixes, or the \<^emph>\<open>SuperFetch executor\<close>, which
  acknowledges a record when the job is claimed in the Redis \<^emph>\<open>working set\<close>. The \<^emph>\<open>job processor\<close> runs the handler and
  publishes the outcome: a completion event, a retry or a dead-letter record. The \<^emph>\<open>event processor\<close> applies the events
  to the ledger and produces the callbacks that became due, which the \<^emph>\<open>callback processor\<close> invokes. A \<^emph>\<open>reconciler\<close>
  repairs what a crash left behind.

  \<^bold>\<open>Style.\<close> Every operation of the code is a definition at the top level of its theory, with the branches and the order
  of effects of the source. Redis, MySQL and Kafka are state passed explicitly: a Lua script and a transaction are
  atomic functions on it, a Go method that makes several calls is their composition. Every remote call has a \<open>fate\<close>:
  carried out and answered (\<open>Replied\<close>), carried out with the reply lost (\<open>ReplyLost\<close>), or not carried out (\<open>NotRun\<close>). Errors
  are values. What interleaves is a sequence of such atomic operations (\<open>ledger_run\<close>, \<open>wop\<close>, \<open>wm_step\<close>, \<open>sf_run\<close>,
  \<open>sys_step\<close>), and the invariants are proved over all of them by rule induction. Codecs, clocks, random numbers, the
  time zone database and the registered handlers are parameters; a property names what it needs of them.

  \<^bold>\<open>The theories and the code.\<close>

  \<^item> \<open>Kbatch_Prelude\<close>, \<open>Sorted_Set\<close>, \<open>Wire_Json\<close>, \<open>Decimal_Text\<close>: Redis keys with deadlines, sorted sets in the order Redis
    returns them, JSON values and the record of codecs, decimal numerals.
  \<^item> \<open>Claim_Register\<close>: the locale \<open>claim_register\<close>, the contract of a lease taken by \<open>SET NX\<close> or by a claim script (two
    successful takes of a key are a lease apart, the holder is unique meanwhile). It is interpreted on the lane's slot
    claim (\<open>slotReg\<close>) and recovery claim (\<open>recoveryReg\<close>), on the leader lock of the recurring scheduler (\<open>leaderReg\<close>), and
    through the sublocale \<open>tickReg\<close> on every index of delayed jobs.
  \<^item> \<open>Batch_Ledger\<close> (\<^verbatim>\<open>store/lua.go\<close>, \<^verbatim>\<open>redis.go\<close>, \<^verbatim>\<open>produce.go\<close>, \<^verbatim>\<open>cancel.go\<close>): the hash, the three bitmaps and the sequence
    allocator of a batch, every script. \<open>Ledger_Invariant\<close> and \<open>Ledger_Runs\<close> hold the invariant and the runs; \<open>Ledger_Props\<close>
    and \<open>Ledger_Claims\<close> show that the counters count the finished jobs, that each callback is claimed at most once and only
    when due, that a sealed batch whose jobs have ended is not running, that events commute and repeat harmlessly, and
    that the script refines the abstract effect \<open>spec_event\<close> on sets of jobs.
  \<^item> \<open>Workset\<close> (\<^verbatim>\<open>workset/*.go\<close>): claims, leases, heartbeats, orphans and reclaim. \<open>Workset_Props\<close> and \<open>Workset_Claims\<close>: a live
    holder keeps its job, a reclaim produces the job once, the listing of orphans is exact.
  \<^item> \<open>Watermark\<close> (\<^verbatim>\<open>daemon/watermark.go\<close>), with \<open>Watermark_Props\<close> and \<open>Watermark_Claims\<close>: the trackers and the window over all
    interleavings; only finished prefixes are committed; runs in which a partition stays blocked.
  \<^item> \<open>Fair_Scheduler\<close>, \<open>Fair_Forwarder\<close> (\<^verbatim>\<open>fairness/*.go\<close>, \<^verbatim>\<open>daemon/fair_routing.go\<close>, \<^verbatim>\<open>jobexpiry\<close>), \<open>Tenant_Partitions\<close>: the lane, its
    eleven scripts, the dispatcher and the forwarder. \<open>Fair_Props\<close>, \<open>Fair_Claims\<close>, \<open>Fair_Shares\<close>, \<open>Fair_Handover\<close>: no job is lost
    or doubled inside a lane, the leases stay within the budgets, a checkout equals a reference on the state before it,
    the shares of two backlogged tenants follow their weights, the hand-over to Kafka loses no job under any fate.
  \<^item> \<open>Job_Processor\<close>, \<open>Retry_Processor\<close> (\<^verbatim>\<open>control/job\<close>, \<^verbatim>\<open>control/retry\<close>, \<^verbatim>\<open>retrycancel\<close>, \<^verbatim>\<open>daemon/produce.go\<close>), with \<open>Job_Claims\<close>: every
    processed batch job is accounted for, a failing job ends after its budget, an outcome counts as applied only when all
    it holds is durable.
  \<^item> \<open>Event_Processor\<close>, \<open>Reconciler\<close> (\<^verbatim>\<open>control/event\<close>, \<^verbatim>\<open>control/callback\<close>, \<^verbatim>\<open>daemon/expired.go\<close>, \<^verbatim>\<open>reconciler\<close>, \<^verbatim>\<open>cancellation\<close>), with
    \<open>Delivery_Props\<close> (the locale \<open>atomic_steps\<close>, interpreted as \<open>lst\<close> on the ledger calls, and the composed system \<open>sys_step\<close>),
    \<open>Delivery_Claims\<close> and \<open>Delivery_Demo\<close>: a fired callback is produced, and invoked at most once.
  \<^item> \<open>Super_Fetch\<close> (\<^verbatim>\<open>daemon/superfetch.go\<close>), with \<open>Super_Fetch_Claims\<close>: an acknowledged record is safe in the working set or on
    Kafka, the claim window is accounted exactly, a job leaves the working set only after its outcome was published.
  \<^item> \<open>Civil_Calendar\<close>, \<open>Cron_Expr\<close>, \<open>Cron_Store\<close>, \<open>Cron_Ticker\<close> (\<^verbatim>\<open>cron/*.go\<close>), with \<open>Cron_Claims\<close>, \<open>Cron_Plan\<close>, \<open>Cron_Store_Claims\<close>,
    \<open>Cron_Delivery\<close>, \<open>Cron_Demo\<close>: parsing of expressions into masks, the next matching minute, the planning of missed
    instants, the two tables, the ticker with its leader lock. \<open>Next\<close> returns the least match where the offset is fixed;
    no instant is claimed twice; a claimed instant is pending or has been sent.
  \<^item> \<open>Schedule_Index\<close>, \<open>Schedule_Poller\<close> (\<^verbatim>\<open>schedule/*.go\<close>), with \<open>Schedule_Contract\<close> and \<open>Schedule_Claims\<close>: the locale \<open>delayed_index\<close>
    is the contract of \<open>IndexStore\<close>, interpreted on the Redis index (\<open>redisIdx\<close>) and on the MySQL index (\<open>mysqlIdx\<close>); the
    poller loses no delayed job on either, and claims of the same member are a lease apart.

  \<^item> \<open>Group_Consumer\<close> (\<^verbatim>\<open>daemon/group_consumer.go\<close>, \<^verbatim>\<open>consumers.go\<close>, \<^verbatim>\<open>retry_consumer.go\<close>, \<^verbatim>\<open>*_fetch_pause.go\<close>, \<^verbatim>\<open>consumption\<close>, \<^verbatim>\<open>priority\<close>) and
    \<open>Partition_Engine\<close> (\<^verbatim>\<open>daemon/partition_engine.go\<close>), with their \<open>_Claims\<close>: what the consumers tell the Kafka client. The client is the
    list of its calls; \<open>kgo_laws\<close> and \<open>polled\<close> are its documented behaviour, kept by \<open>ref_client\<close>. A serial consumer passes over
    no unhandled record; the engine keeps the order of a partition and commits only handled records while no handler
    fails. Three lemmas show runs in which records are passed over or a topic is held back by its own backlog.

  \<^bold>\<open>Bounds, fuel, termination.\<close> Loops of the code are structural recursions over what they consume (records, members,
  fates), or \<open>function\<close> with a measure. A loop that waits for the outside (polls until a deadline, retries until the
  context ends) consumes a list of the answers it gets, of any length. The two loops of the cron parser that may run for
  ever are \<open>partial_function (option)\<close>: that they return is part of the theorems, and that \<open>Next\<close> does not at some changes
  of the offset is one too. Words are used where the code can overflow (the masks and the step of a cron field, partition
  numbers); counters, offsets and times are integers. Witnesses are small runs that the simplifier evaluates.

  \<^bold>\<open>Assumptions of the model.\<close> Doubles (scores, weights, virtual times, jitter) are rationals, scores of the delayed-job
  index are integer nanoseconds. Redis and MySQL commands are atomic, MySQL text has a binary collation and \<open>DATETIME\<close>
  columns hold whole seconds. JSON field names are compared exactly. Cron text is ASCII. A handler runs to an outcome or
  to an error. Metrics, log lines and liveness reports have no effect on the modelled state and are left out.

  \<^bold>\<open>Not modelled.\<close> The start of goroutines, their shutdown and the waiting of tickers (\<^verbatim>\<open>daemon/daemon.go\<close>, \<^verbatim>\<open>worker\<close>, \<^verbatim>\<open>cmd\<close>):
  wiring without state of its own. The producer side (\<^verbatim>\<open>client\<close>) and the uniqueness locks (\<^verbatim>\<open>uniq\<close>): the plans and rollbacks of a
  push, over ledger, tenant and index calls that are modelled. The watchdog of the poll loops. The Kafka client (\<^verbatim>\<open>kafkaclient\<close>, franz-go) and the creation of topics: third-party
  calls, which appear as fates. Metrics, alerts, health and performance probes (\<^verbatim>\<open>metrics\<close>, \<^verbatim>\<open>instrument\<close>, \<^verbatim>\<open>perfmetrics\<close>,
  \<^verbatim>\<open>alerts\<close>, \<^verbatim>\<open>health\<close>, \<^verbatim>\<open>liveness\<close>): they observe the system. The reading of configuration files (\<^verbatim>\<open>config\<close>), except the settings the
  modelled parts compute. The integration tests.
\<close>

end
